(* ===== verification/Workforce_Prelude.thy ===== *)
theory Workforce_Prelude
  imports Main "HOL-Library.AList" "HOL-Library.Multiset"
begin

text \<open>
  The vocabulary shared by the component theories: Go's 64-bit integers, instants and
  durations, maps and their iteration order, \<open>sort.Slice\<close>, and the lemmas on lists and
  association lists the component proofs use.
\<close>

named_theorems state_simps \<open>unfolding rules for the model's operations on their state\<close>
named_theorems inv_defs \<open>definitions of the components' invariants\<close>

section \<open>Machine integers\<close>

text \<open>
  A Go \<^verbatim>\<open>int\<close>, \<^verbatim>\<open>int64\<close> or \<^verbatim>\<open>time.Duration\<close> is kept as an \<open>int\<close>; where the code
  computes with values a client chooses, the result is brought back to 64 bits by \<open>wrap64\<close>,
  the two's-complement wrap-around the language defines.
\<close>

definition min_int64 :: int where
  "min_int64 = - (2 ^ 63)"

definition max_int64 :: int where
  "max_int64 = 2 ^ 63 - 1"

definition wrap64 :: "int \<Rightarrow> int" where
  "wrap64 x = (x + 2 ^ 63) mod 2 ^ 64 - 2 ^ 63"

definition in_int64 :: "int \<Rightarrow> bool" where
  "in_int64 x \<longleftrightarrow> min_int64 \<le> x \<and> x \<le> max_int64"

lemma wrap64_id [simp]: "in_int64 x \<Longrightarrow> wrap64 x = x"
  by (simp add: in_int64_def wrap64_def min_int64_def max_int64_def)

lemma in_int64_wrap64 [simp]: "in_int64 (wrap64 x)"
proof -
  have "0 \<le> (x + 2 ^ 63) mod 2 ^ 64" and "(x + 2 ^ 63) mod 2 ^ 64 < (2 ^ 64 :: int)"
    by simp_all
  then show ?thesis
    by (simp add: in_int64_def wrap64_def min_int64_def max_int64_def)
qed

lemma in_int64_between: "in_int64 a \<Longrightarrow> in_int64 b \<Longrightarrow> a \<le> x \<Longrightarrow> x \<le> b \<Longrightarrow> in_int64 x"
  by (simp add: in_int64_def)

lemma in_int64_0 [simp]: "in_int64 0"
  by (simp add: in_int64_def min_int64_def max_int64_def)

lemma in_int64_diff_nonneg:
  "in_int64 a \<Longrightarrow> in_int64 b \<Longrightarrow> 0 \<le> a \<Longrightarrow> 0 \<le> b \<Longrightarrow> in_int64 (a - b)"
  by (simp add: in_int64_def min_int64_def max_int64_def)

section \<open>Instants and durations\<close>

text \<open>
  A \<^verbatim>\<open>time.Time\<close> is the number of nanoseconds since Go's zero time, so that \<open>IsZero\<close> is a
  comparison with 0; a \<^verbatim>\<open>time.Duration\<close> is a number of nanoseconds. The clock is an argument
  of every operation that reads it: one operation runs at one reading of \<^verbatim>\<open>time.Now()\<close>.
\<close>

type_synonym time = int
type_synonym duration = int
type_synonym bytes = string

definition IsZero :: "time \<Rightarrow> bool" where
  "IsZero t \<longleftrightarrow> t = 0"

abbreviation Second :: duration where
  "Second \<equiv> 1000000000"

abbreviation Minute :: duration where
  "Minute \<equiv> 60000000000"

abbreviation Hour :: duration where
  "Hour \<equiv> 3600000000000"

section \<open>Go maps\<close>

text \<open>
  A Go map is an association list with distinct keys. Its order is the order in which a
  \<^verbatim>\<open>range\<close> loop visits the entries: the language leaves it open, so a statement about every
  such list is a statement about every iteration order.
\<close>

type_synonym ('k, 'v) gomap = "('k \<times> 'v) list"

definition keys_distinct :: "('k, 'v) gomap \<Rightarrow> bool" where
  "keys_distinct m \<longleftrightarrow> distinct (map fst m)"

lemma keys_distinct_Nil [simp]: "keys_distinct []"
  by (simp add: keys_distinct_def)

lemma keys_distinct_update [simp]: "keys_distinct m \<Longrightarrow> keys_distinct (AList.update k v m)"
  by (simp add: keys_distinct_def distinct_update)

lemma keys_distinct_delete [simp]: "keys_distinct m \<Longrightarrow> keys_distinct (AList.delete k m)"
  by (simp add: keys_distinct_def distinct_delete)

lemma map_of_update [simp]: "map_of (AList.update k v m) = (map_of m)(k \<mapsto> v)"
  by (simp add: update_conv')

lemma map_of_delete [simp]: "map_of (AList.delete k m) = (map_of m)(k := None)"
  by (simp add: delete_conv')

lemma map_of_in_set: "keys_distinct m \<Longrightarrow> map_of m k = Some v \<longleftrightarrow> (k, v) \<in> set m"
  by (simp add: keys_distinct_def)

lemma map_of_eqI_perm:
  "keys_distinct m \<Longrightarrow> keys_distinct m' \<Longrightarrow> mset m = mset m' \<Longrightarrow> map_of m = map_of m'"
  by (metis keys_distinct_def map_of_inject_set mset_eq_setD)

lemma snd_update_subset: "snd ` set (AList.update k v m) \<subseteq> insert v (snd ` set m)"
  by (induction m) auto

lemma mset_update_new: "k \<notin> fst ` set m \<Longrightarrow> mset (AList.update k v m) = add_mset (k, v) (mset m)"
  by (induction m) auto

lemma mset_delete_key: "keys_distinct m \<Longrightarrow> (k, v) \<in> set m \<Longrightarrow> mset (AList.delete k m) = mset m - {#(k, v)#}"
proof (induction m)
  case (Cons a m)
  show ?case
  proof (cases "fst a = k")
    case True
    then have "k \<notin> fst ` set m" using Cons.prems(1) by (auto simp: keys_distinct_def)
    moreover from this have "a = (k, v)" using Cons.prems(2) by force
    ultimately show ?thesis by simp
  next
    case False
    then have "(k, v) \<in> set m" "a \<noteq> (k, v)" using Cons.prems(2) by auto
    then show ?thesis using Cons False by (simp add: keys_distinct_def)
  qed
qed simp

lemma sum_update_new:
  "map_of m k = None \<Longrightarrow> sum_list (map (f \<circ> snd) (AList.update k v m)) = sum_list (map (f \<circ> snd) m) + (f v :: int)"
  by (induction m) (auto split: if_splits)

lemma set_update_new: "map_of m k = None \<Longrightarrow> set (AList.update k v m) = insert (k, v) (set m)"
  by (induction m) (auto split: if_splits)

lemma sum_delete:
  "keys_distinct m \<Longrightarrow> map_of m k = Some v \<Longrightarrow> sum_list (map (f \<circ> snd) (AList.delete k m)) = sum_list (map (f \<circ> snd) m) - (f v :: int)"
proof (induction m)
  case (Cons a m)
  show ?case
  proof (cases "fst a = k")
    case True
    then have "k \<notin> fst ` set m" using Cons.prems(1) by (auto simp: keys_distinct_def)
    then have "AList.delete k m = m" by (simp add: delete_id)
    then show ?thesis using True Cons.prems(2) by (cases a) simp
  next
    case False
    then show ?thesis using Cons by (cases a) (simp add: keys_distinct_def)
  qed
qed simp

lemma member_le_sum_nonneg:
  fixes x :: int
  shows "x \<in> set xs \<Longrightarrow> \<forall>y \<in> set xs. 0 \<le> y \<Longrightarrow> x \<le> sum_list xs"
proof (induction xs)
  case (Cons y ys)
  moreover have "0 \<le> sum_list ys" using Cons.prems(2) by (simp add: sum_list_nonneg)
  ultimately show ?case by auto
qed simp

section \<open>sort.Slice\<close>

text \<open>
  \<^verbatim>\<open>sort.Slice\<close> sorts by a comparator \<open>lt\<close>; it is an insertion sort here. The library
  promises a result only for a comparator that is a strict weak order, and it may reorder
  elements the comparator does not separate. Both cases that reach it in this program sort
  the entries of a map, whose own order is open, so the stable sort of every order of the
  input gives every result the library may return.
\<close>

fun insort_by :: "('a \<Rightarrow> 'a \<Rightarrow> bool) \<Rightarrow> 'a \<Rightarrow> 'a list \<Rightarrow> 'a list" where
  "insort_by lt x [] = [x]"
| "insort_by lt x (y # ys) = (if lt y x then y # insort_by lt x ys else x # y # ys)"

definition sort_slice :: "('a \<Rightarrow> 'a \<Rightarrow> bool) \<Rightarrow> 'a list \<Rightarrow> 'a list" where
  "sort_slice lt xs = foldr (insort_by lt) xs []"

lemma sort_slice_Nil [simp]: "sort_slice lt [] = []"
  by (simp add: sort_slice_def)

lemma sort_slice_Cons: "sort_slice lt (x # xs) = insort_by lt x (sort_slice lt xs)"
  by (simp add: sort_slice_def)

lemma mset_insort_by [simp]: "mset (insort_by lt x xs) = add_mset x (mset xs)"
  by (induction xs) auto

lemma mset_sort_slice [simp]: "mset (sort_slice lt xs) = mset xs"
  by (induction xs) (auto simp: sort_slice_Cons)

lemma set_sort_slice [simp]: "set (sort_slice lt xs) = set xs"
  using mset_sort_slice [of lt xs] by (rule mset_eq_setD)

lemma length_sort_slice [simp]: "length (sort_slice lt xs) = length xs"
  using mset_sort_slice [of lt xs] by (rule mset_eq_length)

lemma distinct_sort_slice [simp]: "distinct (sort_slice lt xs) = distinct xs"
  using mset_sort_slice [of lt xs] by (rule mset_eq_imp_distinct_iff)

text \<open>
  The contract of a comparator: it is asymmetric, and an element between two others is
  separated from one of them. \<open>sort.Slice\<close> and \<open>container/heap\<close> both rely on it.
\<close>

locale comparator =
  fixes lt :: "'a \<Rightarrow> 'a \<Rightarrow> bool"
  assumes asym: "lt a b \<Longrightarrow> \<not> lt b a"
    and split: "lt a c \<Longrightarrow> lt a b \<or> lt b c"
begin

lemma irrefl: "\<not> lt a a"
  using asym by blast

lemma trans_lt: "lt a b \<Longrightarrow> lt b c \<Longrightarrow> lt a c"
  using asym split by blast

lemma not_trans: "\<not> lt b a \<Longrightarrow> \<not> lt c b \<Longrightarrow> \<not> lt c a"
  using split by blast

lemma lt_not_trans: "lt a b \<Longrightarrow> \<not> lt c b \<Longrightarrow> lt a c"
  using split by blast

lemma sorted_insort_by:
  "sorted_wrt (\<lambda>a b. \<not> lt b a) xs \<Longrightarrow> sorted_wrt (\<lambda>a b. \<not> lt b a) (insort_by lt x xs)"
proof (induction xs)
  case Nil
  then show ?case by simp
next
  case (Cons y ys)
  have "set (insort_by lt x ys) = insert x (set ys)"
    using mset_insort_by [of lt x ys] by (metis set_mset_mset set_mset_add_mset_insert)
  with Cons show ?case
    by (auto dest: asym split [where b = y])
qed

lemma sorted_sort_slice: "sorted_wrt (\<lambda>a b. \<not> lt b a) (sort_slice lt xs)"
  by (induction xs) (auto simp: sort_slice_Cons intro: sorted_insort_by)

end

text \<open>The comparators the stores use compare a key; they meet the contract.\<close>

interpretation by_key_asc: comparator "\<lambda>a b. (f a :: 'k :: linorder) < f b" for f
  by unfold_locales auto

interpretation by_key_desc: comparator "\<lambda>a b. (f b :: 'k :: linorder) < f a" for f
  by unfold_locales auto

text \<open>With distinct keys the order of the input, the iteration order of a map, does not matter.\<close>

lemma sort_slice_sorted_key:
  "sorted (map f (sort_slice (\<lambda>a b. f a < f b) xs))" for f :: "'a \<Rightarrow> 'k :: linorder"
  using by_key_asc.sorted_sort_slice [of f xs] by (simp add: sorted_map not_less)

lemma sort_slice_unique:
  fixes f :: "'a \<Rightarrow> 'k :: linorder"
  assumes "mset xs = mset ys" and "inj_on f (set xs)"
  shows "sort_slice (\<lambda>a b. f a < f b) xs = sort_slice (\<lambda>a b. f a < f b) ys"
proof (rule map_inj_on)
  let ?s = "sort_slice (\<lambda>a b. f a < f b)"
  have "mset (map f (?s xs)) = mset (map f (?s ys))" using assms(1) by simp
  then show "map f (?s xs) = map f (?s ys)"
    using sort_slice_sorted_key [of f] by (metis properties_for_sort)
  show "inj_on f (set (?s xs) \<union> set (?s ys))"
    using assms by (simp add: mset_eq_setD [OF assms(1), symmetric])
qed

section \<open>Text\<close>

definition newline :: string where "newline = [CHR 0x0A]"

text \<open>The verb \<^verbatim>\<open>%q\<close> on text without quotes, backslashes and control characters.\<close>

definition go_quote :: "string \<Rightarrow> string" where "go_quote s = CHR 0x22 # s @ [CHR 0x22]"

text \<open>Decimal digits, as \<^verbatim>\<open>%d\<close> and \<^verbatim>\<open>strconv.Itoa\<close> print them.\<close>

fun nat_digits :: "nat \<Rightarrow> string" where
  "nat_digits n =
     (if n < 10 then [char_of (48 + n)] else nat_digits (n div 10) @ [char_of (48 + n mod 10)])"

declare nat_digits.simps [simp del]

definition Itoa :: "int \<Rightarrow> string" where
  "Itoa i = (if i < 0 then ''-'' @ nat_digits (nat (- i)) else nat_digits (nat i))"

section \<open>Lists\<close>

lemma nth_upd: "j < length xs \<Longrightarrow> xs[i := x] ! j = (if j = i then x else xs ! j)"
  by auto

definition swap_list :: "'a list \<Rightarrow> nat \<Rightarrow> nat \<Rightarrow> 'a list" where
  "swap_list xs i j = xs[i := xs ! j, j := xs ! i]"

lemma length_swap_list [simp]: "length (swap_list xs i j) = length xs"
  by (simp add: swap_list_def)

lemma nth_swap_list:
  "i < length xs \<Longrightarrow> j < length xs \<Longrightarrow> k < length xs \<Longrightarrow>
     swap_list xs i j ! k = (if k = i then xs ! j else if k = j then xs ! i else xs ! k)"
  by (simp add: swap_list_def nth_list_update)

lemma mset_swap_list [simp]:
  "i < length xs \<Longrightarrow> j < length xs \<Longrightarrow> mset (swap_list xs i j) = mset xs"
  by (simp add: swap_list_def mset_swap)

lemma set_swap_list [simp]:
  "i < length xs \<Longrightarrow> j < length xs \<Longrightarrow> set (swap_list xs i j) = set xs"
  using mset_swap_list by (metis mset_eq_setD)

lemma distinct_swap_list [simp]:
  "i < length xs \<Longrightarrow> j < length xs \<Longrightarrow> distinct (swap_list xs i j) = distinct xs"
  using mset_swap_list by (metis mset_eq_imp_distinct_iff)

lemma map_swap_list:
  "i < length xs \<Longrightarrow> j < length xs \<Longrightarrow> map f (swap_list xs i j) = swap_list (map f xs) i j"
  by (simp add: swap_list_def map_update)

section \<open>Lines\<close>

definition nl :: char where "nl = CHR 0x0A"

text \<open>The complete lines of a text, and what follows the last line end.\<close>

function lines_of :: "bytes \<Rightarrow> bytes list" where
  "lines_of buf = (if nl \<notin> set buf then [] else takeWhile (\<lambda>c. c \<noteq> nl) buf # lines_of (tl (dropWhile (\<lambda>c. c \<noteq> nl) buf)))"
  by pat_completeness auto

termination
proof (relation "measure length")
  fix buf :: bytes
  assume "\<not> nl \<notin> set buf"
  then have "0 < length buf" by auto
  then show "(tl (dropWhile (\<lambda>c. c \<noteq> nl) buf), buf) \<in> measure length"
    unfolding in_measure length_tl using length_dropWhile_le [of "\<lambda>c. c \<noteq> nl" buf] by linarith
qed simp

declare lines_of.simps [simp del]

definition tail_of :: "bytes \<Rightarrow> bytes" where
  "tail_of buf = rev (takeWhile (\<lambda>c. c \<noteq> nl) (rev buf))"

lemma split_nl:
  assumes "nl \<in> set buf"
  shows "buf = takeWhile (\<lambda>c. c \<noteq> nl) buf @ nl # tl (dropWhile (\<lambda>c. c \<noteq> nl) buf)"
proof -
  let ?d = "dropWhile (\<lambda>c. c \<noteq> nl) buf"
  have ne: "?d \<noteq> []" using assms by (auto simp: dropWhile_eq_Nil_conv)
  then have "hd ?d = nl" using hd_dropWhile [OF ne] by simp
  then have "nl # tl ?d = ?d" using list.collapse [OF ne] by simp
  then show ?thesis by simp
qed

lemma tail_of_plain: "nl \<notin> set buf \<Longrightarrow> tail_of buf = buf"
proof -
  assume "nl \<notin> set buf"
  then have eq: "takeWhile (\<lambda>c. c \<noteq> nl) (rev buf) = rev buf" by (auto simp: takeWhile_eq_all_conv)
  show ?thesis unfolding tail_of_def eq by simp
qed

lemma tail_of_split: "tail_of (xs @ nl # ys) = tail_of ys"
  by (simp add: tail_of_def takeWhile_tail)

lemma lines_of_append: "lines_of (a @ b) = lines_of a @ lines_of (tail_of a @ b)"
proof (induction a rule: lines_of.induct)
  case (1 a)
  show ?case
  proof (cases "nl \<in> set a")
    case False
    then show ?thesis by (simp add: tail_of_plain lines_of.simps [of a])
  next
    case True
    let ?x = "takeWhile (\<lambda>c. c \<noteq> nl) a" and ?r = "tl (dropWhile (\<lambda>c. c \<noteq> nl) a)"
    have a: "a = ?x @ nl # ?r" using split_nl [OF True] .
    have ab: "takeWhile (\<lambda>c. c \<noteq> nl) (a @ b) = ?x" "dropWhile (\<lambda>c. c \<noteq> nl) (a @ b) = dropWhile (\<lambda>c. c \<noteq> nl) a @ b"
      using True by (auto simp: takeWhile_append1 dropWhile_append1)
    have ne: "dropWhile (\<lambda>c. c \<noteq> nl) a \<noteq> []" using True by (auto simp: dropWhile_eq_Nil_conv)
    have "lines_of (a @ b) = ?x # lines_of (?r @ b)"
      using True ab ne by (subst lines_of.simps) simp
    also have "lines_of (?r @ b) = lines_of ?r @ lines_of (tail_of ?r @ b)" using 1 True by simp
    also have "tail_of ?r = tail_of a" using tail_of_split [of ?x ?r] a by metis
    finally show ?thesis using True by (subst (2) lines_of.simps) simp
  qed
qed

lemma tail_of_append: "tail_of (a @ b) = tail_of (tail_of a @ b)"
proof (cases "nl \<in> set a")
  case False
  then show ?thesis by (simp add: tail_of_plain)
next
  case True
  then obtain x y where a: "a = x @ nl # y" "nl \<notin> set y" using split_list_last by metis
  then show ?thesis using tail_of_split [of x y] tail_of_split [of x "y @ b"] by (simp add: tail_of_plain)
qed

lemma tail_of_no_nl: "nl \<notin> set (tail_of buf)"
  by (auto simp: tail_of_def dest: set_takeWhileD)

end
