(* ===== verification/Window_Ring.thy ===== *)
theory Window_Ring
  imports Workforce_Prelude
begin

text \<open>
  The fixed-size sliding window of \<^verbatim>\<open>worker/window/window.go\<close> and its locked wrapper
  \<^verbatim>\<open>mu_window.go\<close>: a ring buffer with a write position. The refinement shown here is that
  \<open>Each\<close> visits the newest \<open>cap\<close> pushed elements, oldest first.
\<close>

section \<open>The ring buffer\<close>

record 'a Window =
  win_data :: "'a list"
  win_cap :: nat
  win_head :: nat
  win_count :: nat

text \<open>
  \<open>New\<close> panics on a capacity below one (\<open>None\<close>); \<open>zero\<close> is the zero value of the element
  type that \<^verbatim>\<open>make([]T, capacity)\<close> fills the slice with.
\<close>

definition Window_New :: "'a \<Rightarrow> int \<Rightarrow> 'a Window option" where
  "Window_New zero capacity =
     (if capacity \<le> 0 then None
      else Some \<lparr>win_data = replicate (nat capacity) zero, win_cap = nat capacity,
                 win_head = 0, win_count = 0\<rparr>)"

definition Window_Push :: "'a Window \<Rightarrow> 'a \<Rightarrow> 'a Window" where
  "Window_Push w v =
     w\<lparr>win_data := (win_data w)[win_head w := v],
       win_head := (win_head w + 1) mod win_cap w,
       win_count := (if win_count w < win_cap w then win_count w + 1 else win_count w)\<rparr>"

text \<open>\<open>Each\<close> calls its callback once per element; the model returns the visited elements.\<close>

definition Window_Each :: "'a Window \<Rightarrow> 'a list" where
  "Window_Each w =
     (let start = (if win_count w = win_cap w then win_head w else 0)
      in map (\<lambda>i. win_data w ! ((start + i) mod win_cap w)) [0..<win_count w])"

definition Window_Average :: "'a \<Rightarrow> ('a \<Rightarrow> 'a \<Rightarrow> 'a) \<Rightarrow> ('a \<Rightarrow> nat \<Rightarrow> 'a) \<Rightarrow> 'a Window \<Rightarrow> 'a" where
  "Window_Average zero add dvd_by w =
     (if win_count w = 0 then zero
      else (case Window_Each w of
              [] \<Rightarrow> dvd_by zero (win_count w)
            | x # xs \<Rightarrow> dvd_by (foldl add x xs) (win_count w)))"

definition Window_Count :: "'a Window \<Rightarrow> nat" where
  "Window_Count w = win_count w"

section \<open>Well-formed windows\<close>

definition window_wf :: "'a Window \<Rightarrow> bool" where
  "window_wf w \<longleftrightarrow>
     0 < win_cap w \<and> length (win_data w) = win_cap w \<and> win_head w < win_cap w \<and>
     win_count w \<le> win_cap w \<and> (win_count w < win_cap w \<longrightarrow> win_head w = win_count w)"

lemma window_wf_New: "Window_New zero c = Some w \<Longrightarrow> window_wf w"
  by (auto simp: Window_New_def window_wf_def split: if_splits)

lemma window_wf_Push: "window_wf w \<Longrightarrow> window_wf (Window_Push w v)"
  by (auto simp: window_wf_def Window_Push_def)

lemma length_Window_Each [simp]: "length (Window_Each w) = win_count w"
  by (simp add: Window_Each_def Let_def)

lemma win_cap_Push [simp]: "win_cap (Window_Push w v) = win_cap w"
  by (simp add: Window_Push_def)

text \<open>One push: the element is appended while there is room, and replaces the oldest after.\<close>

lemma Window_Each_not_full:
  assumes "window_wf w" and "win_count w < win_cap w"
  shows "Window_Each w = take (win_count w) (win_data w)"
  using assms by (auto intro!: nth_equalityI simp: Window_Each_def Let_def window_wf_def)

lemma Window_Each_full:
  assumes "window_wf w" and "win_count w = win_cap w"
  shows "Window_Each w = drop (win_head w) (win_data w) @ take (win_head w) (win_data w)"
proof (rule nth_equalityI)
  show "length (Window_Each w) = length (drop (win_head w) (win_data w) @ take (win_head w) (win_data w))"
    using assms by (simp add: window_wf_def)
next
  fix i assume i: "i < length (Window_Each w)"
  let ?h = "win_head w" and ?c = "win_cap w"
  have wf: "?h < ?c" "length (win_data w) = ?c" and ic: "i < ?c"
    using assms i by (simp_all add: window_wf_def)
  have "(?h + i) mod ?c = (if ?h + i < ?c then ?h + i else ?h + i - ?c)"
    using wf ic by (simp add: mod_if)
  then show "Window_Each w ! i = (drop ?h (win_data w) @ take ?h (win_data w)) ! i"
    using assms i wf ic by (auto simp: Window_Each_def Let_def nth_append algebra_simps)
qed

lemma Window_Each_Push:
  assumes "window_wf w"
  shows "Window_Each (Window_Push w v) =
           (if win_count w < win_cap w then Window_Each w @ [v] else tl (Window_Each w) @ [v])"
proof (cases "win_count w < win_cap w")
  case True
  note room = this
  let ?w' = "Window_Push w v"
  have wf': "window_wf ?w'" using assms by (rule window_wf_Push)
  have hd: "win_head w = win_count w" and len: "length (win_data w) = win_cap w"
    using assms room by (simp_all add: window_wf_def)
  have new: "take (Suc (win_count w)) (win_data ?w') = take (win_count w) (win_data w) @ [v]"
    using room hd len by (simp add: Window_Push_def take_Suc_conv_app_nth)
  show ?thesis
  proof (cases "Suc (win_count w) < win_cap w")
    case True
    with room have "win_count ?w' < win_cap ?w'" and "win_count ?w' = Suc (win_count w)"
      by (simp_all add: Window_Push_def)
    then show ?thesis
      using Window_Each_not_full [OF wf'] Window_Each_not_full [OF assms room] new room by simp
  next
    case False
    with room have eq: "Suc (win_count w) = win_cap w" by simp
    then have "win_count ?w' = win_cap ?w'" and "win_head ?w' = 0"
      using room hd by (simp_all add: Window_Push_def)
    then have "Window_Each ?w' = win_data ?w'"
      using Window_Each_full [OF wf'] by simp
    also have "\<dots> = take (Suc (win_count w)) (win_data ?w')"
      using len eq by (simp add: Window_Push_def)
    finally show ?thesis
      using Window_Each_not_full [OF assms room] new room by simp
  qed
next
  case False
  let ?h = "win_head w" and ?d = "win_data w" and ?w' = "Window_Push w v"
  have full: "win_count w = win_cap w" and h: "?h < length ?d" and len: "length ?d = win_cap w"
    using assms False by (auto simp: window_wf_def)
  have "Window_Each w = ?d ! ?h # drop (Suc ?h) ?d @ take ?h ?d"
    using Window_Each_full [OF assms full] h by (simp add: Cons_nth_drop_Suc [symmetric])
  moreover have "Window_Each ?w' = drop (Suc ?h) ?d @ take ?h ?d @ [v]"
  proof -
    have full': "win_count ?w' = win_cap ?w'" using full by (simp add: Window_Push_def)
    have dat: "win_data ?w' = ?d[?h := v]" by (simp add: Window_Push_def)
    have "win_head ?w' = (if Suc ?h = win_cap w then 0 else Suc ?h)"
      using h len by (simp add: Window_Push_def mod_Suc)
    then show ?thesis
      using Window_Each_full [OF window_wf_Push [OF assms] full'] h len
      by (auto simp: dat take_Suc_conv_app_nth drop_update_cancel upd_conv_take_nth_drop)
  qed
  ultimately show ?thesis using False by simp
qed

section \<open>The window is the newest part of the history\<close>

definition Window_push_all :: "'a Window \<Rightarrow> 'a list \<Rightarrow> 'a Window" where
  "Window_push_all w vs = foldl Window_Push w vs"

lemma push_all_invariant:
  assumes "Window_New zero c = Some w"
  shows "window_wf (Window_push_all w vs) \<and> win_cap (Window_push_all w vs) = nat c \<and>
         win_count (Window_push_all w vs) = min (length vs) (nat c) \<and>
         Window_Each (Window_push_all w vs) = drop (length vs - nat c) vs"
proof (induction vs rule: rev_induct)
  case Nil
  have "win_count w = 0" and "win_cap w = nat c"
    using assms by (auto simp: Window_New_def split: if_splits)
  then show ?case
    using window_wf_New [OF assms] by (simp add: Window_push_all_def Window_Each_def)
next
  case (snoc v vs)
  let ?w = "Window_push_all w vs"
  have step: "Window_push_all w (vs @ [v]) = Window_Push ?w v"
    by (simp add: Window_push_all_def)
  have pos: "0 < nat c" using assms by (auto simp: Window_New_def split: if_splits)
  have "Window_Each (Window_Push ?w v) = drop (length (vs @ [v]) - nat c) (vs @ [v])"
  proof (cases "length vs < nat c")
    case True
    then show ?thesis using snoc by (simp add: Window_Each_Push)
  next
    case False
    then have "tl (drop (length vs - nat c) vs) = drop (Suc (length vs) - nat c) vs"
      by (simp add: tl_drop drop_Suc [symmetric] Suc_diff_le)
    then show ?thesis using snoc False pos by (simp add: Window_Each_Push)
  qed
  then show ?case
    using snoc window_wf_Push [of ?w v] pos by (auto simp: step Window_Push_def)
qed

text \<open>
  C32: after any sequence of pushes, \<open>Each\<close> visits exactly the most recent \<open>capacity\<close> values, in the
  order in which they were pushed.
\<close>

theorem Window_Each_history:
  assumes "Window_New zero c = Some w"
  shows "Window_Each (foldl Window_Push w vs) = drop (length vs - nat c) vs"
  using push_all_invariant [OF assms, of vs] by (simp add: Window_push_all_def)

theorem Window_Each_history_witness:
  "Window_New 0 2 = Some \<lparr>win_data = [0, 0::int], win_cap = 2, win_head = 0, win_count = 0\<rparr> \<and>
   Window_Each (foldl Window_Push \<lparr>win_data = [0, 0::int], win_cap = 2, win_head = 0, win_count = 0\<rparr> [7, 8, 9]) = [8, 9]"
  using Window_Each_history [of 0 2 "\<lparr>win_data = [0, 0::int], win_cap = 2, win_head = 0, win_count = 0\<rparr>" "[7, 8, 9]"]
  by (simp add: Window_New_def numeral_2_eq_2)

end
