(* ===== verification/Priority_Heap.thy ===== *)
theory Priority_Heap
  imports Workforce_Prelude
begin

text \<open>
  The generic priority queue of \<^verbatim>\<open>manager/priority_heap.go\<close> on top of the standard library's
  \<^verbatim>\<open>container/heap\<close>. The queue holds pointers to \<open>Item\<close> objects, each of which records its
  own position, and \<open>Update\<close> compares pointers; so the objects live in an explicit store and
  the slice holds their addresses.
\<close>

section \<open>The queue and its heap.Interface\<close>

record 'v Item =
  Value :: 'v
  Index :: int

text \<open>
  \<open>objs\<close> is the store of allocated items (an address is a position in it, a new item goes to
  the end), \<open>items\<close> the slice of pointers.
\<close>

record 'v PriorityQueue =
  objs :: "'v Item list"
  items :: "nat list"
  isHigherPriority :: "'v \<Rightarrow> 'v \<Rightarrow> bool"

definition NewPriorityQueue :: "('v \<Rightarrow> 'v \<Rightarrow> bool) \<Rightarrow> 'v PriorityQueue" where
  "NewPriorityQueue higher = \<lparr>objs = [], items = [], isHigherPriority = higher\<rparr>"

definition pq_Len :: "'v PriorityQueue \<Rightarrow> nat" where
  "pq_Len pq = length (items pq)"

definition pq_Less :: "'v PriorityQueue \<Rightarrow> nat \<Rightarrow> nat \<Rightarrow> bool" where
  "pq_Less pq i j =
     isHigherPriority pq (Value (objs pq ! (items pq ! i))) (Value (objs pq ! (items pq ! j)))"

definition set_Index :: "nat \<Rightarrow> int \<Rightarrow> 'v PriorityQueue \<Rightarrow> 'v PriorityQueue" where
  "set_Index a k pq = pq\<lparr>objs := (objs pq)[a := (objs pq ! a)\<lparr>Index := k\<rparr>]\<rparr>"

definition pq_Swap :: "'v PriorityQueue \<Rightarrow> nat \<Rightarrow> nat \<Rightarrow> 'v PriorityQueue" where
  "pq_Swap pq i j =
     (let pq1 = pq\<lparr>items := swap_list (items pq) i j\<rparr>;
          pq2 = set_Index (items pq1 ! i) (int i) pq1
      in set_Index (items pq2 ! j) (int j) pq2)"

definition pq_Push :: "'v PriorityQueue \<Rightarrow> nat \<Rightarrow> 'v PriorityQueue" where
  "pq_Push pq a =
     (let pq1 = set_Index a (int (length (items pq))) pq in pq1\<lparr>items := items pq1 @ [a]\<rparr>)"

definition pq_Pop :: "'v PriorityQueue \<Rightarrow> nat \<times> 'v PriorityQueue" where
  "pq_Pop pq =
     (let n = length (items pq); a = items pq ! (n - 1); pq1 = set_Index a (- 1) pq
      in (a, pq1\<lparr>items := take (n - 1) (items pq1)\<rparr>))"

section \<open>container/heap\<close>

function heap_up :: "'v PriorityQueue \<Rightarrow> nat \<Rightarrow> 'v PriorityQueue" where
  "heap_up pq j =
     (let i = (j - 1) div 2
      in if i = j \<or> \<not> pq_Less pq j i then pq else heap_up (pq_Swap pq i j) i)"
  by pat_completeness auto
termination
  by (relation "measure (\<lambda>(pq, j). j)") auto

text \<open>\<open>heap_down\<close> returns the final position too: the library reports whether it moved.\<close>

function heap_down :: "'v PriorityQueue \<Rightarrow> nat \<Rightarrow> nat \<Rightarrow> nat \<times> 'v PriorityQueue" where
  "heap_down pq i n =
     (let j1 = 2 * i + 1
      in if n \<le> j1 then (i, pq)
         else let j = (if j1 + 1 < n \<and> pq_Less pq (j1 + 1) j1 then j1 + 1 else j1)
              in if \<not> pq_Less pq j i then (i, pq) else heap_down (pq_Swap pq i j) j n)"
  by pat_completeness auto
termination
  by (relation "measure (\<lambda>(pq, i, n). n - i)") (auto simp: Let_def split: if_splits)

declare heap_up.simps [simp del] heap_down.simps [simp del]

definition heap_Push :: "'v PriorityQueue \<Rightarrow> nat \<Rightarrow> 'v PriorityQueue" where
  "heap_Push pq a = (let pq1 = pq_Push pq a in heap_up pq1 (pq_Len pq1 - 1))"

definition heap_Pop :: "'v PriorityQueue \<Rightarrow> nat \<times> 'v PriorityQueue" where
  "heap_Pop pq =
     (let n = pq_Len pq - 1; pq1 = pq_Swap pq 0 n; pq2 = snd (heap_down pq1 0 n)
      in pq_Pop pq2)"

definition heap_Fix :: "'v PriorityQueue \<Rightarrow> nat \<Rightarrow> 'v PriorityQueue" where
  "heap_Fix pq i =
     (let (k, pq1) = heap_down pq i (pq_Len pq) in if i < k then pq1 else heap_up pq1 i)"

fun heap_Init_loop :: "'v PriorityQueue \<Rightarrow> nat \<Rightarrow> nat \<Rightarrow> 'v PriorityQueue" where
  "heap_Init_loop pq n 0 = pq"
| "heap_Init_loop pq n (Suc i) = heap_Init_loop (snd (heap_down pq i n)) n i"

definition heap_Init :: "'v PriorityQueue \<Rightarrow> 'v PriorityQueue" where
  "heap_Init pq = (let n = pq_Len pq in heap_Init_loop pq n (n div 2))"

section \<open>The public operations\<close>

definition PushItem :: "'v PriorityQueue \<Rightarrow> 'v \<Rightarrow> nat \<times> 'v PriorityQueue" where
  "PushItem pq v =
     (let a = length (objs pq); pq1 = pq\<lparr>objs := objs pq @ [\<lparr>Value = v, Index = 0\<rparr>]\<rparr>
      in (a, heap_Push pq1 a))"

definition PopItem :: "'v PriorityQueue \<Rightarrow> 'v option \<times> 'v PriorityQueue" where
  "PopItem pq =
     (if items pq = [] then (None, pq)
      else let (a, pq1) = heap_Pop pq in (Some (Value (objs pq1 ! a)), pq1))"

definition pq_Update :: "'v PriorityQueue \<Rightarrow> nat \<Rightarrow> 'v \<Rightarrow> 'v PriorityQueue" where
  "pq_Update pq a v =
     (let k = Index (objs pq ! a)
      in if k < 0 \<or> int (length (items pq)) \<le> k \<or> items pq ! nat k \<noteq> a then pq
         else heap_Fix (pq\<lparr>objs := (objs pq)[a := (objs pq ! a)\<lparr>Value := v\<rparr>]\<rparr>) (nat k))"

definition Reheapify :: "'v PriorityQueue \<Rightarrow> 'v PriorityQueue" where
  "Reheapify pq = heap_Init pq"

definition pq_Size :: "'v PriorityQueue \<Rightarrow> nat" where
  "pq_Size pq = length (items pq)"

definition pq_Snapshot :: "'v PriorityQueue \<Rightarrow> nat list" where
  "pq_Snapshot pq = items pq"

definition pq_Values :: "'v PriorityQueue \<Rightarrow> 'v list" where
  "pq_Values pq = map (\<lambda>a. Value (objs pq ! a)) (pq_Snapshot pq)"

text \<open>\<open>Entries\<close> yields the pointers themselves.\<close>

definition pq_Entries :: "'v PriorityQueue \<Rightarrow> nat list" where
  "pq_Entries pq = pq_Snapshot pq"

section \<open>What a client relies on\<close>

text \<open>
  The contract of a priority queue: an abstraction to a multiset, and a pop that removes an
  element no other element beats.
\<close>

fun pop_times :: "('q \<Rightarrow> 'v option \<times> 'q) \<Rightarrow> nat \<Rightarrow> 'q \<Rightarrow> 'v list \<times> 'q" where
  "pop_times pop 0 q = ([], q)"
| "pop_times pop (Suc n) q =
     (case pop q of
        (None, q') \<Rightarrow> ([], q')
      | (Some v, q') \<Rightarrow> (let (vs, q'') = pop_times pop n q' in (v # vs, q'')))"

locale prio_queue =
  fixes new :: 'q and push :: "'q \<Rightarrow> 'v \<Rightarrow> 'q" and pop :: "'q \<Rightarrow> 'v option \<times> 'q"
    and contents :: "'q \<Rightarrow> 'v multiset" and ok :: "'q \<Rightarrow> bool" and higher :: "'v \<Rightarrow> 'v \<Rightarrow> bool"
  assumes new_ok: "ok new" and new_contents: "contents new = {#}"
    and push_ok: "ok q \<Longrightarrow> ok (push q v)"
    and push_contents: "ok q \<Longrightarrow> contents (push q v) = add_mset v (contents q)"
    and pop_none: "ok q \<Longrightarrow> contents q = {#} \<Longrightarrow> pop q = (None, q)"
    and pop_some: "ok q \<Longrightarrow> contents q \<noteq> {#} \<Longrightarrow>
      \<exists>v q'. pop q = (Some v, q') \<and> ok q' \<and> contents q = add_mset v (contents q') \<and>
        (\<forall>w \<in># contents q. \<not> higher w v)"
begin

lemma push_all: "ok q \<Longrightarrow> ok (foldl push q vs) \<and> contents (foldl push q vs) = contents q + mset vs"
  by (induction vs arbitrary: q) (simp_all add: push_ok push_contents)

lemma pop_times_sorted:
  "ok q \<Longrightarrow> size (contents q) = n \<Longrightarrow>
     mset (fst (pop_times pop n q)) = contents q \<and>
     sorted_wrt (\<lambda>a b. \<not> higher b a) (fst (pop_times pop n q)) \<and>
     contents (snd (pop_times pop n q)) = {#} \<and> ok (snd (pop_times pop n q))"
proof (induction n arbitrary: q)
  case 0
  then show ?case by simp
next
  case (Suc n)
  then have "contents q \<noteq> {#}" by auto
  then obtain v q' where pop: "pop q = (Some v, q')" "ok q'" "contents q = add_mset v (contents q')"
      "\<forall>w \<in># contents q. \<not> higher w v"
    using pop_some Suc.prems(1) by blast
  have ih: "mset (fst (pop_times pop n q')) = contents q'"
      "sorted_wrt (\<lambda>a b. \<not> higher b a) (fst (pop_times pop n q'))"
      "contents (snd (pop_times pop n q')) = {#}" "ok (snd (pop_times pop n q'))"
    using Suc.IH [of q'] pop Suc.prems by simp_all
  have "set (fst (pop_times pop n q')) = set_mset (contents q')"
    using ih(1) by (metis set_mset_mset)
  then show ?case using ih pop by (simp add: case_prod_beta Let_def)
qed

lemma push_all_then_drain:
  "mset (fst (pop_times pop (length vs) (foldl push new vs))) = mset vs \<and>
   sorted_wrt (\<lambda>a b. \<not> higher b a) (fst (pop_times pop (length vs) (foldl push new vs)))"
  using pop_times_sorted [of "foldl push new vs" "length vs"] push_all [OF new_ok, of vs] new_contents
  by simp

end

section \<open>Well-formed queues: positions and pointers agree\<close>

text \<open>
  Every pointer of the slice is allocated and occurs once, an item in the slice knows its
  position, and an item that has left the slice carries the index \<open>-1\<close>.
\<close>

definition pq_wf :: "'v PriorityQueue \<Rightarrow> bool" where
  "pq_wf pq \<longleftrightarrow>
     distinct (items pq) \<and> (\<forall>a \<in> set (items pq). a < length (objs pq)) \<and>
     (\<forall>i < length (items pq). Index (objs pq ! (items pq ! i)) = int i) \<and>
     (\<forall>a < length (objs pq). a \<notin> set (items pq) \<longrightarrow> Index (objs pq ! a) = - 1)"

lemma pq_wfD:
  assumes "pq_wf pq"
  shows "distinct (items pq)" and "i < length (items pq) \<Longrightarrow> items pq ! i < length (objs pq)"
    and "i < length (items pq) \<Longrightarrow> Index (objs pq ! (items pq ! i)) = int i"
    and "a < length (objs pq) \<Longrightarrow> a \<notin> set (items pq) \<Longrightarrow> Index (objs pq ! a) = - 1"
  using assms by (auto simp: pq_wf_def)

lemma set_Index_simps [simp]:
  "items (set_Index a k pq) = items pq"
  "isHigherPriority (set_Index a k pq) = isHigherPriority pq"
  "length (objs (set_Index a k pq)) = length (objs pq)"
  by (simp_all add: set_Index_def)

lemma Value_set_Index [simp]: "Value (objs (set_Index a k pq) ! b) = Value (objs pq ! b)"
  by (cases "a = b"; cases "b < length (objs pq)") (simp_all add: set_Index_def list_update_beyond)

lemma Index_set_Index:
  "b < length (objs pq) \<Longrightarrow> Index (objs (set_Index a k pq) ! b) = (if a = b then k else Index (objs pq ! b))"
  by (auto simp: set_Index_def nth_list_update)

lemma pq_Values_alt: "pq_Values pq = map (\<lambda>a. Value (objs pq ! a)) (items pq)"
  by (simp add: pq_Values_def pq_Snapshot_def)

lemma length_pq_Values [simp]: "length (pq_Values pq) = length (items pq)"
  by (simp add: pq_Values_alt)

lemma pq_Less_Values:
  "i < length (items pq) \<Longrightarrow> j < length (items pq) \<Longrightarrow>
     pq_Less pq i j = isHigherPriority pq (pq_Values pq ! i) (pq_Values pq ! j)"
  by (simp add: pq_Less_def pq_Values_alt)

lemma pq_Swap_simps [simp]:
  "items (pq_Swap pq i j) = swap_list (items pq) i j"
  "isHigherPriority (pq_Swap pq i j) = isHigherPriority pq"
  "length (objs (pq_Swap pq i j)) = length (objs pq)"
  "Value (objs (pq_Swap pq i j) ! b) = Value (objs pq ! b)"
  by (simp_all add: pq_Swap_def Let_def)

lemma pq_Values_Swap [simp]:
  "i < length (items pq) \<Longrightarrow> j < length (items pq) \<Longrightarrow>
     pq_Values (pq_Swap pq i j) = swap_list (pq_Values pq) i j"
  by (simp add: pq_Values_alt map_swap_list)

lemma pq_wf_Swap:
  assumes wf: "pq_wf pq" and i: "i < length (items pq)" and j: "j < length (items pq)"
  shows "pq_wf (pq_Swap pq i j)"
proof -
  let ?its = "swap_list (items pq) i j"
  let ?pq1 = "pq\<lparr>items := ?its\<rparr>"
  have d: "distinct ?its" and s: "set ?its = set (items pq)" and l: "length ?its = length (items pq)"
    using wf i j by (simp_all add: pq_wf_def)
  have alloc: "\<And>k. k < length ?its \<Longrightarrow> ?its ! k < length (objs pq)"
    using wf s by (metis nth_mem pq_wf_def)
  have idx: "Index (objs (pq_Swap pq i j) ! b) =
      (if b = ?its ! j then int j else if b = ?its ! i then int i else Index (objs pq ! b))"
    if "b < length (objs pq)" for b
    using that by (auto simp: pq_Swap_def Let_def Index_set_Index)
  have "Index (objs (pq_Swap pq i j) ! (?its ! k)) = int k" if k: "k < length ?its" for k
  proof -
    have "?its ! k = ?its ! j \<longleftrightarrow> k = j" and "?its ! k = ?its ! i \<longleftrightarrow> k = i"
      using d k i j l by (simp_all add: nth_eq_iff_index_eq)
    moreover have "k \<noteq> i \<Longrightarrow> k \<noteq> j \<Longrightarrow> Index (objs pq ! (?its ! k)) = int k"
      using wf i j k by (simp add: nth_swap_list pq_wf_def)
    ultimately show ?thesis using idx [OF alloc [OF k]] by auto
  qed
  moreover have "Index (objs (pq_Swap pq i j) ! a) = - 1" if "a < length (objs pq)" "a \<notin> set ?its" for a
    using that wf s i j l idx [of a] nth_mem [of i ?its] nth_mem [of j ?its] by (auto simp: pq_wf_def)
  ultimately show ?thesis
    using d alloc s wf by (simp add: pq_wf_def)
qed

lemmas heap_up_unfold = heap_up.simps [unfolded Let_def]
lemmas heap_down_unfold = heap_down.simps [unfolded Let_def]

text \<open>Both sifts only exchange items: what a swap keeps, they keep.\<close>

lemma heap_up_frame:
  "j < length (items pq) \<Longrightarrow>
     isHigherPriority (heap_up pq j) = isHigherPriority pq \<and>
     length (items (heap_up pq j)) = length (items pq) \<and>
     mset (pq_Values (heap_up pq j)) = mset (pq_Values pq) \<and>
     length (objs (heap_up pq j)) = length (objs pq) \<and>
     set (items (heap_up pq j)) = set (items pq) \<and>
     (\<forall>a. Value (objs (heap_up pq j) ! a) = Value (objs pq ! a)) \<and>
     (pq_wf pq \<longrightarrow> pq_wf (heap_up pq j))"
proof (induction pq j rule: heap_up.induct)
  case (1 pq j)
  let ?i = "(j - 1) div 2"
  have ij: "?i < length (items pq)" using "1.prems" by auto
  show ?case
  proof (cases "?i = j \<or> \<not> pq_Less pq j ?i")
    case True
    then show ?thesis by (simp add: heap_up_unfold [of pq j])
  next
    case False
    then show ?thesis
      using "1.IH" [OF refl False] "1.prems" ij pq_wf_Swap [of pq ?i j]
      by (simp add: heap_up_unfold [of pq j])
  qed
qed

lemma heap_down_frame:
  "n \<le> length (items pq) \<Longrightarrow> i < length (items pq) \<Longrightarrow> heap_down pq i n = (k, pq') \<Longrightarrow>
     isHigherPriority pq' = isHigherPriority pq \<and>
     length (items pq') = length (items pq) \<and>
     mset (pq_Values pq') = mset (pq_Values pq) \<and>
     length (objs pq') = length (objs pq) \<and>
     set (items pq') = set (items pq) \<and>
     (\<forall>a. Value (objs pq' ! a) = Value (objs pq ! a)) \<and>
     (\<forall>m. n \<le> m \<longrightarrow> m < length (items pq) \<longrightarrow> i < n \<longrightarrow> items pq' ! m = items pq ! m) \<and>
     i \<le> k \<and> (k = i \<longrightarrow> pq' = pq) \<and>
     (pq_wf pq \<longrightarrow> pq_wf pq')"
proof (induction pq i n rule: heap_down.induct)
  case (1 pq i n)
  let ?j1 = "2 * i + 1"
  let ?j = "if ?j1 + 1 < n \<and> pq_Less pq (?j1 + 1) ?j1 then ?j1 + 1 else ?j1"
  show ?case
  proof (cases "n \<le> ?j1 \<or> \<not> pq_Less pq ?j i")
    case True
    then have "heap_down pq i n = (i, pq)" by (auto simp: heap_down_unfold [of pq i n])
    then show ?thesis using "1.prems" by simp
  next
    case False
    then have jn: "?j < n" and ij: "i < ?j" by auto
    have rec: "heap_down (pq_Swap pq i ?j) ?j n = (k, pq')"
      using False "1.prems"(3) by (simp add: heap_down_unfold [of pq i n])
    have len: "?j < length (items pq)" using jn "1.prems"(1) by simp
    have ih: "isHigherPriority pq' = isHigherPriority (pq_Swap pq i ?j) \<and>
       length (items pq') = length (items (pq_Swap pq i ?j)) \<and>
       mset (pq_Values pq') = mset (pq_Values (pq_Swap pq i ?j)) \<and>
       length (objs pq') = length (objs (pq_Swap pq i ?j)) \<and>
       set (items pq') = set (items (pq_Swap pq i ?j)) \<and>
       (\<forall>a. Value (objs pq' ! a) = Value (objs (pq_Swap pq i ?j) ! a)) \<and>
       (\<forall>m. n \<le> m \<longrightarrow> m < length (items (pq_Swap pq i ?j)) \<longrightarrow> ?j < n \<longrightarrow>
          items pq' ! m = items (pq_Swap pq i ?j) ! m) \<and>
       ?j \<le> k \<and> (k = ?j \<longrightarrow> pq' = pq_Swap pq i ?j) \<and>
       (pq_wf (pq_Swap pq i ?j) \<longrightarrow> pq_wf pq')"
      using "1.IH" [OF refl _ refl _ _ _ rec] False "1.prems" len by simp
    then show ?thesis
      using "1.prems" len ij jn pq_wf_Swap [of pq i ?j] by (auto simp: nth_swap_list)
  qed
qed

section \<open>Heap order\<close>

text \<open>
  \<open>heap_from lt vs n lo\<close>: below position \<open>n\<close> no child beats its parent, for the parents at
  \<open>lo\<close> and above. \<open>up_inv\<close> allows one defect between \<open>j\<close> and its parent, \<open>down_inv\<close> one between
  \<open>i\<close> and its children.
\<close>

definition heap_from :: "('v \<Rightarrow> 'v \<Rightarrow> bool) \<Rightarrow> 'v list \<Rightarrow> nat \<Rightarrow> nat \<Rightarrow> bool" where
  "heap_from lt vs n lo \<longleftrightarrow>
     (\<forall>k < n. 0 < k \<longrightarrow> lo \<le> (k - 1) div 2 \<longrightarrow> \<not> lt (vs ! k) (vs ! ((k - 1) div 2)))"

definition up_inv :: "('v \<Rightarrow> 'v \<Rightarrow> bool) \<Rightarrow> 'v list \<Rightarrow> nat \<Rightarrow> nat \<Rightarrow> bool" where
  "up_inv lt vs n j \<longleftrightarrow>
     (\<forall>k < n. 0 < k \<longrightarrow> k \<noteq> j \<longrightarrow> \<not> lt (vs ! k) (vs ! ((k - 1) div 2))) \<and>
     (\<forall>k < n. 0 < k \<longrightarrow> (k - 1) div 2 = j \<longrightarrow> 0 < j \<longrightarrow> \<not> lt (vs ! k) (vs ! ((j - 1) div 2)))"

definition down_inv :: "('v \<Rightarrow> 'v \<Rightarrow> bool) \<Rightarrow> 'v list \<Rightarrow> nat \<Rightarrow> nat \<Rightarrow> nat \<Rightarrow> bool" where
  "down_inv lt vs n lo i \<longleftrightarrow>
     (\<forall>k < n. 0 < k \<longrightarrow> lo \<le> (k - 1) div 2 \<longrightarrow> (k - 1) div 2 \<noteq> i \<longrightarrow>
        \<not> lt (vs ! k) (vs ! ((k - 1) div 2))) \<and>
     (\<forall>k < n. 0 < k \<longrightarrow> (k - 1) div 2 = i \<longrightarrow> 0 < i \<longrightarrow> lo \<le> (i - 1) div 2 \<longrightarrow>
        \<not> lt (vs ! k) (vs ! ((i - 1) div 2)))"

abbreviation heap_ordered :: "'v PriorityQueue \<Rightarrow> bool" where
  "heap_ordered pq \<equiv> heap_from (isHigherPriority pq) (pq_Values pq) (length (items pq)) 0"

lemma parent_children:
  "0 < (k::nat) \<Longrightarrow> (k - 1) div 2 = i \<longleftrightarrow> k = 2 * i + 1 \<or> k = 2 * i + 2"
  by auto

lemma parent_less: "0 < (k::nat) \<Longrightarrow> (k - 1) div 2 < k"
  by auto

lemma up_stop:
  "up_inv lt vs n j \<Longrightarrow> j = 0 \<or> \<not> lt (vs ! j) (vs ! ((j - 1) div 2)) \<Longrightarrow> heap_from lt vs n 0"
  by (auto simp: up_inv_def heap_from_def)

lemma heap_up_inv_init:
  assumes "heap_from lt vs (length vs) 0"
  shows "up_inv lt (vs @ [v]) (Suc (length vs)) (length vs)"
proof -
  have "\<not> lt ((vs @ [v]) ! k) ((vs @ [v]) ! ((k - 1) div 2))"
    if "k < Suc (length vs)" "0 < k" "k \<noteq> length vs" for k
    using that assms parent_less [of k] by (auto simp: heap_from_def nth_append)
  moreover have "(k - 1) div 2 \<noteq> length vs" if "k < Suc (length vs)" "0 < k" for k
    using that parent_less [of k] by linarith
  ultimately show ?thesis by (simp add: up_inv_def)
qed

context comparator
begin

lemma up_step:
  assumes inv: "up_inv lt vs n j" and n: "n \<le> length vs" and j: "0 < j" "j < n"
    and par: "p = (j - 1) div 2" and bad: "lt (vs ! j) (vs ! p)"
  shows "up_inv lt (swap_list vs p j) n p"
proof -
  let ?vs = "swap_list vs p j"
  have p: "p < j" "p < length vs" "j < length vs" "p < n" using j n par by auto
  have nth: "k < n \<Longrightarrow> ?vs ! k = (if k = p then vs ! j else if k = j then vs ! p else vs ! k)" for k
    using p n by (simp add: nth_swap_list)
  have edge: "k < n \<Longrightarrow> 0 < k \<Longrightarrow> k \<noteq> j \<Longrightarrow> \<not> lt (vs ! k) (vs ! ((k - 1) div 2))"
    and child: "k < n \<Longrightarrow> 0 < k \<Longrightarrow> (k - 1) div 2 = j \<Longrightarrow> \<not> lt (vs ! k) (vs ! p)" for k
    using inv j par by (auto simp: up_inv_def)
  have "\<not> lt (?vs ! k) (?vs ! ((k - 1) div 2))" if k: "k < n" "0 < k" "k \<noteq> p" for k
  proof -
    have q: "(k - 1) div 2 < k" "(k - 1) div 2 < n" using k by auto
    consider "k = j" | "k \<noteq> j" "(k - 1) div 2 = j" | "k \<noteq> j" "(k - 1) div 2 = p"
      | "k \<noteq> j" "(k - 1) div 2 \<noteq> j" "(k - 1) div 2 \<noteq> p" by blast
    then show ?thesis
    proof cases
      case 1
      then have "(k - 1) div 2 = p" using par by simp
      with 1 show ?thesis using asym [OF bad] p j by (simp add: nth)
    next
      case 2
      then show ?thesis using child [OF k(1,2)] k p q by (simp add: nth)
    next
      case 3
      then show ?thesis using edge [OF k(1,2)] trans_lt [OF _ bad] k q p by (auto simp: nth)
    next
      case 4
      then show ?thesis using edge [OF k(1,2)] k q by (simp add: nth)
    qed
  qed
  moreover have "\<not> lt (?vs ! k) (?vs ! ((p - 1) div 2))"
    if k: "k < n" "0 < k" "(k - 1) div 2 = p" "0 < p" for k
  proof -
    let ?g = "(p - 1) div 2"
    have g: "?g < p" "?g < n" using k(4) p j by auto
    have up: "\<not> lt (vs ! p) (vs ! ?g)" using edge [of p] k(4) p j by simp
    have kp: "k \<noteq> p" using k by auto
    show ?thesis
    proof (cases "k = j")
      case True
      then show ?thesis using up g p j by (simp add: nth)
    next
      case False
      then have "\<not> lt (vs ! k) (vs ! p)" using edge [OF k(1,2)] k(3) by simp
      then show ?thesis using not_trans [OF up] False kp k g p by (simp add: nth)
    qed
  qed
  ultimately show ?thesis unfolding up_inv_def by blast
qed

lemma down_step:
  assumes inv: "down_inv lt vs n lo i" and n: "n \<le> length vs" and lo: "lo \<le> i"
    and j: "j < n" "(j - 1) div 2 = i" "0 < j"
    and best: "\<And>k. k < n \<Longrightarrow> 0 < k \<Longrightarrow> (k - 1) div 2 = i \<Longrightarrow> \<not> lt (vs ! k) (vs ! j)"
    and bad: "lt (vs ! j) (vs ! i)"
  shows "down_inv lt (swap_list vs i j) n lo j"
proof -
  let ?vs = "swap_list vs i j"
  have ij: "i < j" "i < n" "i < length vs" "j < length vs" using j n by auto
  have nth: "k < n \<Longrightarrow> ?vs ! k = (if k = i then vs ! j else if k = j then vs ! i else vs ! k)" for k
    using ij n by (simp add: nth_swap_list)
  have edge: "k < n \<Longrightarrow> 0 < k \<Longrightarrow> lo \<le> (k - 1) div 2 \<Longrightarrow> (k - 1) div 2 \<noteq> i \<Longrightarrow>
      \<not> lt (vs ! k) (vs ! ((k - 1) div 2))"
    and child: "k < n \<Longrightarrow> 0 < k \<Longrightarrow> (k - 1) div 2 = i \<Longrightarrow> 0 < i \<Longrightarrow> lo \<le> (i - 1) div 2 \<Longrightarrow>
      \<not> lt (vs ! k) (vs ! ((i - 1) div 2))" for k
    using inv by (auto simp: down_inv_def)
  have "\<not> lt (?vs ! k) (?vs ! ((k - 1) div 2))"
    if k: "k < n" "0 < k" "lo \<le> (k - 1) div 2" "(k - 1) div 2 \<noteq> j" for k
  proof -
    have q: "(k - 1) div 2 < k" "(k - 1) div 2 < n" using k by auto
    consider "k = i" | "k = j" | "k \<noteq> i" "k \<noteq> j" "(k - 1) div 2 = i" | "k \<noteq> i" "k \<noteq> j" "(k - 1) div 2 \<noteq> i"
      by blast
    then show ?thesis
    proof cases
      case 1
      then show ?thesis using child [OF j(1,3,2)] k q ij by (auto simp: nth)
    next
      case 2
      then show ?thesis using asym [OF bad] ij j by (simp add: nth)
    next
      case 3
      then show ?thesis using best [OF k(1,2)] k ij by (simp add: nth)
    next
      case 4
      then show ?thesis using edge [OF k(1,2,3)] k q by (simp add: nth)
    qed
  qed
  moreover have "\<not> lt (?vs ! k) (?vs ! ((j - 1) div 2))"
    if k: "k < n" "0 < k" "(k - 1) div 2 = j" for k
    using edge [of k] k j lo ij by (auto simp: nth)
  ultimately show ?thesis unfolding down_inv_def by blast
qed

lemma down_stop:
  assumes "down_inv lt vs n lo i"
    and "\<And>k. k < n \<Longrightarrow> 0 < k \<Longrightarrow> (k - 1) div 2 = i \<Longrightarrow> \<not> lt (vs ! k) (vs ! i)"
  shows "heap_from lt vs n lo"
  using assms unfolding heap_from_def down_inv_def by metis

lemma heap_root_best: "heap_from lt vs n 0 \<Longrightarrow> k < n \<Longrightarrow> \<not> lt (vs ! k) (vs ! 0)"
proof (induction k rule: less_induct)
  case (less k)
  show ?case
  proof (cases "k = 0")
    case True
    then show ?thesis by (simp add: irrefl)
  next
    case False
    let ?p = "(k - 1) div 2"
    have "?p < k" using False by auto
    then have "\<not> lt (vs ! ?p) (vs ! 0)" using less.IH less.prems by simp
    moreover have "\<not> lt (vs ! k) (vs ! ?p)"
      using less.prems False by (simp add: heap_from_def)
    ultimately show ?thesis by (rule not_trans)
  qed
qed

lemma heap_up_heap:
  "isHigherPriority pq = lt \<Longrightarrow> j < length (items pq) \<Longrightarrow>
     up_inv lt (pq_Values pq) (length (items pq)) j \<Longrightarrow> heap_ordered (heap_up pq j)"
proof (induction pq j rule: heap_up.induct)
  case (1 pq j)
  let ?i = "(j - 1) div 2"
  have less: "pq_Less pq j ?i = lt (pq_Values pq ! j) (pq_Values pq ! ?i)"
    using "1.prems" by (auto simp: pq_Less_Values)
  show ?case
  proof (cases "?i = j \<or> \<not> pq_Less pq j ?i")
    case True
    then have "j = 0 \<or> \<not> lt (pq_Values pq ! j) (pq_Values pq ! ?i)"
      using less parent_less [of j] by auto
    then show ?thesis
      using True up_stop [OF "1.prems"(3)] "1.prems"(1) by (simp add: heap_up_unfold [of pq j])
  next
    case False
    then have "0 < j" by auto
    then have "up_inv lt (swap_list (pq_Values pq) ?i j) (length (items pq)) ?i"
      using up_step [OF "1.prems"(3) _ _ _ refl] "1.prems"(2) False less by simp
    then have "heap_ordered (heap_up (pq_Swap pq ?i j) ?i)"
      using "1.IH" [OF refl False] "1.prems" parent_less [OF \<open>0 < j\<close>] by simp
    then show ?thesis using False by (simp add: heap_up_unfold [of pq j])
  qed
qed

lemma heap_down_heap:
  "isHigherPriority pq = lt \<Longrightarrow> n \<le> length (items pq) \<Longrightarrow> i < length (items pq) \<Longrightarrow> lo \<le> i \<Longrightarrow>
     down_inv lt (pq_Values pq) n lo i \<Longrightarrow> heap_from lt (pq_Values (snd (heap_down pq i n))) n lo"
proof (induction pq i n rule: heap_down.induct)
  case (1 pq i n)
  let ?vs = "pq_Values pq"
  let ?j1 = "2 * i + 1"
  let ?j = "if ?j1 + 1 < n \<and> pq_Less pq (?j1 + 1) ?j1 then ?j1 + 1 else ?j1"
  have less: "pq_Less pq a b = lt (?vs ! a) (?vs ! b)" if "a < n" "b < length (items pq)" for a b
    using that "1.prems" by (simp add: pq_Less_Values)
  show ?case
  proof (cases "n \<le> ?j1")
    case True
    then have "heap_from lt ?vs n lo"
      by (intro down_stop [OF "1.prems"(5)]) (auto simp: parent_children)
    then show ?thesis using True by (simp add: heap_down_unfold [of pq i n])
  next
    case False
    then have jn: "?j < n" and par: "(?j - 1) div 2 = i" and ij: "i < ?j" by auto
    have best: "\<not> lt (?vs ! k) (?vs ! ?j)" if k: "k < n" "0 < k" "(k - 1) div 2 = i" for k
    proof -
      consider "k = ?j1" | "k = ?j1 + 1" using k(3) unfolding parent_children [OF k(2)] by auto
      then show ?thesis using k less [of "?j1 + 1" ?j1] "1.prems"(2) by cases (auto dest: asym simp: irrefl)
    qed
    show ?thesis
    proof (cases "pq_Less pq ?j i")
      case True
      have "down_inv lt (swap_list ?vs i ?j) n lo ?j"
        using down_step [OF "1.prems"(5) _ "1.prems"(4) jn par _ best] True jn less [OF jn] "1.prems"(2,3) ij
        by simp
      then have "heap_from lt (pq_Values (snd (heap_down (pq_Swap pq i ?j) ?j n))) n lo"
        using "1.IH" [OF refl False refl] True "1.prems" jn ij by simp
      then show ?thesis using False True by (simp add: heap_down_unfold [of pq i n])
    next
      case stop: False
      have "\<not> lt (?vs ! k) (?vs ! i)" if k: "k < n" "0 < k" "(k - 1) div 2 = i" for k
        using not_trans [of "?vs ! ?j" "?vs ! i"] best [OF k] stop less [OF jn "1.prems"(3)] by blast
      then have "heap_from lt ?vs n lo" by (intro down_stop [OF "1.prems"(5)]) 
      then show ?thesis using False stop by (simp add: heap_down_unfold [of pq i n])
    qed
  qed
qed

end

section \<open>The public operations keep the heap and the contents\<close>

text \<open>The abstraction: a queue stands for the multiset of its values.\<close>

definition pq_inv :: "('v \<Rightarrow> 'v \<Rightarrow> bool) \<Rightarrow> 'v PriorityQueue \<Rightarrow> bool" where
  "pq_inv lt pq \<longleftrightarrow>
     pq_wf pq \<and> isHigherPriority pq = lt \<and> heap_from lt (pq_Values pq) (length (items pq)) 0"

abbreviation pq_mset :: "'v PriorityQueue \<Rightarrow> 'v multiset" where
  "pq_mset pq \<equiv> mset (pq_Values pq)"

lemma pq_inv_New [simp]: "pq_inv lt (NewPriorityQueue lt)"
  by (simp add: pq_inv_def pq_wf_def NewPriorityQueue_def heap_from_def)

lemma pq_Values_New [simp]: "pq_Values (NewPriorityQueue lt) = []"
  by (simp add: pq_Values_alt NewPriorityQueue_def)

lemma pq_wf_Push:
  assumes "pq_wf pq"
  shows "pq_wf (pq_Push (pq\<lparr>objs := objs pq @ [it]\<rparr>) (length (objs pq)))"
proof -
  have new: "length (objs pq) \<notin> set (items pq)" using assms by (auto simp: pq_wf_def)
  then have "items pq ! i \<noteq> length (objs pq)" if "i < length (items pq)" for i
    using nth_mem [OF that] by auto
  with new show ?thesis
    using assms nth_mem [of _ "items pq"] unfolding pq_wf_def pq_Push_def Let_def
    by (auto simp: nth_append Index_set_Index less_Suc_eq)
qed

lemma pq_Values_Push:
  assumes "pq_wf pq"
  shows "pq_Values (pq_Push (pq\<lparr>objs := objs pq @ [it]\<rparr>) (length (objs pq))) =
           pq_Values pq @ [Value it]"
  using assms by (auto simp: pq_Values_alt pq_Push_def Let_def nth_append pq_wf_def)

lemma pq_Push_simps [simp]:
  "isHigherPriority (pq_Push pq a) = isHigherPriority pq"
  "items (pq_Push pq a) = items pq @ [a]"
  "length (objs (pq_Push pq a)) = length (objs pq)"
  by (simp_all add: pq_Push_def Let_def)

lemma pq_wf_Pop:
  assumes "pq_wf pq" and "items pq \<noteq> []"
  shows "pq_wf (snd (pq_Pop pq))"
proof -
  obtain as a where it: "items pq = as @ [a]" using assms(2) by (cases "items pq" rule: rev_cases) auto
  have "Index (objs pq ! (as ! i)) = int i" if "i < length as" for i
    using assms(1) it that by (auto simp: pq_wf_def nth_append dest: spec [of _ i])
  moreover have "as ! i \<noteq> a" if "i < length as" for i
    using assms(1) it that nth_mem [OF that] by (auto simp: pq_wf_def)
  ultimately show ?thesis
    using assms(1) it by (auto simp: pq_wf_def pq_Pop_def Let_def Index_set_Index)
qed

lemma pq_Pop_simps [simp]:
  "isHigherPriority (snd (pq_Pop pq)) = isHigherPriority pq"
  "items (snd (pq_Pop pq)) = take (length (items pq) - 1) (items pq)"
  "fst (pq_Pop pq) = items pq ! (length (items pq) - 1)"
  "Value (objs (snd (pq_Pop pq)) ! a) = Value (objs pq ! a)"
  "length (objs (snd (pq_Pop pq))) = length (objs pq)"
  by (simp_all add: pq_Pop_def Let_def)

lemma pq_Values_Pop: "pq_Values (snd (pq_Pop pq)) = take (length (items pq) - 1) (pq_Values pq)"
  by (simp add: pq_Values_alt take_map)

lemma heap_from_take: "m \<le> n \<Longrightarrow> heap_from lt vs n lo \<Longrightarrow> heap_from lt (take n vs) m lo"
  by (auto simp: heap_from_def)

lemma heap_from_0 [simp]: "heap_from lt vs 0 lo"
  by (simp add: heap_from_def)

context comparator
begin

lemma PushItem_correct:
  assumes "pq_inv lt pq" and "PushItem pq v = (a, pq')"
  shows "pq_inv lt pq'" and "pq_mset pq' = add_mset v (pq_mset pq)"
proof -
  let ?it = "\<lparr>Value = v, Index = 0\<rparr>"
  let ?pq1 = "pq_Push (pq\<lparr>objs := objs pq @ [?it]\<rparr>) (length (objs pq))"
  have wf: "pq_wf pq" and h: "isHigherPriority pq = lt" "heap_from lt (pq_Values pq) (length (items pq)) 0"
    using assms(1) by (simp_all add: pq_inv_def)
  have pq': "pq' = heap_up ?pq1 (length (items pq))"
    using assms(2) by (auto simp: PushItem_def heap_Push_def pq_Len_def Let_def)
  have vals: "pq_Values ?pq1 = pq_Values pq @ [v]" using pq_Values_Push [OF wf, of ?it] by simp
  have "up_inv lt (pq_Values ?pq1) (length (items ?pq1)) (length (items pq))"
    using heap_up_inv_init [of lt "pq_Values pq" v] h vals by simp
  then have "heap_ordered pq'" unfolding pq' by (intro heap_up_heap) (simp_all add: h)
  moreover note frame = heap_up_frame [of "length (items pq)" ?pq1]
  ultimately show "pq_inv lt pq'"
    using pq_wf_Push [OF wf, of ?it] h by (simp add: pq_inv_def pq')
  show "pq_mset pq' = add_mset v (pq_mset pq)" using frame vals by (simp add: pq')
qed

lemma down_inv_root:
  assumes "heap_from lt vs n 0" "vs \<noteq> []" "n = length vs"
  shows "down_inv lt (swap_list vs 0 (n - 1)) (n - 1) 0 0"
proof -
  have "swap_list vs 0 (n - 1) ! k = vs ! k" if "0 < k" "k < n - 1" for k
    using that assms(2,3) by (simp add: nth_swap_list)
  then show ?thesis
    using assms(1) by (auto simp: down_inv_def heap_from_def)
qed

lemma PopItem_correct:
  assumes inv: "pq_inv lt pq" and ne: "items pq \<noteq> []"
  obtains v pq' where "PopItem pq = (Some v, pq')" "pq_inv lt pq'" "v \<in># pq_mset pq"
    "pq_mset pq' = pq_mset pq - {#v#}" "\<And>w. w \<in># pq_mset pq \<Longrightarrow> \<not> lt w v"
    "length (items pq') = length (items pq) - 1"
proof -
  let ?n = "length (items pq) - 1"
  let ?vs = "pq_Values pq"
  let ?pq1 = "pq_Swap pq 0 ?n"
  have wf: "pq_wf pq" and h: "isHigherPriority pq = lt" "heap_from lt ?vs (length ?vs) 0"
    using inv by (simp_all add: pq_inv_def)
  have n: "?n < length (items pq)" "0 < length (items pq)" using ne by simp_all
  obtain k pq2 where down: "heap_down ?pq1 0 ?n = (k, pq2)" by fastforce
  have frame: "isHigherPriority pq2 = lt" "length (items pq2) = length (items pq)"
      "mset (pq_Values pq2) = mset ?vs" "pq_wf pq2"
      and vals: "\<And>a. Value (objs pq2 ! a) = Value (objs pq ! a)"
    using heap_down_frame [OF _ _ down] n h pq_wf_Swap [OF wf n(2) n(1)] by simp_all
  have last: "items pq2 ! ?n = items pq ! 0"
  proof (cases "?n = 0")
    case True
    then have "pq2 = ?pq1" using down by (simp add: heap_down_unfold [of _ 0])
    then show ?thesis using True n by (simp add: nth_swap_list)
  next
    case False
    then have "items pq2 ! ?n = items ?pq1 ! ?n" using heap_down_frame [OF _ _ down] n by simp
    then show ?thesis using n by (simp add: nth_swap_list)
  qed
  have "down_inv lt (pq_Values ?pq1) ?n 0 0"
    using down_inv_root [OF h(2) _ refl] ne n by (simp add: pq_Values_alt map_swap_list)
  then have heap2: "heap_from lt (pq_Values pq2) ?n 0"
    using heap_down_heap [of ?pq1 ?n 0 0] h n down by simp
  let ?pq3 = "snd (pq_Pop pq2)"
  have pop: "PopItem pq = (Some (?vs ! 0), ?pq3)"
    using ne down last vals n
    by (simp add: PopItem_def heap_Pop_def pq_Len_def Let_def case_prod_beta frame pq_Values_alt)
  have lastv: "pq_Values pq2 ! ?n = ?vs ! 0"
    using last vals n frame by (simp add: pq_Values_alt)
  have split: "pq_Values pq2 = pq_Values ?pq3 @ [?vs ! 0]"
    using n frame lastv take_Suc_conv_app_nth [of ?n "pq_Values pq2"] by (simp add: pq_Values_Pop)
  have "items pq2 \<noteq> []" using frame(2) ne by (metis length_0_conv)
  then have "pq_inv lt ?pq3"
    using pq_wf_Pop [OF frame(4)] frame(1,2) n heap_from_take [OF order_refl heap2]
    by (simp add: pq_inv_def pq_Values_Pop)
  moreover have "?vs ! 0 \<in># pq_mset pq" using n by simp
  moreover have "pq_mset ?pq3 = pq_mset pq - {#?vs ! 0#}"
    using arg_cong [OF split, of mset] frame(3) by simp
  moreover have "\<not> lt w (?vs ! 0)" if "w \<in># pq_mset pq" for w
    using that heap_root_best [OF h(2)] by (auto simp: in_set_conv_nth)
  moreover have "length (items ?pq3) = ?n" using frame n by simp
  ultimately show ?thesis using that pop by blast
qed

lemma PopItem_empty: "items pq = [] \<Longrightarrow> PopItem pq = (None, pq)"
  by (simp add: PopItem_def)

text \<open>
  \<open>heap_Fix\<close> after one value changed at \<open>i\<close>: if it has become too low it sinks, and otherwise the
  only possible defect is against its parent.
\<close>

lemma heap_Fix_correct:
  assumes lt: "isHigherPriority pq = lt" and i: "i < length (items pq)"
    and heap: "heap_from lt ((pq_Values pq)[i := old]) (length (items pq)) 0"
  shows "heap_from lt (pq_Values (heap_Fix pq i)) (length (items pq)) 0"
proof -
  let ?n = "length (items pq)" and ?vs = "pq_Values pq"
  have edge: "\<not> lt (?vs ! k) (?vs ! ((k - 1) div 2))"
    if "k < ?n" "0 < k" "k \<noteq> i" "(k - 1) div 2 \<noteq> i" for k
    using heap that by (auto simp: heap_from_def nth_list_update dest: spec [of _ k])
  have old_child: "\<not> lt (?vs ! k) old" if "k < ?n" "0 < k" "(k - 1) div 2 = i" for k
    using heap that parent_less [of k] i
    by (auto simp: heap_from_def nth_list_update dest!: spec [of _ k])
  have old_par: "\<not> lt old (?vs ! ((i - 1) div 2))" if "0 < i"
    using heap that parent_less [of i] i
    by (auto simp: heap_from_def nth_list_update dest!: spec [of _ i])
  have skip: "\<not> lt (?vs ! k) (?vs ! ((i - 1) div 2))"
    if "k < ?n" "0 < k" "(k - 1) div 2 = i" "0 < i" for k
    using not_trans [OF old_par [OF that(4)] old_child [OF that(1-3)]] .
  obtain m pq1 where down: "heap_down pq i ?n = (m, pq1)" by fastforce
  have fr: "isHigherPriority pq1 = lt" "length (items pq1) = ?n" "i \<le> m" "m = i \<Longrightarrow> pq1 = pq"
    using heap_down_frame [OF order_refl i down] lt by auto
  show ?thesis
  proof (cases "\<exists>k < ?n. 0 < k \<and> (k - 1) div 2 = i \<and> lt (?vs ! k) (?vs ! i)")
    case True
    then obtain c where c: "c < ?n" "0 < c" "(c - 1) div 2 = i" "lt (?vs ! c) (?vs ! i)" by blast
    have par: "\<not> lt (?vs ! i) (?vs ! ((i - 1) div 2))" if "0 < i"
      using skip [OF c(1-3) that] trans_lt [OF c(4)] by blast
    have "down_inv lt ?vs ?n 0 i"
      unfolding down_inv_def using edge skip par by blast
    then have h1: "heap_from lt (pq_Values pq1) ?n 0"
      using heap_down_heap [OF lt order_refl i, of 0] down by simp
    then have "up_inv lt (pq_Values pq1) ?n i" if "m = i"
      using fr(4) [OF that] h1 skip by (auto simp: up_inv_def heap_from_def)
    then show ?thesis
      using h1 down fr heap_up_heap [of pq1 i] i heap_up_frame [of i pq1]
      by (auto simp: heap_Fix_def pq_Len_def)
  next
    case False
    have "\<not> pq_Less pq k i" if "k < ?n" "0 < k" "(k - 1) div 2 = i" for k
      using False that lt i by (auto simp: pq_Less_Values)
    then have "heap_down pq i ?n = (i, pq)" by (auto simp: heap_down_unfold [of pq i])
    moreover have "up_inv lt ?vs ?n i"
      unfolding up_inv_def using edge skip False by blast
    ultimately show ?thesis
      using heap_up_heap [OF lt i] heap_up_frame [OF i] lt by (simp add: heap_Fix_def pq_Len_def)
  qed
qed

lemma heap_Init_loop_correct:
  "isHigherPriority pq = lt \<Longrightarrow> n = length (items pq) \<Longrightarrow> i \<le> n \<Longrightarrow> heap_from lt (pq_Values pq) n i \<Longrightarrow>
     pq' = heap_Init_loop pq n i \<Longrightarrow>
     heap_from lt (pq_Values pq') n 0 \<and> pq_mset pq' = pq_mset pq \<and> isHigherPriority pq' = lt \<and>
     length (items pq') = n \<and> (pq_wf pq \<longrightarrow> pq_wf pq')"
proof (induction i arbitrary: pq)
  case 0
  then show ?case by simp
next
  case (Suc i)
  obtain k pq1 where down: "heap_down pq i n = (k, pq1)" by fastforce
  have i: "i < length (items pq)" using Suc.prems by simp
  have "down_inv lt (pq_Values pq) n i i"
    using Suc.prems(4) by (auto simp: down_inv_def heap_from_def)
  then have "heap_from lt (pq_Values pq1) n i"
    using heap_down_heap [of pq n i i] Suc.prems i down by simp
  then show ?case
    using Suc.IH [of pq1] heap_down_frame [OF _ i down] Suc.prems down by simp
qed

lemma Reheapify_correct:
  assumes "pq_wf pq" "isHigherPriority pq = lt"
  shows "pq_inv lt (Reheapify pq)" and "pq_mset (Reheapify pq) = pq_mset pq"
    and "length (items (Reheapify pq)) = length (items pq)"
proof -
  let ?n = "length (items pq)"
  have "heap_from lt (pq_Values pq) ?n (?n div 2)"
    by (auto simp: heap_from_def)
  note loop = heap_Init_loop_correct [OF assms(2) refl _ this refl]
  show "pq_inv lt (Reheapify pq)" "pq_mset (Reheapify pq) = pq_mset pq"
    "length (items (Reheapify pq)) = length (items pq)"
    using loop assms by (simp_all add: pq_inv_def Reheapify_def heap_Init_def pq_Len_def Let_def)
qed

lemma heap_Fix_frame:
  assumes "i < length (items pq)"
  shows "isHigherPriority (heap_Fix pq i) = isHigherPriority pq"
    "length (items (heap_Fix pq i)) = length (items pq)"
    "pq_mset (heap_Fix pq i) = pq_mset pq" "pq_wf pq \<Longrightarrow> pq_wf (heap_Fix pq i)"
proof -
  obtain m pq1 where down: "heap_down pq i (length (items pq)) = (m, pq1)" by fastforce
  note fr = heap_down_frame [OF order_refl assms down] heap_up_frame [of i pq1]
  show "isHigherPriority (heap_Fix pq i) = isHigherPriority pq"
    "length (items (heap_Fix pq i)) = length (items pq)"
    "pq_mset (heap_Fix pq i) = pq_mset pq" "pq_wf pq \<Longrightarrow> pq_wf (heap_Fix pq i)"
    using fr assms down by (auto simp: heap_Fix_def pq_Len_def)
qed

lemma Update_popped:
  "pq_wf pq \<Longrightarrow> a < length (objs pq) \<Longrightarrow> a \<notin> set (items pq) \<Longrightarrow> pq_Update pq a v = pq"
  by (simp add: pq_Update_def pq_wf_def)

lemma Update_queued:
  assumes inv: "pq_inv lt pq" and i: "i < length (items pq)" and a: "items pq ! i = a"
  shows "pq_inv lt (pq_Update pq a v)"
    and "pq_mset (pq_Update pq a v) = add_mset v (pq_mset pq - {#pq_Values pq ! i#})"
proof -
  let ?pq1 = "pq\<lparr>objs := (objs pq)[a := (objs pq ! a)\<lparr>Value := v\<rparr>]\<rparr>"
  have wf: "pq_wf pq" and lt: "isHigherPriority pq = lt"
    and heap: "heap_from lt (pq_Values pq) (length (items pq)) 0"
    using inv by (simp_all add: pq_inv_def)
  have al: "a < length (objs pq)" and idx: "Index (objs pq ! a) = int i"
    using pq_wfD(2,3) [OF wf i] a by simp_all
  have upd: "pq_Update pq a v = heap_Fix ?pq1 i"
    using i a idx by (simp add: pq_Update_def Let_def)
  have vals: "pq_Values ?pq1 = (pq_Values pq)[i := v]"
    using wf i a al by (auto intro!: nth_equalityI
        simp: pq_Values_alt nth_list_update pq_wf_def distinct_conv_nth)
  have "Index (objs ?pq1 ! b) = Index (objs pq ! b)" for b
    by (cases "b = a") (auto simp: nth_list_update al)
  then have wf1: "pq_wf ?pq1" using wf by (simp add: pq_wf_def)
  have "heap_from lt ((pq_Values ?pq1)[i := pq_Values pq ! i]) (length (items ?pq1)) 0"
    using heap i by (simp add: vals)
  from heap_Fix_correct [OF _ _ this]
  show "pq_inv lt (pq_Update pq a v)"
    using heap_Fix_frame [of i ?pq1] wf1 lt i by (simp add: pq_inv_def upd)
  show "pq_mset (pq_Update pq a v) = add_mset v (pq_mset pq - {#pq_Values pq ! i#})"
    using heap_Fix_frame(3) [of i ?pq1] i by (simp add: upd vals mset_update)
qed

end

text \<open>Any comparator turns the array heap into a priority queue.\<close>

sublocale comparator < heap: prio_queue "NewPriorityQueue lt" "\<lambda>pq v. snd (PushItem pq v)" PopItem
  "\<lambda>pq. pq_mset pq" "pq_inv lt" lt
proof unfold_locales
  fix q :: "'a PriorityQueue" and v :: 'a
  show "pq_inv lt (NewPriorityQueue lt)" "pq_mset (NewPriorityQueue lt :: 'a PriorityQueue) = {#}" by simp_all
  assume ok: "pq_inv lt q"
  obtain a q' where "PushItem q v = (a, q')" by fastforce
  then show "pq_inv lt (snd (PushItem q v))" "pq_mset (snd (PushItem q v)) = add_mset v (pq_mset q)"
    using PushItem_correct [OF ok] by simp_all
  show "PopItem q = (None, q)" if "pq_mset q = {#}"
    using that by (simp add: pq_Values_alt PopItem_empty)
  show "\<exists>v q'. PopItem q = (Some v, q') \<and> pq_inv lt q' \<and> pq_mset q = add_mset v (pq_mset q') \<and>
      (\<forall>w \<in># pq_mset q. \<not> lt w v)" if "pq_mset q \<noteq> {#}"
  proof -
    have "items q \<noteq> []" using that by (auto simp: pq_Values_alt)
    then show ?thesis using PopItem_correct [OF ok] by (metis insert_DiffM)
  qed
qed

context comparator
begin

lemmas heap_prio_queue = heap.prio_queue_axioms

end

section \<open>Properties\<close>

text \<open>
  C27: on a well-formed heap that is not empty, \<open>PopItem\<close> returns an element that no queued element
  beats, removes exactly that element and leaves a well-formed heap in which every item still knows
  its own position.
\<close>

theorem PopItem_highest:
  assumes "comparator lt" and "pq_inv lt pq" and "pq_Values pq \<noteq> []"
  shows "\<exists>v pq'. PopItem pq = (Some v, pq') \<and> pq_inv lt pq' \<and>
           mset (pq_Values pq) = add_mset v (mset (pq_Values pq')) \<and>
           (\<forall>w \<in> set (pq_Values pq). \<not> lt w v)"
  using prio_queue.pop_some [OF comparator.heap_prio_queue [OF assms(1)] assms(2)] assms(3) by simp

theorem PopItem_highest_witness:
  "\<exists>v pq'. PopItem (snd (PushItem (NewPriorityQueue (<)) (4::int))) = (Some v, pq') \<and> v = 4"
proof -
  have c: "comparator ((<) :: int \<Rightarrow> int \<Rightarrow> bool)" by (rule by_key_asc.comparator_axioms [of "\<lambda>x. x"])
  let ?pq = "snd (PushItem (NewPriorityQueue (<)) (4::int))"
  have ok: "pq_inv (<) ?pq" by (intro prio_queue.push_ok [OF comparator.heap_prio_queue [OF c]] pq_inv_New)
  have one: "mset (pq_Values ?pq) = {#4#}"
    using prio_queue.push_contents [OF comparator.heap_prio_queue [OF c] pq_inv_New] by simp
  then have "pq_Values ?pq \<noteq> []" by auto
  from PopItem_highest [OF c ok this] show ?thesis using one by auto
qed

text \<open>
  Pushing any values into an empty queue and then popping as many times yields exactly those
  values, in priority order: no later one is of higher priority than an earlier one.
\<close>

lemma push_all_pop_all_sorted:
  assumes "comparator lt"
  shows "mset (fst (pop_times PopItem (length vs) (foldl (\<lambda>pq v. snd (PushItem pq v)) (NewPriorityQueue lt) vs))) = mset vs \<and>
         sorted_wrt (\<lambda>a b. \<not> lt b a)
           (fst (pop_times PopItem (length vs) (foldl (\<lambda>pq v. snd (PushItem pq v)) (NewPriorityQueue lt) vs)))"
  by (rule prio_queue.push_all_then_drain [OF comparator.heap_prio_queue [OF assms]])

text \<open>
  \<open>Update\<close> on an item that is still queued replaces exactly its value and restores the heap, and
  on an item that was popped it changes nothing.
\<close>

lemma Update_correct:
  assumes "comparator lt" and "pq_inv lt pq" and "a < length (objs pq)"
  shows "pq_inv lt (pq_Update pq a v) \<and>
         (a \<notin> set (items pq) \<longrightarrow> pq_Update pq a v = pq) \<and>
         (a \<in> set (items pq) \<longrightarrow>
            mset (pq_Values (pq_Update pq a v)) = add_mset v (mset (pq_Values pq) - {#Value (objs pq ! a)#}))"
proof (cases "a \<in> set (items pq)")
  case True
  then obtain i where i: "i < length (items pq)" "items pq ! i = a" by (auto simp: in_set_conv_nth)
  then show ?thesis
    using comparator.Update_queued [OF assms(1,2) i] True by (simp add: pq_Values_alt)
next
  case False
  then show ?thesis
    using comparator.Update_popped [OF assms(1) _ assms(3)] assms(2) by (simp add: pq_inv_def)
qed

text \<open>
  \<open>Reheapify\<close> turns any arrangement of the queued values, however they were changed in place,
  into a heap with the same values.
\<close>

lemma Reheapify_restores:
  assumes "comparator (isHigherPriority pq)" and "pq_wf pq"
  shows "pq_inv (isHigherPriority pq) (Reheapify pq) \<and>
         mset (pq_Values (Reheapify pq)) = mset (pq_Values pq)"
  using comparator.Reheapify_correct [OF assms refl] by simp

end
