(* ===== verification/Contract_Types.thy ===== *)
theory Contract_Types
  imports Complex_Main Workforce_Prelude
begin

text \<open>
  The data of \<^verbatim>\<open>contract/\<close>: jobs, runs, tasks and worker states, with the errors the stores
  report. A Go string enumeration becomes a datatype, a pointer that may be nil an option, a byte
  slice a string (nil and the empty slice are not told apart).
\<close>

section \<open>Errors\<close>

text \<open>
  \<open>NotFound\<close> is the formatted \<^verbatim>\<open>... not found\<close> error of the stores, \<open>Panic\<close> a run-time panic,
  \<open>Deadlock\<close> a goroutine that waits for a lock it holds itself,
  \<open>Sentinel\<close> one of the named error variables.
\<close>

datatype error =
    NotFound string string
  | Sentinel string
  | Errorf string
  | Panic string
  | Deadlock string

type_synonym 'a res = "error + 'a"

text \<open>The text of an error.\<close>

fun error_text :: "error \<Rightarrow> string" where
  "error_text (NotFound kind i) = kind @ '' '' @ go_quote i @ '' not found''"
| "error_text (Sentinel s) = s"
| "error_text (Errorf s) = s"
| "error_text (Panic s) = s"
| "error_text (Deadlock s) = s"

text \<open>The early return \<^verbatim>\<open>if err != nil\<close>.\<close>

definition and_then :: "'a res \<Rightarrow> ('a \<Rightarrow> 'b res) \<Rightarrow> 'b res" where
  "and_then r f = (case r of Inl e \<Rightarrow> Inl e | Inr x \<Rightarrow> f x)"

lemma and_then_simps [simp]: "and_then (Inl e) f = Inl e" "and_then (Inr x) f = f x"
  by (simp_all add: and_then_def)

lemma and_then_Inr_iff: "and_then r f = Inr y \<longleftrightarrow> (\<exists>x. r = Inr x \<and> f x = Inr y)"
  by (cases r) auto

section \<open>Numbers\<close>

text \<open>\<^verbatim>\<open>Duration.Seconds\<close> and the conversion of a float to an integer, which drops the fraction.\<close>

definition seconds :: "duration \<Rightarrow> real" where "seconds d = real_of_int d / 1000000000"

definition go_trunc :: "real \<Rightarrow> int" where "go_trunc x = (if 0 \<le> x then \<lfloor>x\<rfloor> else \<lceil>x\<rceil>)"

section \<open>Jobs\<close>

datatype JobStatus =
    JobStatusPending
  | JobStatusProposing
  | JobStatusAccepted
  | JobStatusProvisioning
  | JobStatusRunning
  | JobStatusAwaitingChildren
  | JobStatusCompleted
  | JobStatusFailed
  | JobStatusCancelled

definition IsTerminal :: "JobStatus \<Rightarrow> bool" where
  "IsTerminal s \<longleftrightarrow> s = JobStatusCompleted \<or> s = JobStatusFailed \<or> s = JobStatusCancelled"

lemma IsTerminal_simps [simp]:
  "\<not> IsTerminal JobStatusPending" "\<not> IsTerminal JobStatusProposing" "\<not> IsTerminal JobStatusAccepted"
  "\<not> IsTerminal JobStatusProvisioning" "\<not> IsTerminal JobStatusRunning"
  "\<not> IsTerminal JobStatusAwaitingChildren" "IsTerminal JobStatusCompleted"
  "IsTerminal JobStatusFailed" "IsTerminal JobStatusCancelled"
  by (simp_all add: IsTerminal_def)

datatype JobPhase = JobPhaseRun | JobPhaseConsolidate

type_synonym JsonOrBytes = bytes

record Job =
  jID :: string
  jParentJobID :: string
  jTaskName :: string
  jArtifactVersion :: string
  jStatus :: JobStatus
  jPhase :: JobPhase
  jPriority :: int
  jCost :: int
  jAttempts :: int
  jPayload :: JsonOrBytes
  jResult :: JsonOrBytes
  jFailureReason :: string
  jWebhookURL :: string
  jWebhookEvents :: "string list"
  jWebhookHeaders :: "(string, string) gomap"
  jCreatedAt :: time
  jUpdatedAt :: time
  jCompletedAt :: "time option"
  jDuration :: "duration option"

text \<open>The zero value of the struct, which a composite literal leaves in the fields it does not name.\<close>

definition Job_zero :: Job where
  "Job_zero =
     \<lparr>jID = [], jParentJobID = [], jTaskName = [], jArtifactVersion = [], jStatus = JobStatusPending,
      jPhase = JobPhaseRun, jPriority = 0, jCost = 0, jAttempts = 0, jPayload = [], jResult = [],
      jFailureReason = [], jWebhookURL = [], jWebhookEvents = [], jWebhookHeaders = [],
      jCreatedAt = 0, jUpdatedAt = 0, jCompletedAt = None, jDuration = None\<rparr>"

record ChildJobResult =
  cJobID :: string
  cTaskName :: string
  cResult :: JsonOrBytes

text \<open>The text of a status.\<close>

fun status_text :: "JobStatus \<Rightarrow> string" where
  "status_text JobStatusPending = ''pending''"
| "status_text JobStatusProposing = ''proposing''"
| "status_text JobStatusAccepted = ''accepted''"
| "status_text JobStatusProvisioning = ''provisioning''"
| "status_text JobStatusRunning = ''running''"
| "status_text JobStatusAwaitingChildren = ''awaiting_children''"
| "status_text JobStatusCompleted = ''completed''"
| "status_text JobStatusFailed = ''failed''"
| "status_text JobStatusCancelled = ''cancelled''"

section \<open>Runs\<close>

datatype RunStatus = RunStatusProvisioning | RunStatusRunning | RunStatusCompleted | RunStatusFailed

datatype ResultType = ResultSuccess | ResultError | ResultSubjobs

record JobRun =
  rID :: string
  rJobID :: string
  rPhase :: JobPhase
  rAttempt :: int
  rWorkerID :: string
  rStatus :: RunStatus
  rInputPayload :: JsonOrBytes
  rOutputPayload :: JsonOrBytes
  rFailureReason :: string
  rExitCode :: int
  rResultType :: ResultType
  rStartedAt :: time
  rFinishedAt :: time

section \<open>Tasks\<close>

record RetryPolicy =
  MaxAttempts :: int
  RetryDelay :: duration
  MaxRetryDelay :: duration

record Limitations =
  MaxExecutionTime :: duration
  MaxMemoryBytes :: int
  MaxCPUCores :: real

record Task =
  tName :: string
  tLimitations :: Limitations
  tRetryPolicy :: RetryPolicy
  tNoResult :: bool
  tCost :: int

record ArtifactInfo =
  aiHash :: string
  aiURL :: string
  aiDependencies :: "string list"

section \<open>Webhook entries\<close>

text \<open>
  The envelope of a webhook. An entry keeps the envelope itself where the code keeps its JSON text.
\<close>

datatype ev_value = EvString string | EvInt int | EvBytes JsonOrBytes

record webhookEvent =
  evEvent :: string
  evJobID :: string
  evParentJobID :: string
  evTimestamp :: time
  evData :: "(string, ev_value) gomap"

record WebhookEntry =
  whID :: string
  whJobID :: string
  whEvent :: string
  whURL :: string
  whPayload :: webhookEvent
  whHeaders :: "(string, string) gomap"
  whAttempts :: int
  whNextAttemptAt :: time
  whCreatedAt :: time

section \<open>Worker states\<close>

text \<open>\<^verbatim>\<open>WorkerState\<close> is an \<^verbatim>\<open>int32\<close>; converting an \<^verbatim>\<open>int\<close> to it keeps the low 32 bits.\<close>

type_synonym WorkerState = int

definition WorkerStateOnline :: WorkerState where "WorkerStateOnline = 0"
definition WorkerStatePressure :: WorkerState where "WorkerStatePressure = 1"
definition WorkerStateDraining :: WorkerState where "WorkerStateDraining = 2"
definition WorkerStateOffline :: WorkerState where "WorkerStateOffline = 3"
definition WorkerStateShuttingDown :: WorkerState where "WorkerStateShuttingDown = 4"

definition WorkerState_of_int :: "int \<Rightarrow> WorkerState" where
  "WorkerState_of_int v = (v + 2 ^ 31) mod 2 ^ 32 - 2 ^ 31"

definition WorkerState_String :: "WorkerState \<Rightarrow> string" where
  "WorkerState_String s =
     (if s = WorkerStateOnline then ''online''
      else if s = WorkerStatePressure then ''pressured''
      else if s = WorkerStateDraining then ''draining''
      else if s = WorkerStateShuttingDown then ''shuttingDown''
      else if s = WorkerStateOffline then ''offline''
      else ''unknown'')"

definition IsValidWorkerState :: "int \<Rightarrow> bool" where
  "IsValidWorkerState v \<longleftrightarrow> WorkerState_String (WorkerState_of_int v) \<noteq> ''unknown''"

lemmas worker_state_defs =
  WorkerStateOnline_def WorkerStatePressure_def WorkerStateDraining_def WorkerStateOffline_def
  WorkerStateShuttingDown_def

text \<open>The check is exact on 32-bit values, the range in which the conversion changes nothing.\<close>

lemma WorkerState_of_int_id: "- (2 ^ 31) \<le> v \<Longrightarrow> v < 2 ^ 31 \<Longrightarrow> WorkerState_of_int v = v"
  by (simp add: WorkerState_of_int_def)

lemma IsValidWorkerState_iff:
  "- (2 ^ 31) \<le> v \<Longrightarrow> v < 2 ^ 31 \<Longrightarrow> IsValidWorkerState v \<longleftrightarrow> 0 \<le> v \<and> v \<le> 4"
  by (auto simp: IsValidWorkerState_def WorkerState_of_int_id WorkerState_String_def worker_state_defs)

end
