(* ===== verification/Mem_Store.thy ===== *)
theory Mem_Store
  imports Contract_Types
begin

text \<open>
  The in-memory store of \<^verbatim>\<open>manager/store/memstore.go\<close>: jobs, tasks, runs, logs with their
  subscribers, and the webhook queue. A store method copies what it takes and what it returns, so
  values stand for the stored objects. Subscriber channels are shared objects: they live in the
  list \<open>ms_chans\<close> and the subscriber maps hold their addresses.
\<close>

section \<open>Channels\<close>

record Chan =
  ch_buf :: "bytes list"
  ch_closed :: bool

text \<open>The subscriber channels are made with room for 64 chunks.\<close>

definition chan_cap :: nat where "chan_cap = 64"

text \<open>A send under \<^verbatim>\<open>select ... default\<close> drops the chunk when the buffer is full.\<close>

definition chan_try_send :: "Chan list \<Rightarrow> nat \<Rightarrow> bytes \<Rightarrow> Chan list res" where
  "chan_try_send cs a chunk =
     (if ch_closed (cs ! a) then Inl (Panic ''send on closed channel'')
      else if length (ch_buf (cs ! a)) < chan_cap
      then Inr (cs[a := (cs ! a)\<lparr>ch_buf := ch_buf (cs ! a) @ [chunk]\<rparr>])
      else Inr cs)"

fun chan_try_send_all :: "Chan list \<Rightarrow> nat list \<Rightarrow> bytes \<Rightarrow> Chan list res" where
  "chan_try_send_all cs [] chunk = Inr cs"
| "chan_try_send_all cs (a # as) chunk =
     (case chan_try_send cs a chunk of Inl e \<Rightarrow> Inl e | Inr cs' \<Rightarrow> chan_try_send_all cs' as chunk)"

definition chan_close :: "Chan list \<Rightarrow> nat \<Rightarrow> Chan list res" where
  "chan_close cs a =
     (if ch_closed (cs ! a) then Inl (Panic ''close of closed channel'')
      else Inr (cs[a := (cs ! a)\<lparr>ch_closed := True\<rparr>]))"

fun chan_close_all :: "Chan list \<Rightarrow> nat list \<Rightarrow> Chan list res" where
  "chan_close_all cs [] = Inr cs"
| "chan_close_all cs (a # as) =
     (case chan_close cs a of Inl e \<Rightarrow> Inl e | Inr cs' \<Rightarrow> chan_close_all cs' as)"

section \<open>The store\<close>

record MemStore =
  ms_jobs :: "(string, Job) gomap"
  ms_taskDefs :: "(string, Task) gomap"
  ms_runs :: "(string, JobRun) gomap"
  ms_runLogs :: "(string, bytes) gomap"
  ms_runSubscribers :: "(string, nat list) gomap"
  ms_jobSubscribers :: "(string, nat list) gomap"
  ms_webhooks :: "(string, WebhookEntry) gomap"
  ms_chans :: "Chan list"

definition NewMemStore :: MemStore where
  "NewMemStore =
     \<lparr>ms_jobs = [], ms_taskDefs = [], ms_runs = [], ms_runLogs = [], ms_runSubscribers = [],
      ms_jobSubscribers = [], ms_webhooks = [], ms_chans = []\<rparr>"

text \<open>Reading a missing key of a map of slices yields the nil slice.\<close>

definition slice_at :: "('k, 'v list) gomap \<Rightarrow> 'k \<Rightarrow> 'v list" where
  "slice_at m k = (case map_of m k of None \<Rightarrow> [] | Some l \<Rightarrow> l)"

subsection \<open>JobStore\<close>

definition SaveJob :: "MemStore \<Rightarrow> Job \<Rightarrow> MemStore" where
  "SaveJob m job = m\<lparr>ms_jobs := AList.update (jID job) job (ms_jobs m)\<rparr>"

definition GetJob :: "MemStore \<Rightarrow> string \<Rightarrow> Job res" where
  "GetJob m i = (case map_of (ms_jobs m) i of None \<Rightarrow> Inl (NotFound ''job'' i) | Some job \<Rightarrow> Inr job)"

definition UpdateJob :: "MemStore \<Rightarrow> string \<Rightarrow> (Job \<Rightarrow> Job) \<Rightarrow> MemStore res" where
  "UpdateJob m i mutate =
     (case map_of (ms_jobs m) i of
        None \<Rightarrow> Inl (NotFound ''job'' i)
      | Some job \<Rightarrow> Inr (m\<lparr>ms_jobs := AList.update i (mutate job) (ms_jobs m)\<rparr>))"

definition created_desc :: "Job \<Rightarrow> Job \<Rightarrow> bool" where
  "created_desc a b \<longleftrightarrow> jCreatedAt b < jCreatedAt a"

definition root_jobs :: "MemStore \<Rightarrow> Job list" where
  "root_jobs m = filter (\<lambda>j. jParentJobID j = []) (map snd (ms_jobs m))"

text \<open>The position after the job the cursor names, or the beginning when there is none.\<close>

fun cursor_start :: "Job list \<Rightarrow> string \<Rightarrow> nat option" where
  "cursor_start [] cursor = None"
| "cursor_start (j # js) cursor =
     (if jID j = cursor then Some 1 else map_option Suc (cursor_start js cursor))"

definition ListJobs :: "MemStore \<Rightarrow> string \<Rightarrow> int \<Rightarrow> (Job list \<times> string) res" where
  "ListJobs m cursor limit =
     (let alls = sort_slice created_desc (root_jobs m);
          start = (if cursor = [] then 0
                   else case cursor_start alls cursor of None \<Rightarrow> 0 | Some k \<Rightarrow> k)
      in if length alls \<le> start then Inr ([], [])
         else let e0 = wrap64 (int start + limit);
                  e = (if int (length alls) < e0 then int (length alls) else e0)
              in if e < int start then Inl (Panic ''slice bounds out of range'')
                 else let page = take (nat e - start) (drop start alls)
                      in if e < int (length alls)
                         then (if page = [] then Inl (Panic ''index out of range'')
                               else Inr (page, jID (last page)))
                         else Inr (page, []))"

definition ListPendingJobs :: "MemStore \<Rightarrow> Job list" where
  "ListPendingJobs m =
     sort_slice (\<lambda>a b. jPriority b < jPriority a)
       (filter (\<lambda>j. jStatus j = JobStatusPending) (map snd (ms_jobs m)))"

definition recoverable :: "JobStatus \<Rightarrow> bool" where
  "recoverable s \<longleftrightarrow> s = JobStatusProposing \<or> s = JobStatusProvisioning \<or> s = JobStatusRunning"

definition ListRecoverableJobs :: "MemStore \<Rightarrow> Job list" where
  "ListRecoverableJobs m = filter (\<lambda>j. recoverable (jStatus j)) (map snd (ms_jobs m))"

definition created_asc :: "Job \<Rightarrow> Job \<Rightarrow> bool" where
  "created_asc a b \<longleftrightarrow> jCreatedAt a < jCreatedAt b"

definition ListChildJobs :: "MemStore \<Rightarrow> string \<Rightarrow> Job list" where
  "ListChildJobs m parentJobID =
     sort_slice created_asc (filter (\<lambda>j. jParentJobID j = parentJobID) (map snd (ms_jobs m)))"

fun count_statuses :: "(JobStatus, int) gomap \<Rightarrow> Job list \<Rightarrow> (JobStatus, int) gomap" where
  "count_statuses counts [] = counts"
| "count_statuses counts (j # js) =
     count_statuses
       (AList.update (jStatus j) ((case map_of counts (jStatus j) of None \<Rightarrow> 0 | Some n \<Rightarrow> n) + 1) counts) js"

definition CountJobsByStatus :: "MemStore \<Rightarrow> (JobStatus, int) gomap" where
  "CountJobsByStatus m = count_statuses [] (map snd (ms_jobs m))"

subsection \<open>TaskStore\<close>

definition SaveTask :: "MemStore \<Rightarrow> Task \<Rightarrow> MemStore" where
  "SaveTask m task = m\<lparr>ms_taskDefs := AList.update (tName task) task (ms_taskDefs m)\<rparr>"

definition GetTask :: "MemStore \<Rightarrow> string \<Rightarrow> Task res" where
  "GetTask m name =
     (case map_of (ms_taskDefs m) name of None \<Rightarrow> Inl (NotFound ''task'' name) | Some t \<Rightarrow> Inr t)"

definition string_less :: "string \<Rightarrow> string \<Rightarrow> bool" where
  "string_less a b \<longleftrightarrow> ord_class.lexordp (map of_char a) (map of_char b :: nat list)"

definition ListTasks :: "MemStore \<Rightarrow> Task list" where
  "ListTasks m = sort_slice (\<lambda>a b. string_less (tName a) (tName b)) (map snd (ms_taskDefs m))"

definition UpdateTask :: "MemStore \<Rightarrow> string \<Rightarrow> (Task \<Rightarrow> Task) \<Rightarrow> MemStore res" where
  "UpdateTask m name mutate =
     (case map_of (ms_taskDefs m) name of
        None \<Rightarrow> Inl (NotFound ''task'' name)
      | Some t \<Rightarrow> Inr (m\<lparr>ms_taskDefs := AList.update name (mutate t) (ms_taskDefs m)\<rparr>))"

definition DeleteTask :: "MemStore \<Rightarrow> string \<Rightarrow> MemStore res" where
  "DeleteTask m name =
     (case map_of (ms_taskDefs m) name of
        None \<Rightarrow> Inl (NotFound ''task'' name)
      | Some t \<Rightarrow> Inr (m\<lparr>ms_taskDefs := AList.delete name (ms_taskDefs m)\<rparr>))"

subsection \<open>RunStore\<close>

definition CreateRun :: "MemStore \<Rightarrow> JobRun \<Rightarrow> MemStore" where
  "CreateRun m run = m\<lparr>ms_runs := AList.update (rID run) run (ms_runs m)\<rparr>"

definition UpdateRun :: "MemStore \<Rightarrow> string \<Rightarrow> (JobRun \<Rightarrow> JobRun) \<Rightarrow> MemStore res" where
  "UpdateRun m i mutate =
     (case map_of (ms_runs m) i of
        None \<Rightarrow> Inl (NotFound ''run'' i)
      | Some run \<Rightarrow> Inr (m\<lparr>ms_runs := AList.update i (mutate run) (ms_runs m)\<rparr>))"

definition GetRun :: "MemStore \<Rightarrow> string \<Rightarrow> JobRun res" where
  "GetRun m i = (case map_of (ms_runs m) i of None \<Rightarrow> Inl (NotFound ''run'' i) | Some run \<Rightarrow> Inr run)"

definition run_before :: "JobRun \<Rightarrow> JobRun \<Rightarrow> bool" where
  "run_before a b \<longleftrightarrow>
     (if IsZero (rStartedAt a) \<or> IsZero (rStartedAt b) then rAttempt a < rAttempt b
      else rStartedAt a < rStartedAt b)"

definition ListJobRuns :: "MemStore \<Rightarrow> string \<Rightarrow> JobRun list" where
  "ListJobRuns m jobID = sort_slice run_before (filter (\<lambda>r. rJobID r = jobID) (map snd (ms_runs m)))"

subsection \<open>LogStore\<close>

definition AppendRunLog :: "MemStore \<Rightarrow> string \<Rightarrow> bytes \<Rightarrow> MemStore res" where
  "AppendRunLog m runID line =
     (let buf = (case map_of (ms_runLogs m) runID of None \<Rightarrow> [] | Some b \<Rightarrow> b);
          m1 = m\<lparr>ms_runLogs := AList.update runID (buf @ line) (ms_runLogs m)\<rparr>;
          runSubs = slice_at (ms_runSubscribers m) runID;
          jobSubs = (case map_of (ms_runs m) runID of
                       None \<Rightarrow> [] | Some run \<Rightarrow> slice_at (ms_jobSubscribers m) (rJobID run))
      in case chan_try_send_all (ms_chans m1) runSubs line of
           Inl e \<Rightarrow> Inl e
         | Inr cs \<Rightarrow>
             (case chan_try_send_all cs jobSubs line of
                Inl e \<Rightarrow> Inl e
              | Inr cs' \<Rightarrow> Inr (m1\<lparr>ms_chans := cs'\<rparr>)))"

definition GetRunLogReader :: "MemStore \<Rightarrow> string \<Rightarrow> bytes" where
  "GetRunLogReader m runID = (case map_of (ms_runLogs m) runID of None \<Rightarrow> [] | Some b \<Rightarrow> b)"

definition GetJobLogReader :: "MemStore \<Rightarrow> string \<Rightarrow> bytes" where
  "GetJobLogReader m jobID = concat (map (\<lambda>r. GetRunLogReader m (rID r)) (ListJobRuns m jobID))"

definition GetRootJobLogReader :: "MemStore \<Rightarrow> string \<Rightarrow> bytes" where
  "GetRootJobLogReader m rootJobID =
     (let jobIDs = rootJobID # map jID (ListChildJobs m rootJobID)
      in concat (map (GetJobLogReader m) jobIDs))"

text \<open>
  \<open>SubscribeJobLogs\<close> fills the new channel while it holds the log mutex; \<open>None\<close> is a send that
  blocks because the buffer is full. Its goroutine runs when the context ends:
  \<open>SubscribeJobLogs_done\<close>.
\<close>

definition SubscribeJobLogs :: "MemStore \<Rightarrow> string \<Rightarrow> (nat \<times> MemStore) option" where
  "SubscribeJobLogs m jobID =
     (let buffered = filter (\<lambda>b. b \<noteq> []) (map (\<lambda>r. GetRunLogReader m (rID r)) (ListJobRuns m jobID));
          a = length (ms_chans m)
      in if chan_cap < length buffered then None
         else Some (a, m\<lparr>ms_chans := ms_chans m @ [\<lparr>ch_buf = buffered, ch_closed = False\<rparr>],
                         ms_jobSubscribers :=
                           AList.update jobID (slice_at (ms_jobSubscribers m) jobID @ [a])
                             (ms_jobSubscribers m)\<rparr>))"

definition SubscribeJobLogs_done :: "MemStore \<Rightarrow> string \<Rightarrow> nat \<Rightarrow> MemStore res" where
  "SubscribeJobLogs_done m jobID a =
     (let subs = slice_at (ms_jobSubscribers m) jobID;
          m1 = (if a \<in> set subs
                then m\<lparr>ms_jobSubscribers := AList.update jobID (remove1 a subs) (ms_jobSubscribers m)\<rparr>
                else m)
      in case chan_close (ms_chans m1) a of
           Inl e \<Rightarrow> Inl e
         | Inr cs \<Rightarrow> Inr (m1\<lparr>ms_chans := cs\<rparr>))"

definition SubscribeRunLogs :: "MemStore \<Rightarrow> string \<Rightarrow> nat \<times> MemStore" where
  "SubscribeRunLogs m runID =
     (let buffered = filter (\<lambda>b. b \<noteq> []) [GetRunLogReader m runID];
          a = length (ms_chans m)
      in (a, m\<lparr>ms_chans := ms_chans m @ [\<lparr>ch_buf = buffered, ch_closed = False\<rparr>],
               ms_runSubscribers :=
                 AList.update runID (slice_at (ms_runSubscribers m) runID @ [a]) (ms_runSubscribers m)\<rparr>))"

definition CloseRunLogSubscribers :: "MemStore \<Rightarrow> string \<Rightarrow> MemStore res" where
  "CloseRunLogSubscribers m runID =
     (case chan_close_all (ms_chans m) (slice_at (ms_runSubscribers m) runID) of
        Inl e \<Rightarrow> Inl e
      | Inr cs \<Rightarrow> Inr (m\<lparr>ms_chans := cs, ms_runSubscribers := AList.delete runID (ms_runSubscribers m)\<rparr>))"

definition CloseJobLogSubscribers :: "MemStore \<Rightarrow> string \<Rightarrow> MemStore res" where
  "CloseJobLogSubscribers m jobID =
     (case chan_close_all (ms_chans m) (slice_at (ms_jobSubscribers m) jobID) of
        Inl e \<Rightarrow> Inl e
      | Inr cs \<Rightarrow> Inr (m\<lparr>ms_chans := cs, ms_jobSubscribers := AList.delete jobID (ms_jobSubscribers m)\<rparr>))"

subsection \<open>WebhookStore\<close>

definition EnqueueWebhook :: "MemStore \<Rightarrow> WebhookEntry \<Rightarrow> MemStore" where
  "EnqueueWebhook m entry = m\<lparr>ms_webhooks := AList.update (whID entry) entry (ms_webhooks m)\<rparr>"

definition DequeueWebhooks :: "MemStore \<Rightarrow> time \<Rightarrow> WebhookEntry list" where
  "DequeueWebhooks m now = filter (\<lambda>e. \<not> now < whNextAttemptAt e) (map snd (ms_webhooks m))"

definition AckWebhook :: "MemStore \<Rightarrow> string \<Rightarrow> MemStore" where
  "AckWebhook m i = m\<lparr>ms_webhooks := AList.delete i (ms_webhooks m)\<rparr>"

definition NackWebhook :: "MemStore \<Rightarrow> string \<Rightarrow> int \<Rightarrow> time \<Rightarrow> MemStore res" where
  "NackWebhook m i attempts nextAttemptAt =
     (case map_of (ms_webhooks m) i of
        None \<Rightarrow> Inl (NotFound ''webhook entry'' i)
      | Some e \<Rightarrow>
          Inr (m\<lparr>ms_webhooks :=
                 AList.update i (e\<lparr>whAttempts := attempts, whNextAttemptAt := nextAttemptAt\<rparr>) (ms_webhooks m)\<rparr>))"

section \<open>The job store contract\<close>

text \<open>
  What the manager relies on (the \<^verbatim>\<open>JobStore\<close> interface of \<^verbatim>\<open>manager/config.go\<close>): the store is a
  map from identifiers to jobs.
\<close>

datatype job_op = OpSave Job | OpUpdate string "Job \<Rightarrow> Job"

locale job_store =
  fixes save :: "'st \<Rightarrow> Job \<Rightarrow> 'st" and get :: "'st \<Rightarrow> string \<Rightarrow> Job res"
    and upd :: "'st \<Rightarrow> string \<Rightarrow> (Job \<Rightarrow> Job) \<Rightarrow> 'st res"
  assumes get_save: "get (save s j) i = (if i = jID j then Inr j else get s i)"
    and upd_missing: "get s i = Inl e \<Longrightarrow> upd s i f = Inl e"
    and upd_found: "get s i = Inr j \<Longrightarrow>
      \<exists>s'. upd s i f = Inr s' \<and> (\<forall>k. get s' k = (if k = i then Inr (f j) else get s k))"
begin

lemma upd_get: "upd s i f = Inr s' \<Longrightarrow>
    \<exists>j. get s i = Inr j \<and> (\<forall>k. get s' k = (if k = i then Inr (f j) else get s k))"
  using upd_missing [of s i _ f] upd_found [of s i _ f] by (cases "get s i") auto

lemma upd_isl: "isl (upd s i f) \<longleftrightarrow> isl (get s i)"
  using upd_missing [of s i _ f] upd_found [of s i _ f] by (cases "get s i") auto

end

fun run_job_op :: "('st \<Rightarrow> Job \<Rightarrow> 'st) \<Rightarrow> ('st \<Rightarrow> string \<Rightarrow> (Job \<Rightarrow> Job) \<Rightarrow> 'st res) \<Rightarrow> 'st \<Rightarrow> job_op \<Rightarrow> 'st" where
  "run_job_op save upd s (OpSave j) = save s j"
| "run_job_op save upd s (OpUpdate i f) = (case upd s i f of Inl e \<Rightarrow> s | Inr s' \<Rightarrow> s')"

context job_store
begin

lemma run_job_ops_cong:
  assumes "job_store save2 get2 upd2" and "\<And>k. get s k = get2 s2 k"
  shows "get (foldl (run_job_op save upd) s ops) k = get2 (foldl (run_job_op save2 upd2) s2 ops) k"
  using assms(2)
proof (induction ops arbitrary: s s2)
  case Nil
  then show ?case by simp
next
  case (Cons p ops)
  have "get (run_job_op save upd s p) k = get2 (run_job_op save2 upd2 s2 p) k" for k
  proof (cases p)
    case (OpSave j)
    then show ?thesis by (simp add: get_save job_store.get_save [OF assms(1)] Cons.prems)
  next
    case (OpUpdate i f)
    show ?thesis
    proof (cases "get s i")
      case (Inl e)
      then show ?thesis
        using upd_missing [OF Inl] job_store.upd_missing [OF assms(1), of s2 i e f] Cons.prems OpUpdate
        by simp
    next
      case (Inr j)
      then obtain s' s2' where "upd s i f = Inr s'" "\<forall>k. get s' k = (if k = i then Inr (f j) else get s k)"
          "upd2 s2 i f = Inr s2'" "\<forall>k. get2 s2' k = (if k = i then Inr (f j) else get2 s2 k)"
        using upd_found [OF Inr] job_store.upd_found [OF assms(1), of s2 i j f] Cons.prems by metis
      then show ?thesis using OpUpdate Cons.prems by simp
    qed
  qed
  then show ?case using Cons.IH by simp
qed

end

interpretation mem_jobs: job_store SaveJob GetJob UpdateJob
  by unfold_locales (auto simp: SaveJob_def GetJob_def UpdateJob_def split: option.splits)

section \<open>Well-formed stores\<close>

definition store_wf :: "MemStore \<Rightarrow> bool" where
  "store_wf m \<longleftrightarrow>
     keys_distinct (ms_jobs m) \<and> (\<forall>(k, j) \<in> set (ms_jobs m). jID j = k) \<and>
     keys_distinct (ms_runs m) \<and> (\<forall>(k, r) \<in> set (ms_runs m). rID r = k)"

lemma store_wf_New [simp]: "store_wf NewMemStore"
  by (simp add: store_wf_def NewMemStore_def)

lemma set_update_subset: "set (AList.update k v m) \<subseteq> insert (k, v) (set m)"
  by (induction m) auto

lemma ids_update:
  "(\<forall>(k, v) \<in> set m. ident v = k) \<Longrightarrow> ident v = k \<Longrightarrow> (\<forall>(k, v) \<in> set (AList.update k v m). ident v = k)"
  using set_update_subset [of k v m] by blast

lemma store_wf_SaveJob: "store_wf m \<Longrightarrow> store_wf (SaveJob m j)"
  using ids_update [of "ms_jobs m" jID j] by (simp add: store_wf_def SaveJob_def)

lemma store_wf_UpdateJob:
  assumes wf: "store_wf m" and upd: "UpdateJob m i f = Inr m'" and f: "\<And>j. jID (f j) = jID j"
  shows "store_wf m'"
proof -
  obtain j where j: "map_of (ms_jobs m) i = Some j" "m' = m\<lparr>ms_jobs := AList.update i (f j) (ms_jobs m)\<rparr>"
    using upd by (auto simp: UpdateJob_def split: option.splits)
  have "jID (f j) = i" using wf map_of_SomeD [OF j(1)] f by (auto simp: store_wf_def)
  then show ?thesis using wf j(2) ids_update [of "ms_jobs m" jID "f j" i] by (simp add: store_wf_def)
qed

lemma store_wf_CreateRun: "store_wf m \<Longrightarrow> store_wf (CreateRun m r)"
  using ids_update [of "ms_runs m" rID r] by (simp add: store_wf_def CreateRun_def)

lemma store_wf_UpdateRun:
  assumes wf: "store_wf m" and upd: "UpdateRun m i f = Inr m'" and f: "\<And>r. rID (f r) = rID r"
  shows "store_wf m'"
proof -
  obtain r where r: "map_of (ms_runs m) i = Some r" "m' = m\<lparr>ms_runs := AList.update i (f r) (ms_runs m)\<rparr>"
    using upd by (auto simp: UpdateRun_def split: option.splits)
  have "rID (f r) = i" using wf map_of_SomeD [OF r(1)] f by (auto simp: store_wf_def)
  then show ?thesis using wf r(2) ids_update [of "ms_runs m" rID "f r" i] by (simp add: store_wf_def)
qed

lemma store_wf_stored: "store_wf m \<Longrightarrow> j \<in> snd ` set (ms_jobs m) \<longleftrightarrow> GetJob m (jID j) = Inr j"
proof -
  assume wf: "store_wf m"
  have "j \<in> snd ` set (ms_jobs m) \<longleftrightarrow> (jID j, j) \<in> set (ms_jobs m)"
    using wf by (force simp: store_wf_def)
  also have "\<dots> \<longleftrightarrow> map_of (ms_jobs m) (jID j) = Some j"
    using wf by (simp add: store_wf_def map_of_in_set)
  finally show ?thesis by (simp add: GetJob_def split: option.splits)
qed

section \<open>Log subscribers\<close>

text \<open>
  Every subscribed channel is allocated and open, and no channel is subscribed twice.
\<close>

definition all_subs :: "MemStore \<Rightarrow> nat list" where
  "all_subs m = concat (map snd (ms_runSubscribers m)) @ concat (map snd (ms_jobSubscribers m))"

definition subs_wf :: "MemStore \<Rightarrow> bool" where
  "subs_wf m \<longleftrightarrow>
     keys_distinct (ms_runSubscribers m) \<and> keys_distinct (ms_jobSubscribers m) \<and>
     distinct (all_subs m) \<and>
     (\<forall>a \<in> set (all_subs m). a < length (ms_chans m) \<and> \<not> ch_closed (ms_chans m ! a))"

lemma slice_at_subset: "set (slice_at m k) \<subseteq> set (concat (map snd m))"
proof (cases "map_of m k")
  case None
  then show ?thesis by (simp add: slice_at_def)
next
  case (Some l)
  from map_of_SomeD [OF this] show ?thesis using Some by (force simp: slice_at_def)
qed

lemma slice_at_all_subs:
  "set (slice_at (ms_runSubscribers m) k) \<subseteq> set (all_subs m)"
  "set (slice_at (ms_jobSubscribers m) k) \<subseteq> set (all_subs m)"
  using slice_at_subset [of "ms_runSubscribers m" k] slice_at_subset [of "ms_jobSubscribers m" k]
  unfolding all_subs_def set_append by blast+

lemma distinct_slice_at: "distinct (concat (map snd m)) \<Longrightarrow> distinct (slice_at m k)"
  by (auto simp: slice_at_def distinct_concat_iff split: option.splits dest!: map_of_SomeD)

lemma try_send_all_ok:
  "(\<And>a. a \<in> set as \<Longrightarrow> \<not> ch_closed (cs ! a)) \<Longrightarrow>
     \<exists>cs'. chan_try_send_all cs as chunk = Inr cs' \<and> length cs' = length cs \<and>
       (\<forall>a. ch_closed (cs' ! a) = ch_closed (cs ! a))"
proof (induction as arbitrary: cs)
  case Nil
  then show ?case by simp
next
  case (Cons a as)
  let ?c = "(cs ! a)\<lparr>ch_buf := ch_buf (cs ! a) @ [chunk]\<rparr>"
  have same: "ch_closed (cs[a := ?c] ! b) = ch_closed (cs ! b)" for b
    by (cases "a = b"; cases "a < length cs") (simp_all add: list_update_beyond)
  obtain cs1 where cs1: "chan_try_send cs a chunk = Inr cs1" "length cs1 = length cs"
      "\<forall>b. ch_closed (cs1 ! b) = ch_closed (cs ! b)"
  proof (cases "length (ch_buf (cs ! a)) < chan_cap")
    case True
    then show ?thesis using that [of "cs[a := ?c]"] same Cons.prems [of a] by (simp add: chan_try_send_def)
  next
    case False
    then show ?thesis using that [of cs] Cons.prems [of a] by (simp add: chan_try_send_def)
  qed
  then show ?case using Cons.IH [of cs1] Cons.prems by auto
qed

lemma close_all_ok:
  "distinct as \<Longrightarrow> (\<And>a. a \<in> set as \<Longrightarrow> a < length cs \<and> \<not> ch_closed (cs ! a)) \<Longrightarrow>
     \<exists>cs'. chan_close_all cs as = Inr cs' \<and> length cs' = length cs \<and>
       (\<forall>b. ch_closed (cs' ! b) \<longleftrightarrow> ch_closed (cs ! b) \<or> b \<in> set as) \<and>
       (\<forall>b. ch_buf (cs' ! b) = ch_buf (cs ! b))"
proof (induction as arbitrary: cs)
  case Nil
  then show ?case by simp
next
  case (Cons a as)
  let ?cs1 = "cs[a := (cs ! a)\<lparr>ch_closed := True\<rparr>]"
  have a: "chan_close cs a = Inr ?cs1" using Cons.prems(2) [of a] by (simp add: chan_close_def)
  have nth: "ch_closed (?cs1 ! b) \<longleftrightarrow> ch_closed (cs ! b) \<or> b = a" "ch_buf (?cs1 ! b) = ch_buf (cs ! b)" for b
    using Cons.prems(2) [of a] by (cases "b = a"; simp)+
  have "\<exists>cs'. chan_close_all ?cs1 as = Inr cs' \<and> length cs' = length ?cs1 \<and>
       (\<forall>b. ch_closed (cs' ! b) \<longleftrightarrow> ch_closed (?cs1 ! b) \<or> b \<in> set as) \<and>
       (\<forall>b. ch_buf (cs' ! b) = ch_buf (?cs1 ! b))"
    using Cons.prems by (intro Cons.IH) (auto simp: nth)
  then show ?case using a nth by auto
qed

lemma AppendRunLog_total:
  assumes wf: "subs_wf m"
  shows "\<exists>m'. AppendRunLog m runID line = Inr m' \<and> subs_wf m'"
proof -
  define rs where "rs = slice_at (ms_runSubscribers m) runID"
  define js where "js = (case map_of (ms_runs m) runID of
      None \<Rightarrow> [] | Some run \<Rightarrow> slice_at (ms_jobSubscribers m) (rJobID run))"
  have rs: "a \<in> set rs \<Longrightarrow> a \<in> set (all_subs m)" for a
    unfolding rs_def by (rule subsetD [OF slice_at_all_subs(1)])
  have js: "a \<in> set (all_subs m)" if "a \<in> set js" for a
  proof (cases "map_of (ms_runs m) runID")
    case None
    then show ?thesis using that by (simp add: js_def)
  next
    case (Some run)
    then show ?thesis using that subsetD [OF slice_at_all_subs(2)] by (simp add: js_def)
  qed
  have op: "\<not> ch_closed (ms_chans m ! a)" if "a \<in> set (all_subs m)" for a
    using wf that by (simp add: subs_wf_def)
  obtain cs1 where c1: "chan_try_send_all (ms_chans m) rs line = Inr cs1"
      "length cs1 = length (ms_chans m)" "\<forall>a. ch_closed (cs1 ! a) = ch_closed (ms_chans m ! a)"
    using try_send_all_ok [of rs "ms_chans m" line, OF op [OF rs]] by blast
  have op1: "\<not> ch_closed (cs1 ! a)" if "a \<in> set (all_subs m)" for a
    using op [OF that] c1(3) by simp
  obtain cs2 where c2: "chan_try_send_all cs1 js line = Inr cs2"
      "length cs2 = length cs1" "\<forall>a. ch_closed (cs2 ! a) = ch_closed (cs1 ! a)"
    using try_send_all_ok [of js cs1 line, OF op1 [OF js]] by blast
  have "AppendRunLog m runID line =
      Inr (m\<lparr>ms_runLogs := AList.update runID ((case map_of (ms_runLogs m) runID of None \<Rightarrow> [] | Some b \<Rightarrow> b) @ line)
               (ms_runLogs m), ms_chans := cs2\<rparr>)"
    using c1(1) c2(1) by (simp add: AppendRunLog_def Let_def rs_def [symmetric] js_def [symmetric])
  moreover have "subs_wf (m\<lparr>ms_runLogs := l, ms_chans := cs2\<rparr>)" for l
    using wf c1(2,3) c2(2,3) by (simp add: subs_wf_def all_subs_def)
  ultimately show ?thesis by blast
qed

text \<open>Updating one key of a map of disjoint slices.\<close>

lemma mset_concat_update:
  "keys_distinct m \<Longrightarrow>
     mset (concat (map snd (AList.update k l m))) + mset (slice_at m k) = mset (concat (map snd m)) + mset l"
  by (induction m) (auto simp: slice_at_def keys_distinct_def)

lemma mset_concat_delete:
  "keys_distinct m \<Longrightarrow>
     mset (concat (map snd (AList.delete k m))) + mset (slice_at m k) = mset (concat (map snd m))"
proof (induction m)
  case Nil
  then show ?case by (simp add: slice_at_def)
next
  case (Cons p m)
  have "AList.delete k m = m" if "k = fst p"
    using Cons.prems that by (simp add: keys_distinct_def AList.delete_idem image_iff)
  moreover have "slice_at m k = []" if "k = fst p"
  proof -
    have "map_of m k = None" using Cons.prems that by (simp add: keys_distinct_def map_of_eq_None_iff)
    then show ?thesis by (simp add: slice_at_def)
  qed
  ultimately show ?case
    using Cons by (cases p) (auto simp: slice_at_def keys_distinct_def)
qed

lemma subs_wf_subscribe:
  assumes wf: "subs_wf m" and keys: "keys_distinct (ms_runSubscribers m')" "keys_distinct (ms_jobSubscribers m')"
    and chans: "ms_chans m' = ms_chans m @ [c]" "\<not> ch_closed c"
    and all: "mset (all_subs m') = mset (length (ms_chans m) # all_subs m)"
  shows "subs_wf m'"
proof -
  have "distinct (length (ms_chans m) # all_subs m)" using wf by (auto simp: subs_wf_def)
  moreover have "set (all_subs m') = insert (length (ms_chans m)) (set (all_subs m))"
    using mset_eq_setD [OF all] by simp
  ultimately show ?thesis
    using wf keys chans mset_eq_imp_distinct_iff [OF all] by (auto simp: subs_wf_def nth_append)
qed

lemma subs_wf_unsubscribe:
  assumes wf: "subs_wf m" and keys: "keys_distinct (ms_runSubscribers m')" "keys_distinct (ms_jobSubscribers m')"
    and chans: "length (ms_chans m') = length (ms_chans m)"
      "\<And>b. ch_closed (ms_chans m' ! b) \<longleftrightarrow> ch_closed (ms_chans m ! b) \<or> b \<in> set l"
    and all: "mset (all_subs m) = mset (all_subs m' @ l)"
  shows "subs_wf m'"
proof -
  have "distinct (all_subs m' @ l)" and "set (all_subs m) = set (all_subs m') \<union> set l"
    using wf mset_eq_imp_distinct_iff [OF all] mset_eq_setD [OF all] by (simp_all add: subs_wf_def)
  then show ?thesis using wf keys chans by (auto simp: subs_wf_def)
qed

lemma SubscribeJobLogs_wf:
  assumes wf: "subs_wf m" and sub: "SubscribeJobLogs m jobID = Some (a, m')"
  shows "subs_wf m'"
proof -
  let ?l = "slice_at (ms_jobSubscribers m) jobID"
  obtain c where new: "a = length (ms_chans m)" "ms_chans m' = ms_chans m @ [c]" "\<not> ch_closed c"
      "ms_jobSubscribers m' = AList.update jobID (?l @ [a]) (ms_jobSubscribers m)"
      "ms_runSubscribers m' = ms_runSubscribers m"
    using sub by (auto simp: SubscribeJobLogs_def Let_def split: if_splits)
  show ?thesis
  proof (rule subs_wf_subscribe [OF wf _ _ new(2,3)])
    show "mset (all_subs m') = mset (length (ms_chans m) # all_subs m)"
      using mset_concat_update [of "ms_jobSubscribers m" jobID "?l @ [a]"] wf new
      by (simp add: subs_wf_def all_subs_def)
  qed (use wf new in \<open>simp_all add: subs_wf_def\<close>)
qed

lemma SubscribeRunLogs_wf:
  assumes wf: "subs_wf m" and sub: "SubscribeRunLogs m runID = (a, m')"
  shows "subs_wf m'"
proof -
  let ?l = "slice_at (ms_runSubscribers m) runID"
  obtain c where new: "a = length (ms_chans m)" "ms_chans m' = ms_chans m @ [c]" "\<not> ch_closed c"
      "ms_runSubscribers m' = AList.update runID (?l @ [a]) (ms_runSubscribers m)"
      "ms_jobSubscribers m' = ms_jobSubscribers m"
    using sub by (auto simp: SubscribeRunLogs_def Let_def)
  show ?thesis
  proof (rule subs_wf_subscribe [OF wf _ _ new(2,3)])
    show "mset (all_subs m') = mset (length (ms_chans m) # all_subs m)"
      using mset_concat_update [of "ms_runSubscribers m" runID "?l @ [a]"] wf new
      by (simp add: subs_wf_def all_subs_def)
  qed (use wf new in \<open>simp_all add: subs_wf_def\<close>)
qed

lemma close_slice_ok:
  assumes wf: "subs_wf m" and l: "distinct l" "set l \<subseteq> set (all_subs m)"
  obtains cs where "chan_close_all (ms_chans m) l = Inr cs" "length cs = length (ms_chans m)"
      "\<And>b. ch_closed (cs ! b) \<longleftrightarrow> ch_closed (ms_chans m ! b) \<or> b \<in> set l"
proof -
  have "a < length (ms_chans m) \<and> \<not> ch_closed (ms_chans m ! a)" if "a \<in> set l" for a
    using wf l(2) that by (auto simp: subs_wf_def)
  from close_all_ok [OF l(1) this] show ?thesis using that by blast
qed

lemma CloseJobLogSubscribers_wf:
  assumes wf: "subs_wf m"
  obtains m' where "CloseJobLogSubscribers m jobID = Inr m'" "subs_wf m'"
    "\<And>b. ch_closed (ms_chans m' ! b) \<longleftrightarrow> ch_closed (ms_chans m ! b) \<or> b \<in> set (slice_at (ms_jobSubscribers m) jobID)"
    "slice_at (ms_jobSubscribers m') jobID = []"
proof -
  let ?l = "slice_at (ms_jobSubscribers m) jobID"
  have "distinct ?l" using wf by (intro distinct_slice_at) (simp add: subs_wf_def all_subs_def)
  then obtain cs where cs: "chan_close_all (ms_chans m) ?l = Inr cs" "length cs = length (ms_chans m)"
      "\<And>b. ch_closed (cs ! b) \<longleftrightarrow> ch_closed (ms_chans m ! b) \<or> b \<in> set ?l"
    using close_slice_ok [OF wf] slice_at_all_subs(2) by metis
  let ?m' = "m\<lparr>ms_chans := cs, ms_jobSubscribers := AList.delete jobID (ms_jobSubscribers m)\<rparr>"
  have "mset (all_subs m) = mset (all_subs ?m' @ ?l)"
    using mset_concat_delete [of "ms_jobSubscribers m" jobID] wf by (simp add: subs_wf_def all_subs_def)
  then have "subs_wf ?m'"
    using wf cs by (intro subs_wf_unsubscribe [OF wf]) (simp_all add: subs_wf_def)
  then show ?thesis
    using that [of ?m'] cs by (simp add: CloseJobLogSubscribers_def slice_at_def delete_conv)
qed

lemma CloseRunLogSubscribers_wf:
  assumes wf: "subs_wf m"
  obtains m' where "CloseRunLogSubscribers m runID = Inr m'" "subs_wf m'"
proof -
  let ?l = "slice_at (ms_runSubscribers m) runID"
  have "distinct ?l" using wf by (intro distinct_slice_at) (simp add: subs_wf_def all_subs_def)
  then obtain cs where cs: "chan_close_all (ms_chans m) ?l = Inr cs" "length cs = length (ms_chans m)"
      "\<And>b. ch_closed (cs ! b) \<longleftrightarrow> ch_closed (ms_chans m ! b) \<or> b \<in> set ?l"
    using close_slice_ok [OF wf] slice_at_all_subs(1) by metis
  let ?m' = "m\<lparr>ms_chans := cs, ms_runSubscribers := AList.delete runID (ms_runSubscribers m)\<rparr>"
  have "mset (all_subs m) = mset (all_subs ?m' @ ?l)"
    using mset_concat_delete [of "ms_runSubscribers m" runID] wf by (simp add: subs_wf_def all_subs_def)
  then have "subs_wf ?m'"
    using wf cs by (intro subs_wf_unsubscribe [OF wf]) (simp_all add: subs_wf_def)
  then show ?thesis using that [of ?m'] cs by (simp add: CloseRunLogSubscribers_def)
qed

lemma SubscribeJobLogs_done_wf:
  assumes wf: "subs_wf m" and a: "a \<in> set (slice_at (ms_jobSubscribers m) jobID)"
  obtains m' where "SubscribeJobLogs_done m jobID a = Inr m'" "subs_wf m'"
proof -
  let ?l = "slice_at (ms_jobSubscribers m) jobID"
  have "a \<in> set (all_subs m)" by (rule subsetD [OF slice_at_all_subs(2) a])
  then have al: "a < length (ms_chans m)" "\<not> ch_closed (ms_chans m ! a)" using wf by (auto simp: subs_wf_def)
  let ?m' = "m\<lparr>ms_jobSubscribers := AList.update jobID (remove1 a ?l) (ms_jobSubscribers m),
               ms_chans := (ms_chans m)[a := (ms_chans m ! a)\<lparr>ch_closed := True\<rparr>]\<rparr>"
  have eq: "SubscribeJobLogs_done m jobID a = Inr ?m'"
    using a al by (simp add: SubscribeJobLogs_done_def chan_close_def Let_def)
  define r where "r = remove1 a ?l"
  have "mset ?l = add_mset a (mset r)" using a by (simp add: r_def)
  then have "add_mset a (mset (concat (map snd (AList.update jobID r (ms_jobSubscribers m))))) + mset r =
      mset (concat (map snd (ms_jobSubscribers m))) + mset r"
    using mset_concat_update [of "ms_jobSubscribers m" jobID r] wf by (simp add: subs_wf_def)
  then have "mset (concat (map snd (ms_jobSubscribers m))) =
      add_mset a (mset (concat (map snd (AList.update jobID r (ms_jobSubscribers m)))))"
    by (metis add_right_cancel)
  then have "mset (all_subs m) = mset (all_subs ?m' @ [a])"
    by (simp add: all_subs_def r_def [symmetric])
  then have "subs_wf ?m'"
    using wf al by (intro subs_wf_unsubscribe [OF wf]) (auto simp: subs_wf_def nth_list_update)
  then show ?thesis using that eq by blast
qed

text \<open>
  The stores a process can reach through the log operations, where a subscriber's context ends
  while the subscription still stands.
\<close>

inductive log_reachable :: "MemStore \<Rightarrow> bool" where
  new: "log_reachable NewMemStore"
| create: "log_reachable m \<Longrightarrow> log_reachable (CreateRun m run)"
| append: "log_reachable m \<Longrightarrow> AppendRunLog m runID line = Inr m' \<Longrightarrow> log_reachable m'"
| sub_job: "log_reachable m \<Longrightarrow> SubscribeJobLogs m jobID = Some (a, m') \<Longrightarrow> log_reachable m'"
| sub_run: "log_reachable m \<Longrightarrow> SubscribeRunLogs m runID = (a, m') \<Longrightarrow> log_reachable m'"
| close_job: "log_reachable m \<Longrightarrow> CloseJobLogSubscribers m jobID = Inr m' \<Longrightarrow> log_reachable m'"
| close_run: "log_reachable m \<Longrightarrow> CloseRunLogSubscribers m runID = Inr m' \<Longrightarrow> log_reachable m'"
| ended: "log_reachable m \<Longrightarrow> a \<in> set (slice_at (ms_jobSubscribers m) jobID) \<Longrightarrow>
    SubscribeJobLogs_done m jobID a = Inr m' \<Longrightarrow> log_reachable m'"

lemma log_reachable_wf: "log_reachable m \<Longrightarrow> subs_wf m"
proof (induction rule: log_reachable.induct)
  case new
  then show ?case by (simp add: subs_wf_def all_subs_def NewMemStore_def)
next
  case (create m run)
  then show ?case by (simp add: subs_wf_def all_subs_def CreateRun_def)
next
  case (append m runID line m')
  then show ?case using AppendRunLog_total [of m runID line] by auto
next
  case (sub_job m jobID a m')
  then show ?case using SubscribeJobLogs_wf by blast
next
  case (sub_run m runID a m')
  then show ?case using SubscribeRunLogs_wf by blast
next
  case (close_job m jobID m')
  then show ?case using CloseJobLogSubscribers_wf [of m jobID] by (metis sum.inject(2))
next
  case (close_run m runID m')
  then show ?case using CloseRunLogSubscribers_wf [of m runID] by (metis sum.inject(2))
next
  case (ended m a jobID m')
  then show ?case using SubscribeJobLogs_done_wf [of m a jobID] by (metis sum.inject(2))
qed

text \<open>
  On every reachable store, appending to a run's log succeeds (no send reaches a closed channel),
  the run's log grows by exactly the new bytes, and the logs of the other runs do not change.
\<close>

lemma AppendRunLog_appends:
  assumes "log_reachable m"
  shows "\<exists>m'. AppendRunLog m runID line = Inr m' \<and>
           (\<forall>r. GetRunLogReader m' r = GetRunLogReader m r @ (if r = runID then line else []))"
proof -
  obtain m' where m': "AppendRunLog m runID line = Inr m'"
    using AppendRunLog_total [OF log_reachable_wf [OF assms]] by blast
  then have "ms_runLogs m' = AList.update runID (GetRunLogReader m runID @ line) (ms_runLogs m)"
    by (auto simp: AppendRunLog_def GetRunLogReader_def Let_def split: sum.splits)
  then show ?thesis using m' by (auto simp: GetRunLogReader_def update_conv')
qed

text \<open>
  A job-log subscriber whose job finishes first makes the process panic: the manager closes the
  channel in \<open>CloseJobLogSubscribers\<close>, and when the subscriber's context ends the goroutine of
  \<open>SubscribeJobLogs\<close> closes it a second time.
\<close>

lemma SubscribeJobLogs_double_close:
  assumes "log_reachable m" and "SubscribeJobLogs m jobID = Some (a, m1)"
  shows "\<exists>m2. CloseJobLogSubscribers m1 jobID = Inr m2 \<and>
           SubscribeJobLogs_done m2 jobID a = Inl (Panic ''close of closed channel'')"
proof -
  have wf1: "subs_wf m1" using assms log_reachable.sub_job log_reachable_wf by blast
  have a: "a \<in> set (slice_at (ms_jobSubscribers m1) jobID)"
    using assms(2) by (auto simp: SubscribeJobLogs_def Let_def slice_at_def update_conv' split: if_splits)
  obtain m2 where m2: "CloseJobLogSubscribers m1 jobID = Inr m2"
      "ch_closed (ms_chans m2 ! a)" "slice_at (ms_jobSubscribers m2) jobID = []"
    using CloseJobLogSubscribers_wf [OF wf1, of jobID] a by metis
  then show ?thesis by (simp add: SubscribeJobLogs_done_def chan_close_def)
qed

end
