(* ===== verification/Store_Queries.thy ===== *)
theory Store_Queries
  imports Mem_Store
begin

text \<open>
  The listing operations of the in-memory store: pages of root jobs, children in creation order,
  pending jobs by priority. Go iterates a map in an unspecified order that may change from call to
  call; a different order is a permutation of the association list.
\<close>

section \<open>Pages\<close>

lemma created_desc_key: "created_desc = (\<lambda>a b. - jCreatedAt a < - jCreatedAt b)"
  by (auto simp: created_desc_def fun_eq_iff)

lemma created_asc_key: "created_asc = (\<lambda>a b. jCreatedAt a < jCreatedAt b)"
  by (auto simp: created_asc_def fun_eq_iff)

definition all_roots :: "MemStore \<Rightarrow> Job list" where
  "all_roots m = sort_slice created_desc (root_jobs m)"

lemma all_roots_perm:
  assumes "mset (ms_jobs m) = mset (ms_jobs m')" and "inj_on jCreatedAt (set (root_jobs m))"
  shows "all_roots m' = all_roots m"
proof -
  have "mset (root_jobs m) = mset (root_jobs m')"
    using assms(1) by (simp add: root_jobs_def mset_filter)
  moreover have "inj_on (\<lambda>j. - jCreatedAt j) (set (root_jobs m))"
    using assms(2) by (simp add: inj_on_def)
  ultimately show ?thesis
    using sort_slice_unique [of "root_jobs m" "root_jobs m'" "\<lambda>j. - jCreatedAt j"]
    by (simp add: all_roots_def created_desc_key)
qed

lemma cursor_start_nth:
  "distinct (map jID js) \<Longrightarrow> k < length js \<Longrightarrow> cursor_start js (jID (js ! k)) = Some (Suc k)"
proof (induction js arbitrary: k)
  case Nil
  then show ?case by simp
next
  case (Cons j js)
  then show ?case
  proof (cases k)
    case 0
    then show ?thesis by simp
  next
    case (Suc i)
    then have "jID j \<noteq> jID (js ! i)" using Cons.prems by auto
    then show ?thesis using Suc Cons by simp
  qed
qed

text \<open>The cursor of a page that starts at position \<open>k\<close>.\<close>

definition cursor_at :: "Job list \<Rightarrow> nat \<Rightarrow> string" where
  "cursor_at js k = (if k = 0 then [] else jID (js ! (k - 1)))"

lemma ListJobs_at:
  assumes ids: "distinct (map jID (all_roots m))" "\<forall>j \<in> set (all_roots m). jID j \<noteq> []"
    and k: "k \<le> length (all_roots m)" and limit: "0 < limit" "int (length (all_roots m)) + limit \<le> max_int64"
  shows "ListJobs m (cursor_at (all_roots m) k) limit =
     Inr (take (nat limit) (drop k (all_roots m)),
          if k + nat limit < length (all_roots m) then cursor_at (all_roots m) (k + nat limit) else [])"
proof -
  define js where "js = all_roots m"
  have nonempty: "jID (js ! i) \<noteq> []" if "i < length js" for i
    using ids(2) that by (simp add: js_def)
  have start: "(if cursor_at js k = [] then 0
         else case cursor_start js (cursor_at js k) of None \<Rightarrow> 0 | Some s \<Rightarrow> s) = k"
  proof (cases k)
    case 0
    then show ?thesis by (simp add: cursor_at_def)
  next
    case (Suc i)
    then show ?thesis
      using cursor_start_nth [of js i] ids(1) k nonempty [of i] by (simp add: cursor_at_def js_def)
  qed
  have wrap: "wrap64 (int k + limit) = int k + limit"
    using limit k by (intro wrap64_id) (simp add: in_int64_def min_int64_def)
  have e: "(if int (length js) < int k + limit then int (length js) else int k + limit) =
      min (int (length js)) (int k + limit)" by simp
  have nlt: "\<not> min (int (length js)) (int k + limit) < int k" if "\<not> length js \<le> k"
    using that limit by simp
  have eq: "ListJobs m (cursor_at js k) limit =
     (if length js \<le> k then Inr ([], [])
      else let e = min (int (length js)) (int k + limit); page = take (nat e - k) (drop k js)
           in if e < int (length js)
              then (if page = [] then Inl (Panic ''index out of range'') else Inr (page, jID (last page)))
              else Inr (page, []))"
    unfolding ListJobs_def all_roots_def [symmetric] js_def [symmetric] Let_def start wrap e
    using nlt by simp
  show ?thesis
  proof (cases "k + nat limit < length js")
    case True
    then have "take (nat limit) (drop k js) \<noteq> []" and "length (take (nat limit) (drop k js)) = nat limit"
      using limit by auto
    moreover have "last (take (nat limit) (drop k js)) = js ! (k + nat limit - 1)"
      using calculation True limit by (simp add: last_conv_nth)
    moreover have "min (int (length js)) (int k + limit) = int k + limit" and "nat (int k + limit) - k = nat limit"
        and "int k + limit < int (length js)"
      using True limit by auto
    ultimately show ?thesis
      using True limit eq by (simp add: js_def [symmetric] cursor_at_def Let_def)
  next
    case False
    then have "min (int (length js)) (int k + limit) = int (length js)" using limit by auto
    then show ?thesis using False eq k by (auto simp: js_def [symmetric] Let_def)
  qed
qed

text \<open>A client that follows the cursor, one call after the other.\<close>

fun ListJobs_pages :: "MemStore list \<Rightarrow> string \<Rightarrow> int \<Rightarrow> Job list" where
  "ListJobs_pages [] cursor limit = []"
| "ListJobs_pages (m # ms) cursor limit =
     (case ListJobs m cursor limit of
        Inl e \<Rightarrow> []
      | Inr (page, next) \<Rightarrow> page @ (if next = [] then [] else ListJobs_pages ms next limit))"

lemma ListJobs_pages_from:
  assumes "\<forall>m \<in> set ms. all_roots m = js" and "distinct (map jID js)" "\<forall>j \<in> set js. jID j \<noteq> []"
    and "0 < limit" "int (length js) + limit \<le> max_int64"
    and "k \<le> length js" "length js - k \<le> length ms"
  shows "ListJobs_pages ms (cursor_at js k) limit = drop k js"
  using assms(1,6,7)
proof (induction ms arbitrary: k)
  case Nil
  then show ?case by simp
next
  case (Cons m ms)
  have page: "ListJobs m (cursor_at js k) limit =
     Inr (take (nat limit) (drop k js),
          if k + nat limit < length js then cursor_at js (k + nat limit) else [])"
    using ListJobs_at [of m k limit] assms(2-5) Cons.prems by simp
  show ?case
  proof (cases "k + nat limit < length js")
    case True
    have "cursor_at js (k + nat limit) \<noteq> []"
      using assms(3,4) True by (simp add: cursor_at_def)
    moreover have "ListJobs_pages ms (cursor_at js (k + nat limit)) limit = drop (k + nat limit) js"
      using Cons.prems True assms(4) by (intro Cons.IH) auto
    moreover have "take (nat limit) (drop k js) @ drop (k + nat limit) js = drop k js"
      by (metis append_take_drop_id drop_drop add.commute)
    ultimately show ?thesis using page True by simp
  next
    case False
    then show ?thesis using page assms(4) by simp
  qed
qed

lemma store_wf_roots:
  assumes "store_wf m"
  shows "distinct (map jID (all_roots m))"
proof -
  have "map jID (map snd (ms_jobs m)) = map fst (ms_jobs m)"
    using assms by (simp add: store_wf_def case_prod_beta)
  moreover have "distinct (map fst (ms_jobs m))"
    using assms by (simp add: store_wf_def keys_distinct_def)
  ultimately have "distinct (map jID (map snd (ms_jobs m)))" by (simp only:)
  then have "distinct (map jID (root_jobs m))"
    unfolding root_jobs_def by (rule distinct_map_filter)
  moreover have "mset (map jID (all_roots m)) = mset (map jID (root_jobs m))"
    by (simp add: all_roots_def)
  ultimately show ?thesis using mset_eq_imp_distinct_iff by blast
qed

text \<open>
  C28: following the cursor from the start, with any positive page size, lists every root job exactly
  once, newest first, however the map is iterated in each call, provided that creation times are
  distinct.
\<close>

theorem ListJobs_pages_complete:
  assumes "store_wf m" and "\<forall>m' \<in> set ms. mset (ms_jobs m') = mset (ms_jobs m)"
    and "inj_on jCreatedAt (set (root_jobs m))" and "\<forall>j \<in> set (root_jobs m). jID j \<noteq> []"
    and "0 < limit" and "int (length (root_jobs m)) + limit \<le> max_int64"
    and "length (root_jobs m) \<le> length ms"
  shows "ListJobs_pages ms [] limit = sort_slice created_desc (root_jobs m)"
proof -
  have perm: "all_roots m' = all_roots m" if "m' \<in> set ms" for m'
    using all_roots_perm [OF _ assms(3)] assms(2) that by metis
  have "length (all_roots m) = length (root_jobs m)" "set (all_roots m) = set (root_jobs m)"
    by (simp_all add: all_roots_def)
  then have "ListJobs_pages ms (cursor_at (all_roots m) 0) limit = drop 0 (all_roots m)"
    using assms(4-7) store_wf_roots [OF assms(1)] perm by (intro ListJobs_pages_from) auto
  then show ?thesis by (simp add: cursor_at_def all_roots_def)
qed

theorem ListJobs_pages_complete_witness:
  "let a = Job_zero\<lparr>jID := ''a'', jCreatedAt := 1\<rparr>; b = Job_zero\<lparr>jID := ''b'', jCreatedAt := 2\<rparr>;
       m = NewMemStore\<lparr>ms_jobs := [(''a'', a), (''b'', b)]\<rparr>;
       m' = NewMemStore\<lparr>ms_jobs := [(''b'', b), (''a'', a)]\<rparr>
   in ListJobs_pages [m, m'] [] 1 = [b, a]"
proof -
  define a where "a = Job_zero\<lparr>jID := ''a'', jCreatedAt := 1\<rparr>"
  define b where "b = Job_zero\<lparr>jID := ''b'', jCreatedAt := 2\<rparr>"
  let ?m = "NewMemStore\<lparr>ms_jobs := [(''a'', a), (''b'', b)]\<rparr>"
  let ?m' = "NewMemStore\<lparr>ms_jobs := [(''b'', b), (''a'', a)]\<rparr>"
  have f: "jID a = ''a''" "jID b = ''b''" "jCreatedAt a = 1" "jCreatedAt b = 2"
      "jParentJobID a = []" "jParentJobID b = []"
    by (simp_all add: a_def b_def Job_zero_def)
  have r: "root_jobs ?m = [a, b]" by (simp add: root_jobs_def f)
  have "store_wf ?m" by (simp add: store_wf_def keys_distinct_def f NewMemStore_def)
  then have "ListJobs_pages [?m, ?m'] [] 1 = sort_slice created_desc [a, b]"
    using ListJobs_pages_complete [of ?m "[?m, ?m']" 1] r
    by (simp add: f max_int64_def add_mset_commute inj_on_def)
  also have "\<dots> = [b, a]" by (simp add: sort_slice_def created_desc_def f)
  finally show ?thesis by (simp add: Let_def a_def b_def)
qed

end
