(* ===== verification/Locksmith_Cache.thy ===== *)
theory Locksmith_Cache
  imports Contract_Types
begin

text \<open>
  The cache of \<^verbatim>\<open>manager/locksmith/cache.go\<close>. The map and the recency list share \<^verbatim>\<open>list.Element\<close>
  pointers, so the elements live in a store and both hold addresses; the front of a list is its
  head.
\<close>

section \<open>The cache\<close>

record ('k, 'v) entry =
  e_key :: 'k
  e_value :: 'v
  e_expiry :: time
  e_quarantine :: bool

record ('k, 'v) Cache =
  c_capacity :: int
  c_cache :: "('k, nat) gomap"
  c_lruList :: "nat list"
  c_ttl :: duration
  c_quarantineTTL :: duration
  c_quarantine :: "('k, time) gomap"
  c_quarantineList :: "'k list"
  c_elems :: "('k, 'v) entry list"

type_synonym ('k, 'v) Option = "('k, 'v) Cache \<Rightarrow> ('k, 'v) Cache"

definition NewCache :: "('k, 'v) Option list \<Rightarrow> ('k, 'v) Cache" where
  "NewCache opts =
     foldl (\<lambda>c opt. opt c)
       \<lparr>c_capacity = 100, c_cache = [], c_lruList = [], c_ttl = 15 * Minute, c_quarantineTTL = 15 * Minute,
        c_quarantine = [], c_quarantineList = [], c_elems = []\<rparr> opts"

definition WithCapacity :: "int \<Rightarrow> ('k, 'v) Option" where
  "WithCapacity n c = c\<lparr>c_capacity := n\<rparr>"

definition WithLRU :: "bool \<Rightarrow> ('k, 'v) Option" where
  "WithLRU enabled c = c"

definition WithTTL :: "duration \<Rightarrow> ('k, 'v) Option" where
  "WithTTL t c = c\<lparr>c_ttl := t\<rparr>"

definition WithQuarantine :: "duration \<Rightarrow> ('k, 'v) Option" where
  "WithQuarantine t c = c\<lparr>c_quarantineTTL := t\<rparr>"

definition MoveToFront :: "nat \<Rightarrow> nat list \<Rightarrow> nat list" where
  "MoveToFront a xs = (if a \<in> set xs then a # remove1 a xs else xs)"

definition cache_evict :: "('k, 'v) Cache \<Rightarrow> ('k, 'v) Cache" where
  "cache_evict c =
     (if c_lruList c = [] then c
      else let a = last (c_lruList c)
           in c\<lparr>c_lruList := butlast (c_lruList c), c_cache := AList.delete (e_key (c_elems c ! a)) (c_cache c)\<rparr>)"

definition cache_Put :: "('k, 'v) Cache \<Rightarrow> 'k \<Rightarrow> 'v \<Rightarrow> time \<Rightarrow> ('k, 'v) Cache" where
  "cache_Put c key v now =
     (case map_of (c_cache c) key of
        Some a \<Rightarrow>
          c\<lparr>c_elems := (c_elems c)[a := (c_elems c ! a)\<lparr>e_value := v\<rparr>], c_lruList := MoveToFront a (c_lruList c)\<rparr>
      | None \<Rightarrow>
          (let c1 = (if c_capacity c \<le> int (length (c_cache c)) then cache_evict c else c);
               a = length (c_elems c1)
           in c1\<lparr>c_elems := c_elems c1 @ [\<lparr>e_key = key, e_value = v, e_expiry = now + c_ttl c1, e_quarantine = False\<rparr>],
                 c_lruList := a # c_lruList c1,
                 c_cache := AList.update key a (c_cache c1)\<rparr>))"

definition quarantineItem :: "('k, 'v) Cache \<Rightarrow> 'k \<Rightarrow> time \<Rightarrow> ('k, 'v) Cache" where
  "quarantineItem c key now =
     (case map_of (c_cache c) key of
        None \<Rightarrow> c
      | Some a \<Rightarrow>
          c\<lparr>c_elems := (c_elems c)[a := (c_elems c ! a)\<lparr>e_quarantine := True\<rparr>],
            c_quarantine := AList.update key now (c_quarantine c),
            c_quarantineList := key # c_quarantineList c\<rparr>)"

definition cache_Get :: "('k, 'v) Cache \<Rightarrow> 'k \<Rightarrow> time \<Rightarrow> 'v option \<times> ('k, 'v) Cache" where
  "cache_Get c key now =
     (case map_of (c_cache c) key of
        None \<Rightarrow> (None, c)
      | Some a \<Rightarrow>
          (let ent = c_elems c ! a
           in if e_expiry ent < now
              then (None, if e_quarantine ent then c else quarantineItem c key now)
              else (Some (e_value ent), c\<lparr>c_lruList := MoveToFront a (c_lruList c)\<rparr>)))"

fun QuarantineExpired_loop :: "('k, 'v) Cache \<Rightarrow> ('k, nat) gomap \<Rightarrow> time \<Rightarrow> ('k, 'v) Cache" where
  "QuarantineExpired_loop c [] now = c"
| "QuarantineExpired_loop c ((key, a) # rest) now =
     QuarantineExpired_loop
       (if e_expiry (c_elems c ! a) < now \<and> \<not> e_quarantine (c_elems c ! a) then quarantineItem c key now else c)
       rest now"

definition QuarantineExpiredItems :: "('k, 'v) Cache \<Rightarrow> time \<Rightarrow> ('k, 'v) Cache" where
  "QuarantineExpiredItems c now = QuarantineExpired_loop c (c_cache c) now"

text \<open>
  One round of the loop of \<open>QuarantineEvict\<close>: \<open>None\<close> leaves the loop. A key missing from the
  quarantine map reads as the zero time.
\<close>

definition QuarantineEvict_round :: "('k, 'v) Cache \<Rightarrow> time \<Rightarrow> ('k, 'v) Cache option" where
  "QuarantineEvict_round c now =
     (if c_quarantineList c = [] then None
      else let key = last (c_quarantineList c);
               since = (case map_of (c_quarantine c) key of None \<Rightarrow> 0 | Some t \<Rightarrow> t)
           in if since + c_quarantineTTL c < now
              then Some (c\<lparr>c_quarantineList := butlast (c_quarantineList c),
                           c_cache := AList.delete key (c_cache c),
                           c_quarantine := AList.delete key (c_quarantine c)\<rparr>)
              else Some c)"

text \<open>The loop with one clock reading per round; \<open>None\<close> when it has not left after those rounds.\<close>

fun QuarantineEvict :: "('k, 'v) Cache \<Rightarrow> time list \<Rightarrow> ('k, 'v) Cache option" where
  "QuarantineEvict c [] = None"
| "QuarantineEvict c (now # clock) =
     (case QuarantineEvict_round c now of None \<Rightarrow> Some c | Some c' \<Rightarrow> QuarantineEvict c' clock)"

definition cache_Size :: "('k, 'v) Cache \<Rightarrow> nat" where
  "cache_Size c = length (c_cache c)"

definition IncreaseTTL :: "('k, 'v) Cache \<Rightarrow> 'k \<Rightarrow> time \<Rightarrow> ('k, 'v) Cache res" where
  "IncreaseTTL c key now =
     (case map_of (c_cache c) key of
        None \<Rightarrow> Inl (Errorf ''unknown key'')
      | Some a \<Rightarrow> Inr (c\<lparr>c_elems := (c_elems c)[a := (c_elems c ! a)\<lparr>e_expiry := now + c_ttl c\<rparr>]\<rparr>))"

section \<open>The map and the recency list agree\<close>

definition cache_wf :: "('k, 'v) Cache \<Rightarrow> bool" where
  "cache_wf c \<longleftrightarrow>
     keys_distinct (c_cache c) \<and> distinct (c_lruList c) \<and> snd ` set (c_cache c) = set (c_lruList c) \<and>
     (\<forall>(k, a) \<in> set (c_cache c). a < length (c_elems c) \<and> e_key (c_elems c ! a) = k)"

lemma cache_wf_New: "cache_wf (NewCache [])"
  by (simp add: cache_wf_def NewCache_def)

lemma cache_wfD:
  assumes "cache_wf c" "map_of (c_cache c) k = Some a"
  shows "a < length (c_elems c)" "e_key (c_elems c ! a) = k" "a \<in> set (c_lruList c)"
  using assms map_of_SomeD [OF assms(2)] unfolding cache_wf_def by force+

lemma cache_wf_entry: "cache_wf c \<Longrightarrow> (k, a) \<in> set (c_cache c) \<Longrightarrow> a < length (c_elems c) \<and> e_key (c_elems c ! a) = k"
  by (auto simp: cache_wf_def)

lemma inj_on_cache:
  assumes "cache_wf c"
  shows "inj_on snd (set (c_cache c))"
proof (rule inj_onI)
  fix x y assume xy: "x \<in> set (c_cache c)" "y \<in> set (c_cache c)" "snd x = snd y"
  have "e_key (c_elems c ! snd x) = fst x" and "e_key (c_elems c ! snd y) = fst y"
    using xy cache_wf_entry [OF assms] by (metis prod.collapse)+
  then have "fst x = fst y" using xy(3) by simp
  then show "x = y" using xy(3) by (rule prod_eqI)
qed

lemma cache_length:
  assumes "cache_wf c"
  shows "length (c_lruList c) = length (c_cache c)"
proof -
  have "distinct (c_cache c)"
    using assms by (simp add: cache_wf_def keys_distinct_def distinct_map)
  then have "length (c_cache c) = card (snd ` set (c_cache c))"
    using inj_on_cache [OF assms] by (simp add: card_image distinct_card)
  then show ?thesis using assms by (simp add: cache_wf_def distinct_card)
qed

lemma set_MoveToFront [simp]: "set (MoveToFront a xs) = set xs"
  by (induction xs) (auto simp: MoveToFront_def)

lemma distinct_MoveToFront [simp]: "distinct xs \<Longrightarrow> distinct (MoveToFront a xs)"
  by (simp add: MoveToFront_def)

lemma e_key_update [simp]:
  "e_key ((xs[a := (xs ! a)\<lparr>e_value := v\<rparr>]) ! b) = e_key (xs ! b)"
  "e_key ((xs[a := (xs ! a)\<lparr>e_quarantine := q\<rparr>]) ! b) = e_key (xs ! b)"
  "e_key ((xs[a := (xs ! a)\<lparr>e_expiry := t\<rparr>]) ! b) = e_key (xs ! b)"
  by (cases "a = b"; cases "a < length xs"; simp add: list_update_beyond)+

lemma cache_wf_evict:
  assumes wf: "cache_wf c"
  shows "cache_wf (cache_evict c)"
proof (cases "c_lruList c = []")
  case True
  then show ?thesis using wf by (simp add: cache_evict_def)
next
  case False
  let ?a = "last (c_lruList c)"
  have "?a \<in> snd ` set (c_cache c)" using wf False by (simp add: cache_wf_def)
  then obtain k where k: "(k, ?a) \<in> set (c_cache c)" by force
  then have key: "e_key (c_elems c ! ?a) = k" using wf by (auto simp: cache_wf_def)
  have only: "b \<noteq> ?a" if "(k', b) \<in> set (c_cache c)" "k' \<noteq> k" for k' b
    using wf that key by (auto simp: cache_wf_def)
  have uniq: "b = ?a" if "(k, b) \<in> set (c_cache c)" for b
    using wf that k unfolding cache_wf_def keys_distinct_def by (metis eq_key_imp_eq_value)
  have split: "set (c_lruList c) = insert ?a (set (butlast (c_lruList c)))" "?a \<notin> set (butlast (c_lruList c))"
    using append_butlast_last_id [OF False] wf unfolding cache_wf_def
    by (metis Un_insert_right append_Nil2 list.simps(15) set_append, metis distinct_append disjoint_insert(1) list.simps(15) inf_commute)
  have "snd ` set (AList.delete k (c_cache c)) = snd ` set (c_cache c) - {?a}"
    using only uniq by (force simp: AList.delete_eq)
  then have "snd ` set (AList.delete k (c_cache c)) = set (butlast (c_lruList c))"
    using wf split by (simp add: cache_wf_def)
  moreover have "distinct (butlast (c_lruList c))" using wf by (simp add: cache_wf_def distinct_butlast)
  moreover have "set (AList.delete k (c_cache c)) \<subseteq> set (c_cache c)" by (auto simp: AList.delete_eq)
  ultimately show ?thesis
    using wf False key by (auto simp: cache_evict_def cache_wf_def Let_def)
qed

lemma update_fresh: "map_of m k = None \<Longrightarrow> AList.update k v m = m @ [(k, v)]"
  by (induction m) (auto split: if_splits)

lemma cache_wf_Put:
  assumes wf: "cache_wf c"
  shows "cache_wf (cache_Put c key v now)"
proof (cases "map_of (c_cache c) key")
  case (Some a)
  then show ?thesis using wf by (simp add: cache_Put_def cache_wf_def)
next
  case None
  define c1 where "c1 = (if c_capacity c \<le> int (length (c_cache c)) then cache_evict c else c)"
  have wf1: "cache_wf c1" using wf cache_wf_evict [OF wf] by (simp add: c1_def)
  have none: "map_of (c_cache c1) key = None"
    using None by (auto simp: c1_def cache_evict_def Let_def)
  let ?a = "length (c_elems c1)"
  have upd: "AList.update key ?a (c_cache c1) = c_cache c1 @ [(key, ?a)]"
    using none by (rule update_fresh)
  have fresh: "?a \<notin> set (c_lruList c1)"
    using wf1 by (auto simp: cache_wf_def dest!: equalityD2 subsetD)
  have put: "cache_Put c key v now =
      c1\<lparr>c_elems := c_elems c1 @ [\<lparr>e_key = key, e_value = v, e_expiry = now + c_ttl c1, e_quarantine = False\<rparr>],
         c_lruList := ?a # c_lruList c1, c_cache := c_cache c1 @ [(key, ?a)]\<rparr>"
    using None upd by (simp add: cache_Put_def Let_def c1_def)
  show ?thesis
    unfolding put using wf1 none fresh
    by (auto simp: cache_wf_def nth_append keys_distinct_def map_of_eq_None_iff)
qed

lemma cache_wf_Get:
  assumes wf: "cache_wf c"
  shows "cache_wf (snd (cache_Get c key now))"
  using wf by (auto simp: cache_Get_def Let_def quarantineItem_def cache_wf_def split: option.splits)

text \<open>The states the worker connections drive their caches through.\<close>

inductive cache_reachable :: "int \<Rightarrow> duration \<Rightarrow> ('k, 'v) Cache \<Rightarrow> bool" for n ttl where
  new: "cache_reachable n ttl (NewCache [WithLRU True, WithTTL ttl, WithCapacity n])"
| put: "cache_reachable n ttl c \<Longrightarrow> cache_reachable n ttl (cache_Put c k v now)"
| get: "cache_reachable n ttl c \<Longrightarrow> cache_reachable n ttl (snd (cache_Get c k now))"

lemma cache_Put_fields [simp]:
  "c_capacity (cache_Put c k v now) = c_capacity c" "c_ttl (cache_Put c k v now) = c_ttl c"
  by (auto simp: cache_Put_def cache_evict_def Let_def split: option.splits)

lemma cache_Get_fields [simp]:
  "c_capacity (snd (cache_Get c k now)) = c_capacity c" "c_ttl (snd (cache_Get c k now)) = c_ttl c"
  "c_cache (snd (cache_Get c k now)) = c_cache c"
  by (auto simp: cache_Get_def quarantineItem_def Let_def split: option.splits)

lemma length_evict:
  assumes "cache_wf c" "c_cache c \<noteq> []"
  shows "length (c_cache (cache_evict c)) < length (c_cache c)"
proof -
  have ne: "c_lruList c \<noteq> []" using assms cache_length [OF assms(1)] by auto
  let ?a = "last (c_lruList c)"
  have "?a \<in> snd ` set (c_cache c)" using assms(1) ne by (simp add: cache_wf_def)
  then obtain k' where k': "(k', ?a) \<in> set (c_cache c)" by force
  then have "e_key (c_elems c ! ?a) = k'" using cache_wf_entry [OF assms(1)] by blast
  moreover have "length (AList.delete k' (c_cache c)) < length (c_cache c)"
    unfolding AList.delete_eq using k' by (intro length_filter_less) auto
  ultimately show ?thesis using ne by (simp add: cache_evict_def Let_def)
qed

lemma length_cache_Put:
  assumes "cache_wf c" "0 < c_capacity c" "int (length (c_cache c)) \<le> c_capacity c"
  shows "int (length (c_cache (cache_Put c k v now))) \<le> c_capacity c"
proof (cases "map_of (c_cache c) k")
  case (Some a)
  then show ?thesis using assms by (simp add: cache_Put_def)
next
  case None
  define c1 where "c1 = (if c_capacity c \<le> int (length (c_cache c)) then cache_evict c else c)"
  have "length (AList.update key a m) \<le> Suc (length m)" for key a and m :: "('a, nat) gomap"
    by (induction m) auto
  then have "length (c_cache (cache_Put c k v now)) \<le> Suc (length (c_cache c1))"
    using None by (simp add: cache_Put_def c1_def Let_def)
  moreover have "int (length (c_cache c1)) < c_capacity c"
    using assms length_evict [OF assms(1)] by (cases "c_cache c = []") (auto simp: c1_def)
  ultimately show ?thesis by linarith
qed

lemma cache_reachable_inv:
  "cache_reachable n ttl c \<Longrightarrow> 0 < n \<Longrightarrow>
     cache_wf c \<and> c_capacity c = n \<and> c_ttl c = ttl \<and> int (length (c_cache c)) \<le> n"
proof (induction rule: cache_reachable.induct)
  case new
  then show ?case by (simp add: NewCache_def WithLRU_def WithTTL_def WithCapacity_def cache_wf_def)
next
  case (put c k v now)
  then show ?case using cache_wf_Put length_cache_Put by fastforce
next
  case (get c k now)
  then show ?case using cache_wf_Get by fastforce
qed

text \<open>
  A cache with positive capacity never holds more entries than its capacity, whatever sequence of
  \<open>Put\<close> and \<open>Get\<close> calls it has seen, and its recency list holds exactly its entries, each once.
\<close>

lemma cache_capacity_bound:
  assumes "cache_reachable n ttl c" and "0 < n"
  shows "int (cache_Size c) \<le> n \<and> distinct (c_lruList c) \<and> snd ` set (c_cache c) = set (c_lruList c)"
  using cache_reachable_inv [OF assms] by (simp add: cache_Size_def cache_wf_def)

text \<open>
  A value that was just inserted is returned until its time to live has passed, and inserting a
  fresh key loses no other key unless the cache is full, in which case it loses exactly the least
  recently used one.
\<close>

lemma cache_Put_then_Get:
  assumes "cache_reachable n ttl c" and "0 < n" and "map_of (c_cache c) k = None" and "t \<le> now + ttl"
  shows "fst (cache_Get (cache_Put c k v now) k t) = Some v \<and>
         (\<forall>k'. k' \<noteq> k \<longrightarrow>
            map_of (c_cache (cache_Put c k v now)) k' =
              (if n \<le> int (length (c_cache c)) \<and> k' = e_key (c_elems c ! last (c_lruList c)) then None
               else map_of (c_cache c) k'))"
proof -
  have inv: "cache_wf c" "c_capacity c = n" "c_ttl c = ttl"
    using cache_reachable_inv [OF assms(1,2)] by simp_all
  have "c_lruList c \<noteq> []" if "n \<le> int (length (c_cache c))"
    using that assms(2) cache_length [OF inv(1)] by auto
  then show ?thesis
    using assms(3,4) inv
    by (auto simp: cache_Get_def cache_Put_def cache_evict_def Let_def update_conv' nth_append)
qed

text \<open>
  Putting a key again after its entry has expired does not revive it: \<open>Put\<close> replaces the value
  but keeps the old expiry, so every later \<open>Get\<close> still misses.
\<close>

lemma cache_Put_expired_stays_expired:
  assumes "map_of (c_cache c) k = Some a" and "a < length (c_elems c)"
    and "e_expiry (c_elems c ! a) < now" and "now \<le> t"
  shows "fst (cache_Get (cache_Put c k v now) k t) = None"
  using assms by (simp add: cache_Get_def cache_Put_def Let_def)

text \<open>A round whose oldest quarantined key has not served its time changes nothing, so the loop spins.\<close>

lemma QuarantineEvict_spins:
  assumes "c_quarantineList c \<noteq> []" "map_of (c_quarantine c) (last (c_quarantineList c)) = Some since"
    and "\<forall>now \<in> set clock. now \<le> since + c_quarantineTTL c"
  shows "QuarantineEvict c clock = None"
  using assms(3) by (induction clock) (use assms(1,2) in \<open>auto simp: QuarantineEvict_round_def Let_def\<close>)

end
