(* ===== verification/Worker_Conn.thy ===== *)
theory Worker_Conn
  imports Locksmith_Cache
begin

text \<open>
  One connected worker as the manager sees it (\<^verbatim>\<open>manager/worker_conn.go\<close>): its declared capacity, the
  cost of the jobs in flight, its heartbeat and idle times, and its connection. The set of jobs in
  flight is a \<^verbatim>\<open>sets.SimpleSet\<close> of another module: its operations are a parameter.
\<close>

section \<open>Parameters: SimpleSet\<close>

record 's SimpleSet =
  NewSimpleSet :: 's
  ss_Add :: "'s \<Rightarrow> string \<Rightarrow> 's"
  ss_Remove :: "'s \<Rightarrow> string \<Rightarrow> 's"
  ss_Has :: "'s \<Rightarrow> string \<Rightarrow> bool"
  ss_Size :: "'s \<Rightarrow> nat"
  ss_Snapshot :: "'s \<Rightarrow> string list"

text \<open>What the callers rely on: the operations are those of a finite set of strings.\<close>

definition SimpleSet_ok :: "'s SimpleSet \<Rightarrow> ('s \<Rightarrow> string set) \<Rightarrow> bool" where
  "SimpleSet_ok S elems \<longleftrightarrow>
     elems (NewSimpleSet S) = {} \<and>
     (\<forall>s x. elems (ss_Add S s x) = insert x (elems s)) \<and>
     (\<forall>s x. elems (ss_Remove S s x) = elems s - {x}) \<and>
     (\<forall>s x. ss_Has S s x \<longleftrightarrow> x \<in> elems s) \<and>
     (\<forall>s. ss_Size S s = card (elems s)) \<and>
     (\<forall>s. set (ss_Snapshot S s) = elems s \<and> distinct (ss_Snapshot S s))"

lemma SimpleSet_okD:
  assumes "SimpleSet_ok S elems"
  shows "elems (NewSimpleSet S) = {}" "elems (ss_Add S s x) = insert x (elems s)"
    "elems (ss_Remove S s x) = elems s - {x}" "ss_Has S s x \<longleftrightarrow> x \<in> elems s"
    "ss_Size S s = card (elems s)" "set (ss_Snapshot S s) = elems s" "distinct (ss_Snapshot S s)"
    "finite (elems s)"
  using assms unfolding SimpleSet_ok_def by (metis List.finite_set)+

text \<open>A set of strings kept in a list is one.\<close>

definition list_set :: "string list SimpleSet" where
  "list_set =
     \<lparr>NewSimpleSet = [], ss_Add = (\<lambda>s x. List.insert x s), ss_Remove = (\<lambda>s x. removeAll x s),
      ss_Has = (\<lambda>s x. x \<in> set s), ss_Size = (\<lambda>s. length (remdups s)), ss_Snapshot = remdups\<rparr>"

lemma list_set_ok: "SimpleSet_ok list_set set"
  by (auto simp: SimpleSet_ok_def list_set_def length_remdups_card_conv)

section \<open>The connection\<close>

text \<open>A network connection: whether it is open, and what was written to it.\<close>

record net_conn =
  nc_open :: bool
  nc_out :: "string list"

definition conn_Write :: "net_conn \<Rightarrow> string \<Rightarrow> net_conn res" where
  "conn_Write c s =
     (if nc_open c then Inr (c\<lparr>nc_out := nc_out c @ [s]\<rparr>) else Inl (Errorf ''use of closed network connection''))"

definition conn_Close :: "net_conn \<Rightarrow> net_conn res" where
  "conn_Close c =
     (if nc_open c then Inr (c\<lparr>nc_open := False\<rparr>) else Inl (Errorf ''use of closed network connection''))"

record 's WorkerConn =
  w_workerID :: string
  w_os :: string
  w_arch :: string
  w_capacity :: int
  w_connectedAt :: time
  w_conn :: net_conn
  w_state :: WorkerState
  w_cpuPercent :: real
  w_memPercent :: real
  w_inFlight :: 's
  w_occupiedCost :: int
  w_lastIdleAt :: time
  w_lastHeartbeat :: time
  w_lastIdleNotified :: time
  w_rejectedJobsCache :: "(string, unit) Cache"

definition NewWorkerConn ::
  "'s SimpleSet \<Rightarrow> string \<Rightarrow> string \<Rightarrow> string \<Rightarrow> int \<Rightarrow> net_conn \<Rightarrow> time \<Rightarrow> 's WorkerConn" where
  "NewWorkerConn S i os arch capacity conn now =
     \<lparr>w_workerID = i, w_os = os, w_arch = arch, w_capacity = capacity, w_connectedAt = now, w_conn = conn,
      w_state = WorkerStateOnline, w_cpuPercent = 0, w_memPercent = 0, w_inFlight = NewSimpleSet S,
      w_occupiedCost = 0, w_lastIdleAt = now, w_lastHeartbeat = now, w_lastIdleNotified = 0,
      w_rejectedJobsCache = NewCache [WithLRU True, WithTTL (60 * Second), WithCapacity 100]\<rparr>"

definition IsInState :: "'s WorkerConn \<Rightarrow> WorkerState \<Rightarrow> bool" where
  "IsInState w s \<longleftrightarrow> w_state w = s"

definition SetState :: "'s WorkerConn \<Rightarrow> WorkerState \<Rightarrow> 's WorkerConn" where
  "SetState w s = w\<lparr>w_state := s\<rparr>"

definition OverrideCapacity :: "'s WorkerConn \<Rightarrow> int \<Rightarrow> 's WorkerConn" where
  "OverrideCapacity w capacity = w\<lparr>w_capacity := capacity\<rparr>"

definition AvailableCapacity :: "'s WorkerConn \<Rightarrow> int" where
  "AvailableCapacity w = wrap64 (w_capacity w - w_occupiedCost w)"

definition AssignTask :: "'s SimpleSet \<Rightarrow> 's WorkerConn \<Rightarrow> string \<Rightarrow> int \<Rightarrow> 's WorkerConn res" where
  "AssignTask S w taskID cost =
     (let avail = wrap64 (w_capacity w - w_occupiedCost w)
      in if avail \<le> 0 then Inl (Sentinel ''worker at capacity'')
         else if wrap64 (avail - cost) < 0 then Inl (Sentinel ''worker has insufficient capacity'')
         else Inr (w\<lparr>w_inFlight := ss_Add S (w_inFlight w) taskID,
                     w_occupiedCost := wrap64 (w_occupiedCost w + cost),
                     w_lastIdleNotified := 0\<rparr>))"

definition CompleteTask :: "'s SimpleSet \<Rightarrow> 's WorkerConn \<Rightarrow> string \<Rightarrow> int \<Rightarrow> time \<Rightarrow> 's WorkerConn" where
  "CompleteTask S w taskID cost now =
     (let occ = wrap64 (w_occupiedCost w - cost)
      in w\<lparr>w_inFlight := ss_Remove S (w_inFlight w) taskID,
           w_occupiedCost := (if occ < 0 then 0 else occ),
           w_lastIdleAt := now\<rparr>)"

definition UpdateHeartbeat :: "'s WorkerConn \<Rightarrow> time \<Rightarrow> 's WorkerConn" where
  "UpdateHeartbeat w now = w\<lparr>w_lastHeartbeat := now\<rparr>"

definition HeartbeatTimedOut :: "'s WorkerConn \<Rightarrow> duration \<Rightarrow> time \<Rightarrow> bool" where
  "HeartbeatTimedOut w timeout now \<longleftrightarrow> timeout < now - w_lastHeartbeat w"

definition UpdateLastIdleTime :: "'s WorkerConn \<Rightarrow> time \<Rightarrow> 's WorkerConn" where
  "UpdateLastIdleTime w now = w\<lparr>w_lastIdleAt := now\<rparr>"

definition IsIdle :: "'s SimpleSet \<Rightarrow> 's WorkerConn \<Rightarrow> bool" where
  "IsIdle S w \<longleftrightarrow> ss_Size S (w_inFlight w) = 0"

definition MarkIdleNotified :: "'s WorkerConn \<Rightarrow> time \<Rightarrow> 's WorkerConn" where
  "MarkIdleNotified w now = w\<lparr>w_lastIdleNotified := now\<rparr>"

definition IdleNotificationPending :: "'s WorkerConn \<Rightarrow> bool" where
  "IdleNotificationPending w \<longleftrightarrow> IsZero (w_lastIdleNotified w)"

definition ResetIdleNotified :: "'s WorkerConn \<Rightarrow> 's WorkerConn" where
  "ResetIdleNotified w = w\<lparr>w_lastIdleNotified := 0\<rparr>"

definition Send :: "'s WorkerConn \<Rightarrow> string \<Rightarrow> 's WorkerConn res" where
  "Send w line =
     (case conn_Write (w_conn w) (line @ newline) of Inl e \<Rightarrow> Inl e | Inr c \<Rightarrow> Inr (w\<lparr>w_conn := c\<rparr>))"

definition SendWithPayload :: "'s WorkerConn \<Rightarrow> string \<Rightarrow> bytes \<Rightarrow> 's WorkerConn res" where
  "SendWithPayload w header payload =
     (case conn_Write (w_conn w) (header @ '' -- '' @ Itoa (int (length payload)) @ newline) of
        Inl e \<Rightarrow> Inl e
      | Inr c \<Rightarrow>
          (case conn_Write c payload of Inl e \<Rightarrow> Inl e | Inr c' \<Rightarrow> Inr (w\<lparr>w_conn := c'\<rparr>)))"

definition SendError :: "'s WorkerConn \<Rightarrow> string \<Rightarrow> string \<Rightarrow> 's WorkerConn" where
  "SendError w code message =
     (let safe = filter (\<lambda>c. c \<noteq> CHR 0x27) message
      in case Send w (''error --code='' @ code @ '' --message='' @ [CHR 0x27] @ safe @ [CHR 0x27]) of
           Inl e \<Rightarrow> w | Inr w' \<Rightarrow> w')"

definition inFlightIDs :: "'s SimpleSet \<Rightarrow> 's WorkerConn \<Rightarrow> string list" where
  "inFlightIDs S w = ss_Snapshot S (w_inFlight w)"

definition IsInFlight :: "'s SimpleSet \<Rightarrow> 's WorkerConn \<Rightarrow> string \<Rightarrow> bool" where
  "IsInFlight S w taskID \<longleftrightarrow> ss_Has S (w_inFlight w) taskID"

section \<open>Capacity accounting\<close>

text \<open>
  A connection's books are in order when the occupied cost is not negative and the capacity is a
  non-negative 64-bit value; the occupied cost may exceed a capacity that was lowered later.
\<close>

definition books_ok :: "'s WorkerConn \<Rightarrow> bool" where
  "books_ok w \<longleftrightarrow> 0 \<le> w_capacity w \<and> w_capacity w \<le> max_int64 \<and> 0 \<le> w_occupiedCost w \<and> w_occupiedCost w \<le> max_int64"

lemma books_ok_avail: "books_ok w \<Longrightarrow> AvailableCapacity w = w_capacity w - w_occupiedCost w"
  unfolding AvailableCapacity_def books_ok_def
  by (rule wrap64_id) (auto simp: in_int64_def min_int64_def max_int64_def)

lemma AssignTask_cases:
  assumes ok: "books_ok w" and cost: "0 \<le> cost" "cost \<le> max_int64"
  shows "AssignTask S w t cost =
     (if w_capacity w \<le> w_occupiedCost w then Inl (Sentinel ''worker at capacity'')
      else if w_capacity w < w_occupiedCost w + cost then Inl (Sentinel ''worker has insufficient capacity'')
      else Inr (w\<lparr>w_inFlight := ss_Add S (w_inFlight w) t, w_occupiedCost := w_occupiedCost w + cost,
                  w_lastIdleNotified := 0\<rparr>))"
proof -
  have a: "wrap64 (w_capacity w - w_occupiedCost w) = w_capacity w - w_occupiedCost w"
    using books_ok_avail [OF ok] by (simp add: AvailableCapacity_def)
  have b: "wrap64 (w_capacity w - w_occupiedCost w - cost) = w_capacity w - w_occupiedCost w - cost"
    if "w_occupiedCost w < w_capacity w"
    using that ok cost by (intro wrap64_id) (auto simp: books_ok_def in_int64_def min_int64_def max_int64_def)
  have c: "wrap64 (w_occupiedCost w + cost) = w_occupiedCost w + cost" if "w_occupiedCost w + cost \<le> w_capacity w"
    using that ok cost by (intro wrap64_id) (auto simp: books_ok_def in_int64_def min_int64_def max_int64_def)
  show ?thesis
    using b c by (auto simp: AssignTask_def a Let_def)
qed

lemma CompleteTask_occ:
  assumes "books_ok w" "0 \<le> cost" "cost \<le> max_int64"
  shows "w_occupiedCost (CompleteTask S w t cost now) = max 0 (w_occupiedCost w - cost)"
proof -
  have "wrap64 (w_occupiedCost w - cost) = w_occupiedCost w - cost"
    using assms by (intro wrap64_id) (auto simp: books_ok_def in_int64_def min_int64_def max_int64_def)
  then show ?thesis by (simp add: CompleteTask_def Let_def)
qed

lemma books_ok_AssignTask:
  "books_ok w \<Longrightarrow> 0 \<le> cost \<Longrightarrow> cost \<le> max_int64 \<Longrightarrow> AssignTask S w t cost = Inr w' \<Longrightarrow> books_ok w'"
  by (auto simp: AssignTask_cases books_ok_def split: if_splits)

lemma books_ok_CompleteTask:
  "books_ok w \<Longrightarrow> 0 \<le> cost \<Longrightarrow> cost \<le> max_int64 \<Longrightarrow> books_ok (CompleteTask S w t cost now)"
  using CompleteTask_occ [of w cost S t now] by (auto simp: books_ok_def CompleteTask_def Let_def)

text \<open>
  With its books in order a worker takes a job exactly when it has some capacity left and at
  least the job's cost; it then never occupies more than its capacity and tracks the job, and
  completing the job gives the cost back and forgets it.
\<close>

lemma AssignTask_accounting:
  assumes "SimpleSet_ok S elems" and "books_ok w" and "0 \<le> cost" and "cost \<le> max_int64"
  shows "((\<exists>w'. AssignTask S w t cost = Inr w') \<longleftrightarrow> 0 < AvailableCapacity w \<and> cost \<le> AvailableCapacity w) \<and>
     (\<forall>w'. AssignTask S w t cost = Inr w' \<longrightarrow>
        books_ok w' \<and> w_occupiedCost w' \<le> w_capacity w' \<and> AvailableCapacity w' = AvailableCapacity w - cost \<and>
        elems (w_inFlight w') = insert t (elems (w_inFlight w)) \<and>
        w_occupiedCost (CompleteTask S w' t cost now) = w_occupiedCost w \<and>
        elems (w_inFlight (CompleteTask S w' t cost now)) = elems (w_inFlight w) - {t})"
proof (intro conjI allI impI)
  show "(\<exists>w'. AssignTask S w t cost = Inr w') \<longleftrightarrow> 0 < AvailableCapacity w \<and> cost \<le> AvailableCapacity w"
    using AssignTask_cases [OF assms(2-4)] books_ok_avail [OF assms(2)] by auto
next
  fix w' assume as: "AssignTask S w t cost = Inr w'"
  have w': "w' = w\<lparr>w_inFlight := ss_Add S (w_inFlight w) t, w_occupiedCost := w_occupiedCost w + cost,
                  w_lastIdleNotified := 0\<rparr>" "w_occupiedCost w + cost \<le> w_capacity w"
    using as AssignTask_cases [OF assms(2-4), of S t] by (auto split: if_splits)
  show ok': "books_ok w'" using books_ok_AssignTask [OF assms(2-4) as] .
  show "w_occupiedCost (CompleteTask S w' t cost now) = w_occupiedCost w"
    using CompleteTask_occ [OF ok' assms(3,4)] w' assms(2) by (simp add: books_ok_def)
  show "elems (w_inFlight w') = insert t (elems (w_inFlight w))"
    "elems (w_inFlight (CompleteTask S w' t cost now)) = elems (w_inFlight w) - {t}"
    using SimpleSet_okD [OF assms(1)] w'(1) by (simp_all add: CompleteTask_def Let_def)
  show "w_occupiedCost w' \<le> w_capacity w'" "AvailableCapacity w' = AvailableCapacity w - cost"
    using ok' w' books_ok_avail [OF ok'] books_ok_avail [OF assms(2)] by simp_all
qed

end
