(* ===== verification/Worker_Pool.thy ===== *)
theory Worker_Pool
  imports Worker_Conn Mem_Store
begin

text \<open>
  The pool of connected workers (\<^verbatim>\<open>manager/worker_pool.go\<close>). The worker map and the platform index share pointers to the
  connections, and removal compares pointers, so connections live in the store \<open>p_conns\<close> and both
  hold addresses. The callback \<^verbatim>\<open>onJobsRequeued\<close> belongs to the manager: the operations return the
  identifiers it is called with.
\<close>

section \<open>The pool\<close>

text \<open>
  The wake-up channel is unbuffered: a non-blocking send reaches the dispatcher only while it waits.
\<close>

record Signal =
  sig_waiting :: bool
  sig_woken :: bool

record 's WorkerPool =
  p_workers :: "(string, nat) gomap"
  p_platform :: "(string, nat list) gomap"
  p_dispatchSignal :: Signal
  p_scaleDownCooldowns :: "(string, time) gomap"
  p_conns :: "'s WorkerConn list"

definition NewWorkerPool :: "Signal \<Rightarrow> 's WorkerPool" where
  "NewWorkerPool signal =
     \<lparr>p_workers = [], p_platform = [], p_dispatchSignal = signal, p_scaleDownCooldowns = [], p_conns = []\<rparr>"

definition platformKey :: "string \<Rightarrow> string \<Rightarrow> string" where
  "platformKey os arch = os @ ''/'' @ arch"

definition conn_key :: "'s WorkerConn \<Rightarrow> string" where
  "conn_key w = platformKey (w_os w) (w_arch w)"

definition upd_conn :: "'s WorkerPool \<Rightarrow> nat \<Rightarrow> 's WorkerConn \<Rightarrow> 's WorkerPool" where
  "upd_conn h a w = h\<lparr>p_conns := (p_conns h)[a := w]\<rparr>"

definition removeConnLocked :: "'s WorkerPool \<Rightarrow> nat \<Rightarrow> 's WorkerPool" where
  "removeConnLocked h a =
     (let w = p_conns h ! a; key = conn_key w; l = slice_at (p_platform h) key;
          h1 = h\<lparr>p_workers := AList.delete (w_workerID w) (p_workers h)\<rparr>
      in if a \<in> set l then h1\<lparr>p_platform := AList.update key (remove1 a l) (p_platform h1)\<rparr> else h1)"

text \<open>\<open>register\<close> also returns the jobs of a replaced connection, which are put back asynchronously.\<close>

definition register :: "'s SimpleSet \<Rightarrow> 's WorkerPool \<Rightarrow> nat \<Rightarrow> string list \<times> 's WorkerPool" where
  "register S h a =
     (let w = p_conns h ! a;
          (ids, h1) =
            (case map_of (p_workers h) (w_workerID w) of
               None \<Rightarrow> ([], h)
             | Some b \<Rightarrow>
                 (let old = p_conns h ! b; h' = removeConnLocked h b;
                      old' = (case conn_Close (w_conn old) of Inl e \<Rightarrow> old | Inr c \<Rightarrow> old\<lparr>w_conn := c\<rparr>)
                  in (inFlightIDs S old, upd_conn h' b old')));
          key = conn_key w
      in (ids, h1\<lparr>p_workers := AList.update (w_workerID w) a (p_workers h1),
                  p_platform := AList.update key (slice_at (p_platform h1) key @ [a]) (p_platform h1)\<rparr>))"

definition unregister :: "'s SimpleSet \<Rightarrow> 's WorkerPool \<Rightarrow> nat \<Rightarrow> string list \<times> 's WorkerPool" where
  "unregister S h a = (inFlightIDs S (p_conns h ! a), removeConnLocked h a)"

definition GetWorker :: "'s WorkerPool \<Rightarrow> string \<Rightarrow> nat option" where
  "GetWorker h i = map_of (p_workers h) i"

text \<open>One candidate: looking up the rejected jobs may reorder or quarantine entries of its cache.\<close>

definition consider_worker :: "'s WorkerPool \<Rightarrow> int \<Rightarrow> string \<Rightarrow> time \<Rightarrow> nat \<Rightarrow> bool \<times> 's WorkerPool" where
  "consider_worker h cost jobID now a =
     (let w = p_conns h ! a
      in if \<not> IsInState w WorkerStateOnline then (False, h)
         else let (rejected, h1) =
                    (if jobID \<noteq> []
                     then let (r, c) = cache_Get (w_rejectedJobsCache w) jobID now
                          in (r \<noteq> None, upd_conn h a (w\<lparr>w_rejectedJobsCache := c\<rparr>))
                     else (False, h))
              in if rejected then (False, h1)
                 else (cost = 0 \<or> cost \<le> AvailableCapacity w, h1))"

fun consider_workers :: "'s WorkerPool \<Rightarrow> int \<Rightarrow> string \<Rightarrow> time \<Rightarrow> nat list \<Rightarrow> nat list \<times> 's WorkerPool" where
  "consider_workers h cost jobID now [] = ([], h)"
| "consider_workers h cost jobID now (a # as) =
     (let (ok, h1) = consider_worker h cost jobID now a; (out, h2) = consider_workers h1 cost jobID now as
      in (if ok then a # out else out, h2))"

definition eligibleWorkers ::
  "'s WorkerPool \<Rightarrow> string list \<Rightarrow> int \<Rightarrow> string \<Rightarrow> time \<Rightarrow> nat list \<times> 's WorkerPool" where
  "eligibleWorkers h platforms cost jobID now =
     (if cost < 0 then ([], h)
      else if platforms = [] then consider_workers h cost jobID now (map snd (p_workers h))
      else consider_workers h cost jobID now (concat (map (slice_at (p_platform h)) platforms)))"

text \<open>
  The lanes of \<^verbatim>\<open>seriallane\<close>, another module, run the given function one at a time per worker: a
  parameter, with the property the callers rely on.
\<close>

type_synonym 's lane_Do = "string \<Rightarrow> ('s WorkerPool \<Rightarrow> 's WorkerPool res) \<Rightarrow> 's WorkerPool \<Rightarrow> 's WorkerPool res"

definition lane_runs :: "'s lane_Do \<Rightarrow> bool" where
  "lane_runs lane \<longleftrightarrow> (\<forall>ns f h. lane ns f h = f h)"

definition pool_notifyDispatcher :: "'s WorkerPool \<Rightarrow> 's WorkerPool" where
  "pool_notifyDispatcher h =
     (if sig_waiting (p_dispatchSignal h)
      then h\<lparr>p_dispatchSignal := \<lparr>sig_waiting = False, sig_woken = True\<rparr>\<rparr> else h)"

definition subtractCapacity ::
  "'s SimpleSet \<Rightarrow> 's lane_Do \<Rightarrow> 's WorkerPool \<Rightarrow> nat \<Rightarrow> string \<Rightarrow> int \<Rightarrow> time \<Rightarrow> 's WorkerPool res" where
  "subtractCapacity S lane h a taskID cost now =
     lane (w_workerID (p_conns h ! a))
       (\<lambda>h. case AssignTask S (p_conns h ! a) taskID cost of
              Inl e \<Rightarrow> Inl e
            | Inr w \<Rightarrow> Inr (upd_conn h a (UpdateHeartbeat w now))) h"

definition restoreCapacity ::
  "'s SimpleSet \<Rightarrow> 's lane_Do \<Rightarrow> 's WorkerPool \<Rightarrow> nat \<Rightarrow> string \<Rightarrow> int \<Rightarrow> time \<Rightarrow> 's WorkerPool res" where
  "restoreCapacity S lane h a taskID cost now =
     lane (w_workerID (p_conns h ! a))
       (\<lambda>h. let w = UpdateLastIdleTime (CompleteTask S (p_conns h ! a) taskID cost now) now
            in Inr (pool_notifyDispatcher (upd_conn h a w))) h"

definition overrideCapacity ::
  "'s lane_Do \<Rightarrow> 's WorkerPool \<Rightarrow> string \<Rightarrow> int \<Rightarrow> time \<Rightarrow> 's WorkerPool res" where
  "overrideCapacity lane h workerID capacity now =
     (case map_of (p_workers h) workerID of
        None \<Rightarrow> Inl (NotFound ''worker'' workerID)
      | Some a \<Rightarrow>
          lane workerID
            (\<lambda>h. Inr (pool_notifyDispatcher
                   (upd_conn h a (OverrideCapacity (UpdateLastIdleTime (p_conns h ! a) now) capacity)))) h)"

definition allWorkers :: "'s WorkerPool \<Rightarrow> nat list" where
  "allWorkers h = map snd (p_workers h)"

definition FindWorkerByInFlightJobID :: "'s SimpleSet \<Rightarrow> 's WorkerPool \<Rightarrow> string \<Rightarrow> nat option" where
  "FindWorkerByInFlightJobID S h jobID = find (\<lambda>a. IsInFlight S (p_conns h ! a) jobID) (allWorkers h)"

definition totalCapacity :: "'s WorkerPool \<Rightarrow> int" where
  "totalCapacity h = foldl (\<lambda>total (i, a). wrap64 (total + w_capacity (p_conns h ! a))) 0 (p_workers h)"

definition onlinePlatformKeys :: "'s WorkerPool \<Rightarrow> string list" where
  "onlinePlatformKeys h =
     map fst (filter (\<lambda>(key, l). \<exists>a \<in> set l. IsInState (p_conns h ! a) WorkerStateOnline) (p_platform h))"

definition pool_Size :: "'s WorkerPool \<Rightarrow> nat" where
  "pool_Size h = length (p_workers h)"

text \<open>The stale workers are collected first, then closed and removed one by one until a close fails.\<close>

fun close_stale :: "'s SimpleSet \<Rightarrow> 's WorkerPool \<Rightarrow> nat list \<Rightarrow> (error option \<times> string list list) \<times> 's WorkerPool" where
  "close_stale S h [] = ((None, []), h)"
| "close_stale S h (a # as) =
     (case conn_Close (w_conn (p_conns h ! a)) of
        Inl e \<Rightarrow> ((Some e, []), h)
      | Inr c \<Rightarrow>
          (let h1 = upd_conn h a ((p_conns h ! a)\<lparr>w_conn := c\<rparr>); (ids, h2) = unregister S h1 a;
               ((err, requeued), h3) = close_stale S h2 as
           in ((err, ids # requeued), h3)))"

definition checkHeartbeats ::
  "'s SimpleSet \<Rightarrow> 's WorkerPool \<Rightarrow> duration \<Rightarrow> time \<Rightarrow> (error option \<times> string list list) \<times> 's WorkerPool" where
  "checkHeartbeats S h timeout now =
     close_stale S h (filter (\<lambda>a. HeartbeatTimedOut (p_conns h ! a) timeout now) (map snd (p_workers h)))"

record IdleWorkerEvent =
  iwWorkerID :: string
  iwIdleDuration :: duration
  iwOS :: string
  iwArch :: string
  iwCapacity :: int
  iwConnectedWorkers :: nat
  iwPendingWorkExists :: bool

fun idle_scan ::
  "'s WorkerPool \<Rightarrow> duration \<Rightarrow> duration \<Rightarrow> (string \<Rightarrow> string \<Rightarrow> bool) \<Rightarrow> nat \<Rightarrow> time \<Rightarrow> nat list \<Rightarrow>
     IdleWorkerEvent list \<times> 's WorkerPool" where
  "idle_scan h idleThreshold cooldown pending n now [] = ([], h)"
| "idle_scan h idleThreshold cooldown pending n now (a # as) =
     (let w = p_conns h ! a
      in if AvailableCapacity w < w_capacity w \<or> \<not> IsInState w WorkerStateOnline
            \<or> now - w_lastIdleAt w < idleThreshold \<or> w_lastIdleAt w < w_lastIdleNotified w
            \<or> (case map_of (p_scaleDownCooldowns h) (w_workerID w) of
                 None \<Rightarrow> False | Some lst \<Rightarrow> now - lst < cooldown)
         then idle_scan h idleThreshold cooldown pending n now as
         else let h1 = upd_conn (h\<lparr>p_scaleDownCooldowns := AList.update (w_workerID w) now (p_scaleDownCooldowns h)\<rparr>)
                         a (MarkIdleNotified w now);
                  (evs, h2) = idle_scan h1 idleThreshold cooldown pending n now as
              in (\<lparr>iwWorkerID = w_workerID w, iwIdleDuration = now - w_lastIdleAt w, iwOS = w_os w, iwArch = w_arch w,
                   iwCapacity = w_capacity w, iwConnectedWorkers = n,
                   iwPendingWorkExists = pending (w_os w) (w_arch w)\<rparr> # evs, h2))"

text \<open>One tick of the stale-worker service; \<open>has_onIdle\<close> tells whether a callback is configured.\<close>

definition StaleWorkerMonitoring_tick ::
  "bool \<Rightarrow> duration \<Rightarrow> duration \<Rightarrow> (string \<Rightarrow> string \<Rightarrow> bool) \<Rightarrow> 's WorkerPool \<Rightarrow> time \<Rightarrow>
     (IdleWorkerEvent list \<times> 's WorkerPool) res" where
  "StaleWorkerMonitoring_tick has_onIdle idleThreshold cooldown pending h now =
     (if \<not> has_onIdle \<or> idleThreshold \<le> 0 then Inl (Errorf ''No onIdle callback or idleThreshold set'')
      else Inr (idle_scan h idleThreshold cooldown pending (length (allWorkers h)) now (allWorkers h)))"

text \<open>\<open>ulid\<close> is the identifier the ULID module would make.\<close>

definition NewWorkerConnection ::
  "'s SimpleSet \<Rightarrow> string \<Rightarrow> 's WorkerPool \<Rightarrow> string \<Rightarrow> string \<Rightarrow> string \<Rightarrow> int \<Rightarrow> net_conn \<Rightarrow> time \<Rightarrow>
     ((nat \<times> string list) \<times> 's WorkerPool) res" where
  "NewWorkerConnection S ulid h i os arch capacity conn now =
     (if os = [] then Inl (Sentinel ''missing worker os'')
      else if arch = [] then Inl (Sentinel ''missing worker arch'')
      else if capacity < 1 then Inl (Sentinel ''capacity is zero'')
      else let i' = (if i = [] then ''worker-'' @ os @ ''_'' @ arch @ ''-'' @ ulid else i);
               a = length (p_conns h);
               h1 = h\<lparr>p_conns := p_conns h @ [NewWorkerConn S i' os arch capacity conn now]\<rparr>;
               (ids, h2) = register S h1 a
           in Inr ((a, ids), h2))"

section \<open>The map and the platform index agree\<close>

text \<open>
  \<open>pool_wf\<close>: the platform index lists a connection exactly once, under its own platform, if and only
  if the worker map holds it under its own identifier.
\<close>

definition registered :: "'s WorkerPool \<Rightarrow> nat \<Rightarrow> bool" where
  "registered h a \<longleftrightarrow> a < length (p_conns h) \<and> map_of (p_workers h) (w_workerID (p_conns h ! a)) = Some a"

definition pool_wf :: "'s WorkerPool \<Rightarrow> bool" where
  "pool_wf h \<longleftrightarrow>
     keys_distinct (p_workers h) \<and> keys_distinct (p_platform h) \<and>
     (\<forall>(i, a) \<in> set (p_workers h). a < length (p_conns h) \<and> w_workerID (p_conns h ! a) = i) \<and>
     (\<forall>key. distinct (slice_at (p_platform h) key) \<and>
        set (slice_at (p_platform h) key) = {a. registered h a \<and> conn_key (p_conns h ! a) = key})"

lemma pool_wf_New [simp]: "pool_wf (NewWorkerPool sig)"
  by (simp add: pool_wf_def NewWorkerPool_def slice_at_def registered_def)

lemma pool_wf_lookup:
  assumes "pool_wf h" "map_of (p_workers h) i = Some a"
  shows "registered h a" "w_workerID (p_conns h ! a) = i" "a < length (p_conns h)"
  using assms map_of_SomeD [OF assms(2)] by (auto simp: pool_wf_def registered_def)

lemma slice_at_update: "slice_at (AList.update k l m) k' = (if k' = k then l else slice_at m k')"
  by (simp add: slice_at_def update_conv')

text \<open>The parts of a connection that the index depends on.\<close>

definition same_ident :: "'s WorkerConn \<Rightarrow> 's WorkerConn \<Rightarrow> bool" where
  "same_ident w w' \<longleftrightarrow> w_workerID w' = w_workerID w \<and> w_os w' = w_os w \<and> w_arch w' = w_arch w"

lemma pool_wf_conns:
  assumes "pool_wf h" "length cs = length (p_conns h)" "\<And>a. same_ident (p_conns h ! a) (cs ! a)"
  shows "pool_wf (h\<lparr>p_conns := cs\<rparr>)" "registered (h\<lparr>p_conns := cs\<rparr>) = registered h"
proof -
  have r: "registered (h\<lparr>p_conns := cs\<rparr>) = registered h"
    using assms(2,3) by (auto simp: registered_def same_ident_def fun_eq_iff)
  show "registered (h\<lparr>p_conns := cs\<rparr>) = registered h" by (rule r)
  show "pool_wf (h\<lparr>p_conns := cs\<rparr>)"
    using assms by (simp add: pool_wf_def r conn_key_def same_ident_def)
qed

lemma pool_wf_upd_conn:
  assumes "pool_wf h" "same_ident (p_conns h ! a) w"
  shows "pool_wf (upd_conn h a w)" "registered (upd_conn h a w) = registered h"
proof -
  have "same_ident (p_conns h ! b) ((p_conns h)[a := w] ! b)" for b
    using assms(2) by (cases "b = a"; cases "a < length (p_conns h)") (simp_all add: same_ident_def list_update_beyond)
  then show "pool_wf (upd_conn h a w)" "registered (upd_conn h a w) = registered h"
    using pool_wf_conns [OF assms(1), of "(p_conns h)[a := w]"] by (simp_all add: upd_conn_def)
qed

lemma removeConnLocked_simps [simp]:
  "p_conns (removeConnLocked h a) = p_conns h"
  "p_workers (removeConnLocked h a) = AList.delete (w_workerID (p_conns h ! a)) (p_workers h)"
  "p_dispatchSignal (removeConnLocked h a) = p_dispatchSignal h"
  "p_scaleDownCooldowns (removeConnLocked h a) = p_scaleDownCooldowns h"
  "slice_at (p_platform (removeConnLocked h a)) key =
     (if key = conn_key (p_conns h ! a) then remove1 a (slice_at (p_platform h) key) else slice_at (p_platform h) key)"
  by (auto simp: removeConnLocked_def Let_def slice_at_update remove1_idem)

lemma removeConnLocked_platform_keys: "keys_distinct (p_platform h) \<Longrightarrow> keys_distinct (p_platform (removeConnLocked h a))"
  by (simp add: removeConnLocked_def Let_def)

lemma removeConnLocked_registered:
  assumes "registered h a"
  shows "registered (removeConnLocked h a) b \<longleftrightarrow> registered h b \<and> b \<noteq> a"
  using assms by (auto simp: registered_def delete_conv')

lemma removeConnLocked_wf:
  assumes wf: "pool_wf h" and reg: "registered h a"
  shows "pool_wf (removeConnLocked h a)"
proof -
  have "set (AList.delete (w_workerID (p_conns h ! a)) (p_workers h)) \<subseteq> set (p_workers h)"
    by (auto simp: AList.delete_eq)
  then have "\<forall>(i, b) \<in> set (AList.delete (w_workerID (p_conns h ! a)) (p_workers h)).
      b < length (p_conns h) \<and> w_workerID (p_conns h ! b) = i"
    using wf unfolding pool_wf_def by blast
  moreover have "distinct (slice_at (p_platform (removeConnLocked h a)) key) \<and>
      set (slice_at (p_platform (removeConnLocked h a)) key) =
        {b. registered (removeConnLocked h a) b \<and> conn_key (p_conns h ! b) = key}" for key
    using wf removeConnLocked_registered [OF reg] by (auto simp: pool_wf_def set_remove1_eq)
  ultimately show ?thesis
    using wf removeConnLocked_platform_keys [of h a] by (simp add: pool_wf_def)
qed

text \<open>Adding a fresh connection whose identifier is free.\<close>

lemma pool_wf_add:
  assumes wf: "pool_wf h" and fresh: "a < length (p_conns h)" "map_of (p_workers h) (w_workerID (p_conns h ! a)) = None"
  shows "pool_wf (h\<lparr>p_workers := AList.update (w_workerID (p_conns h ! a)) a (p_workers h),
      p_platform := AList.update (conn_key (p_conns h ! a))
        (slice_at (p_platform h) (conn_key (p_conns h ! a)) @ [a]) (p_platform h)\<rparr>)"
    (is "pool_wf ?h'")
proof -
  have reg: "registered ?h' b \<longleftrightarrow> registered h b \<or> b = a" for b
    using fresh by (auto simp: registered_def update_conv')
  have "\<not> registered h a" using fresh by (simp add: registered_def)
  then have "distinct (slice_at (p_platform ?h') key) \<and>
      set (slice_at (p_platform ?h') key) = {b. registered ?h' b \<and> conn_key (p_conns h ! b) = key}" for key
    unfolding reg using wf by (auto simp: pool_wf_def slice_at_update)
  moreover have "\<forall>(i, b) \<in> set (p_workers ?h'). b < length (p_conns h) \<and> w_workerID (p_conns h ! b) = i"
    using wf fresh set_update_subset [of "w_workerID (p_conns h ! a)" a "p_workers h"]
    unfolding pool_wf_def by auto
  ultimately show ?thesis using wf by (simp add: pool_wf_def)
qed

lemma pool_wf_alloc:
  assumes "pool_wf h"
  shows "pool_wf (h\<lparr>p_conns := p_conns h @ [w]\<rparr>)"
    and "registered (h\<lparr>p_conns := p_conns h @ [w]\<rparr>) b \<longleftrightarrow> registered h b"
proof -
  have nr: "map_of (p_workers h) i \<noteq> Some (length (p_conns h))" for i
    using pool_wf_lookup(3) [OF assms] by fastforce
  then have reg: "registered (h\<lparr>p_conns := p_conns h @ [w]\<rparr>) b \<longleftrightarrow> registered h b" for b
    by (auto simp: registered_def nth_append less_Suc_eq)
  show "registered (h\<lparr>p_conns := p_conns h @ [w]\<rparr>) b \<longleftrightarrow> registered h b" by (rule reg)
  have "{b. registered h b \<and> conn_key ((p_conns h @ [w]) ! b) = key} =
      {b. registered h b \<and> conn_key (p_conns h ! b) = key}" for key
    by (auto simp: registered_def nth_append)
  moreover have "\<forall>(i, b) \<in> set (p_workers h). b < Suc (length (p_conns h)) \<and> w_workerID ((p_conns h @ [w]) ! b) = i"
    using assms by (auto simp: pool_wf_def nth_append)
  ultimately show "pool_wf (h\<lparr>p_conns := p_conns h @ [w]\<rparr>)"
    using assms by (simp add: pool_wf_def reg)
qed

lemma register_wf:
  assumes wf: "pool_wf h" and a: "a < length (p_conns h)" "\<not> registered h a"
  shows "pool_wf (snd (register S h a))"
    and "map_of (p_workers (snd (register S h a))) i =
           (if i = w_workerID (p_conns h ! a) then Some a else map_of (p_workers h) i)"
    and "slice_at (p_platform (snd (register S h a))) (conn_key (p_conns h ! a)) =
           (case map_of (p_workers h) (w_workerID (p_conns h ! a)) of
              None \<Rightarrow> slice_at (p_platform h) (conn_key (p_conns h ! a))
            | Some b \<Rightarrow> remove1 b (slice_at (p_platform h) (conn_key (p_conns h ! a)))) @ [a]"
    and "same_ident (p_conns h ! b) (p_conns (snd (register S h a)) ! b)"
proof -
  let ?w = "p_conns h ! a"
  let ?id = "w_workerID ?w"
  consider (free) "map_of (p_workers h) ?id = None" | (taken) b where "map_of (p_workers h) ?id = Some b"
    by (cases "map_of (p_workers h) ?id") auto
  then have "pool_wf (snd (register S h a)) \<and>
    (\<forall>i. map_of (p_workers (snd (register S h a))) i = (if i = ?id then Some a else map_of (p_workers h) i)) \<and>
    slice_at (p_platform (snd (register S h a))) (conn_key ?w) =
      (case map_of (p_workers h) ?id of
              None \<Rightarrow> slice_at (p_platform h) (conn_key ?w)
            | Some b \<Rightarrow> remove1 b (slice_at (p_platform h) (conn_key ?w))) @ [a] \<and>
    (\<forall>b. same_ident (p_conns h ! b) (p_conns (snd (register S h a)) ! b))"
  proof cases
    case free
    then show ?thesis
      using pool_wf_add [OF wf a(1) free]
      by (simp add: register_def Let_def slice_at_update update_conv' same_ident_def)
  next
    case (taken b)
    note lk = pool_wf_lookup [OF wf taken]
    have ba: "b \<noteq> a" using lk(1) a(2) by auto
    define old' where "old' = (case conn_Close (w_conn (p_conns h ! b)) of
        Inl e \<Rightarrow> p_conns h ! b | Inr c \<Rightarrow> (p_conns h ! b)\<lparr>w_conn := c\<rparr>)"
    have si: "same_ident (p_conns h ! b) old'" by (auto simp: old'_def same_ident_def split: sum.splits)
    define h1 where "h1 = upd_conn (removeConnLocked h b) b old'"
    have wf1: "pool_wf h1"
      unfolding h1_def using removeConnLocked_wf [OF wf lk(1)] si by (intro pool_wf_upd_conn) simp_all
    have h1: "p_conns h1 ! a = ?w" "length (p_conns h1) = length (p_conns h)"
        "map_of (p_workers h1) = (map_of (p_workers h)) (?id := None)"
      using ba lk(2) by (simp_all add: h1_def upd_conn_def delete_conv')
    have key: "slice_at (p_platform h1) (conn_key ?w) = remove1 b (slice_at (p_platform h) (conn_key ?w))"
    proof -
      have "b \<notin> set (slice_at (p_platform h) (conn_key ?w))" if "conn_key ?w \<noteq> conn_key (p_conns h ! b)"
        using wf that by (simp add: pool_wf_def)
      then show ?thesis by (simp add: h1_def upd_conn_def remove1_idem)
    qed
    have reg: "snd (register S h a) = h1\<lparr>p_workers := AList.update ?id a (p_workers h1),
        p_platform := AList.update (conn_key ?w) (slice_at (p_platform h1) (conn_key ?w) @ [a]) (p_platform h1)\<rparr>"
      by (simp add: register_def taken Let_def h1_def old'_def)
    have "same_ident (p_conns h ! c) (p_conns h1 ! c)" for c
      using si lk(3) by (cases "c = b") (simp_all add: h1_def upd_conn_def same_ident_def)
    then show ?thesis
      using pool_wf_add [OF wf1, of a] a(1) h1 taken key
      by (simp add: reg slice_at_update update_conv')
  qed
  then show "pool_wf (snd (register S h a))"
    "map_of (p_workers (snd (register S h a))) i =
           (if i = w_workerID (p_conns h ! a) then Some a else map_of (p_workers h) i)"
    "slice_at (p_platform (snd (register S h a))) (conn_key (p_conns h ! a)) =
           (case map_of (p_workers h) (w_workerID (p_conns h ! a)) of
              None \<Rightarrow> slice_at (p_platform h) (conn_key (p_conns h ! a))
            | Some b \<Rightarrow> remove1 b (slice_at (p_platform h) (conn_key (p_conns h ! a)))) @ [a]"
    "same_ident (p_conns h ! b) (p_conns (snd (register S h a)) ! b)"
    by simp_all
qed

section \<open>Eligible workers\<close>

text \<open>
  Looking a job up in the cache of rejections changes the cache's bookkeeping but no later answer.
\<close>

definition lookup_eq :: "('k, 'v) Cache \<Rightarrow> ('k, 'v) Cache \<Rightarrow> bool" where
  "lookup_eq c c' \<longleftrightarrow> (\<forall>k t. fst (cache_Get c' k t) = fst (cache_Get c k t))"

lemma fst_cache_Get:
  "fst (cache_Get c k t) =
     (case map_of (c_cache c) k of
        None \<Rightarrow> None
      | Some a \<Rightarrow> if e_expiry (c_elems c ! a) < t then None else Some (e_value (c_elems c ! a)))"
  by (simp add: cache_Get_def Let_def split: option.splits)

lemma lookup_eq_Get: "lookup_eq c (snd (cache_Get c k now))"
proof -
  have "e_expiry (c_elems (snd (cache_Get c k now)) ! b) = e_expiry (c_elems c ! b) \<and>
      e_value (c_elems (snd (cache_Get c k now)) ! b) = e_value (c_elems c ! b)" for b
  proof -
    have "e_expiry ((xs[a := (xs ! a)\<lparr>e_quarantine := q\<rparr>]) ! b) = e_expiry (xs ! b) \<and>
        e_value ((xs[a := (xs ! a)\<lparr>e_quarantine := q\<rparr>]) ! b) = e_value (xs ! b)" for xs :: "('a, 'b) entry list" and a q
      by (cases "a = b"; cases "a < length xs") (simp_all add: list_update_beyond)
    then show ?thesis by (auto simp: cache_Get_def Let_def quarantineItem_def split: option.splits)
  qed
  then show ?thesis by (simp add: lookup_eq_def fst_cache_Get split: option.splits)
qed

definition rejected :: "'s WorkerConn \<Rightarrow> string \<Rightarrow> time \<Rightarrow> bool" where
  "rejected w jobID now \<longleftrightarrow> jobID \<noteq> [] \<and> fst (cache_Get (w_rejectedJobsCache w) jobID now) \<noteq> None"

definition eligible :: "'s WorkerConn \<Rightarrow> int \<Rightarrow> string \<Rightarrow> time \<Rightarrow> bool" where
  "eligible w cost jobID now \<longleftrightarrow>
     w_state w = WorkerStateOnline \<and> \<not> rejected w jobID now \<and> (cost = 0 \<or> cost \<le> AvailableCapacity w)"

text \<open>Two pools that differ only in the bookkeeping of the caches.\<close>

definition pool_sim :: "'s WorkerPool \<Rightarrow> 's WorkerPool \<Rightarrow> bool" where
  "pool_sim h h' \<longleftrightarrow>
     h' = h\<lparr>p_conns := p_conns h'\<rparr> \<and> length (p_conns h') = length (p_conns h) \<and>
     (\<forall>a. \<exists>c. p_conns h' ! a = (p_conns h ! a)\<lparr>w_rejectedJobsCache := c\<rparr> \<and>
            lookup_eq (w_rejectedJobsCache (p_conns h ! a)) c)"

lemma pool_sim_refl [simp]: "pool_sim h h"
proof -
  have "\<exists>c. p_conns h ! a = (p_conns h ! a)\<lparr>w_rejectedJobsCache := c\<rparr> \<and> lookup_eq (w_rejectedJobsCache (p_conns h ! a)) c" for a
    by (rule exI [of _ "w_rejectedJobsCache (p_conns h ! a)"]) (simp add: lookup_eq_def)
  then show ?thesis by (simp add: pool_sim_def)
qed

lemma pool_sim_trans: "pool_sim h h1 \<Longrightarrow> pool_sim h1 h2 \<Longrightarrow> pool_sim h h2"
proof -
  assume s: "pool_sim h h1" "pool_sim h1 h2"
  have "\<exists>c. p_conns h2 ! a = (p_conns h ! a)\<lparr>w_rejectedJobsCache := c\<rparr> \<and> lookup_eq (w_rejectedJobsCache (p_conns h ! a)) c" for a
  proof -
    obtain c1 where c1: "p_conns h1 ! a = (p_conns h ! a)\<lparr>w_rejectedJobsCache := c1\<rparr>"
        "lookup_eq (w_rejectedJobsCache (p_conns h ! a)) c1"
      using s(1) unfolding pool_sim_def by blast
    obtain c2 where c2: "p_conns h2 ! a = (p_conns h1 ! a)\<lparr>w_rejectedJobsCache := c2\<rparr>"
        "lookup_eq (w_rejectedJobsCache (p_conns h1 ! a)) c2"
      using s(2) unfolding pool_sim_def by blast
    show ?thesis by (rule exI [of _ c2]) (use c1 c2 in \<open>simp add: lookup_eq_def\<close>)
  qed
  moreover have "h2 = h\<lparr>p_conns := p_conns h2\<rparr>" "length (p_conns h2) = length (p_conns h)"
    using s unfolding pool_sim_def by (metis WorkerPool.surjective WorkerPool.update_convs(5))+
  ultimately show ?thesis by (simp add: pool_sim_def)
qed

lemma pool_sim_eligible:
  assumes "pool_sim h h'"
  shows "eligible (p_conns h' ! a) cost jobID now = eligible (p_conns h ! a) cost jobID now"
proof -
  obtain c where "p_conns h' ! a = (p_conns h ! a)\<lparr>w_rejectedJobsCache := c\<rparr>"
      "lookup_eq (w_rejectedJobsCache (p_conns h ! a)) c"
    using assms unfolding pool_sim_def by blast
  then show ?thesis by (simp add: eligible_def rejected_def lookup_eq_def AvailableCapacity_def)
qed

lemma pool_sim_ident: "pool_sim h h' \<Longrightarrow> same_ident (p_conns h ! a) (p_conns h' ! a)"
  unfolding pool_sim_def same_ident_def by (metis WorkerConn.select_convs(1-3) WorkerConn.surjective WorkerConn.update_convs(15))

lemma consider_worker_spec:
  assumes "a < length (p_conns h)"
  shows "fst (consider_worker h cost jobID now a) = eligible (p_conns h ! a) cost jobID now"
    and "pool_sim h (snd (consider_worker h cost jobID now a))"
proof -
  let ?w = "p_conns h ! a"
  let ?c = "snd (cache_Get (w_rejectedJobsCache ?w) jobID now)"
  show "fst (consider_worker h cost jobID now a) = eligible ?w cost jobID now"
    by (auto simp: consider_worker_def Let_def eligible_def rejected_def IsInState_def case_prod_beta AvailableCapacity_def)
  have "\<exists>c. (p_conns h)[a := ?w\<lparr>w_rejectedJobsCache := ?c\<rparr>] ! b = (p_conns h ! b)\<lparr>w_rejectedJobsCache := c\<rparr> \<and>
      lookup_eq (w_rejectedJobsCache (p_conns h ! b)) c" for b
  proof (cases "b = a")
    case True
    then show ?thesis using assms lookup_eq_Get by (intro exI [of _ ?c]) simp
  next
    case False
    then show ?thesis by (intro exI [of _ "w_rejectedJobsCache (p_conns h ! b)"]) (simp add: lookup_eq_def)
  qed
  then have "pool_sim h (upd_conn h a (?w\<lparr>w_rejectedJobsCache := ?c\<rparr>))"
    by (simp add: pool_sim_def upd_conn_def)
  then show "pool_sim h (snd (consider_worker h cost jobID now a))"
    by (auto simp: consider_worker_def Let_def case_prod_beta)
qed

lemma consider_workers_spec:
  "\<forall>a \<in> set as. a < length (p_conns h) \<Longrightarrow>
     fst (consider_workers h cost jobID now as) = filter (\<lambda>a. eligible (p_conns h ! a) cost jobID now) as \<and>
     pool_sim h (snd (consider_workers h cost jobID now as))"
proof (induction as arbitrary: h)
  case Nil
  then show ?case by simp
next
  case (Cons a as)
  let ?h1 = "snd (consider_worker h cost jobID now a)"
  have sim: "pool_sim h ?h1" and fst: "fst (consider_worker h cost jobID now a) = eligible (p_conns h ! a) cost jobID now"
    using consider_worker_spec [of a h] Cons.prems by simp_all
  have "\<forall>a \<in> set as. a < length (p_conns ?h1)"
    using Cons.prems sim by (simp add: pool_sim_def)
  from Cons.IH [OF this] show ?case
    using sim fst pool_sim_trans [OF sim] pool_sim_eligible [OF sim] by (simp add: case_prod_beta Let_def)
qed

lemma eligibleWorkers_spec:
  assumes "pool_wf h" "0 \<le> cost"
  shows "fst (eligibleWorkers h platforms cost jobID now) =
           filter (\<lambda>a. eligible (p_conns h ! a) cost jobID now)
             (if platforms = [] then map snd (p_workers h) else concat (map (slice_at (p_platform h)) platforms))"
    and "pool_sim h (snd (eligibleWorkers h platforms cost jobID now))"
proof -
  have "\<forall>a \<in> set (map snd (p_workers h)). a < length (p_conns h)"
    using assms(1) by (auto simp: pool_wf_def)
  moreover have "\<forall>a \<in> set (concat (map (slice_at (p_platform h)) platforms)). a < length (p_conns h)"
    using assms(1) by (auto simp: pool_wf_def registered_def)
  ultimately show
    "fst (eligibleWorkers h platforms cost jobID now) =
           filter (\<lambda>a. eligible (p_conns h ! a) cost jobID now)
             (if platforms = [] then map snd (p_workers h) else concat (map (slice_at (p_platform h)) platforms))"
    "pool_sim h (snd (eligibleWorkers h platforms cost jobID now))"
    using consider_workers_spec [of "map snd (p_workers h)" h cost jobID now]
      consider_workers_spec [of "concat (map (slice_at (p_platform h)) platforms)" h cost jobID now] assms(2)
    by (simp_all add: eligibleWorkers_def)
qed

lemma registered_workers:
  "pool_wf h \<Longrightarrow> a \<in> snd ` set (p_workers h) \<longleftrightarrow> registered h a"
proof
  assume wf: "pool_wf h" and "a \<in> snd ` set (p_workers h)"
  then obtain i where "(i, a) \<in> set (p_workers h)" by force
  then show "registered h a" using wf by (auto simp: pool_wf_def registered_def map_of_in_set)
next
  assume "pool_wf h" and "registered h a"
  then show "a \<in> snd ` set (p_workers h)" by (force simp: registered_def dest: map_of_SomeD)
qed

section \<open>Reachable pools\<close>

text \<open>
  The pools the manager reaches when every connection that is removed is the registered one: workers
  connect (also under a taken identifier) and disconnect, jobs are assigned and given back at costs
  that are valid, workers report heartbeats and capacities and reject jobs.
\<close>

inductive pool_reachable :: "'s SimpleSet \<Rightarrow> 's lane_Do \<Rightarrow> 's WorkerPool \<Rightarrow> bool" for S lane where
  new: "pool_reachable S lane (NewWorkerPool sig)"
| connect: "pool_reachable S lane h \<Longrightarrow> capacity \<le> max_int64 \<Longrightarrow>
    NewWorkerConnection S ulid h i os arch capacity conn now = Inr ((a, ids), h') \<Longrightarrow> pool_reachable S lane h'"
| disconnect: "pool_reachable S lane h \<Longrightarrow> registered h a \<Longrightarrow> pool_reachable S lane (snd (unregister S h a))"
| assign: "pool_reachable S lane h \<Longrightarrow> a < length (p_conns h) \<Longrightarrow> 0 \<le> cost \<Longrightarrow> cost \<le> max_int64 \<Longrightarrow>
    subtractCapacity S lane h a t cost now = Inr h' \<Longrightarrow> pool_reachable S lane h'"
| restore: "pool_reachable S lane h \<Longrightarrow> a < length (p_conns h) \<Longrightarrow> 0 \<le> cost \<Longrightarrow> cost \<le> max_int64 \<Longrightarrow>
    restoreCapacity S lane h a t cost now = Inr h' \<Longrightarrow> pool_reachable S lane h'"
| override: "pool_reachable S lane h \<Longrightarrow> 0 \<le> capacity \<Longrightarrow> capacity \<le> max_int64 \<Longrightarrow>
    overrideCapacity lane h i capacity now = Inr h' \<Longrightarrow> pool_reachable S lane h'"
| heartbeat: "pool_reachable S lane h \<Longrightarrow> a < length (p_conns h) \<Longrightarrow>
    pool_reachable S lane (upd_conn h a (UpdateHeartbeat (SetState (p_conns h ! a) st) now))"
| reject: "pool_reachable S lane h \<Longrightarrow> a < length (p_conns h) \<Longrightarrow>
    pool_reachable S lane (upd_conn h a ((p_conns h ! a)\<lparr>w_rejectedJobsCache :=
       cache_Put (w_rejectedJobsCache (p_conns h ! a)) jobID () now\<rparr>))"
| look: "pool_reachable S lane h \<Longrightarrow> pool_reachable S lane (snd (eligibleWorkers h platforms cost jobID now))"

definition pool_ok :: "'s WorkerPool \<Rightarrow> bool" where
  "pool_ok h \<longleftrightarrow> pool_wf h \<and> (\<forall>a < length (p_conns h). books_ok (p_conns h ! a))"

lemma pool_ok_upd_conn:
  assumes "pool_ok h" "same_ident (p_conns h ! a) w" "books_ok w"
  shows "pool_ok (upd_conn h a w)"
proof -
  have "pool_wf (upd_conn h a w)" using assms pool_wf_upd_conn(1) by (auto simp: pool_ok_def)
  then show ?thesis using assms by (simp add: pool_ok_def upd_conn_def nth_upd)
qed

lemma pool_ok_notify: "pool_ok h \<Longrightarrow> pool_ok (pool_notifyDispatcher h)"
  by (simp add: pool_ok_def pool_wf_def registered_def pool_notifyDispatcher_def)

lemma pool_ok_sim:
  assumes "pool_ok h" "pool_sim h h'"
  shows "pool_ok h'"
proof -
  have h': "h' = h\<lparr>p_conns := p_conns h'\<rparr>" "length (p_conns h') = length (p_conns h)"
    using assms(2) unfolding pool_sim_def by blast+
  have "pool_wf h'"
    using pool_wf_conns(1) [of h "p_conns h'"] assms h' pool_sim_ident by (metis pool_ok_def)
  moreover have "books_ok (p_conns h' ! a)" if "a < length (p_conns h')" for a
  proof -
    obtain c where "p_conns h' ! a = (p_conns h ! a)\<lparr>w_rejectedJobsCache := c\<rparr>"
      using assms(2) unfolding pool_sim_def by blast
    then show ?thesis using that h'(2) assms(1) by (simp add: pool_ok_def books_ok_def)
  qed
  ultimately show ?thesis by (simp add: pool_ok_def)
qed

lemma register_books:
  assumes "\<forall>a < length (p_conns h). books_ok (p_conns h ! a)" "c < length (p_conns (snd (register S h a)))"
  shows "books_ok (p_conns (snd (register S h a)) ! c)"
proof -
  have "books_ok (case conn_Close (w_conn w) of Inl e \<Rightarrow> w | Inr c \<Rightarrow> w\<lparr>w_conn := c\<rparr>) = books_ok w" for w :: "'a WorkerConn"
    by (auto simp: books_ok_def split: sum.splits)
  then show ?thesis
    using assms by (auto simp: register_def Let_def upd_conn_def nth_upd split: option.splits)
qed

lemma NewWorkerConnection_cases:
  assumes "NewWorkerConnection S ulid h i os arch capacity conn now = Inr ((a, ids), h')"
  obtains i' h1 where "a = length (p_conns h)" "h1 = h\<lparr>p_conns := p_conns h @ [NewWorkerConn S i' os arch capacity conn now]\<rparr>"
    "register S h1 a = (ids, h')" "1 \<le> capacity" "i \<noteq> [] \<Longrightarrow> i' = i"
  using assms by (auto simp: NewWorkerConnection_def Let_def case_prod_beta split: if_splits)

lemma NewWorkerConnection_ok:
  assumes ok: "pool_ok h" and cap: "capacity \<le> max_int64"
    and new: "NewWorkerConnection S ulid h i os arch capacity conn now = Inr ((a, ids), h')"
  shows "pool_ok h'"
proof -
  obtain i' h1 where r: "a = length (p_conns h)" "h1 = h\<lparr>p_conns := p_conns h @ [NewWorkerConn S i' os arch capacity conn now]\<rparr>"
    "register S h1 a = (ids, h')" "1 \<le> capacity"
    using NewWorkerConnection_cases [OF new] by metis
  have wf1: "pool_wf h1" and nr: "\<not> registered h1 a" and a: "a < length (p_conns h1)"
    using pool_wf_alloc [of h] ok r by (simp_all add: pool_ok_def) (simp add: registered_def)
  have "\<forall>c < length (p_conns h1). books_ok (p_conns h1 ! c)"
    using ok r cap by (auto simp: pool_ok_def nth_append less_Suc_eq books_ok_def NewWorkerConn_def)
  then show ?thesis
    using register_wf(1) [OF wf1 a nr, of S] register_books [of h1 _ S a] r(3) by (simp add: pool_ok_def)
qed

lemma pool_reachable_ok:
  assumes "pool_reachable S lane h" and lane: "lane_runs lane"
  shows "pool_ok h"
  using assms(1)
proof (induction rule: pool_reachable.induct)
  case (new sig)
  then show ?case by (simp add: pool_ok_def) (simp add: NewWorkerPool_def)
next
  case (connect h capacity ulid i os arch conn now a ids h')
  then show ?case using NewWorkerConnection_ok by blast
next
  case (disconnect h a)
  then show ?case by (simp add: unregister_def pool_ok_def removeConnLocked_wf)
next
  case (assign h a cost t now h')
  then obtain w where w: "AssignTask S (p_conns h ! a) t cost = Inr w" "h' = upd_conn h a (UpdateHeartbeat w now)"
    using lane by (auto simp: subtractCapacity_def lane_runs_def split: sum.splits)
  have ok: "books_ok (p_conns h ! a)" using assign by (simp add: pool_ok_def)
  have "books_ok (UpdateHeartbeat w now)"
    using books_ok_AssignTask [OF ok assign.hyps(3,4) w(1)] by (simp add: books_ok_def UpdateHeartbeat_def)
  moreover have "same_ident (p_conns h ! a) (UpdateHeartbeat w now)"
    using w(1) by (auto simp: AssignTask_def Let_def same_ident_def UpdateHeartbeat_def split: if_splits)
  ultimately show ?case using assign.IH w(2) pool_ok_upd_conn by blast
next
  case (restore h a cost t now h')
  let ?w = "UpdateLastIdleTime (CompleteTask S (p_conns h ! a) t cost now) now"
  have "books_ok (p_conns h ! a)" using restore by (simp add: pool_ok_def)
  then have "books_ok ?w"
    using books_ok_CompleteTask [OF _ restore.hyps(3,4)] by (simp add: books_ok_def UpdateLastIdleTime_def)
  moreover have "same_ident (p_conns h ! a) ?w"
    by (simp add: same_ident_def UpdateLastIdleTime_def CompleteTask_def Let_def)
  ultimately have "pool_ok (upd_conn h a ?w)" using restore.IH pool_ok_upd_conn by blast
  then show ?case
    using restore.hyps(5) lane pool_ok_notify by (auto simp: restoreCapacity_def lane_runs_def Let_def)
next
  case (override h capacity i now h')
  then obtain a where a: "map_of (p_workers h) i = Some a"
      "h' = pool_notifyDispatcher (upd_conn h a (OverrideCapacity (UpdateLastIdleTime (p_conns h ! a) now) capacity))"
    using lane by (auto simp: overrideCapacity_def lane_runs_def split: option.splits)
  have "a < length (p_conns h)" using pool_wf_lookup(3) a(1) override.IH by (auto simp: pool_ok_def)
  then have "books_ok (OverrideCapacity (UpdateLastIdleTime (p_conns h ! a) now) capacity)"
    using override by (auto simp: pool_ok_def books_ok_def OverrideCapacity_def UpdateLastIdleTime_def)
  then show ?case
    using override.IH a(2)
    by (auto intro!: pool_ok_notify pool_ok_upd_conn simp: same_ident_def OverrideCapacity_def UpdateLastIdleTime_def)
next
  case (heartbeat h a st now)
  then show ?case
    by (intro pool_ok_upd_conn) (auto simp: pool_ok_def books_ok_def same_ident_def UpdateHeartbeat_def SetState_def)
next
  case (reject h a jobID now)
  then show ?case
    by (intro pool_ok_upd_conn) (auto simp: pool_ok_def books_ok_def same_ident_def)
next
  case (look h platforms cost jobID now)
  show ?case
  proof (cases "cost < 0")
    case True
    then show ?thesis using look by (simp add: eligibleWorkers_def)
  next
    case False
    have "pool_wf h" using look.IH by (simp add: pool_ok_def)
    from pool_ok_sim [OF look.IH eligibleWorkers_spec(2) [OF this]] False show ?thesis by simp
  qed
qed





text \<open>
  C31: after a worker reconnects under an identifier that is still registered, the end of the old
  connection removes the new one from the worker map: \<open>GetWorker\<close> no longer finds the connected
  worker, although the platform index still offers it for dispatch.
\<close>

theorem reconnect_loses_new_worker:
  assumes "lane_runs lane" and "pool_reachable S lane h" and "i \<noteq> []" and "cap1 \<le> max_int64"
    and "NewWorkerConnection S u1 h i os arch cap1 conn1 t1 = Inr ((a1, ids1), h1)"
    and "NewWorkerConnection S u2 h1 i os arch cap2 conn2 t2 = Inr ((a2, ids2), h2)"
  shows "GetWorker h2 i = Some a2 \<and> GetWorker (snd (unregister S h2 a1)) i = None \<and>
         a2 \<in> set (slice_at (p_platform (snd (unregister S h2 a1))) (platformKey os arch))"
proof -
  have "pool_ok h" using pool_reachable_ok [OF assms(2,1)] .
  then have wf: "pool_wf h" by (simp add: pool_ok_def)
  obtain g1 where g1: "a1 = length (p_conns h)" "g1 = h\<lparr>p_conns := p_conns h @ [NewWorkerConn S i os arch cap1 conn1 t1]\<rparr>"
      "register S g1 a1 = (ids1, h1)"
    using NewWorkerConnection_cases [OF assms(5)] assms(3) by metis
  have wfg1: "pool_wf g1" and a1: "a1 < length (p_conns g1)" and n1: "\<not> registered g1 a1"
    using pool_wf_alloc [OF wf] g1(1,2) by simp_all (simp add: registered_def)
  have wf1: "pool_wf h1" using register_wf(1) [OF wfg1 a1 n1, of S] g1(3) by simp
  have idn: "same_ident (p_conns g1 ! a1) (p_conns h1 ! a1)" "length (p_conns h1) = length (p_conns g1)"
    using register_wf(4) [OF wfg1 a1 n1, of a1 S] g1(3)
    by (simp, force simp: register_def Let_def upd_conn_def split: option.splits)
  obtain g2 where g2: "a2 = length (p_conns h1)" "g2 = h1\<lparr>p_conns := p_conns h1 @ [NewWorkerConn S i os arch cap2 conn2 t2]\<rparr>"
      "register S g2 a2 = (ids2, h2)"
    using NewWorkerConnection_cases [OF assms(6)] assms(3) by metis
  have wfg2: "pool_wf g2" and a2: "a2 < length (p_conns g2)" and n2: "\<not> registered g2 a2"
    using pool_wf_alloc [OF wf1] g2(1,2) by simp_all (simp add: registered_def)
  have w2: "w_workerID (p_conns g2 ! a2) = i" "conn_key (p_conns g2 ! a2) = platformKey os arch"
    using g2(1,2) by (simp_all add: NewWorkerConn_def conn_key_def)
  have get: "map_of (p_workers h2) i = Some a2"
    using register_wf(2) [OF wfg2 a2 n2, of S i] g2(3) w2(1) by simp
  have lst: "a2 \<in> set (slice_at (p_platform h2) (platformKey os arch))"
    using register_wf(3) [OF wfg2 a2 n2, of S] g2(3) w2(2) by simp
  have ne: "a1 < a2" using g1(1,2) g2(1) idn(2) by simp
  have "p_conns g2 ! a1 = p_conns h1 ! a1" using ne g2(1,2) by (simp add: nth_append)
  then have "same_ident (p_conns h1 ! a1) (p_conns h2 ! a1)"
    using register_wf(4) [OF wfg2 a2 n2, of a1 S] g2(3) by simp
  then have "w_workerID (p_conns h2 ! a1) = i"
    using idn(1) g1(1,2) by (simp add: same_ident_def NewWorkerConn_def)
  then show ?thesis using get lst ne by (auto simp: GetWorker_def unregister_def)
qed

theorem reconnect_loses_new_worker_witness:
  "\<exists>a1 a2 r1 r2 h1 h2.
     NewWorkerConnection list_set ''u'' (NewWorkerPool \<lparr>sig_waiting = True, sig_woken = False\<rparr>) ''w'' ''linux'' ''arm64'' 2
       \<lparr>nc_open = True, nc_out = []\<rparr> 0 = Inr ((a1, r1), h1) \<and>
     NewWorkerConnection list_set ''u'' h1 ''w'' ''linux'' ''arm64'' 2 \<lparr>nc_open = True, nc_out = []\<rparr> 1 = Inr ((a2, r2), h2) \<and>
     GetWorker h2 ''w'' = Some a2 \<and> GetWorker (snd (unregister list_set h2 a1)) ''w'' = None"
proof -
  let ?lane = "(\<lambda>ns f h. f h) :: string list lane_Do"
  have lane: "lane_runs ?lane" by (simp add: lane_runs_def)
  let ?h0 = "NewWorkerPool \<lparr>sig_waiting = True, sig_woken = False\<rparr>"
  let ?c = "\<lparr>nc_open = True, nc_out = []\<rparr>"
  obtain a1 r1 h1 where c1: "NewWorkerConnection list_set ''u'' ?h0 ''w'' ''linux'' ''arm64'' 2 ?c 0 = Inr ((a1, r1), h1)"
    by (auto simp: NewWorkerConnection_def Let_def case_prod_beta)
  obtain a2 r2 h2 where c2: "NewWorkerConnection list_set ''u'' h1 ''w'' ''linux'' ''arm64'' 2 ?c 1 = Inr ((a2, r2), h2)"
    by (auto simp: NewWorkerConnection_def Let_def case_prod_beta)
  show ?thesis
    using reconnect_loses_new_worker [OF lane pool_reachable.new _ _ c1 c2] c1 c2
    by (auto simp: max_int64_def)
qed

end
