(* ===== verification/Worker_Selector.thy ===== *)
theory Worker_Selector
  imports Worker_Pool
begin

text \<open>
  The selectors of \<^verbatim>\<open>manager/worker_selector.go\<close>: pick one of the eligible workers, by load or in turn.
\<close>

section \<open>Selectors\<close>

fun LeastLoaded_loop :: "'s WorkerPool \<Rightarrow> nat \<Rightarrow> nat list \<Rightarrow> nat" where
  "LeastLoaded_loop h best [] = best"
| "LeastLoaded_loop h best (a # as) =
     (let wCap = AvailableCapacity (p_conns h ! a); bestCap = AvailableCapacity (p_conns h ! best)
      in LeastLoaded_loop h
           (if bestCap < wCap then a
            else if wCap = bestCap \<and> w_lastIdleAt (p_conns h ! a) < w_lastIdleAt (p_conns h ! best) then a
            else best) as)"

text \<open>\<open>None\<close> is the index panic on an empty slice.\<close>

definition LeastLoaded_Select :: "'s WorkerPool \<Rightarrow> nat list \<Rightarrow> nat option" where
  "LeastLoaded_Select h workers =
     (case workers of [] \<Rightarrow> None | a # as \<Rightarrow> Some (LeastLoaded_loop h a as))"

text \<open>The counter is an unsigned 64-bit value; the division panics on an empty slice.\<close>

definition RoundRobin_Select :: "int \<Rightarrow> nat list \<Rightarrow> (nat \<times> int) option" where
  "RoundRobin_Select counter workers =
     (let counter' = (counter + 1) mod 2 ^ 64; idx = (counter' - 1) mod 2 ^ 64
      in if workers = [] then None else Some (workers ! nat (idx mod int (length workers)), counter'))"

section \<open>What the dispatcher relies on\<close>

text \<open>
  The \<^verbatim>\<open>WorkerSelector\<close> interface: given at least one worker, a selector picks one of them. The state
  of the selector, a counter for the round robin, is passed along.
\<close>

locale worker_selector =
  fixes select :: "'c \<Rightarrow> 's WorkerPool \<Rightarrow> nat list \<Rightarrow> (nat \<times> 'c) option"
  assumes picks: "ws \<noteq> [] \<Longrightarrow> \<exists>a c'. select c h ws = Some (a, c') \<and> a \<in> set ws"
begin

lemma selected_in: "select c h ws = Some (a, c') \<Longrightarrow> ws \<noteq> [] \<Longrightarrow> a \<in> set ws"
  using picks [of ws c h] by auto

lemma selected_takes:
  assumes "lane_runs lane" "pool_reachable S lane h" "0 < cost" "cost \<le> max_int64"
    and "fst (eligibleWorkers h platforms cost jobID now) \<noteq> []"
  shows "\<exists>a c' h'. select c h (fst (eligibleWorkers h platforms cost jobID now)) = Some (a, c') \<and>
           w_state (p_conns h ! a) = WorkerStateOnline \<and> subtractCapacity S lane h a jobID cost now = Inr h'"
proof -
  have ok: "pool_ok h" using pool_reachable_ok [OF assms(2,1)] .
  then have wf: "pool_wf h" by (simp add: pool_ok_def)
  obtain a c' where a: "select c h (fst (eligibleWorkers h platforms cost jobID now)) = Some (a, c')"
      "a \<in> set (fst (eligibleWorkers h platforms cost jobID now))"
    using picks [OF assms(5)] by blast
  have el: "eligible (p_conns h ! a) cost jobID now"
    using a(2) eligibleWorkers_spec(1) [OF wf, of cost platforms jobID now] assms(3) by (auto split: if_splits)
  moreover have "a < length (p_conns h)"
    using a(2) eligibleWorkers_spec(1) [OF wf, of cost platforms jobID now] assms(3) wf
    by (auto simp: pool_wf_def registered_def split: if_splits)
  ultimately have "books_ok (p_conns h ! a)" "cost \<le> AvailableCapacity (p_conns h ! a)"
    using ok assms(3) by (auto simp: pool_ok_def eligible_def)
  then have "\<exists>h'. subtractCapacity S lane h a jobID cost now = Inr h'"
    using AssignTask_cases [of "p_conns h ! a" cost S jobID] assms books_ok_avail [of "p_conns h ! a"]
    by (auto simp: subtractCapacity_def lane_runs_def)
  then show ?thesis using a(1) el by (auto simp: eligible_def)
qed

end

text \<open>The two selectors as selector functions.\<close>

definition LeastLoadedSelector :: "'c \<Rightarrow> 's WorkerPool \<Rightarrow> nat list \<Rightarrow> (nat \<times> 'c) option" where
  "LeastLoadedSelector c h ws = map_option (\<lambda>a. (a, c)) (LeastLoaded_Select h ws)"

definition RoundRobinSelector :: "int \<Rightarrow> 's WorkerPool \<Rightarrow> nat list \<Rightarrow> (nat \<times> int) option" where
  "RoundRobinSelector c h ws = RoundRobin_Select c ws"

lemma LeastLoaded_loop_in: "LeastLoaded_loop h best as \<in> insert best (set as)"
  by (induction as arbitrary: best) (auto simp: Let_def split: if_splits)

interpretation least_loaded: worker_selector LeastLoadedSelector
proof unfold_locales
  fix ws :: "nat list" and c :: 'c and h :: "'s WorkerPool"
  assume "ws \<noteq> []"
  then obtain a as where "ws = a # as" by (cases ws) auto
  then show "\<exists>a c'. LeastLoadedSelector c h ws = Some (a, c') \<and> a \<in> set ws"
    using LeastLoaded_loop_in [of h a as] by (auto simp: LeastLoadedSelector_def LeastLoaded_Select_def)
qed

interpretation round_robin: worker_selector RoundRobinSelector
proof unfold_locales
  fix ws :: "nat list" and c and h :: "'s WorkerPool"
  assume ne: "ws \<noteq> []"
  then have "nat (k mod int (length ws)) < length ws" for k
    by (metis length_greater_0_conv nat_less_iff of_nat_0_less_iff pos_mod_bound pos_mod_sign)
  then show "\<exists>a c'. RoundRobinSelector c h ws = Some (a, c') \<and> a \<in> set ws"
    using ne by (simp add: RoundRobinSelector_def RoundRobin_Select_def Let_def)
qed

text \<open>
  The default selector picks one of the offered workers with the highest available capacity, and
  among those one that has been idle since the earliest time.
\<close>

lemma LeastLoaded_best:
  assumes "LeastLoaded_Select h ws = Some r"
  shows "r \<in> set ws \<and>
    (\<forall>a \<in> set ws. AvailableCapacity (p_conns h ! a) < AvailableCapacity (p_conns h ! r) \<or>
       (AvailableCapacity (p_conns h ! a) = AvailableCapacity (p_conns h ! r) \<and>
        w_lastIdleAt (p_conns h ! r) \<le> w_lastIdleAt (p_conns h ! a)))"
proof -
  let ?better = "\<lambda>r a. AvailableCapacity (p_conns h ! a) < AvailableCapacity (p_conns h ! r) \<or>
       (AvailableCapacity (p_conns h ! a) = AvailableCapacity (p_conns h ! r) \<and>
        w_lastIdleAt (p_conns h ! r) \<le> w_lastIdleAt (p_conns h ! a))"
  have "\<forall>a \<in> insert best (set as). ?better (LeastLoaded_loop h best as) a" for best as
  proof (induction as arbitrary: best)
    case Nil
    then show ?case by simp
  next
    case (Cons b as)
    define n where "n = (if AvailableCapacity (p_conns h ! best) < AvailableCapacity (p_conns h ! b) then b
      else if AvailableCapacity (p_conns h ! b) = AvailableCapacity (p_conns h ! best) \<and>
              w_lastIdleAt (p_conns h ! b) < w_lastIdleAt (p_conns h ! best) then b else best)"
    have n: "?better n best" "?better n b" by (auto simp: n_def)
    have "LeastLoaded_loop h best (b # as) = LeastLoaded_loop h n as" by (simp add: n_def Let_def)
    then show ?case using Cons.IH [of n] n by fastforce
  qed
  then show ?thesis
    using assms LeastLoaded_loop_in by (fastforce simp: LeastLoaded_Select_def split: list.splits)
qed

text \<open>The workers a round robin picks in a row from the same list.\<close>

fun RoundRobin_run :: "nat \<Rightarrow> int \<Rightarrow> nat list \<Rightarrow> nat list" where
  "RoundRobin_run 0 c ws = []"
| "RoundRobin_run (Suc n) c ws =
     (case RoundRobin_Select c ws of None \<Rightarrow> [] | Some (a, c') \<Rightarrow> a # RoundRobin_run n c' ws)"

lemma RoundRobin_run_nth:
  assumes "ws \<noteq> []" "0 \<le> c" "c + int n < 2 ^ 64"
  shows "RoundRobin_run n c ws = map (\<lambda>i. ws ! ((nat c + i) mod length ws)) [0..<n]"
  using assms(2,3)
proof (induction n arbitrary: c)
  case 0
  then show ?case by simp
next
  case (Suc n)
  have c: "(c + 1) mod 2 ^ 64 = c + 1" "c mod 2 ^ 64 = c" using Suc.prems by simp_all
  have "nat (c mod int (length ws)) = nat c mod length ws" using Suc.prems(1) by (simp add: nat_mod_distrib)
  then have "RoundRobin_Select c ws = Some (ws ! (nat c mod length ws), c + 1)"
    using assms(1) c by (simp add: RoundRobin_Select_def Let_def)
  moreover have "RoundRobin_run n (c + 1) ws = map (\<lambda>i. ws ! ((nat c + Suc i) mod length ws)) [0..<n]"
    using Suc.IH [of "c + 1"] Suc.prems by (simp add: nat_add_distrib)
  ultimately show ?case
    by (simp add: upt_conv_Cons map_Suc_upt [symmetric] comp_def del: upt_Suc)
qed

text \<open>
  Over as many consecutive selections as there are workers, the round robin picks every worker
  exactly once, as long as its counter does not wrap.
\<close>

lemma RoundRobin_fair:
  assumes "ws \<noteq> []" and "0 \<le> c" and "c + int (length ws) < 2 ^ 64"
  shows "mset (RoundRobin_run (length ws) c ws) = mset ws"
proof -
  have "RoundRobin_run (length ws) c ws = rotate (nat c) ws"
    unfolding RoundRobin_run_nth [OF assms] by (rule nth_equalityI) (simp_all add: nth_rotate)
  moreover have "mset (rotate1 xs) = mset xs" for xs :: "nat list"
    by (cases xs) simp_all
  then have "mset (rotate k xs) = mset xs" for k and xs :: "nat list"
    by (induction k) simp_all
  ultimately show ?thesis by simp
qed

end
