(* ===== verification/Webhook_Dispatch.thy ===== *)
theory Webhook_Dispatch
  imports Mem_Store
begin

text \<open>
  The webhook dispatcher of \<^verbatim>\<open>manager/webhooks/dispatcher.go\<close> over the in-memory store: events become
  entries of the delivery queue, due entries are posted and retried with exponential backoff. The
  outcome of the HTTP post is a parameter, and so is the identifier of a new entry.
\<close>

section \<open>Events\<close>

record WebhookDispatcherConfig =
  WebhookTimeout :: duration
  WebhookMaxBackoff :: duration
  MaxWebhookAttempts :: int

text \<open>The defaults the constructor fills in.\<close>

definition NewWebhookDispatcher :: "WebhookDispatcherConfig \<Rightarrow> WebhookDispatcherConfig" where
  "NewWebhookDispatcher cfg =
     (let cfg1 = (if WebhookTimeout cfg \<le> 0 then cfg\<lparr>WebhookTimeout := Second\<rparr> else cfg)
      in if WebhookMaxBackoff cfg1 \<le> 0 then cfg1\<lparr>WebhookMaxBackoff := 5 * Minute\<rparr> else cfg1)"

fun sliceContains :: "string list \<Rightarrow> string \<Rightarrow> bool" where
  "sliceContains [] v = False"
| "sliceContains (x # xs) v = (if x = v then True else sliceContains xs v)"

definition ShouldDispatchEvent :: "Job \<Rightarrow> string \<Rightarrow> bool" where
  "ShouldDispatchEvent job event =
     (if jWebhookURL job = [] then False
      else if jWebhookEvents job \<noteq> [] \<and> \<not> sliceContains (jWebhookEvents job) event then False
      else True)"

text \<open>\<open>enqueue\<close> repeats the two tests of \<open>ShouldDispatchEvent\<close> before it stores the entry.\<close>

definition webhook_enqueue ::
  "string \<Rightarrow> MemStore \<Rightarrow> Job \<Rightarrow> string \<Rightarrow> (string, ev_value) gomap \<Rightarrow> time \<Rightarrow> MemStore" where
  "webhook_enqueue ulid m job event payload now =
     (if jWebhookURL job = [] then m
      else if jWebhookEvents job \<noteq> [] \<and> \<not> sliceContains (jWebhookEvents job) event then m
      else EnqueueWebhook m
             \<lparr>whID = ulid, whJobID = jID job, whEvent = event, whURL = jWebhookURL job,
              whPayload = \<lparr>evEvent = event, evJobID = jID job, evParentJobID = jParentJobID job,
                           evTimestamp = now, evData = payload\<rparr>,
              whHeaders = jWebhookHeaders job, whAttempts = 0, whNextAttemptAt = now, whCreatedAt = now\<rparr>)"

definition FireJobProposing :: "string \<Rightarrow> MemStore \<Rightarrow> Job \<Rightarrow> string \<Rightarrow> time \<Rightarrow> MemStore" where
  "FireJobProposing ulid m job workerID now =
     webhook_enqueue ulid m job ''task.proposing''
       [(''task_name'', EvString (jTaskName job)), (''cost'', EvInt (jCost job)), (''worker_id'', EvString workerID)] now"

definition FireJobRunning :: "string \<Rightarrow> MemStore \<Rightarrow> Job \<Rightarrow> string \<Rightarrow> time \<Rightarrow> MemStore" where
  "FireJobRunning ulid m job workerID now =
     webhook_enqueue ulid m job ''job.running'' [(''worker_id'', EvString workerID)] now"

definition FireJobFailed :: "string \<Rightarrow> MemStore \<Rightarrow> Job \<Rightarrow> string \<Rightarrow> time \<Rightarrow> MemStore" where
  "FireJobFailed ulid m job reason now =
     webhook_enqueue ulid m job ''job.failed'' [(''failure_reason'', EvString reason)] now"

definition FireJobCompleted :: "string \<Rightarrow> MemStore \<Rightarrow> Job \<Rightarrow> time \<Rightarrow> MemStore" where
  "FireJobCompleted ulid m job now =
     webhook_enqueue ulid m job ''job.completed'' [(''result'', EvBytes (jResult job))] now"

definition FireJobCancelled :: "string \<Rightarrow> MemStore \<Rightarrow> Job \<Rightarrow> time \<Rightarrow> MemStore" where
  "FireJobCancelled ulid m job now = webhook_enqueue ulid m job ''job.cancelled'' [] now"

definition FireJobProgress :: "string \<Rightarrow> MemStore \<Rightarrow> Job \<Rightarrow> int \<Rightarrow> int \<Rightarrow> time \<Rightarrow> MemStore" where
  "FireJobProgress ulid m job done_n total_n now =
     webhook_enqueue ulid m job ''job.progress''
       [(''completed_tasks'', EvInt done_n), (''total_tasks'', EvInt total_n)] now"

section \<open>Delivery\<close>

text \<open>
  \<^verbatim>\<open>time.Duration(math.Pow(2, float64(attempts-1))) * time.Second\<close>: powers of two up to \<open>2^62\<close> convert
  exactly, larger ones to the least 64-bit integer (the behaviour of amd64), and the product wraps.
  Attempts are positive here.
\<close>

definition webhook_backoff :: "int \<Rightarrow> duration" where
  "webhook_backoff attempts =
     wrap64 ((if attempts - 1 < 63 then 2 ^ nat (attempts - 1) else min_int64) * Second)"

definition scheduleRetry :: "WebhookDispatcherConfig \<Rightarrow> MemStore \<Rightarrow> WebhookEntry \<Rightarrow> time \<Rightarrow> time \<times> MemStore" where
  "scheduleRetry cfg m e now =
     (let attempts = wrap64 (whAttempts e + 1)
      in if 0 < MaxWebhookAttempts cfg \<and> MaxWebhookAttempts cfg \<le> attempts
         then (0, AckWebhook m (whID e))
         else let backoff0 = webhook_backoff attempts;
                  backoff = (if WebhookMaxBackoff cfg < backoff0 then WebhookMaxBackoff cfg else backoff0);
                  nxt = now + backoff
              in (nxt, case NackWebhook m (whID e) attempts nxt of Inl err \<Rightarrow> m | Inr m' \<Rightarrow> m'))"

text \<open>\<open>post\<close> tells whether the request could be made and was answered with status 200.\<close>

definition deliver :: "(WebhookEntry \<Rightarrow> bool) \<Rightarrow> MemStore \<Rightarrow> WebhookEntry \<Rightarrow> MemStore res" where
  "deliver post m e = (if post e then Inr (AckWebhook m (whID e)) else Inl (Errorf ''http post''))"

fun process_entries ::
  "(WebhookEntry \<Rightarrow> bool) \<Rightarrow> WebhookDispatcherConfig \<Rightarrow> time \<Rightarrow> MemStore \<Rightarrow> time \<Rightarrow> WebhookEntry list \<Rightarrow> time \<times> MemStore" where
  "process_entries post cfg now m nextWake [] = (nextWake, m)"
| "process_entries post cfg now m nextWake (e # es) =
     (case deliver post m e of
        Inr m' \<Rightarrow> process_entries post cfg now m' nextWake es
      | Inl err \<Rightarrow>
          (let (nxt, m') = scheduleRetry cfg m e now
           in process_entries post cfg now m'
                (if \<not> IsZero nxt \<and> (IsZero nextWake \<or> nxt < nextWake) then nxt else nextWake) es))"

definition processPending ::
  "(WebhookEntry \<Rightarrow> bool) \<Rightarrow> WebhookDispatcherConfig \<Rightarrow> MemStore \<Rightarrow> time \<Rightarrow> duration \<times> MemStore" where
  "processPending post cfg m now =
     (let (nextWake, m') = process_entries post cfg now m 0 (DequeueWebhooks m now)
      in if IsZero nextWake then (Hour, m')
         else (if nextWake - now < 0 then 0 else nextWake - now, m'))"

section \<open>The queue as a map\<close>

lemma sliceContains_iff [simp]: "sliceContains xs v \<longleftrightarrow> v \<in> set xs"
  by (induction xs) auto

text \<open>What one round makes of a due entry.\<close>

definition after_attempt :: "(WebhookEntry \<Rightarrow> bool) \<Rightarrow> WebhookDispatcherConfig \<Rightarrow> time \<Rightarrow> WebhookEntry \<Rightarrow> WebhookEntry option" where
  "after_attempt post cfg now e =
     (let attempts = wrap64 (whAttempts e + 1)
      in if post e then None
         else if 0 < MaxWebhookAttempts cfg \<and> MaxWebhookAttempts cfg \<le> attempts then None
         else Some (e\<lparr>whAttempts := attempts,
                      whNextAttemptAt := now + min (WebhookMaxBackoff cfg) (webhook_backoff attempts)\<rparr>))"

lemma scheduleRetry_webhooks:
  assumes "map_of (ms_webhooks m) (whID e) = Some e" "\<not> post e"
  shows "map_of (ms_webhooks (snd (scheduleRetry cfg m e now))) =
     (map_of (ms_webhooks m)) (whID e := after_attempt post cfg now e)"
proof -
  define n where "n = wrap64 (whAttempts e + 1)"
  show ?thesis
  proof (cases "0 < MaxWebhookAttempts cfg \<and> MaxWebhookAttempts cfg \<le> n")
    case True
    then show ?thesis
      using assms(2) by (simp add: scheduleRetry_def after_attempt_def n_def [symmetric] AckWebhook_def delete_conv')
  next
    case False
    then show ?thesis
      unfolding scheduleRetry_def after_attempt_def Let_def n_def [symmetric] if_not_P [OF False]
      using assms by (simp add: NackWebhook_def update_conv' min_def)
  qed
qed

lemma process_entries_webhooks:
  assumes "distinct (map whID es)" "\<forall>e \<in> set es. map_of (ms_webhooks m) (whID e) = Some e"
  shows "map_of (ms_webhooks (snd (process_entries post cfg now m w es))) i =
     (case find (\<lambda>e. whID e = i) es of
        None \<Rightarrow> map_of (ms_webhooks m) i | Some e \<Rightarrow> after_attempt post cfg now e)"
  using assms
proof (induction es arbitrary: m w)
  case Nil
  then show ?case by simp
next
  case (Cons e es)
  define m1 where "m1 = (if post e then AckWebhook m (whID e) else snd (scheduleRetry cfg m e now))"
  have m1: "map_of (ms_webhooks m1) = (map_of (ms_webhooks m)) (whID e := after_attempt post cfg now e)"
  proof (cases "post e")
    case True
    then show ?thesis by (simp add: m1_def AckWebhook_def delete_conv' after_attempt_def)
  next
    case False
    then show ?thesis using scheduleRetry_webhooks [of m e post cfg now] Cons.prems(2) by (simp add: m1_def)
  qed
  obtain w' where step: "snd (process_entries post cfg now m w (e # es)) = snd (process_entries post cfg now m1 w' es)"
    by (cases "post e") (simp_all add: deliver_def m1_def case_prod_beta Let_def)
  have ne: "whID e' \<noteq> whID e" if "e' \<in> set es" for e'
    using Cons.prems(1) that by (auto simp: image_iff)
  then have "\<forall>e' \<in> set es. map_of (ms_webhooks m1) (whID e') = Some e'"
    using Cons.prems(2) by (simp add: m1)
  from Cons.IH [OF _ this, of w'] Cons.prems(1)
  have ih: "map_of (ms_webhooks (snd (process_entries post cfg now m1 w' es))) i =
     (case find (\<lambda>e. whID e = i) es of
        None \<Rightarrow> map_of (ms_webhooks m1) i | Some e \<Rightarrow> after_attempt post cfg now e)" by simp
  show ?case
  proof (cases "whID e = i")
    case True
    then have "find (\<lambda>e. whID e = i) es = None" using ne by (auto simp: find_None_iff)
    then show ?thesis unfolding step using ih True by (simp add: m1)
  next
    case False
    then show ?thesis unfolding step using ih by (simp add: m1 split: option.splits)
  qed
qed

definition webhooks_wf :: "MemStore \<Rightarrow> bool" where
  "webhooks_wf m \<longleftrightarrow> keys_distinct (ms_webhooks m) \<and> (\<forall>(i, e) \<in> set (ms_webhooks m). whID e = i)"

lemma webhooks_wf_EnqueueWebhook: "webhooks_wf m \<Longrightarrow> webhooks_wf (EnqueueWebhook m e)"
  using ids_update [of "ms_webhooks m" whID e "whID e"] by (simp add: webhooks_wf_def EnqueueWebhook_def)

lemma webhooks_wf_enqueue: "webhooks_wf m \<Longrightarrow> webhooks_wf (webhook_enqueue u m job event d now)"
  by (simp add: webhook_enqueue_def webhooks_wf_EnqueueWebhook)

lemma processPending_map:
  assumes "webhooks_wf m"
  shows "map_of (ms_webhooks (snd (processPending post cfg m now))) i =
     (case map_of (ms_webhooks m) i of
        None \<Rightarrow> None
      | Some e \<Rightarrow>
          if now < whNextAttemptAt e then Some e
          else if post e then None
          else if 0 < MaxWebhookAttempts cfg \<and> MaxWebhookAttempts cfg \<le> wrap64 (whAttempts e + 1) then None
          else Some (e\<lparr>whAttempts := wrap64 (whAttempts e + 1),
                 whNextAttemptAt := now + min (WebhookMaxBackoff cfg) (webhook_backoff (wrap64 (whAttempts e + 1)))\<rparr>))"
proof -
  let ?es = "DequeueWebhooks m now"
  have ids: "map whID (map snd (ms_webhooks m)) = map fst (ms_webhooks m)"
    using assms by (simp add: webhooks_wf_def case_prod_beta)
  then have "distinct (map whID (map snd (ms_webhooks m)))"
    using assms by (simp only: webhooks_wf_def keys_distinct_def)
  then have dist: "distinct (map whID ?es)" unfolding DequeueWebhooks_def by (rule distinct_map_filter)
  have stored: "map_of (ms_webhooks m) (whID e) = Some e" if "e \<in> set ?es" for e
    using that assms by (force simp: DequeueWebhooks_def webhooks_wf_def keys_distinct_def)
  have "find (\<lambda>e. whID e = i) ?es =
      (case map_of (ms_webhooks m) i of None \<Rightarrow> None | Some e \<Rightarrow> if now < whNextAttemptAt e then None else Some e)"
  proof (cases "find (\<lambda>e. whID e = i) ?es")
    case None
    have "now < whNextAttemptAt e" if "map_of (ms_webhooks m) i = Some e" for e
    proof (rule ccontr)
      assume "\<not> now < whNextAttemptAt e"
      moreover have "(i, e) \<in> set (ms_webhooks m)" using that by (rule map_of_SomeD)
      ultimately have "e \<in> set ?es" "whID e = i" using assms by (force simp: DequeueWebhooks_def webhooks_wf_def)+
      then show False using None by (auto simp: find_None_iff)
    qed
    then show ?thesis using None by (auto split: option.splits)
  next
    case (Some e)
    then have "e \<in> set ?es" "whID e = i" by (auto simp: find_Some_iff)
    then show ?thesis using Some stored [of e] by (auto simp: DequeueWebhooks_def)
  qed
  then show ?thesis
    using process_entries_webhooks [OF dist, of m post cfg now 0 i] stored
    by (auto simp: processPending_def case_prod_beta Let_def after_attempt_def split: option.splits)
qed

text \<open>
  C26: one delivery round removes a due entry exactly when its post succeeded or its attempts are
  exhausted; every other due entry stays with one more attempt and a later time capped by the maximal
  backoff, and entries that are not due are left alone.
\<close>

theorem processPending_queue:
  assumes "webhooks_wf m"
  shows "map_of (ms_webhooks (snd (processPending post cfg m now))) i =
     (case map_of (ms_webhooks m) i of
        None \<Rightarrow> None
      | Some e \<Rightarrow>
          if now < whNextAttemptAt e then Some e
          else if post e then None
          else if 0 < MaxWebhookAttempts cfg \<and> MaxWebhookAttempts cfg \<le> wrap64 (whAttempts e + 1) then None
          else Some (e\<lparr>whAttempts := wrap64 (whAttempts e + 1),
                 whNextAttemptAt := now + min (WebhookMaxBackoff cfg) (webhook_backoff (wrap64 (whAttempts e + 1)))\<rparr>))"
  using processPending_map [OF assms] .

theorem processPending_queue_witness:
  "let e = \<lparr>whID = ''w1'', whJobID = ''j'', whEvent = ''job.failed'', whURL = ''u'',
            whPayload = \<lparr>evEvent = ''job.failed'', evJobID = ''j'', evParentJobID = [], evTimestamp = 0, evData = []\<rparr>,
            whHeaders = [], whAttempts = 1, whNextAttemptAt = 5, whCreatedAt = 0\<rparr>;
       cfg = \<lparr>WebhookTimeout = Second, WebhookMaxBackoff = 5 * Minute, MaxWebhookAttempts = 0\<rparr>
   in map_of (ms_webhooks (snd (processPending (\<lambda>e. False) cfg (EnqueueWebhook NewMemStore e) 10))) ''w1'' =
        Some (e\<lparr>whAttempts := 2, whNextAttemptAt := 10 + 2 * Second\<rparr>)"
proof -
  define e where "e = \<lparr>whID = ''w1'', whJobID = ''j'', whEvent = ''job.failed'', whURL = ''u'',
            whPayload = \<lparr>evEvent = ''job.failed'', evJobID = ''j'', evParentJobID = [], evTimestamp = 0, evData = []\<rparr>,
            whHeaders = [], whAttempts = 1, whNextAttemptAt = 5, whCreatedAt = 0\<rparr>"
  have "webhooks_wf (EnqueueWebhook NewMemStore e)"
    by (simp add: webhooks_wf_def EnqueueWebhook_def NewMemStore_def keys_distinct_def)
  from processPending_queue [OF this, of "\<lambda>e. False"
      "\<lparr>WebhookTimeout = Second, WebhookMaxBackoff = 5 * Minute, MaxWebhookAttempts = 0\<rparr>" 10 "''w1''"]
  show ?thesis
    by (simp add: e_def [symmetric] EnqueueWebhook_def NewMemStore_def Let_def)
      (simp add: e_def wrap64_def webhook_backoff_def)
qed

text \<open>
  The delay before a retry doubles from one second up to the cap as long as there were at most 34
  attempts; at the 35th the product overflows to a negative delay, and from the 56th on the delay is
  zero, so an entry that is retried without limit is then posted in a tight loop.
\<close>

lemma webhook_backoff_overflow:
  shows "(\<forall>n. 1 \<le> n \<and> n \<le> 34 \<longrightarrow> webhook_backoff n = 2 ^ nat (n - 1) * Second) \<and>
         webhook_backoff 35 < 0 \<and> (\<forall>n. 56 \<le> n \<longrightarrow> webhook_backoff n = 0)"
proof (intro conjI allI impI)
  fix n :: int assume n: "1 \<le> n \<and> n \<le> 34"
  have "(2::int) ^ nat (n - 1) \<le> 2 ^ 33" using n by (intro power_increasing) auto
  then show "webhook_backoff n = 2 ^ nat (n - 1) * Second"
    using n unfolding webhook_backoff_def
    by (subst wrap64_id) (auto simp: in_int64_def min_int64_def max_int64_def intro: order_trans [of _ 0])
next
  show "webhook_backoff 35 < 0" by (simp add: webhook_backoff_def wrap64_def)
next
  fix n :: int assume n: "56 \<le> n"
  show "webhook_backoff n = 0"
  proof (cases "n - 1 < 63")
    case True
    have "nat (n - 1) = nat (n - 56) + 55" using n by simp
    then have eq: "(2::int) ^ nat (n - 1) * Second = 2 ^ 64 * (2 ^ nat (n - 56) * 1953125)"
      by (simp add: power_add)
    have "wrap64 (2 ^ 64 * k) = 0" for k unfolding wrap64_def mod_mult_self4 by simp
    then show ?thesis unfolding webhook_backoff_def if_P [OF True] eq .
  next
    case False
    then show ?thesis by (simp add: webhook_backoff_def wrap64_def min_int64_def)
  qed
qed

end
