(* ===== verification/Json_Payload.thy ===== *)
theory Json_Payload
  imports Mem_Store
begin

text \<open>
  Payloads and results: \<^verbatim>\<open>contract/json_or_bytes.go\<close> and the consolidation payload of
  \<^verbatim>\<open>manager/manager.go\<close>, with what they use of \<^verbatim>\<open>encoding/json\<close> and \<^verbatim>\<open>encoding/base64\<close>. A JSON value keeps
  the text of its numbers and strings as written, so that printing it compacts it the way
  \<^verbatim>\<open>json.Marshal\<close> does. The scanner's limit of 10000 nested values is left out. Text outside ASCII is
  kept byte by byte, as is text that is not valid UTF-8.
\<close>

section \<open>Values\<close>

datatype json =
    JNull
  | JBool bool
  | JNum string
  | JStr string
  | JArr "json list"
  | JObj "(string \<times> json) list"

abbreviation dquote :: char where "dquote \<equiv> CHR 0x22"
abbreviation backslash :: char where "backslash \<equiv> CHR 0x5C"

definition byte :: "char \<Rightarrow> nat" where "byte c = of_char c"

definition is_ws :: "char \<Rightarrow> bool" where
  "is_ws c \<longleftrightarrow> c = CHR '' '' \<or> c = CHR 0x09 \<or> c = CHR 0x0A \<or> c = CHR 0x0D"

definition skip_ws :: "string \<Rightarrow> string" where "skip_ws s = dropWhile is_ws s"

definition is_digit :: "char \<Rightarrow> bool" where "is_digit c \<longleftrightarrow> 48 \<le> byte c \<and> byte c \<le> 57"

definition is_hex :: "char \<Rightarrow> bool" where
  "is_hex c \<longleftrightarrow> is_digit c \<or> 97 \<le> byte c \<and> byte c \<le> 102 \<or> 65 \<le> byte c \<and> byte c \<le> 70"

definition is_escape :: "char \<Rightarrow> bool" where
  "is_escape c \<longleftrightarrow> c \<in> set [dquote, backslash, CHR ''/'', CHR ''b'', CHR ''f'', CHR ''n'', CHR ''r'', CHR ''t'']"

text \<open>The text of a string after its opening quote, up to the closing one.\<close>

fun scan_string :: "string \<Rightarrow> (string \<times> string) option" where
  "scan_string [] = None"
| "scan_string (c # cs) =
     (if c = dquote then Some ([], cs)
      else if byte c < 32 then None
      else if c = backslash
           then (case cs of
                   [] \<Rightarrow> None
                 | e # es \<Rightarrow>
                     (if is_escape e then map_option (\<lambda>(r, t). (c # e # r, t)) (scan_string es)
                      else if e = CHR ''u''
                           then (case es of
                                   h1 # h2 # h3 # h4 # t \<Rightarrow>
                                     (if is_hex h1 \<and> is_hex h2 \<and> is_hex h3 \<and> is_hex h4
                                      then map_option (\<lambda>(r, t). (c # e # h1 # h2 # h3 # h4 # r, t)) (scan_string t)
                                      else None)
                                 | _ \<Rightarrow> None)
                           else None))
           else map_option (\<lambda>(r, t). (c # r, t)) (scan_string cs))"

definition scan_int :: "string \<Rightarrow> (string \<times> string) option" where
  "scan_int s =
     (case s of
        [] \<Rightarrow> None
      | c # cs \<Rightarrow>
          (if c = CHR ''0'' then Some ([c], cs)
           else if is_digit c then Some (c # takeWhile is_digit cs, dropWhile is_digit cs) else None))"

definition scan_frac :: "string \<Rightarrow> (string \<times> string) option" where
  "scan_frac s =
     (case s of
        c # d # cs \<Rightarrow>
          (if c \<noteq> CHR ''.'' then Some ([], s)
           else if is_digit d then Some (c # d # takeWhile is_digit cs, dropWhile is_digit cs) else None)
      | [c] \<Rightarrow> (if c = CHR ''.'' then None else Some ([], s))
      | [] \<Rightarrow> Some ([], []))"

definition scan_exp :: "string \<Rightarrow> (string \<times> string) option" where
  "scan_exp s =
     (case s of
        [] \<Rightarrow> Some ([], [])
      | c # cs \<Rightarrow>
          (if c \<noteq> CHR ''e'' \<and> c \<noteq> CHR ''E'' then Some ([], s)
           else let (sign, ds) = (case cs of d # r \<Rightarrow> (if d = CHR ''+'' \<or> d = CHR ''-'' then ([d], r) else ([], cs)) | [] \<Rightarrow> ([], []))
                in if ds \<noteq> [] \<and> is_digit (hd ds)
                   then Some (c # sign @ takeWhile is_digit ds, dropWhile is_digit ds) else None))"

definition scan_number :: "string \<Rightarrow> (string \<times> string) option" where
  "scan_number s =
     (let (sign, s1) = (case s of c # cs \<Rightarrow> (if c = CHR ''-'' then ([c], cs) else ([], s)) | [] \<Rightarrow> ([], []))
      in case scan_int s1 of
           None \<Rightarrow> None
         | Some (i, s2) \<Rightarrow>
             (case scan_frac s2 of
                None \<Rightarrow> None
              | Some (f, s3) \<Rightarrow>
                  (case scan_exp s3 of None \<Rightarrow> None | Some (e, s4) \<Rightarrow> Some (sign @ i @ f @ e, s4))))"

definition scan_word :: "string \<Rightarrow> json \<Rightarrow> string \<Rightarrow> (json \<times> string) option" where
  "scan_word w j s = (if take (length w) s = w then Some (j, drop (length w) s) else None)"

text \<open>
  A value, the rest of an array after an element, and the members of an object from a key on. Every
  call consumes a character, so the length of the text is fuel enough.
\<close>

fun json_value :: "nat \<Rightarrow> string \<Rightarrow> (json \<times> string) option"
  and json_elems :: "nat \<Rightarrow> string \<Rightarrow> (json list \<times> string) option"
  and json_members :: "nat \<Rightarrow> string \<Rightarrow> ((string \<times> json) list \<times> string) option" where
  "json_value 0 s = None"
| "json_value (Suc n) s =
     (case s of
        [] \<Rightarrow> None
      | c # cs \<Rightarrow>
          (if c = dquote then map_option (\<lambda>(r, t). (JStr r, t)) (scan_string cs)
           else if c = CHR ''['' then
             (case skip_ws cs of
                [] \<Rightarrow> None
              | d # ds \<Rightarrow> (if d = CHR '']'' then Some (JArr [], ds)
                            else map_option (\<lambda>(js, t). (JArr js, t)) (json_elems n (d # ds))))
           else if c = CHR ''{'' then
             (case skip_ws cs of
                [] \<Rightarrow> None
              | d # ds \<Rightarrow> (if d = CHR ''}'' then Some (JObj [], ds)
                            else map_option (\<lambda>(ms, t). (JObj ms, t)) (json_members n (d # ds))))
           else if c = CHR ''n'' then scan_word ''null'' JNull s
           else if c = CHR ''t'' then scan_word ''true'' (JBool True) s
           else if c = CHR ''f'' then scan_word ''false'' (JBool False) s
           else map_option (\<lambda>(x, t). (JNum x, t)) (scan_number s)))"
| "json_elems 0 s = None"
| "json_elems (Suc n) s =
     (case json_value n s of
        None \<Rightarrow> None
      | Some (j, t) \<Rightarrow>
          (case skip_ws t of
             [] \<Rightarrow> None
           | d # ds \<Rightarrow>
               (if d = CHR '']'' then Some ([j], ds)
                else if d = CHR '','' then map_option (\<lambda>(js, t). (j # js, t)) (json_elems n (skip_ws ds))
                else None)))"
| "json_members 0 s = None"
| "json_members (Suc n) s =
     (case s of
        [] \<Rightarrow> None
      | c # cs \<Rightarrow>
          (if c \<noteq> dquote then None
           else case scan_string cs of
                  None \<Rightarrow> None
                | Some (k, t) \<Rightarrow>
                    (case skip_ws t of
                       [] \<Rightarrow> None
                     | d # ds \<Rightarrow>
                         (if d \<noteq> CHR '':'' then None
                          else case json_value n (skip_ws ds) of
                                 None \<Rightarrow> None
                               | Some (j, u) \<Rightarrow>
                                   (case skip_ws u of
                                      [] \<Rightarrow> None
                                    | e # es \<Rightarrow>
                                        (if e = CHR ''}'' then Some ([(k, j)], es)
                                         else if e = CHR '','' then map_option (\<lambda>(ms, t). ((k, j) # ms, t)) (json_members n (skip_ws es))
                                         else None))))))"

definition json_parse :: "string \<Rightarrow> json option" where
  "json_parse s =
     (case json_value (Suc (2 * length s)) (skip_ws s) of
        Some (j, t) \<Rightarrow> (if skip_ws t = [] then Some j else None) | None \<Rightarrow> None)"

definition json_Valid :: "bytes \<Rightarrow> bool" where "json_Valid s \<longleftrightarrow> json_parse s \<noteq> None"

section \<open>Printing\<close>

definition sep_concat :: "string \<Rightarrow> string list \<Rightarrow> string" where
  "sep_concat sep xs = (case xs of [] \<Rightarrow> [] | y # ys \<Rightarrow> y @ concat (map (\<lambda>x. sep @ x) ys))"

text \<open>
  The characters that \<^verbatim>\<open>json.Marshal\<close> replaces in the text of strings, also in what a marshaler
  returned: angle brackets, the ampersand and the two line separators of Unicode.
\<close>

definition u_escape :: "string \<Rightarrow> string" where "u_escape hex = backslash # CHR ''u'' # hex"

fun html_escape :: "string \<Rightarrow> string" where
  "html_escape [] = []"
| "html_escape (c # cs) =
     (if c = CHR ''<'' then u_escape ''003c'' @ html_escape cs
      else if c = CHR ''>'' then u_escape ''003e'' @ html_escape cs
      else if c = CHR ''&'' then u_escape ''0026'' @ html_escape cs
      else case cs of
             d # e # es \<Rightarrow>
               (if c = CHR 0xE2 \<and> d = CHR 0x80 \<and> e = CHR 0xA8 then u_escape ''2028'' @ html_escape es
                else if c = CHR 0xE2 \<and> d = CHR 0x80 \<and> e = CHR 0xA9 then u_escape ''2029'' @ html_escape es
                else c # html_escape cs)
           | _ \<Rightarrow> c # html_escape cs)"

fun json_compact :: "json \<Rightarrow> string" where
  "json_compact JNull = ''null''"
| "json_compact (JBool b) = (if b then ''true'' else ''false'')"
| "json_compact (JNum x) = x"
| "json_compact (JStr r) = dquote # html_escape r @ [dquote]"
| "json_compact (JArr js) = ''['' @ sep_concat '','' (map json_compact js) @ '']''"
| "json_compact (JObj ms) =
     ''{'' @ sep_concat '','' (map (\<lambda>(k, j). dquote # html_escape k @ [dquote] @ '':'' @ json_compact j) ms) @ ''}''"

text \<open>A Go string as a JSON string.\<close>

definition hex_digit :: "nat \<Rightarrow> char" where
  "hex_digit n = (if n < 10 then char_of (48 + n) else char_of (87 + n))"

definition quote_char :: "char \<Rightarrow> string" where
  "quote_char c =
     (if c = dquote \<or> c = backslash then [backslash, c]
      else if c = CHR 0x08 then [backslash, CHR ''b'']
      else if c = CHR 0x0C then [backslash, CHR ''f'']
      else if c = CHR 0x0A then [backslash, CHR ''n'']
      else if c = CHR 0x0D then [backslash, CHR ''r'']
      else if c = CHR 0x09 then [backslash, CHR ''t'']
      else if byte c < 32 then u_escape [CHR ''0'', CHR ''0'', hex_digit (byte c div 16), hex_digit (byte c mod 16)]
      else [c])"

definition json_string :: "string \<Rightarrow> string" where
  "json_string s = dquote # html_escape (concat (map quote_char s)) @ [dquote]"

section \<open>Base64\<close>

definition b64_char :: "nat \<Rightarrow> char" where
  "b64_char n =
     (if n < 26 then char_of (65 + n) else if n < 52 then char_of (71 + n) else if n < 62 then char_of (n - 4)
      else if n = 62 then CHR ''+'' else CHR ''/'')"

definition b64_val :: "char \<Rightarrow> nat option" where
  "b64_val c =
     (let n = byte c
      in if 65 \<le> n \<and> n \<le> 90 then Some (n - 65) else if 97 \<le> n \<and> n \<le> 122 then Some (n - 71)
         else if 48 \<le> n \<and> n \<le> 57 then Some (n + 4)
         else if c = CHR ''+'' then Some 62 else if c = CHR ''/'' then Some 63 else None)"

fun b64_encode :: "bytes \<Rightarrow> string" where
  "b64_encode [] = []"
| "b64_encode [a] = [b64_char (byte a div 4), b64_char (byte a mod 4 * 16), CHR ''='', CHR ''='']"
| "b64_encode [a, b] =
     [b64_char (byte a div 4), b64_char (byte a mod 4 * 16 + byte b div 16), b64_char (byte b mod 16 * 4), CHR ''='']"
| "b64_encode (a # b # c # cs) =
     b64_char (byte a div 4) # b64_char (byte a mod 4 * 16 + byte b div 16)
     # b64_char (byte b mod 16 * 4 + byte c div 64) # b64_char (byte c mod 64) # b64_encode cs"

fun b64_quads :: "string \<Rightarrow> bytes option" where
  "b64_quads [] = Some []"
| "b64_quads (a # b # c # d # cs) =
     (case (b64_val a, b64_val b) of
        (Some w, Some x) \<Rightarrow>
          (if c = CHR ''='' \<and> d = CHR ''='' then (if cs = [] then Some [char_of (w * 4 + x div 16)] else None)
           else case b64_val c of
                  None \<Rightarrow> None
                | Some y \<Rightarrow>
                    (if d = CHR ''=''
                     then (if cs = [] then Some [char_of (w * 4 + x div 16), char_of (x mod 16 * 16 + y div 4)] else None)
                     else case b64_val d of
                            None \<Rightarrow> None
                          | Some z \<Rightarrow>
                              map_option (\<lambda>r. char_of (w * 4 + x div 16) # char_of (x mod 16 * 16 + y div 4)
                                               # char_of (y mod 4 * 64 + z) # r) (b64_quads cs)))
      | _ \<Rightarrow> None)"
| "b64_quads _ = None"

text \<open>The decoder skips line breaks.\<close>

definition b64_decode :: "string \<Rightarrow> bytes option" where
  "b64_decode s = b64_quads (filter (\<lambda>c. c \<noteq> CHR 0x0A \<and> c \<noteq> CHR 0x0D) s)"

section \<open>Unquoting\<close>

definition hex_val :: "char \<Rightarrow> nat" where
  "hex_val c = (if is_digit c then byte c - 48 else if 97 \<le> byte c then byte c - 87 else byte c - 55)"

definition utf8 :: "nat \<Rightarrow> string" where
  "utf8 n =
     (if n < 128 then [char_of n]
      else if n < 2048 then [char_of (192 + n div 64), char_of (128 + n mod 64)]
      else if n < 65536 then [char_of (224 + n div 4096), char_of (128 + n div 64 mod 64), char_of (128 + n mod 64)]
      else [char_of (240 + n div 262144), char_of (128 + n div 4096 mod 64), char_of (128 + n div 64 mod 64), char_of (128 + n mod 64)])"

text \<open>An unpaired surrogate stands for the replacement character.\<close>

definition hex4 :: "char \<Rightarrow> char \<Rightarrow> char \<Rightarrow> char \<Rightarrow> nat" where
  "hex4 a b c d = ((hex_val a * 16 + hex_val b) * 16 + hex_val c) * 16 + hex_val d"

definition is_surrogate :: "nat \<Rightarrow> bool" where "is_surrogate n \<longleftrightarrow> 55296 \<le> n \<and> n < 57344"

definition unescape :: "char \<Rightarrow> char" where
  "unescape c =
     (if c = CHR ''b'' then CHR 0x08 else if c = CHR ''f'' then CHR 0x0C else if c = CHR ''n'' then CHR 0x0A
      else if c = CHR ''r'' then CHR 0x0D else if c = CHR ''t'' then CHR 0x09 else c)"

fun unquote :: "string \<Rightarrow> string" where
  "unquote [] = []"
| "unquote (c # cs) =
     (if c \<noteq> backslash then c # unquote cs
      else case cs of
             [] \<Rightarrow> []
           | e # es \<Rightarrow>
               (if e \<noteq> CHR ''u'' then unescape e # unquote es
                else case es of
                       h1 # h2 # h3 # h4 # t \<Rightarrow>
                         (let n = hex4 h1 h2 h3 h4
                          in if \<not> is_surrogate n then utf8 n @ unquote t
                             else case t of
                                    b # u # l1 # l2 # l3 # l4 # t' \<Rightarrow>
                                      (let l = hex4 l1 l2 l3 l4
                                       in if b = backslash \<and> u = CHR ''u'' \<and> n < 56320 \<and> 56320 \<le> l \<and> l < 57344
                                          then utf8 (65536 + (n - 55296) * 1024 + (l - 56320)) @ unquote t'
                                          else utf8 65533 @ unquote t)
                                  | _ \<Rightarrow> utf8 65533 @ unquote t)
                     | _ \<Rightarrow> []))"

section \<open>JsonOrBytes\<close>

text \<open>
  \<open>None\<close> is the nil slice, which marshals to null. The result of a marshaler is compacted by the
  encoder that called it, so \<open>marshal_field\<close> is the text of a field of this type.
\<close>

definition Marshal_bytes :: "bytes option \<Rightarrow> string" where
  "Marshal_bytes r = (case r of None \<Rightarrow> ''null'' | Some b \<Rightarrow> dquote # b64_encode b @ [dquote])"

definition MarshalJSON :: "bytes option \<Rightarrow> string" where
  "MarshalJSON r =
     (case r of Some b \<Rightarrow> (if 0 < length b \<and> json_Valid b then b else Marshal_bytes r) | None \<Rightarrow> Marshal_bytes r)"

definition marshal_field :: "bytes option \<Rightarrow> string" where
  "marshal_field r = (case json_parse (MarshalJSON r) of Some j \<Rightarrow> json_compact j | None \<Rightarrow> [])"

definition Unmarshal_bytes :: "json \<Rightarrow> bytes option res" where
  "Unmarshal_bytes j =
     (case j of
        JNull \<Rightarrow> Inr None
      | JStr r \<Rightarrow> (case b64_decode (unquote r) of None \<Rightarrow> Inl (Errorf ''illegal base64 data'') | Some b \<Rightarrow> Inr (Some b))
      | _ \<Rightarrow> Inl (Errorf ''cannot unmarshal into []byte''))"

definition UnmarshalJSON :: "string \<Rightarrow> bytes option res" where
  "UnmarshalJSON s =
     (if 1 < length s \<and> hd s = dquote
      then case json_parse s of None \<Rightarrow> Inl (Errorf ''invalid JSON'') | Some j \<Rightarrow> Unmarshal_bytes j
      else Inr (Some s))"

section \<open>The consolidation payload\<close>

text \<open>Keys match the names of fields without regard to case.\<close>

definition lower :: "char \<Rightarrow> char" where
  "lower c = (if 65 \<le> byte c \<and> byte c \<le> 90 then char_of (byte c + 32) else c)"

definition field_key :: "string \<Rightarrow> string" where "field_key k = map lower (unquote k)"

definition child_field_ok :: "string \<times> json \<Rightarrow> bool" where
  "child_field_ok = (\<lambda>(k, j).
     if field_key k = ''job_id'' \<or> field_key k = ''task_name''
     then (case j of JStr r \<Rightarrow> True | JNull \<Rightarrow> True | _ \<Rightarrow> False)
     else if field_key k = ''result'' then (case UnmarshalJSON (json_compact j) of Inr b \<Rightarrow> True | Inl e \<Rightarrow> False)
     else True)"

definition child_ok :: "json \<Rightarrow> bool" where
  "child_ok j = (case j of JNull \<Rightarrow> True | JObj ms \<Rightarrow> list_all child_field_ok ms | _ \<Rightarrow> False)"

definition consolidate_field_ok :: "string \<times> json \<Rightarrow> bool" where
  "consolidate_field_ok = (\<lambda>(k, j).
     if field_key k = ''payload'' then (case UnmarshalJSON (json_compact j) of Inr b \<Rightarrow> True | Inl e \<Rightarrow> False)
     else if field_key k = ''children'' then (case j of JNull \<Rightarrow> True | JArr js \<Rightarrow> list_all child_ok js | _ \<Rightarrow> False)
     else True)"

text \<open>
  The payload of a decoded \<^verbatim>\<open>ConsolidatePayload\<close>; an error anywhere in the value fails the decoding. The
  text of a field is taken in compact form, which is how it is written out again.
\<close>

definition decode_consolidate :: "json \<Rightarrow> bytes option res" where
  "decode_consolidate j =
     (case j of
        JNull \<Rightarrow> Inr None
      | JObj ms \<Rightarrow>
          (if list_all consolidate_field_ok ms
           then foldl (\<lambda>r (k, v). if field_key k = ''payload'' then UnmarshalJSON (json_compact v) else r) (Inr None) ms
           else Inl (Errorf ''json''))
      | _ \<Rightarrow> Inl (Errorf ''json''))"

definition opt_bytes :: "bytes \<Rightarrow> bytes option" where "opt_bytes b = (if b = [] then None else Some b)"

definition json_key :: "string \<Rightarrow> string" where "json_key k = dquote # k @ [dquote, CHR '':'']"

definition marshal_child :: "ChildJobResult \<Rightarrow> string" where
  "marshal_child c =
     ''{'' @ json_key ''job_id'' @ json_string (cJobID c) @ '','' @ json_key ''task_name'' @ json_string (cTaskName c)
     @ '','' @ json_key ''result'' @ marshal_field (opt_bytes (cResult c)) @ ''}''"

definition base_payload :: "Job \<Rightarrow> bytes option" where
  "base_payload parent =
     (case json_parse (jPayload parent) of
        None \<Rightarrow> opt_bytes (jPayload parent)
      | Some j \<Rightarrow>
          (if jPayload parent = [] then opt_bytes (jPayload parent)
           else case decode_consolidate j of Inr (Some p) \<Rightarrow> Some p | _ \<Rightarrow> opt_bytes (jPayload parent)))"

definition buildConsolidatePayload :: "Job \<Rightarrow> Job list \<Rightarrow> JsonOrBytes" where
  "buildConsolidatePayload parent children =
     (let sorted = sort_slice created_asc children;
          childResults = map (\<lambda>c. \<lparr>cJobID = jID c, cTaskName = jTaskName c, cResult = jResult c\<rparr>) sorted
      in ''{'' @ json_key ''payload'' @ marshal_field (base_payload parent) @ '','' @ json_key ''children''
         @ ''['' @ sep_concat '','' (map marshal_child childResults) @ '']}'')"

section \<open>Base64 round trip\<close>

lemma byte_less [simp]: "byte c < 256"
  using of_char_of [of "of_char c :: nat"] by (simp add: byte_def)

lemma char_of_byte [simp]: "char_of (byte c) = c"
  by (simp add: byte_def)

lemma byte_char_of: "n < 256 \<Longrightarrow> byte (char_of n) = n"
  by (simp add: byte_def)

lemma b64_val_char [simp]: "n < 64 \<Longrightarrow> b64_val (b64_char n) = Some n"
  by (auto simp: b64_char_def b64_val_def byte_char_of Let_def) (simp_all add: byte_def)

lemma byte_b64_char:
  "byte (b64_char n) =
     (if n < 26 then 65 + n else if n < 52 then 71 + n else if n < 62 then n - 4 else if n = 62 then 43 else 47)"
  by (simp add: b64_char_def byte_char_of) (simp add: byte_def)

text \<open>Text that a JSON string holds as it is, and that no escaping touches.\<close>

definition plain :: "char \<Rightarrow> bool" where
  "plain c \<longleftrightarrow> \<not> byte c < 32 \<and> c \<notin> {dquote, backslash, CHR ''<'', CHR ''>'', CHR ''&'', CHR 0xE2, CHR 0x0A, CHR 0x0D}"

lemma plain_bytes:
  "plain c \<longleftrightarrow> \<not> byte c < 32 \<and> byte c \<notin> {34, 92, 60, 62, 38, 226}"
proof -
  have eq: "c = d \<longleftrightarrow> byte c = byte d" for d by (metis char_of_byte)
  show ?thesis unfolding plain_def insert_iff empty_iff eq by (auto simp: byte_def)
qed

lemma plain_b64_char: "plain (b64_char n)"
  unfolding plain_bytes byte_b64_char by (simp split: if_split) linarith

lemma plain_pad: "plain (CHR ''='')"
  by (simp add: plain_bytes byte_def)

lemma b64_char_not_pad [simp]: "b64_char n \<noteq> CHR ''=''"
proof
  assume "b64_char n = CHR ''=''"
  then have "byte (b64_char n) = 61" by (simp add: byte_def)
  then show False by (simp add: byte_b64_char split: if_splits)
qed

lemma plain_b64_encode: "c \<in> set (b64_encode s) \<Longrightarrow> plain c"
  by (induction s rule: b64_encode.induct) (auto simp: plain_b64_char plain_pad)

lemma split_digits:
  assumes "k < (n::nat)"
  shows "(m * n + k) div n = m" "(m * n + k) mod n = k"
  using assms by simp_all

lemma b64_groups:
  fixes a b c :: nat
  assumes "a < 256" "b < 256" "c < 256"
  shows "a div 4 * 4 + (a mod 4 * 16 + b div 16) div 16 = a"
    "(a mod 4 * 16 + b div 16) mod 16 * 16 + (b mod 16 * 4 + c div 64) div 4 = b"
    "(b mod 16 * 4 + c div 64) mod 4 * 64 + c mod 64 = c"
    "a div 4 < 64" "a mod 4 * 16 + b div 16 < 64" "b mod 16 * 4 + c div 64 < 64" "c mod 64 < 64"
proof -
  have l: "b div 16 < 16" "c div 64 < 4" "a mod 4 < 4" "b mod 16 < 16" using assms by (simp_all add: less_mult_imp_div_less)
  show "a div 4 * 4 + (a mod 4 * 16 + b div 16) div 16 = a" unfolding split_digits(1) [OF l(1)] by (rule div_mult_mod_eq)
  show "(a mod 4 * 16 + b div 16) mod 16 * 16 + (b mod 16 * 4 + c div 64) div 4 = b"
    unfolding split_digits(2) [OF l(1)] split_digits(1) [OF l(2)] by (rule div_mult_mod_eq)
  show "(b mod 16 * 4 + c div 64) mod 4 * 64 + c mod 64 = c"
    unfolding split_digits(2) [OF l(2)] by (rule div_mult_mod_eq)
  show "a div 4 < 64" using assms by (simp add: less_mult_imp_div_less)
  show "a mod 4 * 16 + b div 16 < 64" "b mod 16 * 4 + c div 64 < 64" using l by linarith+
qed simp

lemma b64_quads_encode: "b64_quads (b64_encode s) = Some s"
proof (induction s rule: b64_encode.induct)
  case (2 a)
  note g = b64_groups [OF byte_less [of a] _ _, of 0 0, simplified]
  show ?case using g by simp
next
  case (3 a b)
  note g = b64_groups [OF byte_less [of a] byte_less [of b] _, of 0, simplified]
  show ?case using g by simp
next
  case (4 a b c cs)
  note g = b64_groups [OF byte_less [of a] byte_less [of b] byte_less [of c]]
  show ?case using g 4 by simp
qed simp

lemma b64_decode_encode: "b64_decode (b64_encode s) = Some s"
proof -
  have "filter (\<lambda>c. c \<noteq> CHR 0x0A \<and> c \<noteq> CHR 0x0D) (b64_encode s) = b64_encode s"
    using plain_b64_encode [of _ s] by (auto simp: filter_id_conv plain_def)
  then show ?thesis by (simp add: b64_decode_def b64_quads_encode)
qed

section \<open>Payloads through JSON\<close>

lemma scan_string_plain: "\<forall>c \<in> set r. plain c \<Longrightarrow> scan_string (r @ dquote # t) = Some (r, t)"
  by (induction r) (auto simp: plain_def)

lemma html_escape_step:
  assumes "c \<notin> {CHR ''<'', CHR ''>'', CHR ''&'', CHR 0xE2}"
  shows "html_escape (c # cs) = c # html_escape cs"
proof -
  have "c \<noteq> CHR ''<''" "c \<noteq> CHR ''>''" "c \<noteq> CHR ''&''" "c \<noteq> CHR 0xE2" using assms by auto
  then show ?thesis
    by (simp only: html_escape.simps(2) [of c cs] if_False simp_thms split: list.split)
qed

lemma html_escape_plain: "\<forall>c \<in> set r. plain c \<Longrightarrow> html_escape r = r"
proof (induction r)
  case (Cons c r)
  then have "html_escape (c # r) = c # html_escape r" by (intro html_escape_step) (auto simp: plain_def)
  with Cons show ?case by simp
qed simp

lemma unquote_plain: "\<forall>c \<in> set r. plain c \<Longrightarrow> unquote r = r"
  by (induction r) (simp_all add: plain_def)

lemma json_parse_string:
  assumes "scan_string r = Some (x, [])"
  shows "json_parse (dquote # r) = Some (JStr x)"
  using assms by (simp add: json_parse_def skip_ws_def is_ws_def)

lemma marshal_field_bytes:
  assumes "r = [] \<or> \<not> json_Valid r"
  shows "marshal_field (Some r) = dquote # b64_encode r @ [dquote]"
proof -
  have "\<forall>c \<in> set (b64_encode r). plain c" using plain_b64_encode by blast
  then have "json_parse (dquote # b64_encode r @ [dquote]) = Some (JStr (b64_encode r))"
      "html_escape (b64_encode r) = b64_encode r"
    using scan_string_plain [of "b64_encode r" "[]"] json_parse_string html_escape_plain by auto
  then show ?thesis using assms by (auto simp: marshal_field_def MarshalJSON_def Marshal_bytes_def)
qed

text \<open>
  Bytes that are not JSON survive being written to and read from JSON exactly, and so does the empty
  payload that is not nil.
\<close>

lemma raw_roundtrip:
  assumes "r = [] \<or> \<not> json_Valid r"
  shows "UnmarshalJSON (marshal_field (Some r)) = Inr (Some r)"
proof -
  have p: "\<forall>c \<in> set (b64_encode r). plain c" using plain_b64_encode by blast
  have "json_parse (dquote # b64_encode r @ [dquote]) = Some (JStr (b64_encode r))"
    using scan_string_plain [OF p, of "[]"] json_parse_string by simp
  then show ?thesis
    using unquote_plain [OF p] by (simp add: marshal_field_bytes [OF assms] UnmarshalJSON_def Unmarshal_bytes_def b64_decode_encode)
qed

lemma length_b64_quads: "b64_quads s = Some b \<Longrightarrow> length b \<le> length s"
  by (induction s arbitrary: b rule: b64_quads.induct) (force split: option.splits if_splits prod.splits)+

lemma length_b64_decode: "b64_decode s = Some b \<Longrightarrow> length b \<le> length s"
  using length_b64_quads le_trans length_filter_le by (fastforce simp: b64_decode_def)

lemma string_reload:
  assumes "\<forall>c \<in> set x. plain c"
  shows "let r = dquote # x @ [dquote]
         in json_Valid r \<and> marshal_field (Some r) = r \<and>
            (case b64_decode x of None \<Rightarrow> \<exists>e. UnmarshalJSON (marshal_field (Some r)) = Inl e
             | Some b \<Rightarrow> UnmarshalJSON (marshal_field (Some r)) = Inr (Some b) \<and> b \<noteq> r)"
proof -
  let ?r = "dquote # x @ [dquote]"
  have parse: "json_parse ?r = Some (JStr x)" using scan_string_plain [OF assms, of "[]"] json_parse_string by simp
  then have m: "json_Valid ?r" "marshal_field (Some ?r) = ?r"
    using html_escape_plain [OF assms] by (simp_all add: json_Valid_def marshal_field_def MarshalJSON_def)
  have u: "UnmarshalJSON ?r = Unmarshal_bytes (JStr x)" using parse by (simp add: UnmarshalJSON_def)
  show ?thesis
  proof (cases "b64_decode x")
    case None
    then show ?thesis using m u unquote_plain [OF assms] by (simp add: Unmarshal_bytes_def Let_def)
  next
    case (Some b)
    then have "b \<noteq> ?r" using length_b64_decode [OF Some] by auto
    then show ?thesis using m u Some unquote_plain [OF assms] by (simp add: Unmarshal_bytes_def Let_def)
  qed
qed

text \<open>
  A payload that is a JSON string does not survive. It is written as it is, but a string is read
  back as base64 text: the result is an error when the text is not base64, and otherwise other bytes.
\<close>

lemma JsonOrBytes_string_corrupted:
  assumes "\<forall>c \<in> set x. plain c"
  shows "let r = dquote # x @ [dquote]
         in json_Valid r \<and> marshal_field (Some r) = r \<and>
            (case b64_decode x of None \<Rightarrow> \<exists>e. UnmarshalJSON (marshal_field (Some r)) = Inl e
             | Some b \<Rightarrow> UnmarshalJSON (marshal_field (Some r)) = Inr (Some b) \<and> b \<noteq> r)"
  using assms by (rule string_reload)

end
