(* ===== verification/Proto_Messages.thy ===== *)
theory Proto_Messages
  imports Json_Payload
begin

text \<open>
  The messages between manager and workers (\<^verbatim>\<open>contract/proto_message.go\<close>): the factories that build
  them from a frame and the lines the manager writes. Frames come from the module \<^verbatim>\<open>netargv\<close>: the
  functions of its flag set are a parameter. Of \<^verbatim>\<open>strconv\<close> and \<^verbatim>\<open>time\<close> the decimal forms are modelled;
  numbers with a fraction are real numbers, without the rounding of \<^verbatim>\<open>float64\<close>.
\<close>

section \<open>Frames\<close>

record FlagSet =
  fs_Lookup :: "string \<Rightarrow> string option"
  fs_Get :: "string \<Rightarrow> string"
  fs_Has :: "string \<Rightarrow> bool"
  fs_GetRepeated :: "string \<Rightarrow> string list"

record netargv_Message =
  nm_Verb :: string
  nm_Flags :: FlagSet
  nm_Payload :: bytes

text \<open>The documented relation of the lookups: \<open>Get\<close> gives the empty string for an absent flag.\<close>

definition FlagSet_ok :: "FlagSet \<Rightarrow> bool" where
  "FlagSet_ok f \<longleftrightarrow>
     (\<forall>n. fs_Get f n = (case fs_Lookup f n of None \<Rightarrow> [] | Some v \<Rightarrow> v)) \<and>
     (\<forall>n. fs_Has f n \<longleftrightarrow> fs_Lookup f n \<noteq> None)"

section \<open>Numbers\<close>

definition digits_val :: "string \<Rightarrow> nat" where
  "digits_val s = foldl (\<lambda>n c. n * 10 + (byte c - 48)) 0 s"

definition all_digits :: "string \<Rightarrow> bool" where
  "all_digits s \<longleftrightarrow> s \<noteq> [] \<and> list_all is_digit s"

definition split_sign :: "string \<Rightarrow> bool \<times> string" where
  "split_sign s =
     (case s of c # cs \<Rightarrow> (if c = CHR ''-'' then (True, cs) else if c = CHR ''+'' then (False, cs) else (False, s))
      | [] \<Rightarrow> (False, []))"

text \<open>\<^verbatim>\<open>strconv.Atoi\<close> and \<^verbatim>\<open>strconv.ParseInt\<close> to base 10 and 64 bits.\<close>

definition Atoi :: "string \<Rightarrow> int res" where
  "Atoi s =
     (let (neg, ds) = split_sign s; v = (if neg then - int (digits_val ds) else int (digits_val ds))
      in if \<not> all_digits ds then Inl (Errorf ''invalid syntax'')
         else if \<not> in_int64 v then Inl (Errorf ''value out of range'') else Inr v)"

text \<open>The decimal forms of \<^verbatim>\<open>strconv.ParseFloat\<close>; values beyond the largest \<^verbatim>\<open>float64\<close> are out of range.\<close>

definition ParseFloat :: "string \<Rightarrow> real res" where
  "ParseFloat s =
     (let (neg, u) = split_sign s;
          ip = takeWhile is_digit u; r1 = dropWhile is_digit u;
          (fp, r2) = (case r1 of c # cs \<Rightarrow> (if c = CHR ''.'' then (takeWhile is_digit cs, dropWhile is_digit cs) else ([], r1))
                      | [] \<Rightarrow> ([], []));
          ex = (case r2 of
                  [] \<Rightarrow> Inr 0
                | c # cs \<Rightarrow>
                    (if c = CHR ''e'' \<or> c = CHR ''E''
                     then (let (eneg, ds) = split_sign cs
                           in if all_digits ds then Inr (if eneg then - int (digits_val ds) else int (digits_val ds))
                              else Inl (Errorf ''invalid syntax''))
                     else Inl (Errorf ''invalid syntax'')))
      in if ip = [] \<and> fp = [] then Inl (Errorf ''invalid syntax'')
         else case ex of
                Inl e \<Rightarrow> Inl e
              | Inr x \<Rightarrow>
                  (let m = real (digits_val (ip @ fp)) / 10 ^ length fp;
                       v = (if 0 \<le> x then m * 10 ^ nat x else m / 10 ^ nat (- x))
                   in if 2 ^ 1024 - 2 ^ 970 \<le> v then Inl (Errorf ''value out of range'') else Inr (if neg then - v else v)))"

text \<open>
  \<^verbatim>\<open>time.ParseDuration\<close>: signed sequences of numbers with units, with the checks against \<open>2^63\<close> of the
  library. A fraction of a unit is rounded down to nanoseconds.
\<close>

definition unit_of :: "string \<Rightarrow> int option" where
  "unit_of u =
     (if u = ''ns'' then Some 1
      else if u = ''us'' \<or> u = [CHR 0xC2, CHR 0xB5] @ ''s'' \<or> u = [CHR 0xCE, CHR 0xBC] @ ''s'' then Some 1000
      else if u = ''ms'' then Some 1000000 else if u = ''s'' then Some Second
      else if u = ''m'' then Some Minute else if u = ''h'' then Some Hour else None)"

definition is_num_char :: "char \<Rightarrow> bool" where "is_num_char c \<longleftrightarrow> c = CHR ''.'' \<or> is_digit c"

fun parse_units :: "nat \<Rightarrow> int \<Rightarrow> string \<Rightarrow> int option" where
  "parse_units 0 d s = None"
| "parse_units (Suc n) d s =
     (if s = [] then Some d
      else if \<not> is_num_char (hd s) then None
      else let ip = takeWhile is_digit s; r1 = dropWhile is_digit s;
               (fp, r2) = (case r1 of c # cs \<Rightarrow> (if c = CHR ''.'' then (takeWhile is_digit cs, dropWhile is_digit cs) else ([], r1))
                           | [] \<Rightarrow> ([], []));
               u = takeWhile (\<lambda>c. \<not> is_num_char c) r2; r3 = dropWhile (\<lambda>c. \<not> is_num_char c) r2
           in if ip = [] \<and> fp = [] \<or> u = [] then None
              else case unit_of u of
                     None \<Rightarrow> None
                   | Some k \<Rightarrow>
                       (let v = int (digits_val ip) * k + int (digits_val fp) * k div 10 ^ length fp
                        in if 2 ^ 63 < v \<or> 2 ^ 63 < d + v then None else parse_units n (d + v) r3))"

definition ParseDuration :: "string \<Rightarrow> duration res" where
  "ParseDuration s =
     (let (neg, u) = split_sign s
      in if u = ''0'' then Inr 0
         else if u = [] then Inl (Errorf ''invalid duration'')
         else case parse_units (Suc (length u)) 0 u of
                None \<Rightarrow> Inl (Errorf ''invalid duration'')
              | Some d \<Rightarrow> (if neg then Inr (- d) else if max_int64 < d then Inl (Errorf ''invalid duration'') else Inr d))"

section \<open>Flags\<close>

definition requireFlag :: "FlagSet \<Rightarrow> string \<Rightarrow> string res" where
  "requireFlag flags name =
     (case fs_Lookup flags name of
        None \<Rightarrow> Inl (Errorf (''missing required flag --'' @ name))
      | Some v \<Rightarrow> (if v = [] then Inl (Errorf (''missing required flag --'' @ name)) else Inr v))"

definition flag_error :: "string \<Rightarrow> error \<Rightarrow> error" where
  "flag_error name e = (case e of Errorf s \<Rightarrow> Errorf (''flag --'' @ name @ '': '' @ s) | _ \<Rightarrow> e)"

definition requireInt :: "FlagSet \<Rightarrow> string \<Rightarrow> int res" where
  "requireInt flags name =
     (case requireFlag flags name of
        Inl e \<Rightarrow> Inl e
      | Inr s \<Rightarrow> (case Atoi s of Inl e \<Rightarrow> Inl (flag_error name e) | Inr n \<Rightarrow> Inr n))"

text \<open>The float helpers return the value besides the error, as their Go signatures do.\<close>

definition requireFloat :: "FlagSet \<Rightarrow> string \<Rightarrow> real \<times> error option" where
  "requireFloat flags name =
     (case requireFlag flags name of
        Inl e \<Rightarrow> (0, Some e)
      | Inr s \<Rightarrow> (case ParseFloat s of Inl e \<Rightarrow> (0, Some (flag_error name e)) | Inr x \<Rightarrow> (x, None)))"

definition optionalInt :: "FlagSet \<Rightarrow> string \<Rightarrow> int \<times> bool \<times> error option" where
  "optionalInt flags name =
     (case requireFlag flags name of
        Inl e \<Rightarrow> (0, False, None)
      | Inr s \<Rightarrow> (case Atoi s of Inl e \<Rightarrow> (0, True, Some (flag_error name e)) | Inr n \<Rightarrow> (n, True, None)))"

definition optionalFloat :: "FlagSet \<Rightarrow> string \<Rightarrow> real \<times> bool \<times> error option" where
  "optionalFloat flags name =
     (case requireFlag flags name of
        Inl e \<Rightarrow> (0, False, None)
      | Inr s \<Rightarrow> (case ParseFloat s of Inl e \<Rightarrow> (0, True, Some (flag_error name e)) | Inr x \<Rightarrow> (x, True, None)))"

section \<open>Messages\<close>

record ProposeMessage =
  pmJobID :: string
  pmParentJobID :: string
  pmTask :: string
  pmCost :: int
  pmNoResult :: bool
  pmArtifactHash :: string
  pmArtifactURL :: string
  pmArtifactDeps :: "string list"

record DispatchMessage =
  dmJobID :: string
  dmRunID :: string
  dmPhase :: string
  dmAttempt :: int
  dmMaxExecTime :: duration
  dmMaxMemoryBytes :: int
  dmMaxCPUCores :: real
  dmPayload :: JsonOrBytes

record RunMessage =
  rmJobID :: string
  rmRunID :: string

record RejectMessage =
  rjJobID :: string
  rjReason :: string

record LogMessage =
  lmJobID :: string
  lmRunID :: string
  lmLine :: bytes

record ChildJobRequest =
  crTask :: string
  crPayload :: JsonOrBytes
  crPriority :: int
  crVersion :: string

record ResultMessage =
  resParentJobID :: string
  resJobID :: string
  resRunID :: string
  resType :: ResultType
  resDuration :: duration
  resWarnings :: string
  resReason :: string
  resExitCode :: int
  resJobs :: "ChildJobRequest list"
  resPayload :: JsonOrBytes

record HeartbeatMessage =
  hbCPUPercent :: real
  hbMemoryPercent :: real
  hbState :: WorkerState

text \<open>\<open>RunMessage\<close> is the shape both of the staged and of the starting message.\<close>

datatype Message =
    Propose ProposeMessage
  | Dispatch DispatchMessage
  | Staged RunMessage
  | Accept string
  | Reject RejectMessage
  | Starting RunMessage
  | Log LogMessage
  | Result ResultMessage
  | Heartbeat HeartbeatMessage
  | System string
  | Capacity int
  | Cancel string

section \<open>Factories\<close>

definition proposeV0Factory :: "netargv_Message \<Rightarrow> Message res" where
  "proposeV0Factory m =
     (let flags = nm_Flags m
      in and_then (requireFlag flags ''job-id'') (\<lambda>jobID.
         and_then (requireFlag flags ''task'') (\<lambda>task.
         and_then (requireInt flags ''cost'') (\<lambda>cost.
         and_then (requireFlag flags ''artifact-hash'') (\<lambda>artifactHash.
         and_then (requireFlag flags ''artifact-url'') (\<lambda>artifactURL.
           Inr (Propose \<lparr>pmJobID = jobID, pmParentJobID = fs_Get flags ''parent-job-id'', pmTask = task, pmCost = cost,
                         pmNoResult = fs_Has flags ''no-result'', pmArtifactHash = artifactHash,
                         pmArtifactURL = artifactURL, pmArtifactDeps = fs_GetRepeated flags ''dep''\<rparr>)))))))"

definition optional_flag :: "FlagSet \<Rightarrow> string \<Rightarrow> (string \<Rightarrow> 'a res) \<Rightarrow> 'a \<Rightarrow> 'a res" where
  "optional_flag flags name parse dflt =
     (let s = fs_Get flags name
      in if s = [] then Inr dflt else case parse s of Inl e \<Rightarrow> Inl (flag_error name e) | Inr x \<Rightarrow> Inr x)"

definition dispatchV0Factory :: "netargv_Message \<Rightarrow> Message res" where
  "dispatchV0Factory m =
     (let flags = nm_Flags m
      in and_then (requireFlag flags ''job-id'') (\<lambda>jobID.
         and_then (requireFlag flags ''phase'') (\<lambda>phase.
         if phase \<noteq> ''run'' \<and> phase \<noteq> ''consolidate'' then Inl (Errorf ''flag --phase'')
         else
         and_then (requireInt flags ''attempt'') (\<lambda>attempt.
         and_then (requireFlag flags ''run-id'') (\<lambda>runID.
         and_then (optional_flag flags ''max-exec-time'' ParseDuration 0) (\<lambda>maxExecTime.
         and_then (optional_flag flags ''max-memory'' Atoi 0) (\<lambda>maxMemory.
         and_then (optional_flag flags ''max-cpu-cores'' ParseFloat 0) (\<lambda>maxCPU.
           Inr (Dispatch \<lparr>dmJobID = jobID, dmRunID = runID, dmPhase = phase, dmAttempt = attempt,
                          dmMaxExecTime = maxExecTime, dmMaxMemoryBytes = maxMemory, dmMaxCPUCores = maxCPU,
                          dmPayload = nm_Payload m\<rparr>)))))))))"

definition run_message :: "(RunMessage \<Rightarrow> Message) \<Rightarrow> netargv_Message \<Rightarrow> Message res" where
  "run_message mk m =
     and_then (requireFlag (nm_Flags m) ''job-id'') (\<lambda>jobID.
     and_then (requireFlag (nm_Flags m) ''run-id'') (\<lambda>runID.
       Inr (mk \<lparr>rmJobID = jobID, rmRunID = runID\<rparr>)))"

definition stagedV0Factory :: "netargv_Message \<Rightarrow> Message res" where
  "stagedV0Factory m = run_message Staged m"

definition acceptV0Factory :: "netargv_Message \<Rightarrow> Message res" where
  "acceptV0Factory m = and_then (requireFlag (nm_Flags m) ''job-id'') (\<lambda>jobID. Inr (Accept jobID))"

definition rejectV0Factory :: "netargv_Message \<Rightarrow> Message res" where
  "rejectV0Factory m =
     and_then (requireFlag (nm_Flags m) ''job-id'') (\<lambda>jobID.
     and_then (requireFlag (nm_Flags m) ''reason'') (\<lambda>reason.
       Inr (Reject \<lparr>rjJobID = jobID, rjReason = reason\<rparr>)))"

definition startingV0Factory :: "netargv_Message \<Rightarrow> Message res" where
  "startingV0Factory m = run_message Starting m"

definition logV0Factory :: "netargv_Message \<Rightarrow> Message res" where
  "logV0Factory m =
     and_then (requireFlag (nm_Flags m) ''job-id'') (\<lambda>jobID.
     and_then (requireFlag (nm_Flags m) ''run-id'') (\<lambda>runID.
       Inr (Log \<lparr>lmJobID = jobID, lmRunID = runID, lmLine = nm_Payload m\<rparr>)))"

text \<open>
  Decoding the child requests: a missing or null field keeps its zero value, the last of several equal
  keys counts, a value of another type fails the decoding.
\<close>

definition decode_string :: "json \<Rightarrow> string \<Rightarrow> string res" where
  "decode_string j old = (case j of JStr r \<Rightarrow> Inr (unquote r) | JNull \<Rightarrow> Inr old | _ \<Rightarrow> Inl (Errorf ''json: cannot unmarshal''))"

definition decode_int :: "json \<Rightarrow> int \<Rightarrow> int res" where
  "decode_int j old = (case j of JNum x \<Rightarrow> Atoi x | JNull \<Rightarrow> Inr old | _ \<Rightarrow> Inl (Errorf ''json: cannot unmarshal''))"

definition decode_bytes :: "json \<Rightarrow> bytes res" where
  "decode_bytes j =
     (case UnmarshalJSON (json_compact j) of Inl e \<Rightarrow> Inl e | Inr None \<Rightarrow> Inr [] | Inr (Some b) \<Rightarrow> Inr b)"

definition request_field :: "ChildJobRequest res \<Rightarrow> string \<times> json \<Rightarrow> ChildJobRequest res" where
  "request_field acc = (\<lambda>(k, j).
     and_then acc (\<lambda>r.
       if field_key k = ''task'' then and_then (decode_string j (crTask r)) (\<lambda>x. Inr (r\<lparr>crTask := x\<rparr>))
       else if field_key k = ''payload'' then and_then (decode_bytes j) (\<lambda>x. Inr (r\<lparr>crPayload := x\<rparr>))
       else if field_key k = ''priority'' then and_then (decode_int j (crPriority r)) (\<lambda>x. Inr (r\<lparr>crPriority := x\<rparr>))
       else if field_key k = ''version'' then and_then (decode_string j (crVersion r)) (\<lambda>x. Inr (r\<lparr>crVersion := x\<rparr>))
       else Inr r))"

definition decode_request :: "json \<Rightarrow> ChildJobRequest res" where
  "decode_request j =
     (let zero = \<lparr>crTask = [], crPayload = [], crPriority = 0, crVersion = []\<rparr>
      in case j of JNull \<Rightarrow> Inr zero | JObj ms \<Rightarrow> foldl request_field (Inr zero) ms
         | _ \<Rightarrow> Inl (Errorf ''json: cannot unmarshal''))"

fun decode_all :: "(json \<Rightarrow> 'a res) \<Rightarrow> json list \<Rightarrow> 'a list res" where
  "decode_all f [] = Inr []"
| "decode_all f (j # js) = and_then (f j) (\<lambda>x. and_then (decode_all f js) (\<lambda>xs. Inr (x # xs)))"

definition Unmarshal_requests :: "bytes \<Rightarrow> ChildJobRequest list res" where
  "Unmarshal_requests b =
     (case json_parse b of
        None \<Rightarrow> Inl (Errorf ''invalid JSON'')
      | Some JNull \<Rightarrow> Inr []
      | Some (JArr js) \<Rightarrow> decode_all decode_request js
      | Some j \<Rightarrow> Inl (Errorf ''json: cannot unmarshal''))"

definition resultV0Factory :: "netargv_Message \<Rightarrow> Message res" where
  "resultV0Factory m =
     (let flags = nm_Flags m
      in and_then (requireFlag flags ''job-id'') (\<lambda>jobID.
         and_then (requireFlag flags ''type'') (\<lambda>outcomeType.
         and_then (requireFlag flags ''run-id'') (\<lambda>runID.
         and_then (optional_flag flags ''duration'' ParseDuration (- 1)) (\<lambda>dur.
         let msg = \<lparr>resParentJobID = (case fs_Lookup flags ''parent-job-id'' of None \<Rightarrow> [] | Some v \<Rightarrow> v),
                    resJobID = jobID, resRunID = runID, resType = ResultSuccess, resDuration = dur, resWarnings = [],
                    resReason = [], resExitCode = 0, resJobs = [], resPayload = []\<rparr>
         in if outcomeType = ''result''
            then Inr (Result (msg\<lparr>resWarnings := fs_Get flags ''warnings'', resPayload := nm_Payload m\<rparr>))
            else if outcomeType = ''error''
            then and_then (optional_flag flags ''exit-code'' Atoi 0) (\<lambda>code.
                   Inr (Result (msg\<lparr>resType := ResultError, resReason := nm_Payload m, resExitCode := code\<rparr>)))
            else if outcomeType = ''subjobs''
            then (if nm_Payload m = [] then Inl (Errorf ''outcome subjobs: payload is required'')
                  else and_then (Unmarshal_requests (nm_Payload m)) (\<lambda>jobs.
                         if jobs = [] then Inl (Errorf ''outcome subjobs: payload must contain at least one job'')
                         else Inr (Result (msg\<lparr>resType := ResultSubjobs, resJobs := jobs, resPayload := nm_Payload m\<rparr>))))
            else Inl (Errorf (''flag --type: unknown outcome type '' @ go_quote outcomeType)))))))"

text \<open>The check of the memory flag looks at whether the processor flag was found.\<close>

definition heartbeatV0Factory :: "netargv_Message \<Rightarrow> Message res" where
  "heartbeatV0Factory m =
     (let flags = nm_Flags m;
          (cpu, cpuFound, cpuErr) = optionalFloat flags ''cpu'';
          (mem, memErr) = requireFloat flags ''mem'';
          (st, stFound, stErr) = optionalInt flags ''state''
      in case (cpuFound, cpuErr) of
           (True, Some e) \<Rightarrow> Inl e
         | _ \<Rightarrow>
             (case (cpuFound, memErr) of
                (True, Some e) \<Rightarrow> Inl e
              | _ \<Rightarrow>
                  (case (stFound, stErr) of
                     (True, Some e) \<Rightarrow> Inl e
                   | _ \<Rightarrow>
                       (if stFound \<and> \<not> IsValidWorkerState st then Inl (Errorf ''flag --state is not a valid state'')
                        else Inr (Heartbeat \<lparr>hbCPUPercent = cpu, hbMemoryPercent = mem, hbState = WorkerState_of_int st\<rparr>)))))"

definition systemV0Factory :: "netargv_Message \<Rightarrow> Message res" where
  "systemV0Factory m =
     and_then (requireFlag (nm_Flags m) ''command'') (\<lambda>cmd.
       if cmd \<noteq> ''drain'' \<and> cmd \<noteq> ''shutdown'' then Inl (Sentinel ''flag --command: must be drain or shutdown'')
       else Inr (System cmd))"

definition capacityV0Factory :: "netargv_Message \<Rightarrow> Message res" where
  "capacityV0Factory m =
     and_then (requireInt (nm_Flags m) ''available'') (\<lambda>n.
       if n < 0 then Inl (Errorf ''flag --available: must be >= 0'') else Inr (Capacity n))"

definition cancelV0Factory :: "netargv_Message \<Rightarrow> Message res" where
  "cancelV0Factory m = and_then (requireFlag (nm_Flags m) ''job-id'') (\<lambda>jobID. Inr (Cancel jobID))"

text \<open>The registered factories by verb; all of them have version 0.\<close>

definition RegisterMessages :: "(string, netargv_Message \<Rightarrow> Message res) gomap" where
  "RegisterMessages =
     [(''propose'', proposeV0Factory), (''accept'', acceptV0Factory), (''reject'', rejectV0Factory),
      (''dispatch'', dispatchV0Factory), (''staged'', stagedV0Factory), (''starting'', startingV0Factory),
      (''log'', logV0Factory), (''result'', resultV0Factory), (''heartbeat'', heartbeatV0Factory),
      (''system'', systemV0Factory), (''capacity'', capacityV0Factory), (''cancel'', cancelV0Factory)]"

section \<open>The lines the manager writes\<close>

definition FormulateProposeV0Message :: "Job \<Rightarrow> Task \<Rightarrow> ArtifactInfo \<Rightarrow> string" where
  "FormulateProposeV0Message job task artifactInfo =
     ''propose --job-id='' @ jID job @ '' --task='' @ jTaskName job @ '' --cost='' @ Itoa (jCost job)
     @ '' --artifact-hash='' @ aiHash artifactInfo @ '' --artifact-url='' @ aiURL artifactInfo
     @ concat (map (\<lambda>dep. '' --dep='' @ dep) (aiDependencies artifactInfo))
     @ (if tNoResult task then '' --no-result'' else [])"

definition phase_string :: "JobPhase \<Rightarrow> string" where
  "phase_string p = (case p of JobPhaseRun \<Rightarrow> ''run'' | JobPhaseConsolidate \<Rightarrow> ''consolidate'')"

definition FormulateDispatchV0Message :: "Job \<Rightarrow> string \<Rightarrow> string" where
  "FormulateDispatchV0Message job runID =
     ''dispatch --job-id='' @ jID job @ '' --run-id='' @ runID @ '' --phase='' @ phase_string (jPhase job)
     @ '' --attempt='' @ Itoa (jAttempts job)"

definition ForulateSystemV0Message :: "string \<Rightarrow> string" where
  "ForulateSystemV0Message command = ''system --command='' @ command"

section \<open>Numbers read back\<close>

lemma is_digit_char: "(n::nat) < 10 \<Longrightarrow> is_digit (char_of (48 + n))"
  by (simp add: is_digit_def byte_char_of)

lemma nat_digits_all: "all_digits (nat_digits n)"
proof (induction n rule: nat_digits.induct)
  case (1 n)
  then show ?case
    by (cases "n < 10") (auto simp: nat_digits.simps [of n] all_digits_def is_digit_char)
qed

lemma digits_val_snoc: "(n::nat) < 10 \<Longrightarrow> digits_val (s @ [char_of (48 + n)]) = digits_val s * 10 + n"
  by (simp add: digits_val_def byte_char_of)

lemma digits_val_digits: "digits_val (nat_digits n) = n"
proof (induction n rule: nat_digits.induct)
  case (1 n)
  show ?case
  proof (cases "n < 10")
    case True
    then show ?thesis using digits_val_snoc [of n "[]"] by (simp add: nat_digits.simps [of n] digits_val_def)
  next
    case False
    then show ?thesis using 1 digits_val_snoc [of "n mod 10"] by (simp add: nat_digits.simps [of n])
  qed
qed

lemma split_sign_digits: "all_digits ds \<Longrightarrow> split_sign ds = (False, ds)"
proof -
  assume "all_digits ds"
  then obtain c cs where ds: "ds = c # cs" and c: "is_digit c" by (cases ds) (auto simp: all_digits_def)
  have "c \<noteq> CHR ''-''" "c \<noteq> CHR ''+''" using c by (auto simp: is_digit_def byte_def)
  then show ?thesis by (simp add: split_sign_def ds)
qed

lemma Atoi_Itoa: "in_int64 i \<Longrightarrow> Atoi (Itoa i) = Inr i"
  by (auto simp: Itoa_def Atoi_def split_sign_digits nat_digits_all digits_val_digits)
    (simp_all add: split_sign_def nat_digits_all digits_val_digits)

lemma Itoa_nonempty: "Itoa i \<noteq> []"
  using nat_digits_all [of "nat i"] by (auto simp: Itoa_def all_digits_def)

section \<open>The proposal reaches the worker\<close>

text \<open>The flags of a line, each with a value or without, and a frame that presents them.\<close>

type_synonym flag = "string \<times> string option"

definition flag_text :: "flag \<Rightarrow> string" where
  "flag_text = (\<lambda>(k, v). '' --'' @ k @ (case v of None \<Rightarrow> [] | Some x \<Rightarrow> ''='' @ x))"

definition presents :: "FlagSet \<Rightarrow> flag list \<Rightarrow> bool" where
  "presents f ws \<longleftrightarrow>
     FlagSet_ok f \<and>
     (\<forall>k. fs_Has f k \<longleftrightarrow> k \<in> fst ` set ws) \<and>
     (\<forall>k x. filter (\<lambda>w. fst w = k) ws = [(k, Some x)] \<longrightarrow> fs_Lookup f k = Some x) \<and>
     (\<forall>k. fs_GetRepeated f k = concat (map (\<lambda>w. if fst w = k then (case snd w of None \<Rightarrow> [] | Some x \<Rightarrow> [x]) else []) ws))"

definition propose_flags :: "Job \<Rightarrow> Task \<Rightarrow> ArtifactInfo \<Rightarrow> flag list" where
  "propose_flags job task art =
     [(''job-id'', Some (jID job)), (''task'', Some (jTaskName job)), (''cost'', Some (Itoa (jCost job))),
      (''artifact-hash'', Some (aiHash art)), (''artifact-url'', Some (aiURL art))]
     @ map (\<lambda>dep. (''dep'', Some dep)) (aiDependencies art) @ (if tNoResult task then [(''no-result'', None)] else [])"

lemma FormulateProposeV0Message_flags:
  "FormulateProposeV0Message job task art = ''propose'' @ concat (map flag_text (propose_flags job task art))"
  by (simp add: FormulateProposeV0Message_def propose_flags_def flag_text_def comp_def)

lemma requireFlag_presents:
  "presents f ws \<Longrightarrow> filter (\<lambda>w. fst w = k) ws = [(k, Some x)] \<Longrightarrow> x \<noteq> [] \<Longrightarrow> requireFlag f k = Inr x"
  by (auto simp: presents_def requireFlag_def)

lemma propose_flags_filter:
  "k \<noteq> ''dep'' \<Longrightarrow> k \<noteq> ''no-result'' \<Longrightarrow>
   filter (\<lambda>w. fst w = k) (propose_flags job task art) = filter (\<lambda>w. fst w = k)
     [(''job-id'', Some (jID job)), (''task'', Some (jTaskName job)), (''cost'', Some (Itoa (jCost job))),
      (''artifact-hash'', Some (aiHash art)), (''artifact-url'', Some (aiURL art))]"
  unfolding propose_flags_def filter_append by (simp add: filter_empty_conv)

lemma propose_parsed:
  assumes "jID job \<noteq> []" and "jTaskName job \<noteq> []" and "in_int64 (jCost job)" and "aiHash art \<noteq> []" and "aiURL art \<noteq> []"
    and "presents (nm_Flags m) (propose_flags job task art)"
  shows "proposeV0Factory m =
           Inr (Propose \<lparr>pmJobID = jID job, pmParentJobID = [], pmTask = jTaskName job, pmCost = jCost job,
                         pmNoResult = tNoResult task, pmArtifactHash = aiHash art, pmArtifactURL = aiURL art,
                         pmArtifactDeps = aiDependencies art\<rparr>)"
proof -
  let ?f = "nm_Flags m"
  let ?ws = "propose_flags job task art"
  note req = requireFlag_presents [OF assms(6)]
  have pr: "FlagSet_ok ?f" "\<And>k. fs_Has ?f k \<longleftrightarrow> k \<in> fst ` set ?ws"
    "\<And>k. fs_GetRepeated ?f k = concat (map (\<lambda>w. if fst w = k then (case snd w of None \<Rightarrow> [] | Some x \<Rightarrow> [x]) else []) ?ws)"
    using assms(6) unfolding presents_def by blast+
  have f: "filter (\<lambda>w. fst w = ''job-id'') ?ws = [(''job-id'', Some (jID job))]"
    "filter (\<lambda>w. fst w = ''task'') ?ws = [(''task'', Some (jTaskName job))]"
    "filter (\<lambda>w. fst w = ''cost'') ?ws = [(''cost'', Some (Itoa (jCost job)))]"
    "filter (\<lambda>w. fst w = ''artifact-hash'') ?ws = [(''artifact-hash'', Some (aiHash art))]"
    "filter (\<lambda>w. fst w = ''artifact-url'') ?ws = [(''artifact-url'', Some (aiURL art))]"
    by (subst propose_flags_filter; simp)+
  note r = req [OF f(1) assms(1)] req [OF f(2) assms(2)] req [OF f(3) Itoa_nonempty] req [OF f(4) assms(4)] req [OF f(5) assms(5)]
  have cost: "requireInt ?f ''cost'' = Inr (jCost job)"
    using r(3) Atoi_Itoa [OF assms(3)] by (simp add: requireInt_def)
  have keys: "fst ` set ?ws = {''job-id'', ''task'', ''cost'', ''artifact-hash'', ''artifact-url''}
      \<union> (\<lambda>d. ''dep'') ` set (aiDependencies art) \<union> (if tNoResult task then {''no-result''} else {})"
    by (simp add: propose_flags_def image_Un image_image insert_commute)
  have "''parent-job-id'' \<notin> fst ` set ?ws" unfolding keys by (simp add: image_iff)
  then have parent: "fs_Get ?f ''parent-job-id'' = []"
    using pr(1) pr(2) [of "''parent-job-id''"] by (simp add: FlagSet_ok_def)
  have nores: "fs_Has ?f ''no-result'' \<longleftrightarrow> tNoResult task"
    unfolding pr(2) keys by (simp add: image_iff)
  have "concat (map (\<lambda>w. if fst w = ''dep'' then (case snd w of None \<Rightarrow> [] | Some x \<Rightarrow> [x]) else [])
      (map (\<lambda>dep. (''dep'', Some dep)) ds)) = ds" for ds
    by (induction ds) auto
  then have deps: "fs_GetRepeated ?f ''dep'' = aiDependencies art"
    unfolding pr(3) propose_flags_def by simp
  show ?thesis
    by (simp add: proposeV0Factory_def Let_def r cost parent nores deps)
qed

text \<open>
  The proposal line is the verb followed by its flags, and a frame that presents these flags is read
  back as the proposal of the same job, task, cost and artifact, provided none of the required texts is
  empty. The parent of the job is not on the line: the worker reads an empty parent.
\<close>

lemma propose_roundtrip:
  assumes "jID job \<noteq> []" and "jTaskName job \<noteq> []" and "in_int64 (jCost job)" and "aiHash art \<noteq> []" and "aiURL art \<noteq> []"
    and "presents (nm_Flags m) (propose_flags job task art)"
  shows "FormulateProposeV0Message job task art = ''propose'' @ concat (map flag_text (propose_flags job task art)) \<and>
         proposeV0Factory m =
           Inr (Propose \<lparr>pmJobID = jID job, pmParentJobID = [], pmTask = jTaskName job, pmCost = jCost job,
                         pmNoResult = tNoResult task, pmArtifactHash = aiHash art, pmArtifactURL = aiURL art,
                         pmArtifactDeps = aiDependencies art\<rparr>)"
  using propose_parsed [OF assms] FormulateProposeV0Message_flags by blast

text \<open>A frame made from a list of flags.\<close>

definition frame_of :: "string \<Rightarrow> flag list \<Rightarrow> bytes \<Rightarrow> netargv_Message" where
  "frame_of verb ws payload =
     (let look = (\<lambda>k. case map_of ws k of None \<Rightarrow> None | Some None \<Rightarrow> Some [] | Some (Some x) \<Rightarrow> Some x)
      in \<lparr>nm_Verb = verb,
          nm_Flags = \<lparr>fs_Lookup = look, fs_Get = (\<lambda>k. case look k of None \<Rightarrow> [] | Some v \<Rightarrow> v), fs_Has = (\<lambda>k. look k \<noteq> None),
                      fs_GetRepeated = (\<lambda>k. concat (map (\<lambda>w. if fst w = k then (case snd w of None \<Rightarrow> [] | Some x \<Rightarrow> [x]) else []) ws))\<rparr>,
          nm_Payload = payload\<rparr>)"

lemma frame_of_presents: "presents (nm_Flags (frame_of verb ws payload)) ws"
proof -
  have "map_of ws k = Some v" if "filter (\<lambda>w. fst w = k) ws = [(k, v)]" for k v
    using that by (induction ws) (auto split: if_splits)
  moreover have "(case map_of ws k of None \<Rightarrow> None | Some None \<Rightarrow> Some [] | Some (Some x) \<Rightarrow> Some x) \<noteq> None \<longleftrightarrow> k \<in> fst ` set ws" for k
    using map_of_eq_None_iff [of ws k] by (auto split: option.splits)
  ultimately show ?thesis
    by (simp add: presents_def frame_of_def FlagSet_ok_def Let_def)
qed

section \<open>What an accepted message guarantees\<close>

fun message_ok :: "Message \<Rightarrow> bool" where
  "message_ok (Propose p) \<longleftrightarrow>
     pmJobID p \<noteq> [] \<and> pmTask p \<noteq> [] \<and> pmArtifactHash p \<noteq> [] \<and> pmArtifactURL p \<noteq> [] \<and> in_int64 (pmCost p)"
| "message_ok (Dispatch d) \<longleftrightarrow> dmJobID d \<noteq> [] \<and> dmRunID d \<noteq> [] \<and> dmPhase d \<in> {''run'', ''consolidate''} \<and> in_int64 (dmAttempt d)"
| "message_ok (Staged r) \<longleftrightarrow> rmJobID r \<noteq> [] \<and> rmRunID r \<noteq> []"
| "message_ok (Accept i) \<longleftrightarrow> i \<noteq> []"
| "message_ok (Reject r) \<longleftrightarrow> rjJobID r \<noteq> [] \<and> rjReason r \<noteq> []"
| "message_ok (Starting r) \<longleftrightarrow> rmJobID r \<noteq> [] \<and> rmRunID r \<noteq> []"
| "message_ok (Log l) \<longleftrightarrow> lmJobID l \<noteq> [] \<and> lmRunID l \<noteq> []"
| "message_ok (Result r) \<longleftrightarrow>
     resJobID r \<noteq> [] \<and> resRunID r \<noteq> [] \<and> in_int64 (resExitCode r) \<and> (resType r = ResultSubjobs \<longleftrightarrow> resJobs r \<noteq> [])"
| "message_ok (Heartbeat h) \<longleftrightarrow>
     hbState h \<in> {WorkerStateOnline, WorkerStatePressure, WorkerStateDraining, WorkerStateOffline, WorkerStateShuttingDown}"
| "message_ok (System c) \<longleftrightarrow> c \<in> {''drain'', ''shutdown''}"
| "message_ok (Capacity n) \<longleftrightarrow> 0 \<le> n \<and> n \<le> max_int64"
| "message_ok (Cancel i) \<longleftrightarrow> i \<noteq> []"

lemma requireFlag_Inr: "requireFlag f n = Inr v \<Longrightarrow> v \<noteq> []"
  by (auto simp: requireFlag_def split: option.splits if_splits)

lemma Atoi_range: "Atoi s = Inr n \<Longrightarrow> in_int64 n"
  by (auto simp: Atoi_def Let_def split: prod.splits if_splits)

lemma requireInt_range: "requireInt f n = Inr v \<Longrightarrow> in_int64 v"
  by (auto simp: requireInt_def split: sum.splits dest: Atoi_range)

lemma optional_flag_Atoi: "optional_flag f n Atoi 0 = Inr v \<Longrightarrow> in_int64 v"
  by (auto simp: optional_flag_def Let_def split: sum.splits if_splits dest: Atoi_range)

lemma IsValidWorkerState_cases:
  "IsValidWorkerState v \<Longrightarrow> WorkerState_of_int v \<in>
     {WorkerStateOnline, WorkerStatePressure, WorkerStateDraining, WorkerStateOffline, WorkerStateShuttingDown}"
  by (auto simp: IsValidWorkerState_def WorkerState_String_def split: if_splits)

lemmas factory_facts = and_then_Inr_iff requireFlag_Inr requireInt_range optional_flag_Atoi

lemma flag_factories_ok:
  "proposeV0Factory m = Inr msg \<Longrightarrow> message_ok msg" "stagedV0Factory m = Inr msg \<Longrightarrow> message_ok msg"
  "acceptV0Factory m = Inr msg \<Longrightarrow> message_ok msg" "rejectV0Factory m = Inr msg \<Longrightarrow> message_ok msg"
  "startingV0Factory m = Inr msg \<Longrightarrow> message_ok msg" "logV0Factory m = Inr msg \<Longrightarrow> message_ok msg"
  "cancelV0Factory m = Inr msg \<Longrightarrow> message_ok msg"
  by (auto simp: proposeV0Factory_def stagedV0Factory_def acceptV0Factory_def rejectV0Factory_def startingV0Factory_def
      logV0Factory_def cancelV0Factory_def run_message_def Let_def factory_facts)

lemma dispatch_factory_ok: "dispatchV0Factory m = Inr msg \<Longrightarrow> message_ok msg"
  by (auto simp: dispatchV0Factory_def Let_def factory_facts split: if_splits)

lemma result_factory_ok: "resultV0Factory m = Inr msg \<Longrightarrow> message_ok msg"
  by (auto simp: resultV0Factory_def Let_def factory_facts split: if_splits)

lemma heartbeat_factory_ok:
  assumes "heartbeatV0Factory m = Inr msg"
  shows "message_ok msg"
proof -
  obtain st found e where o: "optionalInt (nm_Flags m) ''state'' = (st, found, e)" by (metis surj_pair)
  have "\<exists>c mm. msg = Heartbeat \<lparr>hbCPUPercent = c, hbMemoryPercent = mm, hbState = WorkerState_of_int st\<rparr> \<and>
      (found \<longrightarrow> IsValidWorkerState st)"
    using assms o by (auto simp: heartbeatV0Factory_def Let_def split: prod.splits bool.splits option.splits if_splits)
  moreover have "WorkerState_of_int st = WorkerStateOnline" if "\<not> found"
    using o that by (auto simp: optionalInt_def WorkerState_of_int_def WorkerStateOnline_def split: sum.splits)
  ultimately show ?thesis using IsValidWorkerState_cases [of st] by fastforce
qed

lemma system_capacity_factory_ok:
  "systemV0Factory m = Inr msg \<Longrightarrow> message_ok msg" "capacityV0Factory m = Inr msg \<Longrightarrow> message_ok msg"
  by (auto simp: systemV0Factory_def capacityV0Factory_def and_then_Inr_iff in_int64_def dest: requireInt_range split: if_splits)

text \<open>
  C23: a message that a registered factory accepts is well formed: it names its job and its run, its
  numbers fit their types, a state is one of the five, a capacity is not negative, a system command is
  known, and exactly the results of decomposing jobs carry child jobs.
\<close>

theorem accepted_messages_ok:
  assumes "(verb, factory) \<in> set RegisterMessages" and "factory m = Inr msg"
  shows "message_ok msg"
  using assms flag_factories_ok dispatch_factory_ok result_factory_ok heartbeat_factory_ok system_capacity_factory_ok
  unfolding RegisterMessages_def by (auto simp only: list.set insert_iff empty_iff prod.inject)

theorem accepted_messages_ok_witness:
  "acceptV0Factory (frame_of ''accept'' [(''job-id'', Some ''j'')] []) = Inr (Accept ''j'') \<and> message_ok (Accept ''j'')"
proof -
  have f: "acceptV0Factory (frame_of ''accept'' [(''job-id'', Some ''j'')] []) = Inr (Accept ''j'')"
    by (simp add: acceptV0Factory_def requireFlag_def frame_of_def Let_def)
  have "(''accept'', acceptV0Factory) \<in> set RegisterMessages" by (simp add: RegisterMessages_def)
  from accepted_messages_ok [OF this f] f show ?thesis by blast
qed

text \<open>
  A heartbeat without a processor load is accepted whatever its memory flag says, which is then
  taken for zero when it is missing or not a number; and a heartbeat without a state reports the worker
  as online.
\<close>

lemma heartbeat_defaults:
  assumes "requireFlag (nm_Flags m) ''cpu'' = Inl e1" and "requireFlag (nm_Flags m) ''state'' = Inl e2"
    and "snd (requireFloat (nm_Flags m) ''mem'') \<noteq> None"
  shows "heartbeatV0Factory m = Inr (Heartbeat \<lparr>hbCPUPercent = 0, hbMemoryPercent = 0, hbState = WorkerStateOnline\<rparr>)"
proof -
  have "fst (requireFloat (nm_Flags m) ''mem'') = 0"
    using assms(3) by (auto simp: requireFloat_def split: sum.splits)
  then show ?thesis
    using assms(1,2) by (cases "requireFloat (nm_Flags m) ''mem''")
      (simp add: heartbeatV0Factory_def optionalFloat_def optionalInt_def Let_def WorkerState_of_int_def WorkerStateOnline_def)
qed

end
