(* ===== verification/Manager_State.thy ===== *)
theory Manager_State
  imports Store_Queries Priority_Heap Worker_Selector Webhook_Dispatch Proto_Messages
begin

text \<open>
  The manager's state and the operations every part of it shares: the queue of pending jobs, the
  stores, the pool, cancellation, requeueing and recovery (\<^verbatim>\<open>manager/manager.go\<close> and the small
  helpers of \<^verbatim>\<open>manager/dispatcher.go\<close>). The manager runs on the in-memory store. An operation reads
  the clock once: the calls of \<^verbatim>\<open>time.Now\<close> within it share the argument \<open>now\<close>.
\<close>

section \<open>Configuration and state\<close>

record ArtifactPlatform =
  apArtifact :: string
  apVersion :: string
  apOS :: string
  apArch :: string
  apHash :: string
  apSize :: int
  apDependencies :: "string list"
  apURL :: string

text \<open>The lookups of the \<^verbatim>\<open>ArtifactRegistry\<close> interface the manager makes.\<close>

record ArtifactRegistry =
  reg_ListPlatforms :: "string \<Rightarrow> string \<Rightarrow> ArtifactPlatform list res"
  reg_Resolve :: "string \<Rightarrow> string \<Rightarrow> string \<Rightarrow> ArtifactPlatform res"
  reg_ResolveVersion :: "string \<Rightarrow> string \<Rightarrow> string \<Rightarrow> string \<Rightarrow> ArtifactPlatform res"

text \<open>
  The configuration, with the code of other modules the manager calls: the sets, the lanes, the
  identifiers of the ULID module (the \<open>n\<close>-th one made) and the URL signer.
\<close>

record 's Config =
  cfg_sets :: "'s SimpleSet"
  cfg_lane :: "'s lane_Do"
  cfg_ulid :: "nat \<Rightarrow> string"
  cfg_signer :: "(string \<Rightarrow> string res) option"
  cfg_ArtifactsRegistry :: "ArtifactRegistry option"
  cfg_WorkerSelector :: "int \<Rightarrow> 's WorkerPool \<Rightarrow> nat list \<Rightarrow> (nat \<times> int) option"
  cfg_StarvationTimeout :: duration
  cfg_has_OnResourceShortage :: bool
  cfg_ScaleUpCooldown :: duration
  cfg_DefaultRetryPolicy :: RetryPolicy
  cfg_DefaultPanicExitCode :: int
  cfg_DoNotRetryFrom :: int
  cfg_DoNotRetryTo :: int

record PlatformDemand =
  pdOS :: string
  pdArch :: string
  pdPendingCost :: int
  pdPendingCount :: int

record ResourceShortageEvent =
  rsPendingCost :: int
  rsClusterCapacity :: int
  rsPendingCount :: int
  rsConnectedWorkers :: nat
  rsUnsatisfiedPlatforms :: "PlatformDemand list"

text \<open>
  \<open>m_activeRunIDs\<close> is the map of the connection server, which there is one of; \<open>m_retries\<close> are the
  timers started by \<^verbatim>\<open>time.AfterFunc\<close> that have not fired yet, \<open>m_shortages\<close> the calls made to the
  shortage callback.
\<close>

record 's Manager =
  m_store :: MemStore
  m_workers :: "'s WorkerPool"
  m_queue :: "Job PriorityQueue"
  m_cancelledJobIDs :: 's
  m_lastScaleUpCall :: time
  m_lastDispatchRun :: int
  m_activeRunIDs :: "(string, string) gomap"
  m_selector :: int
  m_ulids :: nat
  m_retries :: "(duration \<times> string) list"
  m_shortages :: "ResourceShortageEvent list"

text \<open>The order of the queue: the higher priority first, then the older job.\<close>

definition higherJob :: "Job \<Rightarrow> Job \<Rightarrow> bool" where
  "higherJob a b \<longleftrightarrow>
     (if jPriority a \<noteq> jPriority b then jPriority b < jPriority a else jCreatedAt a < jCreatedAt b)"

interpretation job_order: comparator higherJob
  by unfold_locales (auto simp: higherJob_def split: if_splits)

definition NewManager :: "'s Config \<Rightarrow> MemStore \<Rightarrow> 's Manager" where
  "NewManager cfg store =
     \<lparr>m_store = store, m_workers = NewWorkerPool \<lparr>sig_waiting = False, sig_woken = False\<rparr>,
      m_queue = NewPriorityQueue higherJob, m_cancelledJobIDs = NewSimpleSet (cfg_sets cfg),
      m_lastScaleUpCall = 0, m_lastDispatchRun = 0, m_activeRunIDs = [], m_selector = 0, m_ulids = 0,
      m_retries = [], m_shortages = []\<rparr>"

section \<open>The queue\<close>

definition NotifyDispatcher :: "'s Manager \<Rightarrow> 's Manager" where
  "NotifyDispatcher m = m\<lparr>m_workers := pool_notifyDispatcher (m_workers m)\<rparr>"

definition queue_push :: "'s Manager \<Rightarrow> Job \<Rightarrow> 's Manager" where
  "queue_push m job = m\<lparr>m_queue := snd (PushItem (m_queue m) job)\<rparr>"

definition EnqueueJob :: "'s Manager \<Rightarrow> Job \<Rightarrow> 's Manager" where
  "EnqueueJob m job = NotifyDispatcher (queue_push m job)"

definition EnqueueJobs :: "'s Manager \<Rightarrow> Job list \<Rightarrow> 's Manager" where
  "EnqueueJobs m js = (if js = [] then m else NotifyDispatcher (foldl queue_push m js))"

text \<open>A pop shortens the slice of the queue whatever its order.\<close>

lemma PopItem_length:
  assumes "items pq \<noteq> []"
  shows "length (items (snd (PopItem pq))) = length (items pq) - 1"
proof -
  let ?n = "length (items pq) - 1"
  obtain k pq2 where down: "heap_down (pq_Swap pq 0 ?n) 0 ?n = (k, pq2)" by fastforce
  have "length (items pq2) = length (items pq)"
    using heap_down_frame [OF _ _ down] assms by simp
  then show ?thesis
    using assms down by (simp add: PopItem_def heap_Pop_def pq_Len_def Let_def case_prod_beta)
qed

function PopNextJobFromQueue :: "'s Config \<Rightarrow> 's Manager \<Rightarrow> Job option \<times> 's Manager" where
  "PopNextJobFromQueue cfg m =
     (if pq_Size (m_queue m) < 1 then (None, m)
      else case PopItem (m_queue m) of
             (None, q) \<Rightarrow> (None, m\<lparr>m_queue := q\<rparr>)
           | (Some job, q) \<Rightarrow>
               (let m1 = m\<lparr>m_queue := q\<rparr>
                in if ss_Has (cfg_sets cfg) (m_cancelledJobIDs m1) (jID job)
                   then PopNextJobFromQueue cfg
                          (m1\<lparr>m_cancelledJobIDs := ss_Remove (cfg_sets cfg) (m_cancelledJobIDs m1) (jID job)\<rparr>)
                   else (Some job, m1)))"
  by pat_completeness auto
termination
proof (relation "measure (\<lambda>(cfg, m). length (items (m_queue m)))", goal_cases)
  case 1
  show ?case by simp
next
  case (2 cfg m x q job m1)
  have "items (m_queue m) \<noteq> []" using 2(1) by (auto simp: pq_Size_def)
  then have "length (items q) < length (items (m_queue m))"
    using PopItem_length [of "m_queue m"] 2(2,3) by (cases "items (m_queue m)") (auto dest: sym)
  then show ?case using 2(4) by simp
qed

declare PopNextJobFromQueue.simps [simp del]

section \<open>Shared operations\<close>

text \<open>A store update whose error is only logged.\<close>

definition upd_job :: "'s Manager \<Rightarrow> string \<Rightarrow> (Job \<Rightarrow> Job) \<Rightarrow> 's Manager" where
  "upd_job m i f = (case UpdateJob (m_store m) i f of Inl e \<Rightarrow> m | Inr st \<Rightarrow> m\<lparr>m_store := st\<rparr>)"

definition upd_run :: "'s Manager \<Rightarrow> string \<Rightarrow> (JobRun \<Rightarrow> JobRun) \<Rightarrow> 's Manager" where
  "upd_run m i f = (case UpdateRun (m_store m) i f of Inl e \<Rightarrow> m | Inr st \<Rightarrow> m\<lparr>m_store := st\<rparr>)"

definition fire :: "'s Config \<Rightarrow> 's Manager \<Rightarrow> (string \<Rightarrow> MemStore \<Rightarrow> MemStore) \<Rightarrow> 's Manager" where
  "fire cfg m f = m\<lparr>m_store := f (cfg_ulid cfg (m_ulids m)) (m_store m), m_ulids := m_ulids m + 1\<rparr>"

definition failJobDirect :: "'s Config \<Rightarrow> 's Manager \<Rightarrow> Job \<Rightarrow> string \<Rightarrow> time \<Rightarrow> 's Manager" where
  "failJobDirect cfg m job reason now =
     (let m1 = upd_job m (jID job)
                 (\<lambda>j. j\<lparr>jStatus := JobStatusFailed, jFailureReason := reason, jUpdatedAt := now\<rparr>)
      in fire cfg m1 (\<lambda>u st. FireJobFailed u st job reason now))"

definition open_run :: "JobRun \<Rightarrow> bool" where
  "open_run r \<longleftrightarrow> rStatus r = RunStatusProvisioning \<or> rStatus r = RunStatusRunning"

definition close_open_runs :: "'s Manager \<Rightarrow> string \<Rightarrow> string \<Rightarrow> time \<Rightarrow> 's Manager" where
  "close_open_runs m jobID reason now =
     foldl (\<lambda>m r. if open_run r
                  then upd_run m (rID r)
                         (\<lambda>run. run\<lparr>rStatus := RunStatusFailed, rFailureReason := reason, rFinishedAt := now\<rparr>)
                  else m)
       m (ListJobRuns (m_store m) jobID)"

definition requeue_job :: "'s Manager \<Rightarrow> string \<Rightarrow> time \<Rightarrow> 's Manager" where
  "requeue_job m i now =
     (let m1 = close_open_runs m i ''worker disconnected'' now
      in case GetJob (m_store m1) i of
           Inl e \<Rightarrow> m1
         | Inr job \<Rightarrow>
             (let m2 = upd_job m1 i (\<lambda>j. j\<lparr>jStatus := JobStatusPending\<rparr>)
              in EnqueueJob m2 (job\<lparr>jStatus := JobStatusPending\<rparr>)))"

definition OnJobsRequeued :: "'s Manager \<Rightarrow> string list \<Rightarrow> time \<Rightarrow> 's Manager" where
  "OnJobsRequeued m ids now = foldl (\<lambda>m i. requeue_job m i now) m ids"

definition recover_job :: "'s Manager \<Rightarrow> Job \<Rightarrow> time \<Rightarrow> 's Manager" where
  "recover_job m j now =
     upd_job (close_open_runs m (jID j) ''recovered: manager restarted'' now) (jID j)
       (\<lambda>jb. jb\<lparr>jStatus := JobStatusPending\<rparr>)"

definition RecoverJobs :: "'s Manager \<Rightarrow> time \<Rightarrow> 's Manager" where
  "RecoverJobs m now =
     (let pending = ListPendingJobs (m_store m); rcv = ListRecoverableJobs (m_store m);
          m1 = foldl (\<lambda>m j. recover_job m j now) m rcv
      in EnqueueJobs m1 (pending @ map (\<lambda>j. j\<lparr>jStatus := JobStatusPending\<rparr>) rcv))"

definition HasPendingForPlatform :: "'s Config \<Rightarrow> 's Manager \<Rightarrow> string \<Rightarrow> string \<Rightarrow> bool" where
  "HasPendingForPlatform cfg m os arch =
     (let names = remdups (map jTaskName (pq_Values (m_queue m)))
      in case cfg_ArtifactsRegistry cfg of
           None \<Rightarrow> names \<noteq> []
         | Some reg \<Rightarrow>
             (\<exists>n \<in> set names.
                case reg_ListPlatforms reg n [] of
                  Inl e \<Rightarrow> False
                | Inr ps \<Rightarrow> \<exists>p \<in> set ps. platformKey (apOS p) (apArch p) = platformKey os arch))"

text \<open>The summary of the queue; each job counts under the first platform of its task.\<close>

record queuePlatformEntry =
  qpOS :: string
  qpArch :: string
  qpDepth :: int
  qpTotalCost :: int

record queuePriorityEntry =
  qrPriority :: int
  qrDepth :: int

record queueSnapshot =
  qsDepth :: nat
  qsByPlatform :: "queuePlatformEntry list"
  qsByPriority :: "queuePriorityEntry list"

definition count_priority :: "(int, int) gomap \<Rightarrow> Job \<Rightarrow> (int, int) gomap" where
  "count_priority byPriority job =
     AList.update (jPriority job) ((case map_of byPriority (jPriority job) of None \<Rightarrow> 0 | Some n \<Rightarrow> n) + 1) byPriority"

definition count_platform ::
  "'s Config \<Rightarrow> (string, queuePlatformEntry) gomap \<Rightarrow> Job \<Rightarrow> (string, queuePlatformEntry) gomap" where
  "count_platform cfg byPlatform job =
     (case cfg_ArtifactsRegistry cfg of
        None \<Rightarrow> byPlatform
      | Some reg \<Rightarrow>
          (case reg_ListPlatforms reg (jTaskName job) [] of
             Inl e \<Rightarrow> byPlatform
           | Inr [] \<Rightarrow> byPlatform
           | Inr (p # ps) \<Rightarrow>
               (let key = platformKey (apOS p) (apArch p);
                    e = (case map_of byPlatform key of
                           None \<Rightarrow> \<lparr>qpOS = apOS p, qpArch = apArch p, qpDepth = 0, qpTotalCost = 0\<rparr> | Some e \<Rightarrow> e)
                in AList.update key
                     (e\<lparr>qpDepth := qpDepth e + 1, qpTotalCost := wrap64 (qpTotalCost e + jCost job)\<rparr>) byPlatform)))"

definition QueueInfo :: "'s Config \<Rightarrow> 's Manager \<Rightarrow> queueSnapshot" where
  "QueueInfo cfg m =
     (let js = pq_Values (m_queue m)
      in \<lparr>qsDepth = length js, qsByPlatform = map snd (foldl (count_platform cfg) [] js),
          qsByPriority = map (\<lambda>(p, n). \<lparr>qrPriority = p, qrDepth = n\<rparr>) (foldl count_priority [] js)\<rparr>)"

section \<open>Talking to workers\<close>

text \<open>A send whose error the caller reports or drops.\<close>

definition send_to :: "'s Manager \<Rightarrow> nat \<Rightarrow> string \<Rightarrow> 's Manager res" where
  "send_to m a line =
     (case Send (p_conns (m_workers m) ! a) line of
        Inl e \<Rightarrow> Inl e
      | Inr w \<Rightarrow> Inr (m\<lparr>m_workers := upd_conn (m_workers m) a w\<rparr>))"

definition not_connected :: "string \<Rightarrow> error" where
  "not_connected workerID = Errorf (''worker '' @ go_quote workerID @ '' not connected'')"

definition DrainWorker :: "'s Manager \<Rightarrow> string \<Rightarrow> 's Manager res" where
  "DrainWorker m workerID =
     (case GetWorker (m_workers m) workerID of
        None \<Rightarrow> Inl (not_connected workerID)
      | Some a \<Rightarrow> send_to m a (ForulateSystemV0Message ''drain''))"

definition DisconnectWorker :: "'s Manager \<Rightarrow> string \<Rightarrow> 's Manager res" where
  "DisconnectWorker m workerID =
     (case GetWorker (m_workers m) workerID of
        None \<Rightarrow> Inl (not_connected workerID)
      | Some a \<Rightarrow>
          (case conn_Close (w_conn (p_conns (m_workers m) ! a)) of
             Inl e \<Rightarrow> Inl e
           | Inr c \<Rightarrow> Inr (m\<lparr>m_workers := upd_conn (m_workers m) a ((p_conns (m_workers m) ! a)\<lparr>w_conn := c\<rparr>)\<rparr>)))"

definition drainWorkers :: "'s Manager \<Rightarrow> 's Manager" where
  "drainWorkers m =
     foldl (\<lambda>m (i, a). case send_to m a (ForulateSystemV0Message ''drain'') of Inl e \<Rightarrow> m | Inr m' \<Rightarrow> m')
       m (p_workers (m_workers m))"

definition close_conn :: "'s Manager \<Rightarrow> nat \<Rightarrow> 's Manager" where
  "close_conn m a =
     (case conn_Close (w_conn (p_conns (m_workers m) ! a)) of
        Inl e \<Rightarrow> m
      | Inr c \<Rightarrow> m\<lparr>m_workers := upd_conn (m_workers m) a ((p_conns (m_workers m) ! a)\<lparr>w_conn := c\<rparr>)\<rparr>)"

definition closeAllWorkers :: "'s Manager \<Rightarrow> 's Manager" where
  "closeAllWorkers m = foldl close_conn m (allWorkers (m_workers m))"

definition SendCancelToWorker :: "'s Config \<Rightarrow> 's Manager \<Rightarrow> string \<Rightarrow> 's Manager" where
  "SendCancelToWorker cfg m jobID =
     (case FindWorkerByInFlightJobID (cfg_sets cfg) (m_workers m) jobID of
        None \<Rightarrow> m
      | Some a \<Rightarrow> (case send_to m a (''cancel --job-id='' @ jobID) of Inl e \<Rightarrow> m | Inr m' \<Rightarrow> m'))"

section \<open>Cancellation\<close>

definition mark_cancelled :: "time \<Rightarrow> Job \<Rightarrow> Job" where
  "mark_cancelled now j =
     j\<lparr>jStatus := JobStatusCancelled, jUpdatedAt := now, jCompletedAt := Some now,
       jDuration := Some (now - jCreatedAt j)\<rparr>"

definition cancel_child :: "'s Config \<Rightarrow> time \<Rightarrow> 's Manager \<Rightarrow> Job \<Rightarrow> 's Manager" where
  "cancel_child cfg now m child =
     (if IsTerminal (jStatus child) then m
      else let m1 = (if jStatus child = JobStatusRunning \<or> jStatus child = JobStatusProvisioning
                        \<or> jStatus child = JobStatusProposing
                     then SendCancelToWorker cfg m (jID child) else m);
               m2 = (if jStatus child = JobStatusPending
                     then m1\<lparr>m_cancelledJobIDs := ss_Add (cfg_sets cfg) (m_cancelledJobIDs m1) (jID child)\<rparr> else m1)
           in upd_job m2 (jID child) (mark_cancelled now))"

definition cancelJobByID :: "'s Config \<Rightarrow> 's Manager \<Rightarrow> string \<Rightarrow> time \<Rightarrow> 's Manager" where
  "cancelJobByID cfg m jobID now =
     (case GetJob (m_store m) jobID of
        Inl e \<Rightarrow> m
      | Inr job \<Rightarrow>
          (let m1 = foldl (cancel_child cfg now) m (ListChildJobs (m_store m) jobID);
               m2 = (if jStatus job = JobStatusRunning \<or> jStatus job = JobStatusProvisioning
                        \<or> jStatus job = JobStatusProposing \<or> jStatus job = JobStatusAccepted
                     then SendCancelToWorker cfg m1 jobID else m1);
               m3 = (if jStatus job = JobStatusPending
                     then m2\<lparr>m_cancelledJobIDs := ss_Add (cfg_sets cfg) (m_cancelledJobIDs m2) (jID job)\<rparr> else m2);
               m4 = upd_job m3 jobID (mark_cancelled now)
           in fire cfg m4 (\<lambda>u st. FireJobCancelled u st job now)))"

end
