(* ===== verification/Dispatcher.thy ===== *)
theory Dispatcher
  imports Manager_State
begin

text \<open>
  The dispatch pass of \<^verbatim>\<open>manager/dispatcher.go\<close>: starved jobs are boosted, jobs are popped in
  priority order and proposed to a selected worker, and jobs that cannot go now are pushed back. The
  pass is one uninterrupted run: messages of workers are handled before or after it.
\<close>

section \<open>Errors\<close>

definition ErrUnknownTask :: error where "ErrUnknownTask = Sentinel ''unknown task''"
definition ErrNoEledgibleWorkers :: error where "ErrNoEledgibleWorkers = Sentinel ''no elegible workers''"
definition ErrNoArtifactPlatform :: error where "ErrNoArtifactPlatform = Sentinel ''no artifact platform available''"

section \<open>What a job can run on\<close>

record jobDeferral =
  jd_reason :: string
  jd_shortage :: bool
  jd_fail :: bool

text \<open>The caches of one pass: the platforms by task and version, and the tasks known to exist.\<close>

type_synonym pass_cache = "(string \<times> string, string list) gomap \<times> string list"

definition jobPlatformKeysForDispatch ::
  "'s Config \<Rightarrow> 's Manager \<Rightarrow> Job \<Rightarrow> string list \<Rightarrow> pass_cache \<Rightarrow> (string list \<times> jobDeferral option) \<times> pass_cache" where
  "jobPlatformKeysForDispatch cfg m job online = (\<lambda>(platformCache, taskCache).
     if jTaskName job \<notin> set taskCache \<and> (case GetTask (m_store m) (jTaskName job) of Inl e \<Rightarrow> True | Inr t \<Rightarrow> False)
     then (([], Some \<lparr>jd_reason = ''unknown task: '' @ jTaskName job, jd_shortage = False, jd_fail = True\<rparr>),
           (platformCache, taskCache))
     else let taskCache = List.insert (jTaskName job) taskCache
          in case cfg_ArtifactsRegistry cfg of
               None \<Rightarrow> (([], None), (platformCache, taskCache))
             | Some reg \<Rightarrow>
                 (let key = (jTaskName job, jArtifactVersion job);
                      found = (case map_of platformCache key of
                                 Some keys \<Rightarrow> Inr (keys, platformCache)
                               | None \<Rightarrow>
                                   (case reg_ListPlatforms reg (jTaskName job) (jArtifactVersion job) of
                                      Inl e \<Rightarrow> Inl e
                                    | Inr ps \<Rightarrow>
                                        (let keys = map (\<lambda>p. platformKey (apOS p) (apArch p)) ps
                                         in Inr (keys, AList.update key keys platformCache))))
                  in case found of
                       Inl e \<Rightarrow> (([], Some \<lparr>jd_reason = ''list platforms: '' @ error_text e,
                                              jd_shortage = False, jd_fail = False\<rparr>), (platformCache, taskCache))
                     | Inr (keys, platformCache) \<Rightarrow>
                         (if keys = []
                          then (([], Some \<lparr>jd_reason = error_text ErrNoArtifactPlatform,
                                           jd_shortage = False, jd_fail = False\<rparr>), (platformCache, taskCache))
                          else if \<exists>k \<in> set keys. k \<in> set online then ((keys, None), (platformCache, taskCache))
                          else ((keys, Some \<lparr>jd_reason = ''no online workers for artifact platforms'',
                                             jd_shortage = True, jd_fail = False\<rparr>), (platformCache, taskCache)))))"

section \<open>Aging\<close>

definition max_priority :: "Job list \<Rightarrow> int" where
  "max_priority js = foldl (\<lambda>maxP j. if maxP < jPriority j then jPriority j else maxP) 0 js"

definition starved :: "duration \<Rightarrow> time \<Rightarrow> int \<Rightarrow> Job \<Rightarrow> bool" where
  "starved timeout now maxP j \<longleftrightarrow> timeout < now - jCreatedAt j \<and> jPriority j \<le> maxP"

text \<open>The queue holds pointers: raising the priority of a job changes the queued item.\<close>

definition age_item :: "duration \<Rightarrow> time \<Rightarrow> int \<Rightarrow> Job PriorityQueue \<Rightarrow> nat \<Rightarrow> Job PriorityQueue" where
  "age_item timeout now maxP q a =
     (let it = objs q ! a; j = Value it
      in if starved timeout now maxP j
         then q\<lparr>objs := (objs q)[a := it\<lparr>Value := j\<lparr>jPriority := wrap64 (maxP + 1)\<rparr>\<rparr>]\<rparr> else q)"

definition applyStarvationAging :: "'s Config \<Rightarrow> 's Manager \<Rightarrow> time \<Rightarrow> 's Manager" where
  "applyStarvationAging cfg m now =
     (if cfg_StarvationTimeout cfg \<le> 0 then m
      else let q = m_queue m; maxP = max_priority (pq_Values q);
               q' = foldl (age_item (cfg_StarvationTimeout cfg) now maxP) q (pq_Snapshot q);
               dirty = (\<exists>j \<in> set (pq_Values q). starved (cfg_StarvationTimeout cfg) now maxP j)
           in if dirty then m\<lparr>m_queue := Reheapify q'\<rparr> else m\<lparr>m_queue := q'\<rparr>)"

section \<open>Proposing one job\<close>

text \<open>The artifact of the job for the platform of the selected worker, its URL signed when possible.\<close>

definition resolve_artifact :: "'s Config \<Rightarrow> Job \<Rightarrow> Task \<Rightarrow> string \<Rightarrow> string \<Rightarrow> ArtifactInfo res" where
  "resolve_artifact cfg job taskDef os arch =
     (case cfg_ArtifactsRegistry cfg of
        None \<Rightarrow> Inr \<lparr>aiHash = [], aiURL = [], aiDependencies = []\<rparr>
      | Some reg \<Rightarrow>
          (case (if jArtifactVersion job \<noteq> []
                 then reg_ResolveVersion reg (tName taskDef) (jArtifactVersion job) os arch
                 else reg_Resolve reg (tName taskDef) os arch) of
             Inl e \<Rightarrow> Inl e
           | Inr platform \<Rightarrow>
               (let url = apURL platform;
                    signed = (case cfg_signer cfg of
                                None \<Rightarrow> url
                              | Some sign \<Rightarrow> (if url \<noteq> [] then case sign url of Inl e \<Rightarrow> url | Inr s \<Rightarrow> s else url))
                in Inr \<lparr>aiHash = apHash platform, aiURL = signed, aiDependencies = apDependencies platform\<rparr>)))"

definition propose_to ::
  "'s Config \<Rightarrow> 's Manager \<Rightarrow> Job \<Rightarrow> Task \<Rightarrow> nat \<Rightarrow> time \<Rightarrow> error option \<times> 's Manager" where
  "propose_to cfg m job taskDef a now =
     (let w = p_conns (m_workers m) ! a
      in case resolve_artifact cfg job taskDef (w_os w) (w_arch w) of
           Inl e \<Rightarrow> (Some e, m)
         | Inr artInfo \<Rightarrow>
             (case send_to m a (FormulateProposeV0Message job taskDef artInfo) of
                Inl e \<Rightarrow> (Some e, m)
              | Inr m1 \<Rightarrow>
                  (case UpdateJob (m_store m1) (jID job) (\<lambda>j. j\<lparr>jStatus := JobStatusProposing\<rparr>) of
                     Inl e \<Rightarrow> (Some e, m1)
                   | Inr st \<Rightarrow>
                       (let m2 = m1\<lparr>m_store := st\<rparr>
                        in case subtractCapacity (cfg_sets cfg) (cfg_lane cfg) (m_workers m2) a (jID job) (jCost job) now of
                             Inl e \<Rightarrow> (Some e, m2)
                           | Inr pool \<Rightarrow>
                               (None, fire cfg (m2\<lparr>m_workers := pool\<rparr>)
                                        (\<lambda>u st. FireJobProposing u st job (w_workerID w) now))))))"

definition tryProposeJob ::
  "'s Config \<Rightarrow> 's Manager \<Rightarrow> Job \<Rightarrow> string list \<Rightarrow> time \<Rightarrow> error option \<times> 's Manager" where
  "tryProposeJob cfg m job platformKeys now =
     (case GetTask (m_store m) (jTaskName job) of
        Inl e \<Rightarrow> (Some ErrUnknownTask, m)
      | Inr taskDef \<Rightarrow>
          (if cfg_ArtifactsRegistry cfg \<noteq> None \<and> platformKeys = [] then (Some ErrNoArtifactPlatform, m)
           else let (workers, pool) = eligibleWorkers (m_workers m) platformKeys (jCost job) (jID job) now;
                    m1 = m\<lparr>m_workers := pool\<rparr>
                in if workers = [] then (Some ErrNoEledgibleWorkers, m1)
                   else case cfg_WorkerSelector cfg (m_selector m1) pool workers of
                          None \<Rightarrow> (Some (Panic ''nil worker''), m1)
                        | Some (a, sel) \<Rightarrow> propose_to cfg (m1\<lparr>m_selector := sel\<rparr>) job taskDef a now))"

section \<open>The pass\<close>

datatype attempt = Dispatched | FailedJob | DeferredJob bool

definition dispatch_one ::
  "'s Config \<Rightarrow> 's Manager \<Rightarrow> Job \<Rightarrow> string list \<Rightarrow> pass_cache \<Rightarrow> time \<Rightarrow> attempt \<times> pass_cache \<times> 's Manager" where
  "dispatch_one cfg m job online caches now =
     (let ((keys, d), caches) = jobPlatformKeysForDispatch cfg m job online caches
      in case d of
           Some d \<Rightarrow>
             (if jd_fail d then (FailedJob, caches, failJobDirect cfg m job (jd_reason d) now)
              else (DeferredJob (jd_shortage d), caches, m))
         | None \<Rightarrow>
             (case tryProposeJob cfg m job keys now of
                (Some e, m1) \<Rightarrow>
                  (if e = ErrUnknownTask
                   then (FailedJob, caches, failJobDirect cfg m1 job (''unknown task: '' @ jTaskName job) now)
                   else (DeferredJob (e = ErrNoEledgibleWorkers), caches, m1))
              | (None, m1) \<Rightarrow> (Dispatched, caches, m1)))"

text \<open>A pass pops jobs only: neither a failed nor a proposed job goes back to the queue meanwhile.\<close>

lemma upd_job_frame [simp]:
  "m_queue (upd_job m i f) = m_queue m" "m_cancelledJobIDs (upd_job m i f) = m_cancelledJobIDs m"
  "m_workers (upd_job m i f) = m_workers m"
  by (auto simp: upd_job_def split: sum.splits)

lemma fire_frame [simp]:
  "m_queue (fire cfg m f) = m_queue m" "m_cancelledJobIDs (fire cfg m f) = m_cancelledJobIDs m"
  "m_workers (fire cfg m f) = m_workers m"
  by (auto simp: fire_def)

lemma failJobDirect_frame [simp]:
  "m_queue (failJobDirect cfg m job r now) = m_queue m"
  "m_cancelledJobIDs (failJobDirect cfg m job r now) = m_cancelledJobIDs m"
  "m_workers (failJobDirect cfg m job r now) = m_workers m"
  by (auto simp: failJobDirect_def Let_def)

lemma send_to_frame:
  assumes "send_to m a line = Inr m'"
  shows "m_queue m' = m_queue m" "m_cancelledJobIDs m' = m_cancelledJobIDs m" "m_store m' = m_store m"
  using assms by (auto simp: send_to_def split: sum.splits)

lemma propose_to_frame [simp]:
  "m_queue (snd (propose_to cfg m job t a now)) = m_queue m"
  "m_cancelledJobIDs (snd (propose_to cfg m job t a now)) = m_cancelledJobIDs m"
  by (auto simp: propose_to_def Let_def send_to_frame split: sum.splits)

lemma tryProposeJob_frame [simp]:
  "m_queue (snd (tryProposeJob cfg m job keys now)) = m_queue m"
  "m_cancelledJobIDs (snd (tryProposeJob cfg m job keys now)) = m_cancelledJobIDs m"
  by (auto simp: tryProposeJob_def Let_def split: sum.splits option.splits prod.splits)

lemma tryProposeJob_frame':
  "tryProposeJob cfg m job keys now = (e, m') \<Longrightarrow> m_queue m' = m_queue m \<and> m_cancelledJobIDs m' = m_cancelledJobIDs m"
  using tryProposeJob_frame [of cfg m job keys now] by simp

lemma dispatch_one_frame:
  assumes "dispatch_one cfg m job online caches now = (r, caches', m')"
  shows "m_queue m' = m_queue m" "m_cancelledJobIDs m' = m_cancelledJobIDs m"
proof -
  have "m_queue m' = m_queue m \<and> m_cancelledJobIDs m' = m_cancelledJobIDs m"
    using assms by (auto simp: dispatch_one_def Let_def dest: tryProposeJob_frame'
        split: prod.splits option.splits if_splits)
  then show "m_queue m' = m_queue m" "m_cancelledJobIDs m' = m_cancelledJobIDs m" by blast+
qed

lemma PopNextJobFromQueue_shorter:
  "PopNextJobFromQueue cfg m = (Some job, m') \<Longrightarrow> length (items (m_queue m')) < length (items (m_queue m))"
proof (induction cfg m rule: PopNextJobFromQueue.induct)
  case (1 cfg m)
  have ne: "items (m_queue m) \<noteq> []"
    using 1(2) by (auto simp: PopNextJobFromQueue.simps [of cfg m] pq_Size_def)
  obtain x q where pop: "PopItem (m_queue m) = (x, q)" by fastforce
  have len: "length (items q) < length (items (m_queue m))"
    using PopItem_length [OF ne] pop ne by (cases "items (m_queue m)") auto
  have x: "\<exists>j. x = Some j" using pop ne by (auto simp: PopItem_def split: prod.splits)
  then obtain j where j: "x = Some j" by blast
  show ?case
  proof (cases "ss_Has (cfg_sets cfg) (m_cancelledJobIDs m) (jID j)")
    case True
    then show ?thesis
      using 1(1) [OF _ pop [symmetric] j refl] 1(2) pop j ne len
      by (simp add: PopNextJobFromQueue.simps [of cfg m] pq_Size_def)
  next
    case False
    then show ?thesis using 1(2) pop j ne len by (auto simp: PopNextJobFromQueue.simps [of cfg m] pq_Size_def)
  qed
qed

function process_loop ::
  "'s Config \<Rightarrow> 's Manager \<Rightarrow> string list \<Rightarrow> pass_cache \<Rightarrow> Job list \<Rightarrow> bool \<Rightarrow> time \<Rightarrow> Job list \<times> bool \<times> 's Manager" where
  "process_loop cfg m online caches deferred shortage now =
     (case PopNextJobFromQueue cfg m of
        (None, m1) \<Rightarrow> (deferred, shortage, m1)
      | (Some job, m1) \<Rightarrow>
          (case dispatch_one cfg m1 job online caches now of
             (DeferredJob s, caches', m2) \<Rightarrow> process_loop cfg m2 online caches' (deferred @ [job]) (shortage \<or> s) now
           | (FailedJob, caches', m2) \<Rightarrow> process_loop cfg m2 online caches' deferred shortage now
           | (Dispatched, caches', m2) \<Rightarrow> process_loop cfg m2 online caches' deferred shortage now))"
  by pat_completeness auto
termination
  by (relation "measure (\<lambda>(cfg, m, online, caches, deferred, shortage, now). length (items (m_queue m)))")
    (auto dest!: dispatch_one_frame(1) PopNextJobFromQueue_shorter simp: eq_commute [of "(_, _)"])

declare process_loop.simps [simp del]

section \<open>Shortage\<close>

record taskDemand =
  td_cost :: int
  td_count :: int
  td_minCost :: int

definition add_demand :: "(string, taskDemand) gomap \<Rightarrow> Job \<Rightarrow> (string, taskDemand) gomap" where
  "add_demand demandByTask job =
     (let d = (case map_of demandByTask (jTaskName job) of
                 None \<Rightarrow> \<lparr>td_cost = 0, td_count = 0, td_minCost = jCost job\<rparr> | Some d \<Rightarrow> d)
      in AList.update (jTaskName job)
           \<lparr>td_cost = wrap64 (td_cost d + jCost job), td_count = td_count d + 1,
            td_minCost = (if jCost job < td_minCost d then jCost job else td_minCost d)\<rparr> demandByTask)"

definition add_platform_demand ::
  "taskDemand \<Rightarrow> (string, PlatformDemand) gomap \<Rightarrow> string \<times> ArtifactPlatform \<Rightarrow> (string, PlatformDemand) gomap" where
  "add_platform_demand demand pds = (\<lambda>(key, p).
     let pd = (case map_of pds key of
                 None \<Rightarrow> \<lparr>pdOS = apOS p, pdArch = apArch p, pdPendingCost = 0, pdPendingCount = 0\<rparr> | Some pd \<Rightarrow> pd)
     in AList.update key
          (pd\<lparr>pdPendingCost := wrap64 (pdPendingCost pd + td_cost demand),
              pdPendingCount := pdPendingCount pd + td_count demand\<rparr>) pds)"

definition unsatisfied_step ::
  "'s Config \<Rightarrow> time \<Rightarrow> 's WorkerPool \<times> (string, PlatformDemand) gomap \<Rightarrow> string \<times> taskDemand
     \<Rightarrow> 's WorkerPool \<times> (string, PlatformDemand) gomap" where
  "unsatisfied_step cfg now = (\<lambda>(pool, pds) (taskName, demand).
     let platforms = (case cfg_ArtifactsRegistry cfg of
                        None \<Rightarrow> []
                      | Some reg \<Rightarrow> (case reg_ListPlatforms reg taskName [] of Inl e \<Rightarrow> [] | Inr ps \<Rightarrow> ps));
         platformKeys = map (\<lambda>p. platformKey (apOS p) (apArch p)) platforms;
         platformsByKey = foldl (\<lambda>acc p. AList.update (platformKey (apOS p) (apArch p)) p acc) [] platforms;
         (workers, pool) = eligibleWorkers pool platformKeys (td_minCost demand) [] now
     in (pool, if workers = [] then foldl (add_platform_demand demand) pds platformsByKey else pds))"

definition checkResourceShortage :: "'s Config \<Rightarrow> 's Manager \<Rightarrow> time \<Rightarrow> 's Manager" where
  "checkResourceShortage cfg m now =
     (if \<not> cfg_has_OnResourceShortage cfg then m
      else if \<not> IsZero (m_lastScaleUpCall m) \<and> now - m_lastScaleUpCall m < cfg_ScaleUpCooldown cfg then m
      else let js = pq_Values (m_queue m);
               demandByTask = foldl add_demand [] js;
               pendingCost = foldl (\<lambda>c j. wrap64 (c + jCost j)) 0 js;
               pendingCount = int (length js);
               clusterCapacity = totalCapacity (m_workers m)
           in if pendingCost \<le> clusterCapacity then m
              else let (pool, pds) = foldl (unsatisfied_step cfg now) (m_workers m, []) demandByTask
                   in m\<lparr>m_workers := pool, m_lastScaleUpCall := now,
                        m_shortages := m_shortages m @
                          [\<lparr>rsPendingCost = pendingCost, rsClusterCapacity = clusterCapacity,
                            rsPendingCount = pendingCount, rsConnectedWorkers = pool_Size pool,
                            rsUnsatisfiedPlatforms = map snd pds\<rparr>]\<rparr>)"

section \<open>The routine\<close>

definition unix_seconds :: "time \<Rightarrow> int" where
  "unix_seconds t = (t div Second - 62135596800) mod 2 ^ 64"

definition ProcessQueue :: "'s Config \<Rightarrow> 's Manager \<Rightarrow> time \<Rightarrow> 's Manager" where
  "ProcessQueue cfg m now =
     (let m0 = m\<lparr>m_lastDispatchRun := unix_seconds now\<rparr>
      in if pq_Size (m_queue m0) = 0 then m0
         else let m1 = applyStarvationAging cfg m0 now;
                  (deferred, shortage, m2) =
                    process_loop cfg m1 (onlinePlatformKeys (m_workers m1)) ([], []) [] False now;
                  m3 = foldl queue_push m2 deferred
              in if shortage then checkResourceShortage cfg m3 now else m3)"

section \<open>The loop accounts for every job\<close>

abbreviation stored :: "'s Manager \<Rightarrow> string \<Rightarrow> Job option" where
  "stored m \<equiv> map_of (ms_jobs (m_store m))"

definition on_worker :: "('s \<Rightarrow> string set) \<Rightarrow> 's Manager \<Rightarrow> string \<Rightarrow> bool" where
  "on_worker elems m i \<longleftrightarrow>
     (\<exists>a < length (p_conns (m_workers m)). i \<in> elems (w_inFlight (p_conns (m_workers m) ! a)))"

abbreviation cancelled :: "('s \<Rightarrow> string set) \<Rightarrow> 's Manager \<Rightarrow> string set" where
  "cancelled elems m \<equiv> elems (m_cancelledJobIDs m)"

lemma webhook_enqueue_jobs [simp]: "ms_jobs (webhook_enqueue u m job ev pl now) = ms_jobs m"
  by (simp add: webhook_enqueue_def EnqueueWebhook_def)

lemma stored_fire:
  "(\<And>u st. ms_jobs (f u st) = ms_jobs st) \<Longrightarrow> stored (fire cfg m f) = stored m"
  by (simp add: fire_def)

lemma stored_upd_job: "stored (upd_job m i f) = (stored m)(i := map_option f (stored m i))"
  by (auto simp: upd_job_def UpdateJob_def fun_eq_iff split: option.splits)

lemma stored_failJobDirect:
  "stored (failJobDirect cfg m job r now) = (stored m)(jID job := map_option
     (\<lambda>j. j\<lparr>jStatus := JobStatusFailed, jFailureReason := r, jUpdatedAt := now\<rparr>) (stored m (jID job)))"
  unfolding failJobDirect_def Let_def by (subst stored_fire) (simp_all add: FireJobFailed_def stored_upd_job)

lemma on_worker_upd_conn:
  assumes "on_worker elems m i"
    and "elems (w_inFlight (p_conns (m_workers m) ! a)) \<subseteq> elems (w_inFlight w)"
  shows "on_worker elems (m\<lparr>m_workers := upd_conn (m_workers m) a w\<rparr>) i"
  using assms by (fastforce simp: on_worker_def upd_conn_def nth_upd)

lemma pool_sim_inFlight:
  "pool_sim h h' \<Longrightarrow> w_inFlight (p_conns h' ! a) = w_inFlight (p_conns h ! a)" "pool_sim h h' \<Longrightarrow> length (p_conns h') = length (p_conns h)"
  unfolding pool_sim_def by (metis WorkerConn.select_convs(10) WorkerConn.surjective WorkerConn.update_convs(15)) simp

text \<open>What one proposal keeps and, on success, establishes.\<close>

definition step_ok :: "('s \<Rightarrow> string set) \<Rightarrow> Job \<Rightarrow> 's Manager \<Rightarrow> 's Manager \<Rightarrow> bool" where
  "step_ok elems job m m' \<longleftrightarrow>
     pool_wf (m_workers m') \<and> (\<forall>i. i \<noteq> jID job \<longrightarrow> stored m' i = stored m i) \<and>
     (\<forall>i. stored m i \<noteq> None \<longrightarrow> stored m' i \<noteq> None) \<and>
     (\<forall>i. on_worker elems m i \<longrightarrow> on_worker elems m' i) \<and> m_queue m' = m_queue m \<and>
     m_cancelledJobIDs m' = m_cancelledJobIDs m"

definition proposed :: "('s \<Rightarrow> string set) \<Rightarrow> 's Manager \<Rightarrow> string \<Rightarrow> bool" where
  "proposed elems m i \<longleftrightarrow>
     (\<exists>j. stored m i = Some j \<and> jStatus j = JobStatusProposing) \<and> on_worker elems m i"

definition failed :: "'s Manager \<Rightarrow> string \<Rightarrow> bool" where
  "failed m i \<longleftrightarrow> (\<exists>j. stored m i = Some j \<and> jStatus j = JobStatusFailed)"

lemma send_to_step:
  assumes "send_to m a line = Inr m'" "pool_wf (m_workers m)"
  shows "step_ok elems job m m'" "length (p_conns (m_workers m')) = length (p_conns (m_workers m))"
proof -
  from assms(1) obtain c where m': "m' = m\<lparr>m_workers := upd_conn (m_workers m) a ((p_conns (m_workers m) ! a)\<lparr>w_conn := c\<rparr>)\<rparr>"
    by (auto simp: send_to_def Send_def split: sum.splits)
  have "pool_wf (m_workers m')"
    using pool_wf_upd_conn(1) [OF assms(2)] by (simp add: m' same_ident_def)
  then show "step_ok elems job m m'"
    using on_worker_upd_conn [of elems m] by (auto simp: step_ok_def m')
  show "length (p_conns (m_workers m')) = length (p_conns (m_workers m))" by (simp add: m' upd_conn_def)
qed

lemma step_ok_refl: "pool_wf (m_workers m) \<Longrightarrow> step_ok elems job m m"
  by (simp add: step_ok_def)

lemma step_ok_trans: "step_ok elems job m m1 \<Longrightarrow> step_ok elems job m1 m2 \<Longrightarrow> step_ok elems job m m2"
  by (simp add: step_ok_def)

lemma step_ok_upd:
  assumes "pool_wf (m_workers m)" "UpdateJob (m_store m) (jID job) f = Inr st"
  shows "step_ok elems job m (m\<lparr>m_store := st\<rparr>)" "\<exists>j. stored m (jID job) = Some j \<and> map_of (ms_jobs st) (jID job) = Some (f j)"
  using assms by (auto simp: step_ok_def on_worker_def UpdateJob_def split: option.splits)

lemma step_ok_subtract:
  assumes wf: "pool_wf (m_workers m)" and S: "SimpleSet_ok (cfg_sets cfg) elems" and lane: "lane_runs (cfg_lane cfg)"
    and a: "a < length (p_conns (m_workers m))"
    and sub: "subtractCapacity (cfg_sets cfg) (cfg_lane cfg) (m_workers m) a (jID job) cost now = Inr pool"
  shows "step_ok elems job m (m\<lparr>m_workers := pool\<rparr>)" "on_worker elems (m\<lparr>m_workers := pool\<rparr>) (jID job)"
proof -
  from sub lane obtain w where w: "AssignTask (cfg_sets cfg) (p_conns (m_workers m) ! a) (jID job) cost = Inr w"
      "pool = upd_conn (m_workers m) a (UpdateHeartbeat w now)"
    by (auto simp: subtractCapacity_def lane_runs_def split: sum.splits)
  then have fl: "elems (w_inFlight w) = insert (jID job) (elems (w_inFlight (p_conns (m_workers m) ! a)))"
    and si: "same_ident (p_conns (m_workers m) ! a) (UpdateHeartbeat w now)"
    using SimpleSet_okD(2) [OF S] by (auto simp: AssignTask_def Let_def same_ident_def UpdateHeartbeat_def split: if_splits)
  have "pool_wf pool" using pool_wf_upd_conn(1) [OF wf si] by (simp add: w)
  then show "step_ok elems job m (m\<lparr>m_workers := pool\<rparr>)"
    using on_worker_upd_conn [of elems m _ a "UpdateHeartbeat w now"] fl
    by (auto simp: step_ok_def w(2) UpdateHeartbeat_def)
  show "on_worker elems (m\<lparr>m_workers := pool\<rparr>) (jID job)"
    unfolding on_worker_def using a fl by (intro exI [of _ a]) (simp add: w(2) upd_conn_def UpdateHeartbeat_def)
qed

lemma step_ok_fire:
  assumes "step_ok elems job m m'" "\<And>u st. ms_jobs (f u st) = ms_jobs st"
  shows "step_ok elems job m (fire cfg m' f)"
  using assms stored_fire [of f cfg m'] by (simp add: step_ok_def on_worker_def)

lemma propose_to_spec:
  assumes wf: "pool_wf (m_workers m)" and S: "SimpleSet_ok (cfg_sets cfg) elems" and lane: "lane_runs (cfg_lane cfg)"
    and a: "a < length (p_conns (m_workers m))"
    and run: "propose_to cfg m job t a now = (e, m')"
  shows "step_ok elems job m m'" "e = None \<Longrightarrow> proposed elems m' (jID job)"
proof -
  have jobs: "ms_jobs (FireJobProposing u st job i now) = ms_jobs st" for u st i by (simp add: FireJobProposing_def)
  have "step_ok elems job m m' \<and> (e = None \<longrightarrow> proposed elems m' (jID job))"
  proof (cases "resolve_artifact cfg job t (w_os (p_conns (m_workers m) ! a)) (w_arch (p_conns (m_workers m) ! a))")
    case (Inl err)
    then show ?thesis using run wf by (auto simp: propose_to_def step_ok_refl)
  next
    case (Inr art)
    show ?thesis
    proof (cases "send_to m a (FormulateProposeV0Message job t art)")
      case (Inl err)
      then show ?thesis using run wf Inr by (auto simp: propose_to_def step_ok_refl)
    next
      case sent: (Inr m1)
      note s1 = send_to_step(1) [OF sent wf, of elems job] send_to_step(2) [OF sent wf]
      have wf1: "pool_wf (m_workers m1)" using s1 by (simp add: step_ok_def)
      show ?thesis
      proof (cases "UpdateJob (m_store m1) (jID job) (\<lambda>j. j\<lparr>jStatus := JobStatusProposing\<rparr>)")
        case (Inl err)
        then show ?thesis using run s1 Inr sent by (auto simp: propose_to_def)
      next
        case upd: (Inr st)
        note s2 = step_ok_upd(1) [OF wf1 upd, of elems] step_ok_upd(2) [OF wf1 upd]
        let ?m2 = "m1\<lparr>m_store := st\<rparr>"
        have s12: "step_ok elems job m ?m2" using step_ok_trans [OF s1(1) s2(1)] .
        show ?thesis
        proof (cases "subtractCapacity (cfg_sets cfg) (cfg_lane cfg) (m_workers ?m2) a (jID job) (jCost job) now")
          case (Inl err)
          then show ?thesis using run s12 Inr sent upd by (auto simp: propose_to_def)
        next
          case sub: (Inr pool)
          note s3 = step_ok_subtract [OF _ S lane _ sub]
          have m': "e = None" "m' = fire cfg (?m2\<lparr>m_workers := pool\<rparr>)
              (\<lambda>u st. FireJobProposing u st job (w_workerID (p_conns (m_workers m) ! a)) now)"
            using run Inr sent upd sub by (auto simp: propose_to_def)
          have 3: "step_ok elems job ?m2 (?m2\<lparr>m_workers := pool\<rparr>)" "on_worker elems (?m2\<lparr>m_workers := pool\<rparr>) (jID job)"
            using s3 wf1 a s1(2) by simp_all
          have "step_ok elems job m m'"
            unfolding m'(2) by (intro step_ok_fire step_ok_trans [OF s12 3(1)] jobs)
          moreover have "stored m' = stored (?m2\<lparr>m_workers := pool\<rparr>)"
            unfolding m'(2) by (intro stored_fire jobs)
          ultimately show ?thesis
            using s2(2) 3(2) by (auto simp: proposed_def on_worker_def m'(2))
        qed
      qed
    qed
  qed
  then show "step_ok elems job m m'" "e = None \<Longrightarrow> proposed elems m' (jID job)" by blast+
qed

lemma eligibleWorkers_sim:
  assumes "pool_wf h" "eligibleWorkers h keys cost i now = (ws, h')"
  shows "pool_sim h h'" "a \<in> set ws \<Longrightarrow> a < length (p_conns h')"
proof -
  have "pool_sim h h' \<and> (\<forall>a \<in> set ws. a < length (p_conns h))"
  proof (cases "cost < 0")
    case True
    then show ?thesis using assms(2) by (auto simp: eligibleWorkers_def)
  next
    case False
    then have "0 \<le> cost" by simp
    note spec = eligibleWorkers_spec [OF assms(1) this, of keys i now]
    have "a < length (p_conns h)" if "a \<in> set ws" for a
      using spec(1) assms that by (auto simp: pool_wf_def registered_def split: if_splits)
    then show ?thesis using spec(2) assms(2) by simp
  qed
  then show "pool_sim h h'" "a \<in> set ws \<Longrightarrow> a < length (p_conns h')" using pool_sim_inFlight(2) [of h h'] by simp_all
qed

lemma pool_sim_wf: "pool_wf h \<Longrightarrow> pool_sim h h' \<Longrightarrow> pool_wf h'"
  using pool_wf_conns(1) [of h "p_conns h'"] pool_sim_ident [of h h'] by (metis pool_sim_def)

lemma step_ok_sim:
  assumes "pool_wf (m_workers m)" "pool_sim (m_workers m) h"
  shows "step_ok elems job m (m\<lparr>m_workers := h\<rparr>)"
  using pool_sim_wf [OF assms] pool_sim_inFlight [OF assms(2)] by (simp add: step_ok_def on_worker_def)

lemma tryProposeJob_spec:
  assumes wf: "pool_wf (m_workers m)" and S: "SimpleSet_ok (cfg_sets cfg) elems" and lane: "lane_runs (cfg_lane cfg)"
    and sel: "worker_selector (cfg_WorkerSelector cfg)"
    and run: "tryProposeJob cfg m job keys now = (e, m')"
  shows "step_ok elems job m m'" "e = None \<Longrightarrow> proposed elems m' (jID job)"
proof -
  have "step_ok elems job m m' \<and> (e = None \<longrightarrow> proposed elems m' (jID job))"
  proof (cases "GetTask (m_store m) (jTaskName job)")
    case (Inl err)
    then show ?thesis using run wf by (auto simp: tryProposeJob_def step_ok_refl)
  next
    case (Inr t)
    obtain ws h where el: "eligibleWorkers (m_workers m) keys (jCost job) (jID job) now = (ws, h)" by fastforce
    let ?m1 = "m\<lparr>m_workers := h\<rparr>"
    note sim = eligibleWorkers_sim [OF wf el]
    have s1: "step_ok elems job m ?m1" by (rule step_ok_sim [OF wf sim(1)])
    show ?thesis
    proof (cases "cfg_ArtifactsRegistry cfg \<noteq> None \<and> keys = [] \<or> ws = []")
      case True
      then show ?thesis using run Inr el wf s1 by (auto simp: tryProposeJob_def step_ok_refl split: if_splits)
    next
      case False
      then obtain a c where a: "cfg_WorkerSelector cfg (m_selector m) h ws = Some (a, c)" "a \<in> set ws"
        using worker_selector.picks [OF sel] by blast
      let ?m2 = "?m1\<lparr>m_selector := c\<rparr>"
      have s2: "step_ok elems job m ?m2" using s1 by (simp add: step_ok_def on_worker_def)
      have p: "propose_to cfg ?m2 job t a now = (e, m')"
        using run Inr el False a by (auto simp: tryProposeJob_def)
      have "pool_wf (m_workers ?m2)" using s2 by (simp add: step_ok_def)
      from propose_to_spec [OF this S lane _ p] sim(2) [OF a(2)] show ?thesis
        using step_ok_trans [OF s2] by auto
    qed
  qed
  then show "step_ok elems job m m'" "e = None \<Longrightarrow> proposed elems m' (jID job)" by blast+
qed

lemma dispatch_one_spec:
  assumes wf: "pool_wf (m_workers m)" and S: "SimpleSet_ok (cfg_sets cfg) elems" and lane: "lane_runs (cfg_lane cfg)"
    and sel: "worker_selector (cfg_WorkerSelector cfg)"
    and run: "dispatch_one cfg m job online caches now = (r, caches', m')"
  shows "step_ok elems job m m'" "r = Dispatched \<Longrightarrow> proposed elems m' (jID job)"
    "r = FailedJob \<Longrightarrow> stored m (jID job) \<noteq> None \<Longrightarrow> failed m' (jID job)"
proof -
  have fail: "step_ok elems job m (failJobDirect cfg m1 job reason now)"
    "stored m (jID job) \<noteq> None \<Longrightarrow> failed (failJobDirect cfg m1 job reason now) (jID job)"
    if "step_ok elems job m m1" for m1 reason
    using that by (auto simp: step_ok_def on_worker_def failed_def stored_failJobDirect)
  obtain keys d c where jp: "jobPlatformKeysForDispatch cfg m job online caches = ((keys, d), c)"
    by (metis surj_pair)
  obtain e m1 where tr: "tryProposeJob cfg m job keys now = (e, m1)" by fastforce
  note t = tryProposeJob_spec [OF wf S lane sel tr]
  have "step_ok elems job m m' \<and> (r = Dispatched \<longrightarrow> proposed elems m' (jID job)) \<and>
    (r = FailedJob \<longrightarrow> stored m (jID job) \<noteq> None \<longrightarrow> failed m' (jID job))"
  proof (cases d)
    case None
    then show ?thesis
      using run jp tr t fail [OF t(1)] by (auto simp: dispatch_one_def split: option.splits if_splits)
  next
    case (Some x)
    then show ?thesis
      using run jp fail [OF step_ok_refl [OF wf]] step_ok_refl [OF wf]
      by (auto simp: dispatch_one_def split: if_splits)
  qed
  then show "step_ok elems job m m'" "r = Dispatched \<Longrightarrow> proposed elems m' (jID job)"
    "r = FailedJob \<Longrightarrow> stored m (jID job) \<noteq> None \<Longrightarrow> failed m' (jID job)" by blast+
qed

text \<open>Popping drops cancelled jobs and hands out the next one.\<close>

lemma PopNextJobFromQueue_spec:
  assumes S: "SimpleSet_ok (cfg_sets cfg) elems"
  shows "PopNextJobFromQueue cfg m = (r, m') \<Longrightarrow> pq_inv higherJob (m_queue m) \<Longrightarrow>
    \<exists>ds. mset (pq_Values (m_queue m)) = mset (ds @ (case r of None \<Rightarrow> [] | Some j \<Rightarrow> [j]) @ pq_Values (m_queue m')) \<and>
      (\<forall>d \<in> set ds. jID d \<in> cancelled elems m) \<and> cancelled elems m' = cancelled elems m - jID ` set ds \<and>
      (case r of None \<Rightarrow> pq_Values (m_queue m') = [] | Some j \<Rightarrow> jID j \<notin> cancelled elems m') \<and>
      pq_inv higherJob (m_queue m') \<and> m_store m' = m_store m \<and> m_workers m' = m_workers m"
  using S
proof (induction cfg m rule: PopNextJobFromQueue.induct)
  case (1 cfg m)
  show ?case
  proof (cases "items (m_queue m) = []")
    case True
    then have "r = None" "m' = m"
      using 1(2) by (simp_all add: PopNextJobFromQueue.simps [of cfg m] pq_Size_def)
    then show ?thesis using 1(3) True by (intro exI [of _ "[]"]) (simp add: pq_Values_alt)
  next
    case False
    obtain j q where pop: "PopItem (m_queue m) = (Some j, q)" "pq_inv higherJob q"
        "pq_mset (m_queue m) = add_mset j (pq_mset q)"
      using job_order.heap.pop_some [OF 1(3)] False by (auto simp: pq_Values_alt)
    show ?thesis
    proof (cases "ss_Has (cfg_sets cfg) (m_cancelledJobIDs m) (jID j)")
      case True
      let ?m1 = "m\<lparr>m_queue := q, m_cancelledJobIDs := ss_Remove (cfg_sets cfg) (m_cancelledJobIDs m) (jID j)\<rparr>"
      have rec: "PopNextJobFromQueue cfg ?m1 = (r, m')"
        using 1(2) True pop(1) False by (simp add: PopNextJobFromQueue.simps [of cfg m] pq_Size_def)
      have c: "jID j \<in> cancelled elems m" "cancelled elems ?m1 = cancelled elems m - {jID j}"
        using True SimpleSet_okD(3,4) [OF 1(4)] by simp_all
      from 1(1) [OF _ pop(1) [symmetric] refl refl] True rec pop(2) False 1(4) obtain ds where ds:
        "mset (pq_Values q) = mset (ds @ (case r of None \<Rightarrow> [] | Some j \<Rightarrow> [j]) @ pq_Values (m_queue m'))"
        "\<forall>d \<in> set ds. jID d \<in> cancelled elems ?m1" "cancelled elems m' = cancelled elems ?m1 - jID ` set ds"
        "case r of None \<Rightarrow> pq_Values (m_queue m') = [] | Some j \<Rightarrow> jID j \<notin> cancelled elems m'"
        "pq_inv higherJob (m_queue m')" "m_store m' = m_store m" "m_workers m' = m_workers m"
        by (auto simp: pq_Size_def)
      then show ?thesis using pop(3) c by (intro exI [of _ "j # ds"]) auto
    next
      case no: False
      then have "r = Some j" "m' = m\<lparr>m_queue := q\<rparr>"
        using 1(2) pop(1) False by (simp_all add: PopNextJobFromQueue.simps [of cfg m] pq_Size_def)
      then show ?thesis using pop no SimpleSet_okD(4) [OF 1(4)] by (intro exI [of _ "[]"]) simp
    qed
  qed
qed

definition queue_ids :: "'s Manager \<Rightarrow> string list" where
  "queue_ids m = map jID (pq_Values (m_queue m))"

text \<open>What has become of the jobs of a queue when the loop ends; \<open>X\<close> are those deferred meanwhile.\<close>

definition loop_post :: "('s \<Rightarrow> string set) \<Rightarrow> 's Manager \<Rightarrow> Job list \<Rightarrow> 's Manager \<Rightarrow> bool" where
  "loop_post elems m X m' \<longleftrightarrow>
     set X \<subseteq> set (pq_Values (m_queue m)) \<and> distinct (map jID X) \<and> jID ` set X \<inter> cancelled elems m = {} \<and>
     pq_inv higherJob (m_queue m') \<and> pq_Values (m_queue m') = [] \<and> pool_wf (m_workers m') \<and>
     (\<forall>i. i \<notin> set (queue_ids m) - cancelled elems m \<longrightarrow> stored m' i = stored m i) \<and>
     (\<forall>i. on_worker elems m i \<longrightarrow> on_worker elems m' i) \<and>
     (\<forall>i \<in> set (queue_ids m) - cancelled elems m. i \<in> jID ` set X \<or> failed m' i \<or> proposed elems m' i)"

lemma proposed_later:
  "proposed elems m i \<Longrightarrow> stored m' i = stored m i \<Longrightarrow> on_worker elems m' i \<Longrightarrow> proposed elems m' i"
  by (simp add: proposed_def)

lemma loop_post_step:
  assumes ms: "mset (pq_Values (m_queue m)) = mset (ds @ job # pq_Values (m_queue m1))"
    and dist: "distinct (queue_ids m)"
    and drop: "\<forall>d \<in> set ds. jID d \<in> cancelled elems m" "cancelled elems m1 = cancelled elems m - jID ` set ds"
    and live: "jID job \<notin> cancelled elems m1"
    and same: "m_store m1 = m_store m" "m_workers m1 = m_workers m"
    and step: "step_ok elems job m1 m2"
    and res: "proposed elems m2 (jID job) \<or> failed m2 (jID job) \<or> pre = [job]"
    and pre: "pre = [] \<or> pre = [job]"
    and post: "loop_post elems m2 X m'"
  shows "loop_post elems m (pre @ X) m'"
proof -
  have vals: "set (pq_Values (m_queue m)) = set ds \<union> {job} \<union> set (pq_Values (m_queue m1))"
    using mset_eq_setD [OF ms] by auto
  have q2: "m_queue m2 = m_queue m1" "cancelled elems m2 = cancelled elems m1"
    and st2: "\<And>i. i \<noteq> jID job \<Longrightarrow> stored m2 i = stored m i"
    and ow2: "\<And>i. on_worker elems m i \<Longrightarrow> on_worker elems m2 i"
    using step same by (auto simp: step_ok_def on_worker_def)
  have "mset (queue_ids m) = mset (map jID (ds @ job # pq_Values (m_queue m1)))"
    using ms unfolding queue_ids_def by (metis mset_map)
  then have dist': "distinct (map jID (ds @ job # pq_Values (m_queue m1)))"
    using dist mset_eq_imp_distinct_iff by blast
  have ids: "set (queue_ids m) = jID ` set ds \<union> {jID job} \<union> set (queue_ids m2)"
    using vals by (auto simp: queue_ids_def q2)
  have fresh: "jID job \<notin> jID ` set ds" "jID job \<notin> set (queue_ids m2)" "jID ` set ds \<inter> set (queue_ids m2) = {}"
    using dist' by (auto simp: queue_ids_def q2)
  have liv: "jID job \<notin> cancelled elems m" using live drop(2) fresh(1) by auto
  have todo: "set (queue_ids m) - cancelled elems m = insert (jID job) (set (queue_ids m2) - cancelled elems m2)"
    using ids drop liv fresh by (auto simp: q2)
  have X: "set X \<subseteq> set (pq_Values (m_queue m1))" "jID ` set X \<subseteq> set (queue_ids m2)"
    using post by (auto simp: loop_post_def queue_ids_def q2)
  have kept: "stored m' (jID job) = stored m2 (jID job)"
    using post fresh(2) by (simp add: loop_post_def)
  have fin: "jID job \<in> jID ` set (pre @ X) \<or> failed m' (jID job) \<or> proposed elems m' (jID job)"
    using res kept post proposed_later [of elems m2 "jID job" m']
    by (auto simp: failed_def loop_post_def proposed_def)
  have canc: "jID ` set X \<inter> cancelled elems m = {}"
  proof -
    have "jID ` set X \<inter> cancelled elems m2 = {}" using post by (simp add: loop_post_def)
    then show ?thesis using X(2) fresh(3) drop(2) by (auto simp: q2)
  qed
  have p: "distinct (map jID X)" "pq_inv higherJob (m_queue m')" "pq_Values (m_queue m') = []" "pool_wf (m_workers m')"
      "\<And>i. i \<notin> set (queue_ids m2) - cancelled elems m2 \<Longrightarrow> stored m' i = stored m2 i"
      "\<And>i. on_worker elems m2 i \<Longrightarrow> on_worker elems m' i"
      "\<And>i. i \<in> set (queue_ids m2) - cancelled elems m2 \<Longrightarrow> i \<in> jID ` set X \<or> failed m' i \<or> proposed elems m' i"
    using post unfolding loop_post_def by blast+
  have "set (pre @ X) \<subseteq> set (pq_Values (m_queue m))" using pre X(1) vals by auto
  moreover have "distinct (map jID (pre @ X))" using p(1) pre X(2) fresh(2) by auto
  moreover have "jID ` set (pre @ X) \<inter> cancelled elems m = {}" using canc liv pre by auto
  moreover have "stored m' i = stored m i" if "i \<notin> insert (jID job) (set (queue_ids m2) - cancelled elems m2)" for i
    using p(5) [of i] st2 [of i] that by simp
  moreover have "i \<in> jID ` set (pre @ X) \<or> failed m' i \<or> proposed elems m' i"
    if "i \<in> insert (jID job) (set (queue_ids m2) - cancelled elems m2)" for i
    using p(7) [of i] fin that by auto
  ultimately show ?thesis
    unfolding loop_post_def todo using p(2-4) p(6) [OF ow2] by blast
qed

lemma process_loop_spec:
  assumes "SimpleSet_ok (cfg_sets cfg) elems" "lane_runs (cfg_lane cfg)" "worker_selector (cfg_WorkerSelector cfg)"
    and "process_loop cfg m online caches D sh now = (D', sh', m')"
    and "pq_inv higherJob (m_queue m)" "pool_wf (m_workers m)" "distinct (queue_ids m)"
    and "\<forall>i \<in> set (queue_ids m). stored m i \<noteq> None"
  shows "\<exists>X. D' = D @ X \<and> loop_post elems m X m'"
  using assms
proof (induction cfg m online caches D sh now rule: process_loop.induct)
  case (1 cfg m online caches D sh now)
  note S = 1(4) and lane = 1(5) and sel = 1(6) and run = 1(7) and inv = 1(8) and wf = 1(9) and dist = 1(10) and st = 1(11)
  obtain r m1 where pop: "PopNextJobFromQueue cfg m = (r, m1)" by fastforce
  from PopNextJobFromQueue_spec [OF S pop inv] obtain ds where ds:
    "mset (pq_Values (m_queue m)) = mset (ds @ (case r of None \<Rightarrow> [] | Some j \<Rightarrow> [j]) @ pq_Values (m_queue m1))"
    "\<forall>d \<in> set ds. jID d \<in> cancelled elems m" "cancelled elems m1 = cancelled elems m - jID ` set ds"
    "case r of None \<Rightarrow> pq_Values (m_queue m1) = [] | Some j \<Rightarrow> jID j \<notin> cancelled elems m1"
    "pq_inv higherJob (m_queue m1)" "m_store m1 = m_store m" "m_workers m1 = m_workers m" by blast
  show ?case
  proof (cases r)
    case None
    have "set (pq_Values (m_queue m)) = set ds" using mset_eq_setD [OF ds(1)] ds(4) None by simp
    then have "set (queue_ids m) - cancelled elems m = {}" using ds(2) by (auto simp: queue_ids_def)
    moreover have "D' = D" "m' = m1" using run pop None by (simp_all add: process_loop.simps [of cfg m])
    ultimately show ?thesis
      using ds None wf by (intro exI [of _ "[]"]) (auto simp: loop_post_def on_worker_def)
  next
    case (Some job)
    obtain o' c' m2 where one: "dispatch_one cfg m1 job online caches now = (o', c', m2)" by (metis surj_pair)
    have wf1: "pool_wf (m_workers m1)" using wf ds(7) by simp
    note sp = dispatch_one_spec [OF wf1 S lane sel one]
    have ms: "mset (pq_Values (m_queue m)) = mset (ds @ job # pq_Values (m_queue m1))" using ds(1) Some by simp
    have ids: "mset (queue_ids m) = mset (map jID (ds @ job # pq_Values (m_queue m1)))"
      using ms unfolding queue_ids_def by (metis mset_map)
    have q2: "m_queue m2 = m_queue m1" using sp(1) by (simp add: step_ok_def)
    have d2: "distinct (queue_ids m2)"
      using mset_eq_imp_distinct_iff [OF ids] dist q2 by (simp add: queue_ids_def)
    have sub: "set (queue_ids m2) \<subseteq> set (queue_ids m)" "jID job \<in> set (queue_ids m)"
      using mset_eq_setD [OF ids] q2 by (auto simp: queue_ids_def)
    have s2: "\<forall>i \<in> set (queue_ids m2). stored m2 i \<noteq> None" and sj: "stored m1 (jID job) \<noteq> None"
      using st sub sp(1) unfolding step_ok_def ds(6) by blast+
    have inv2: "pq_inv higherJob (m_queue m2)" and wf2: "pool_wf (m_workers m2)"
      using sp(1) ds(5) q2 by (simp_all add: step_ok_def)
    note prem = S lane sel _ inv2 wf2 d2 s2
    have live: "jID job \<notin> cancelled elems m1" using ds(4) Some by simp
    note fin = loop_post_step [OF ms dist ds(2,3) live ds(6,7) sp(1)]
    show ?thesis
    proof (cases o')
      case Dispatched
      then have "process_loop cfg m2 online c' D sh now = (D', sh', m')"
        using run pop Some one by (simp add: process_loop.simps [of cfg m])
      from 1(1) [OF pop [symmetric] Some one [symmetric] Dispatched refl prem(1-3) this prem(5-)]
      obtain X where X: "D' = D @ X" "loop_post elems m2 X m'" by blast
      show ?thesis using fin [of "[]", OF _ _ X(2)] X(1) sp(2) [OF Dispatched] by auto
    next
      case FailedJob
      then have "process_loop cfg m2 online c' D sh now = (D', sh', m')"
        using run pop Some one by (simp add: process_loop.simps [of cfg m])
      from 1(2) [OF pop [symmetric] Some one [symmetric] FailedJob refl prem(1-3) this prem(5-)]
      obtain X where X: "D' = D @ X" "loop_post elems m2 X m'" by blast
      show ?thesis using fin [of "[]", OF _ _ X(2)] X(1) sp(3) [OF FailedJob sj] by auto
    next
      case (DeferredJob s)
      then have "process_loop cfg m2 online c' (D @ [job]) (sh \<or> s) now = (D', sh', m')"
        using run pop Some one by (simp add: process_loop.simps [of cfg m])
      from 1(3) [OF pop [symmetric] Some one [symmetric] DeferredJob refl prem(1-3) this prem(5-)]
      obtain X where X: "D' = (D @ [job]) @ X" "loop_post elems m2 X m'" by blast
      show ?thesis using fin [of "[job]", OF _ _ X(2)] X(1) by auto
    qed
  qed
qed

section \<open>Aging\<close>

definition age :: "duration \<Rightarrow> time \<Rightarrow> int \<Rightarrow> Job \<Rightarrow> Job" where
  "age timeout now maxP j = (if starved timeout now maxP j then j\<lparr>jPriority := wrap64 (maxP + 1)\<rparr> else j)"

lemma age_fields [simp]:
  "jID (age t now p j) = jID j" "jCreatedAt (age t now p j) = jCreatedAt j"
  by (simp_all add: age_def)

lemma max_priority_ge: "j \<in> set js \<Longrightarrow> jPriority j \<le> max_priority js" "0 \<le> max_priority js"
proof -
  have "b \<le> foldl (\<lambda>maxP j. if maxP < jPriority j then jPriority j else maxP) b js \<and>
      (\<forall>j \<in> set js. jPriority j \<le> foldl (\<lambda>maxP j. if maxP < jPriority j then jPriority j else maxP) b js)" for b
    by (induction js arbitrary: b) (auto, (smt (verit))+)
  from this [of 0] show "j \<in> set js \<Longrightarrow> jPriority j \<le> max_priority js" "0 \<le> max_priority js"
    by (auto simp: max_priority_def)
qed

lemma age_items:
  assumes "distinct as" "\<forall>a \<in> set as. a < length (objs q)"
  shows "items (foldl (age_item t now p) q as) = items q"
    "isHigherPriority (foldl (age_item t now p) q as) = isHigherPriority q"
    "length (objs (foldl (age_item t now p) q as)) = length (objs q)"
    "b < length (objs q) \<Longrightarrow> objs (foldl (age_item t now p) q as) ! b =
       (if b \<in> set as then (objs q ! b)\<lparr>Value := age t now p (Value (objs q ! b))\<rparr> else objs q ! b)"
proof -
  have one: "items (age_item t now p q a) = items q" "isHigherPriority (age_item t now p q a) = isHigherPriority q"
    "length (objs (age_item t now p q a)) = length (objs q)"
    "b < length (objs q) \<Longrightarrow> objs (age_item t now p q a) ! b =
       (if b = a then (objs q ! b)\<lparr>Value := age t now p (Value (objs q ! b))\<rparr> else objs q ! b)" for q a b
    by (auto simp: age_item_def age_def Let_def nth_upd)
  have "items (foldl (age_item t now p) q as) = items q \<and>
    isHigherPriority (foldl (age_item t now p) q as) = isHigherPriority q \<and>
    length (objs (foldl (age_item t now p) q as)) = length (objs q) \<and>
    (\<forall>b < length (objs q). objs (foldl (age_item t now p) q as) ! b =
       (if b \<in> set as then (objs q ! b)\<lparr>Value := age t now p (Value (objs q ! b))\<rparr> else objs q ! b))"
    using assms
  proof (induction as arbitrary: q)
    case (Cons a as)
    from Cons.IH [of "age_item t now p q a"] Cons.prems show ?case by (auto simp: one)
  qed simp
  then show "items (foldl (age_item t now p) q as) = items q"
    "isHigherPriority (foldl (age_item t now p) q as) = isHigherPriority q"
    "length (objs (foldl (age_item t now p) q as)) = length (objs q)"
    "b < length (objs q) \<Longrightarrow> objs (foldl (age_item t now p) q as) ! b =
       (if b \<in> set as then (objs q ! b)\<lparr>Value := age t now p (Value (objs q ! b))\<rparr> else objs q ! b)" by blast+
qed

lemma age_queue:
  fixes q :: "Job PriorityQueue" and t :: duration and now :: time and p :: int
  assumes "pq_wf q"
  defines "q' \<equiv> foldl (age_item t now p) q (pq_Snapshot q)"
  shows "pq_wf q'" "pq_Values q' = map (age t now p) (pq_Values q)" "isHigherPriority q' = isHigherPriority q" "items q' = items q"
proof -
  have as: "distinct (items q)" "\<forall>a \<in> set (items q). a < length (objs q)" using assms(1) by (auto simp: pq_wf_def)
  note f = age_items [OF as, where t = t and now = now and p = p]
  have q': "q' = foldl (age_item t now p) q (items q)" by (simp add: q'_def pq_Snapshot_def)
  show "pq_Values q' = map (age t now p) (pq_Values q)"
    using as f(1,4) by (simp add: pq_Values_alt q')
  show "isHigherPriority q' = isHigherPriority q" "items q' = items q" using f(1,2) by (simp_all add: q')
  show "pq_wf q'"
    using assms(1) as(2) by (auto simp: pq_wf_def q' f)
qed

lemma applyStarvationAging_spec:
  fixes m :: "'s Manager" and cfg :: "'s Config" and now :: time
  assumes inv: "pq_inv higherJob (m_queue m)"
  defines "p \<equiv> max_priority (pq_Values (m_queue m))" and "m' \<equiv> applyStarvationAging cfg m now"
  shows "pq_inv higherJob (m_queue m')"
    "0 < cfg_StarvationTimeout cfg \<Longrightarrow>
       pq_mset (m_queue m') = image_mset (age (cfg_StarvationTimeout cfg) now p) (pq_mset (m_queue m))"
    "mset (queue_ids m') = mset (queue_ids m)"
    "m_store m' = m_store m" "m_workers m' = m_workers m" "m_cancelledJobIDs m' = m_cancelledJobIDs m"
proof -
  let ?t = "cfg_StarvationTimeout cfg"
  have frame: "m_store m' = m_store m" "m_workers m' = m_workers m" "m_cancelledJobIDs m' = m_cancelledJobIDs m"
    by (simp_all add: m'_def applyStarvationAging_def Let_def)
  have wf: "pq_wf (m_queue m)" "isHigherPriority (m_queue m) = higherJob" using inv by (simp_all add: pq_inv_def)
  note aq = age_queue [OF wf(1), of ?t now p]
  have "pq_inv higherJob (m_queue m') \<and>
     (0 < ?t \<longrightarrow> pq_mset (m_queue m') = image_mset (age ?t now p) (pq_mset (m_queue m))) \<and>
     mset (queue_ids m') = mset (queue_ids m)"
  proof (cases "?t \<le> 0")
    case True
    then show ?thesis using inv by (simp add: m'_def applyStarvationAging_def)
  next
    case False
    let ?q = "foldl (age_item ?t now p) (m_queue m) (pq_Snapshot (m_queue m))"
    note rh = job_order.Reheapify_correct [OF aq(1) aq(3) [unfolded wf(2)]]
    have ids: "image_mset jID (image_mset (age ?t now p) A) = image_mset jID A" for A
      by (simp add: image_mset.compositionality comp_def)
    show ?thesis
    proof (cases "\<exists>j \<in> set (pq_Values (m_queue m)). starved ?t now p j")
      case True
      then have "m_queue m' = Reheapify ?q" using False by (simp add: m'_def applyStarvationAging_def p_def Let_def)
      then show ?thesis using rh aq(2) ids [of "pq_mset (m_queue m)"] by (simp add: queue_ids_def)
    next
      case none: False
      then have q: "m_queue m' = ?q" using False by (simp add: m'_def applyStarvationAging_def p_def Let_def)
      have v: "pq_Values ?q = pq_Values (m_queue m)"
        unfolding aq(2) using none by (intro map_idI) (auto simp: age_def)
      have "pq_inv higherJob ?q" using inv aq v by (simp add: pq_inv_def)
      then show ?thesis using q v aq(2) by (simp add: queue_ids_def) (metis mset_map)
    qed
  qed
  then show "pq_inv higherJob (m_queue m')"
    "0 < ?t \<Longrightarrow> pq_mset (m_queue m') = image_mset (age ?t now p) (pq_mset (m_queue m))"
    "mset (queue_ids m') = mset (queue_ids m)" by blast+
  show "m_store m' = m_store m" "m_workers m' = m_workers m" "m_cancelledJobIDs m' = m_cancelledJobIDs m"
    by (rule frame)+
qed

section \<open>A pass\<close>

lemma unsatisfied_sim:
  "pool_wf (fst acc) \<Longrightarrow> pool_sim (fst acc) (fst (foldl (unsatisfied_step cfg now) acc ds))"
proof (induction ds arbitrary: acc)
  case (Cons d ds)
  let ?acc = "unsatisfied_step cfg now acc d"
  have "pool_sim (fst acc) (fst ?acc)"
    using eligibleWorkers_sim(1) [OF Cons.prems]
    by (auto simp: unsatisfied_step_def Let_def split: prod.splits)
  then show ?case
    using Cons.IH [of ?acc] pool_sim_wf [OF Cons.prems] pool_sim_trans by auto
qed simp

lemma checkResourceShortage_frame:
  assumes "pool_wf (m_workers m)"
  shows "m_queue (checkResourceShortage cfg m now) = m_queue m" "m_store (checkResourceShortage cfg m now) = m_store m"
    "pool_sim (m_workers m) (m_workers (checkResourceShortage cfg m now))"
proof -
  have sim: "pool_sim (m_workers m) (fst (foldl (unsatisfied_step cfg now) (m_workers m, []) ds))" for ds
    using unsatisfied_sim [of "(m_workers m, [])"] assms by simp
  show "m_queue (checkResourceShortage cfg m now) = m_queue m" "m_store (checkResourceShortage cfg m now) = m_store m"
    by (simp_all add: checkResourceShortage_def Let_def case_prod_beta)
  show "pool_sim (m_workers m) (m_workers (checkResourceShortage cfg m now))"
    using sim by (simp add: checkResourceShortage_def Let_def case_prod_beta)
qed

lemma queue_push_all:
  assumes "pq_inv higherJob (m_queue m)"
  shows "pq_inv higherJob (m_queue (foldl queue_push m js))"
    "pq_mset (m_queue (foldl queue_push m js)) = pq_mset (m_queue m) + mset js"
    "m_store (foldl queue_push m js) = m_store m" "m_workers (foldl queue_push m js) = m_workers m"
proof -
  have q: "m_queue (foldl queue_push m js) = foldl (\<lambda>pq v. snd (PushItem pq v)) (m_queue m) js \<and>
      m_store (foldl queue_push m js) = m_store m \<and> m_workers (foldl queue_push m js) = m_workers m"
    by (induction js arbitrary: m) (simp_all add: queue_push_def)
  then show "pq_inv higherJob (m_queue (foldl queue_push m js))"
    "pq_mset (m_queue (foldl queue_push m js)) = pq_mset (m_queue m) + mset js"
    "m_store (foldl queue_push m js) = m_store m" "m_workers (foldl queue_push m js) = m_workers m"
    using job_order.heap.push_all [OF assms] by simp_all
qed

text \<open>
  C24: a dispatch pass accounts for every queued job. Afterwards each job that was not cancelled is
  queued again, or is stored as failed, or is stored as proposing and in flight on a worker; jobs that
  were cancelled leave the queue and, like all jobs that were not queued, keep their stored record; the
  queue is a well-formed heap without duplicates that holds no new job.
\<close>

theorem ProcessQueue_accounts:
  assumes "SimpleSet_ok (cfg_sets cfg) elems" and "lane_runs (cfg_lane cfg)" and "worker_selector (cfg_WorkerSelector cfg)"
    and "pq_inv higherJob (m_queue m)" and "pool_wf (m_workers m)" and "distinct (queue_ids m)"
    and "\<forall>i \<in> set (queue_ids m). stored m i \<noteq> None"
  shows "let m' = ProcessQueue cfg m now
         in pq_inv higherJob (m_queue m') \<and> distinct (queue_ids m') \<and>
            set (queue_ids m') \<subseteq> set (queue_ids m) - cancelled elems m \<and>
            (\<forall>i \<in> set (queue_ids m) - cancelled elems m.
               i \<in> set (queue_ids m') \<or> failed m' i \<or> proposed elems m' i) \<and>
            (\<forall>i. i \<notin> set (queue_ids m) - cancelled elems m \<longrightarrow> stored m' i = stored m i)"
proof (cases "pq_Size (m_queue m) = 0")
  case True
  then have "queue_ids m = []" by (simp add: pq_Size_def queue_ids_def pq_Values_alt)
  with True assms(4) show ?thesis by (simp add: ProcessQueue_def queue_ids_def Let_def)
next
  case False
  define m0 where "m0 = m\<lparr>m_lastDispatchRun := unix_seconds now\<rparr>"
  define m1 where "m1 = applyStarvationAging cfg m0 now"
  obtain D sh m2 where loop: "process_loop cfg m1 (onlinePlatformKeys (m_workers m1)) ([], []) [] False now = (D, sh, m2)"
    by (metis surj_pair)
  define m3 where "m3 = foldl queue_push m2 D"
  define m' where "m' = ProcessQueue cfg m now"
  have inv0: "pq_inv higherJob (m_queue m0)" using assms(4) by (simp add: m0_def)
  note ag = applyStarvationAging_spec [OF inv0, of cfg now, folded m1_def]
  have ids1: "mset (queue_ids m1) = mset (queue_ids m)" using ag(3) by (simp add: m0_def queue_ids_def)
  have same: "m_store m1 = m_store m" "m_workers m1 = m_workers m" "cancelled elems m1 = cancelled elems m"
    using ag(4-6) by (simp_all add: m0_def)
  have s1: "set (queue_ids m1) = set (queue_ids m)" "distinct (queue_ids m1)"
    using mset_eq_setD [OF ids1] mset_eq_imp_distinct_iff [OF ids1] assms(6) by simp_all
  from process_loop_spec [OF assms(1-3) loop ag(1)] obtain X where X: "D = X" "loop_post elems m1 X m2"
    using assms(5,7) s1 same by auto
  have Xs: "jID ` set X \<subseteq> set (queue_ids m1)" using X(2) by (auto simp: loop_post_def queue_ids_def)
  have post: "set (queue_ids m1) = set (queue_ids m)" "distinct (map jID X)" "jID ` set X \<subseteq> set (queue_ids m) - cancelled elems m"
      "pq_inv higherJob (m_queue m2)" "pq_Values (m_queue m2) = []" "pool_wf (m_workers m2)"
      "\<And>i. i \<notin> set (queue_ids m) - cancelled elems m \<Longrightarrow> stored m2 i = stored m i"
      "\<And>i. i \<in> set (queue_ids m) - cancelled elems m \<Longrightarrow> i \<in> jID ` set X \<or> failed m2 i \<or> proposed elems m2 i"
    using X(2) Xs unfolding loop_post_def s1(1) same by blast+
  note push = queue_push_all [OF post(4), of X, folded X(1), folded m3_def]
  have m'_eq: "m' = (if sh then checkResourceShortage cfg m3 now else m3)"
    using False loop unfolding m'_def ProcessQueue_def m0_def [symmetric]
    by (simp add: m0_def Let_def m1_def [symmetric, unfolded m0_def] m3_def)
  have wf3: "pool_wf (m_workers m3)" using push(4) post(6) by simp
  note rs = checkResourceShortage_frame [OF wf3, of cfg now]
  have q': "m_queue m' = m_queue m3" "m_store m' = m_store m2"
    and sim: "pool_sim (m_workers m2) (m_workers m')"
    using rs push(3,4) by (auto simp: m'_eq)
  have ow: "on_worker elems m2 i \<Longrightarrow> on_worker elems m' i" for i
    using pool_sim_inFlight [OF sim] by (simp add: on_worker_def)
  have "mset (queue_ids m') = mset (map jID X)"
    using push(2) post(5) X(1) by (simp add: queue_ids_def q'(1))
  note ids' = mset_eq_setD [OF this] mset_eq_imp_distinct_iff [OF this]
  have "pq_inv higherJob (m_queue m')" "distinct (queue_ids m')"
      "set (queue_ids m') \<subseteq> set (queue_ids m) - cancelled elems m"
    using push(1) post(2,3) ids' q'(1) by simp_all
  moreover have "i \<in> set (queue_ids m') \<or> failed m' i \<or> proposed elems m' i"
    if "i \<in> set (queue_ids m) - cancelled elems m" for i
    using post(8) [OF that] ids'(1) ow q'(2) by (auto simp: failed_def proposed_def)
  moreover have "stored m' i = stored m i" if "i \<notin> set (queue_ids m) - cancelled elems m" for i
    using post(7) [OF that] q'(2) by simp
  ultimately show ?thesis unfolding Let_def m'_def [symmetric] by blast
qed

text \<open>A cluster of one worker and one task, for the examples.\<close>

definition ex_platform :: ArtifactPlatform where
  "ex_platform = \<lparr>apArtifact = ''t'', apVersion = ''v1'', apOS = ''linux'', apArch = ''arm64'', apHash = ''h'', apSize = 1,
     apDependencies = [], apURL = ''/a''\<rparr>"

definition ex_registry :: ArtifactRegistry where
  "ex_registry = \<lparr>reg_ListPlatforms = (\<lambda>a v. Inr [ex_platform]), reg_Resolve = (\<lambda>a os arch. Inr ex_platform),
     reg_ResolveVersion = (\<lambda>a v os arch. Inr ex_platform)\<rparr>"

definition ex_cfg :: "string list Config" where
  "ex_cfg =
     \<lparr>cfg_sets = list_set, cfg_lane = (\<lambda>ns f h. f h), cfg_ulid = (\<lambda>n. ''u'' @ nat_digits n), cfg_signer = None,
      cfg_ArtifactsRegistry = Some ex_registry, cfg_WorkerSelector = LeastLoadedSelector, cfg_StarvationTimeout = Minute,
      cfg_has_OnResourceShortage = False, cfg_ScaleUpCooldown = 0,
      cfg_DefaultRetryPolicy = \<lparr>MaxAttempts = 3, RetryDelay = Second, MaxRetryDelay = Minute\<rparr>,
      cfg_DefaultPanicExitCode = 2, cfg_DoNotRetryFrom = 64, cfg_DoNotRetryTo = 64\<rparr>"

definition ex_task :: Task where
  "ex_task = \<lparr>tName = ''t'', tLimitations = \<lparr>MaxExecutionTime = 0, MaxMemoryBytes = 0, MaxCPUCores = 0\<rparr>,
     tRetryPolicy = \<lparr>MaxAttempts = 0, RetryDelay = 0, MaxRetryDelay = 0\<rparr>, tNoResult = False, tCost = 1\<rparr>"

definition ex_job :: Job where
  "ex_job = Job_zero\<lparr>jID := ''j'', jTaskName := ''t'', jCost := 1, jCreatedAt := 1\<rparr>"

definition ex_worker :: "string list WorkerConn" where
  "ex_worker = NewWorkerConn list_set ''w'' ''linux'' ''arm64'' 2 \<lparr>nc_open = True, nc_out = []\<rparr> 1"

definition ex_pool :: "string list WorkerPool" where
  "ex_pool = (NewWorkerPool \<lparr>sig_waiting = True, sig_woken = False\<rparr>)\<lparr>p_workers := [(''w'', 0)],
     p_platform := [(''linux/arm64'', [0])], p_conns := [ex_worker]\<rparr>"

definition ex_manager :: "string list Manager" where
  "ex_manager = (NewManager ex_cfg (SaveJob (SaveTask NewMemStore ex_task) ex_job))
     \<lparr>m_workers := ex_pool, m_queue := snd (PushItem (NewPriorityQueue higherJob) ex_job)\<rparr>"

lemma ex_cfg_ok [simp]:
  "SimpleSet_ok (cfg_sets ex_cfg) set" "lane_runs (cfg_lane ex_cfg)" "worker_selector (cfg_WorkerSelector ex_cfg)"
  using list_set_ok least_loaded.worker_selector_axioms by (simp_all add: ex_cfg_def lane_runs_def)

lemma ex_queue: "pq_inv higherJob (m_queue ex_manager)" "pq_Values (m_queue ex_manager) = [ex_job]"
proof -
  show "pq_inv higherJob (m_queue ex_manager)"
    using job_order.heap.push_ok [OF pq_inv_New] by (simp add: ex_manager_def)
  have "pq_mset (m_queue ex_manager) = {#ex_job#}"
    using job_order.heap.push_contents [OF pq_inv_New] by (simp add: ex_manager_def)
  then show "pq_Values (m_queue ex_manager) = [ex_job]" by simp
qed

lemma ex_pool_connect:
  "NewWorkerConnection list_set [] (NewWorkerPool \<lparr>sig_waiting = True, sig_woken = False\<rparr>) ''w'' ''linux'' ''arm64'' 2
     \<lparr>nc_open = True, nc_out = []\<rparr> 1 = Inr ((0, []), ex_pool)"
  by (simp add: NewWorkerConnection_def NewWorkerPool_def register_def ex_pool_def ex_worker_def NewWorkerConn_def
      slice_at_def conn_key_def platformKey_def Let_def)

lemma ex_pool_wf: "pool_wf ex_pool"
proof -
  have "pool_ok (NewWorkerPool \<lparr>sig_waiting = True, sig_woken = False\<rparr> :: string list WorkerPool)"
    unfolding pool_ok_def by (simp add: NewWorkerPool_def [of "_ :: Signal"] pool_wf_New [unfolded NewWorkerPool_def])
  from NewWorkerConnection_ok [OF this _ ex_pool_connect] show ?thesis by (simp add: pool_ok_def max_int64_def)
qed

theorem ProcessQueue_accounts_witness:
  "let m' = ProcessQueue ex_cfg ex_manager 2
   in ''j'' \<in> set (queue_ids m') \<or> failed m' ''j'' \<or> proposed set m' ''j''"
proof -
  have ids: "queue_ids ex_manager = [''j'']" by (simp add: queue_ids_def ex_queue ex_job_def)
  have wf: "pool_wf (m_workers ex_manager)" using ex_pool_wf by (simp add: ex_manager_def)
  have st: "\<forall>i \<in> set (queue_ids ex_manager). stored ex_manager i \<noteq> None"
    unfolding ids by (simp add: ex_manager_def NewManager_def SaveJob_def SaveTask_def NewMemStore_def ex_job_def)
  have c: "cancelled set ex_manager = {}" by (simp add: ex_manager_def NewManager_def ex_cfg_def list_set_def)
  from ProcessQueue_accounts [OF ex_cfg_ok ex_queue(1) wf _ st, of 2] show ?thesis
    by (simp add: ids c Let_def)
qed



text \<open>
  A job of cost zero is offered to workers that have no capacity left, because eligibility
  ignores the capacity at cost zero while assigning a job requires some. The proposal is sent and the
  job stored as proposing, then the assignment fails: the job is deferred, hence queued again and
  proposed once more in the next pass, and no worker tracks it.
\<close>

lemma zero_cost_proposed_and_deferred:
  assumes "lane_runs (cfg_lane cfg)" and "worker_selector (cfg_WorkerSelector cfg)" and "pool_wf (m_workers m)"
    and "jobPlatformKeysForDispatch cfg m job online caches = ((keys, None), caches')"
    and "GetTask (m_store m) (jTaskName job) = Inr t"
    and "jCost job = 0" and "stored m (jID job) \<noteq> None"
    and "eligibleWorkers (m_workers m) keys 0 (jID job) now = (ws, h)" and "ws \<noteq> []"
    and "\<forall>a \<in> set ws. AvailableCapacity (p_conns h ! a) \<le> 0 \<and> nc_open (w_conn (p_conns h ! a)) \<and>
           resolve_artifact cfg job t (w_os (p_conns h ! a)) (w_arch (p_conns h ! a)) = Inr art"
  shows "\<exists>a \<in> set ws. \<exists>m' line. dispatch_one cfg m job online caches now = (DeferredJob False, caches', m') \<and>
           map_option jStatus (stored m' (jID job)) = Some JobStatusProposing \<and>
           line = FormulateProposeV0Message job t art \<and>
           nc_out (w_conn (p_conns (m_workers m') ! a)) = nc_out (w_conn (p_conns (m_workers m) ! a)) @ [line @ newline] \<and>
           (\<forall>b. w_inFlight (p_conns (m_workers m') ! b) = w_inFlight (p_conns (m_workers m) ! b))"
proof -
  obtain a c where a: "cfg_WorkerSelector cfg (m_selector m) h ws = Some (a, c)" "a \<in> set ws"
    using worker_selector.picks [OF assms(2,9)] by blast
  let ?w = "p_conns h ! a"
  let ?line = "FormulateProposeV0Message job t art"
  have av: "AvailableCapacity ?w \<le> 0" and op: "nc_open (w_conn ?w)"
    and art: "resolve_artifact cfg job t (w_os ?w) (w_arch ?w) = Inr art" using assms(10) a(2) by auto
  have keys: "\<not> (cfg_ArtifactsRegistry cfg \<noteq> None \<and> keys = [])"
    using assms(4) by (cases caches) (auto simp: jobPlatformKeysForDispatch_def Let_def split: if_splits option.splits sum.splits prod.splits)
  note sim = eligibleWorkers_sim [OF assms(3,8)]
  have len: "a < length (p_conns h)" using sim(2) a(2) .
  have same: "w_conn ?w = w_conn (p_conns (m_workers m) ! a)"
    using sim(1) unfolding pool_sim_def by (metis WorkerConn.ext_inject WorkerConn.surjective WorkerConn.update_convs(15))
  have infl: "w_inFlight (p_conns h ! b) = w_inFlight (p_conns (m_workers m) ! b)" for b
    using pool_sim_inFlight(1) [OF sim(1)] .
  define w' where "w' = ?w\<lparr>w_conn := (w_conn ?w)\<lparr>nc_out := nc_out (w_conn ?w) @ [?line @ newline]\<rparr>\<rparr>"
  define m1 where "m1 = m\<lparr>m_workers := upd_conn h a w', m_selector := c\<rparr>"
  obtain j where j: "stored m (jID job) = Some j" using assms(7) by blast
  define m2 where "m2 = m1\<lparr>m_store := (m_store m)\<lparr>ms_jobs := AList.update (jID job) (j\<lparr>jStatus := JobStatusProposing\<rparr>) (ms_jobs (m_store m))\<rparr>\<rparr>"
  have send: "send_to (m\<lparr>m_workers := h, m_selector := c\<rparr>) a ?line = Inr m1"
    using op by (simp add: send_to_def Send_def conn_Write_def m1_def w'_def)
  have "AvailableCapacity w' \<le> 0" using av by (simp add: w'_def AvailableCapacity_def)
  then have sub: "subtractCapacity (cfg_sets cfg) (cfg_lane cfg) (upd_conn h a w') a (jID job) 0 now = Inl (Sentinel ''worker at capacity'')"
    using assms(1) len by (simp add: subtractCapacity_def lane_runs_def AssignTask_def AvailableCapacity_def upd_conn_def)
  have pr: "propose_to cfg (m\<lparr>m_workers := h, m_selector := c\<rparr>) job t a now = (Some (Sentinel ''worker at capacity''), m2)"
    using send sub j art assms(6) by (simp add: propose_to_def UpdateJob_def m1_def m2_def)
  have "tryProposeJob cfg m job keys now = (Some (Sentinel ''worker at capacity''), m2)"
    using pr a(1) assms(5,6,8,9) keys by (auto simp: tryProposeJob_def)
  then have "dispatch_one cfg m job online caches now = (DeferredJob False, caches', m2)"
    using assms(4) by (simp add: dispatch_one_def ErrUnknownTask_def ErrNoEledgibleWorkers_def)
  moreover have "w_inFlight (p_conns (m_workers m2) ! b) = w_inFlight (p_conns (m_workers m) ! b)" for b
    using infl [of b] infl [of a] by (cases "b = a") (simp_all add: m2_def m1_def upd_conn_def w'_def len)
  moreover have "nc_out (w_conn (p_conns (m_workers m2) ! a)) = nc_out (w_conn (p_conns (m_workers m) ! a)) @ [?line @ newline]"
    using len same by (simp add: m2_def m1_def upd_conn_def w'_def)
  ultimately show ?thesis using a(2) by (intro bexI [of _ a] exI [of _ m2] exI [of _ ?line]) (simp_all add: m2_def)
qed

end
