(* ===== verification/Conn_Handler.thy ===== *)
theory Conn_Handler
  imports Dispatcher
begin

text \<open>
  The messages of workers (\<^verbatim>\<open>manager/worker_conn_handler.go\<close>). A handler takes the manager and the address
  of the connection and returns the manager, or the panic or deadlock that ends it; errors the code only
  logs leave the state as it is. Handlers are atomic: each message is handled in its own goroutine, so
  any order of the handlers can occur, but their interleaving is not modelled.
\<close>

section \<open>Helpers\<close>

definition mergeRetryPolicy :: "RetryPolicy \<Rightarrow> RetryPolicy \<Rightarrow> RetryPolicy" where
  "mergeRetryPolicy task defaults =
     (let out1 = (if MaxAttempts task = 0 then task\<lparr>MaxAttempts := MaxAttempts defaults\<rparr> else task);
          out2 = (if RetryDelay out1 = 0 then out1\<lparr>RetryDelay := RetryDelay defaults\<rparr> else out1)
      in if MaxRetryDelay out2 = 0 then out2\<lparr>MaxRetryDelay := MaxRetryDelay defaults\<rparr> else out2)"

text \<open>The doubling loop runs \<open>attempt - 1\<close> times on a 64-bit duration.\<close>

fun double_times :: "nat \<Rightarrow> duration \<Rightarrow> duration" where
  "double_times 0 d = d"
| "double_times (Suc n) d = double_times n (wrap64 (d * 2))"

definition retryDelay :: "RetryPolicy \<Rightarrow> int \<Rightarrow> duration" where
  "retryDelay p attempt =
     (if RetryDelay p = 0 then 0
      else let delay = double_times (nat (attempt - 1)) (RetryDelay p)
           in if 0 < MaxRetryDelay p \<and> MaxRetryDelay p < delay then MaxRetryDelay p else delay)"

definition resolveRunID :: "'s Manager \<Rightarrow> string \<Rightarrow> string \<Rightarrow> string" where
  "resolveRunID m jobID msgRunID =
     (if msgRunID \<noteq> [] then msgRunID
      else case map_of (m_activeRunIDs m) jobID of None \<Rightarrow> [] | Some i \<Rightarrow> i)"

definition resolveDispatchPayload :: "'s Manager \<Rightarrow> Job \<Rightarrow> JsonOrBytes" where
  "resolveDispatchPayload m job =
     (if jPhase job \<noteq> JobPhaseConsolidate then jPayload job
      else buildConsolidatePayload job (ListChildJobs (m_store m) (jID job)))"

text \<open>Store operations whose only failure is a panic.\<close>

definition with_store :: "'s Manager \<Rightarrow> MemStore res \<Rightarrow> 's Manager res" where
  "with_store m r = (case r of Inl e \<Rightarrow> Inl e | Inr st \<Rightarrow> Inr (m\<lparr>m_store := st\<rparr>))"

definition closeRun ::
  "'s Manager \<Rightarrow> string \<Rightarrow> string \<Rightarrow> RunStatus \<Rightarrow> ResultType \<Rightarrow> JsonOrBytes \<Rightarrow> string \<Rightarrow> int \<Rightarrow> time \<Rightarrow> 's Manager res" where
  "closeRun m runID jobID status resultType outputPayload reason exitCode now =
     (if runID = [] then Inr m
      else let m1 = m\<lparr>m_activeRunIDs := AList.delete jobID (m_activeRunIDs m)\<rparr>
           in and_then
                (if status = RunStatusFailed \<and> reason \<noteq> []
                 then with_store m1 (AppendRunLog (m_store m1) runID (''[workforce] run failed: '' @ reason)) else Inr m1)
                (\<lambda>m2. let m3 = upd_run m2 runID
                            (\<lambda>r. r\<lparr>rStatus := status, rResultType := resultType, rOutputPayload := outputPayload,
                                   rFailureReason := reason, rExitCode := exitCode, rFinishedAt := now\<rparr>)
                       in with_store m3 (CloseRunLogSubscribers (m_store m3) runID)))"

definition send_error :: "'s Manager \<Rightarrow> nat \<Rightarrow> string \<Rightarrow> string \<Rightarrow> 's Manager" where
  "send_error m a code message =
     m\<lparr>m_workers := upd_conn (m_workers m) a (SendError (p_conns (m_workers m) ! a) code message)\<rparr>"

definition restore :: "'s Config \<Rightarrow> 's Manager \<Rightarrow> nat \<Rightarrow> Job \<Rightarrow> time \<Rightarrow> 's Manager res" where
  "restore cfg m a job now =
     (case restoreCapacity (cfg_sets cfg) (cfg_lane cfg) (m_workers m) a (jID job) (jCost job) now of
        Inl e \<Rightarrow> Inl e | Inr pool \<Rightarrow> Inr (m\<lparr>m_workers := pool\<rparr>))"

definition or_same :: "'s Manager \<Rightarrow> 's Manager res \<Rightarrow> 's Manager" where
  "or_same m r = (case r of Inl e \<Rightarrow> m | Inr m' \<Rightarrow> m')"

section \<open>Accepting and starting\<close>

definition handleAcceptMessage :: "'s Config \<Rightarrow> 's Manager \<Rightarrow> nat \<Rightarrow> string \<Rightarrow> time \<Rightarrow> 's Manager" where
  "handleAcceptMessage cfg m a jobID now =
     (case UpdateJob (m_store m) jobID (\<lambda>j. j\<lparr>jStatus := JobStatusAccepted, jUpdatedAt := now\<rparr>) of
        Inl e \<Rightarrow> m
      | Inr st \<Rightarrow>
          (let m1 = m\<lparr>m_store := st\<rparr>
           in case GetJob (m_store m1) jobID of
                Inl e \<Rightarrow> m1
              | Inr job \<Rightarrow>
                  (let payload = resolveDispatchPayload m1 job;
                       runID = cfg_ulid cfg (m_ulids m1);
                       w = p_conns (m_workers m1) ! a;
                       run = \<lparr>rID = runID, rJobID = jID job, rPhase = jPhase job, rAttempt = wrap64 (jAttempts job + 1),
                              rWorkerID = w_workerID w, rStatus = RunStatusProvisioning, rInputPayload = payload,
                              rOutputPayload = [], rFailureReason = [], rExitCode = 0, rResultType = ResultSuccess,
                              rStartedAt = 0, rFinishedAt = 0\<rparr>;
                       m2 = m1\<lparr>m_store := CreateRun (m_store m1) run, m_ulids := m_ulids m1 + 1,
                               m_activeRunIDs := AList.update (jID job) runID (m_activeRunIDs m1)\<rparr>
                   in case SendWithPayload w (FormulateDispatchV0Message job runID) payload of
                        Inl e \<Rightarrow> m2
                      | Inr w' \<Rightarrow> m2\<lparr>m_workers := upd_conn (m_workers m2) a w'\<rparr>)))"

definition handleStagedMessage :: "'s Manager \<Rightarrow> RunMessage \<Rightarrow> time \<Rightarrow> 's Manager" where
  "handleStagedMessage m msg now =
     upd_job m (rmJobID msg) (\<lambda>j. j\<lparr>jStatus := JobStatusProvisioning, jUpdatedAt := now\<rparr>)"

definition job_not_found :: "'s Manager \<Rightarrow> nat \<Rightarrow> string \<Rightarrow> 's Manager" where
  "job_not_found m a jobID = send_error m a ''invalid_argument'' (''job('' @ jobID @ '') not found'')"

definition handleRejectMessage :: "'s Config \<Rightarrow> 's Manager \<Rightarrow> nat \<Rightarrow> RejectMessage \<Rightarrow> time \<Rightarrow> 's Manager" where
  "handleRejectMessage cfg m a msg now =
     (case GetJob (m_store m) (rjJobID msg) of
        Inl e \<Rightarrow> job_not_found m a (rjJobID msg)
      | Inr job \<Rightarrow>
          (case UpdateJob (m_store m) (rjJobID msg) (\<lambda>j. j\<lparr>jStatus := JobStatusPending, jUpdatedAt := now\<rparr>) of
             Inl e \<Rightarrow> m
           | Inr st \<Rightarrow>
               (let m1 = m\<lparr>m_store := st\<rparr>; m2 = or_same m1 (restore cfg m1 a job now);
                    w = p_conns (m_workers m2) ! a;
                    m3 = m2\<lparr>m_workers := upd_conn (m_workers m2) a
                              (w\<lparr>w_rejectedJobsCache := cache_Put (w_rejectedJobsCache w) (jID job) () now\<rparr>)\<rparr>
                in EnqueueJob m3 (job\<lparr>jStatus := JobStatusPending\<rparr>))))"

definition handleStartingMessage :: "'s Config \<Rightarrow> 's Manager \<Rightarrow> nat \<Rightarrow> RunMessage \<Rightarrow> time \<Rightarrow> 's Manager" where
  "handleStartingMessage cfg m a msg now =
     (case GetJob (m_store m) (rmJobID msg) of
        Inl e \<Rightarrow> m
      | Inr job \<Rightarrow>
          (let m1 = upd_job m (jID job) (\<lambda>j. j\<lparr>jStatus := JobStatusRunning, jUpdatedAt := now\<rparr>);
               runID = resolveRunID m1 (rmJobID msg) (rmRunID msg);
               m2 = (if runID \<noteq> [] then upd_run m1 runID (\<lambda>r. r\<lparr>rStatus := RunStatusRunning, rStartedAt := now\<rparr>) else m1)
           in fire cfg m2 (\<lambda>u st. FireJobRunning u st job (w_workerID (p_conns (m_workers m) ! a)) now)))"

section \<open>Child jobs\<close>

text \<open>
  The parent is failed in the closure of \<^verbatim>\<open>UpdateJob\<close>, which runs under the lock of the store. The
  deferred webhook call takes the same lock when it has an entry to store.
\<close>

definition mark_failed :: "string \<Rightarrow> time \<Rightarrow> Job \<Rightarrow> Job" where
  "mark_failed reason now j =
     j\<lparr>jStatus := JobStatusFailed, jFailureReason := reason, jUpdatedAt := now, jCompletedAt := Some now,
       jDuration := Some (now - jCreatedAt j)\<rparr>"

definition join_errors :: "error option \<Rightarrow> error option \<Rightarrow> error option" where
  "join_errors e e' =
     (case (e, e') of
        (None, _) \<Rightarrow> e'
      | (Some x, None) \<Rightarrow> Some x
      | (Some x, Some y) \<Rightarrow> Some (Errorf (error_text x @ newline @ error_text y)))"

definition fail_parent ::
  "'s Manager \<Rightarrow> string \<Rightarrow> error option \<Rightarrow> string \<Rightarrow> time \<Rightarrow> (error option \<times> 's Manager) res" where
  "fail_parent m parentID err reason now =
     (case map_of (ms_jobs (m_store m)) parentID of
        None \<Rightarrow> Inr (join_errors err (Some (NotFound ''job'' parentID)), m)
      | Some j \<Rightarrow>
          (if ShouldDispatchEvent j ''job.failed'' then Inl (Deadlock ''EnqueueWebhook inside UpdateJob'')
           else Inr (join_errors err None, upd_job m parentID (mark_failed reason now))))"

text \<open>The version a child is pinned to, or the failure of the parent.\<close>

definition child_version ::
  "'s Config \<Rightarrow> ChildJobRequest \<Rightarrow> Task \<Rightarrow> (error option \<times> string) + string" where
  "child_version cfg req taskDef =
     (case cfg_ArtifactsRegistry cfg of
        None \<Rightarrow> Inr []
      | Some reg \<Rightarrow>
          (if crVersion req \<noteq> []
           then (case reg_ListPlatforms reg (tName taskDef) (crVersion req) of
                   Inl e \<Rightarrow> Inl (Some e, ''child artifact '' @ crTask req @ ''@'' @ crVersion req @ '' not found'')
                 | Inr [] \<Rightarrow> Inl (None, ''child artifact '' @ crTask req @ ''@'' @ crVersion req @ '' not found'')
                 | Inr (p # ps) \<Rightarrow> Inr (crVersion req))
           else (case reg_ListPlatforms reg (tName taskDef) [] of
                   Inl e \<Rightarrow> Inl (Some e, ''no released artifact for '' @ tName taskDef)
                 | Inr [] \<Rightarrow> Inl (None, ''no released artifact for '' @ tName taskDef)
                 | Inr (p # ps) \<Rightarrow> Inr (apVersion p))))"

definition child_job :: "Job \<Rightarrow> ChildJobRequest \<Rightarrow> Task \<Rightarrow> string \<Rightarrow> string \<Rightarrow> nat \<Rightarrow> time \<Rightarrow> Job" where
  "child_job parent req taskDef version ident i now =
     Job_zero\<lparr>jID := ident, jParentJobID := jID parent, jTaskName := tName taskDef, jArtifactVersion := version,
              jStatus := JobStatusPending, jPhase := JobPhaseRun, jPriority := crPriority req, jCost := tCost taskDef,
              jPayload := crPayload req, jCreatedAt := now + int i, jUpdatedAt := now\<rparr>"

text \<open>The loop over the requests: the children made so far, or the early return.\<close>

fun emit_children ::
  "'s Config \<Rightarrow> 's Manager \<Rightarrow> Job \<Rightarrow> time \<Rightarrow> nat \<Rightarrow> ChildJobRequest list \<Rightarrow> Job list
     \<Rightarrow> ((error option \<times> 's Manager) res) + (Job list \<times> 's Manager)" where
  "emit_children cfg m parent now i [] children = Inr (children, m)"
| "emit_children cfg m parent now i (req # reqs) children =
     (case GetTask (m_store m) (crTask req) of
        Inl e \<Rightarrow> Inl (fail_parent m (jID parent) (Some e) (''child job targets unknown task: '' @ crTask req) now)
      | Inr taskDef \<Rightarrow>
          (case child_version cfg req taskDef of
             Inl (e, reason) \<Rightarrow> Inl (fail_parent m (jID parent) e reason now)
           | Inr version \<Rightarrow>
               (let child = child_job parent req taskDef version (cfg_ulid cfg (m_ulids m)) i now;
                    m1 = m\<lparr>m_store := SaveJob (m_store m) child, m_ulids := m_ulids m + 1\<rparr>
                in emit_children cfg m1 parent now (Suc i) reqs (children @ [child]))))"

definition handleSubjobsEmitted ::
  "'s Config \<Rightarrow> 's Manager \<Rightarrow> Job \<Rightarrow> ChildJobRequest list \<Rightarrow> time \<Rightarrow> (error option \<times> 's Manager) res" where
  "handleSubjobsEmitted cfg m parent childJobs now =
     (if IsTerminal (jStatus parent) then Inr (None, m)
      else case emit_children cfg m parent now 0 childJobs [] of
             Inl r \<Rightarrow> r
           | Inr (children, m1) \<Rightarrow>
               (case UpdateJob (m_store m1) (jID parent)
                       (\<lambda>j. j\<lparr>jStatus := JobStatusAwaitingChildren, jUpdatedAt := now\<rparr>) of
                  Inl e \<Rightarrow> Inr (None, m1)
                | Inr st \<Rightarrow> Inr (None, EnqueueJobs (m1\<lparr>m_store := st\<rparr>) children)))"

section \<open>Results\<close>

definition schedule_consolidation :: "'s Manager \<Rightarrow> Job \<Rightarrow> time \<Rightarrow> 's Manager" where
  "schedule_consolidation m job now =
     (if jParentJobID job = [] then m
      else if \<not> list_all (\<lambda>s. IsTerminal (jStatus s) \<and> jStatus s = JobStatusCompleted) (ListChildJobs (m_store m) (jParentJobID job))
           then m
      else case GetJob (m_store m) (jParentJobID job) of
             Inl e \<Rightarrow> m
           | Inr parent \<Rightarrow>
               (case UpdateJob (m_store m) (jID parent)
                       (\<lambda>j. if jStatus j \<noteq> JobStatusAwaitingChildren then j
                             else j\<lparr>jStatus := JobStatusPending, jPhase := JobPhaseConsolidate, jUpdatedAt := now\<rparr>) of
                  Inl e \<Rightarrow> m
                | Inr st \<Rightarrow>
                    (let scheduled = (map_option jStatus (map_of (ms_jobs (m_store m)) (jID parent)) = Some JobStatusAwaitingChildren);
                         m1 = m\<lparr>m_store := st\<rparr>
                     in if \<not> scheduled then m1
                        else EnqueueJob m1 (parent\<lparr>jStatus := JobStatusPending, jPhase := JobPhaseConsolidate\<rparr>))))"

definition completed_job :: "ResultMessage \<Rightarrow> time \<Rightarrow> Job \<Rightarrow> Job" where
  "completed_job msg now j =
     j\<lparr>jStatus := JobStatusCompleted, jResult := resPayload msg, jUpdatedAt := now, jCompletedAt := Some now,
       jDuration := Some (now - jCreatedAt j)\<rparr>"

definition handleJobCompleted ::
  "'s Config \<Rightarrow> 's Manager \<Rightarrow> nat \<Rightarrow> Job \<Rightarrow> ResultMessage \<Rightarrow> time \<Rightarrow> 's Manager res" where
  "handleJobCompleted cfg m a job msg now =
     (if IsTerminal (jStatus job) then Inr m
      else and_then (with_store m (CloseJobLogSubscribers (m_store m) (jID job))) (\<lambda>m1.
           case UpdateJob (m_store m1) (resJobID msg) (completed_job msg now) of
             Inl e \<Rightarrow> Inr m1
           | Inr st \<Rightarrow>
               (let m2 = m1\<lparr>m_store := st\<rparr>; runID = resolveRunID m2 (resJobID msg) (resRunID msg)
                in and_then (closeRun m2 runID (resJobID msg) RunStatusCompleted (resType msg) (resPayload msg) [] 0 now) (\<lambda>m3.
                   case restore cfg m3 a job now of
                     Inl e \<Rightarrow> Inr m3
                   | Inr m4 \<Rightarrow>
                       (let done_job = job\<lparr>jStatus := JobStatusCompleted\<rparr>;
                            m5 = fire cfg m4 (\<lambda>u st. FireJobCompleted u st done_job now)
                        in Inr (schedule_consolidation m5 done_job now))))))"

definition handleFailJob :: "'s Config \<Rightarrow> 's Manager \<Rightarrow> Job \<Rightarrow> ResultMessage \<Rightarrow> time \<Rightarrow> 's Manager res" where
  "handleFailJob cfg m job msg now =
     (let m1 = upd_job m (jID job)
                 (\<lambda>j. j\<lparr>jStatus := JobStatusFailed, jUpdatedAt := now, jCompletedAt := Some now,
                        jDuration := Some (now - jCreatedAt j)\<rparr>);
          failed_job = job\<lparr>jStatus := JobStatusFailed\<rparr>;
          m2 = fire cfg m1 (\<lambda>u st. FireJobFailed u st failed_job (resReason msg) now)
      in and_then (with_store m2 (CloseJobLogSubscribers (m_store m2) (jID job))) (\<lambda>m3.
         if jParentJobID job = [] then Inr m3
         else case GetJob (m_store m3) (jParentJobID job) of
                Inl e \<Rightarrow> Inr m3
              | Inr parent \<Rightarrow>
                  and_then (with_store m3 (CloseJobLogSubscribers (m_store m3) (jID parent))) (\<lambda>m4.
                  case UpdateJob (m_store m4) (jID parent) (mark_failed (resReason msg) now) of
                    Inl e \<Rightarrow> Inr m4
                  | Inr st \<Rightarrow>
                      Inr (fire cfg (m4\<lparr>m_store := st\<rparr>) (\<lambda>u st. FireJobFailed u st failed_job (resReason msg) now)))))"

definition effective_policy :: "'s Config \<Rightarrow> 's Manager \<Rightarrow> Job \<Rightarrow> RetryPolicy" where
  "effective_policy cfg m job =
     (case GetTask (m_store m) (jTaskName job) of
        Inl e \<Rightarrow> cfg_DefaultRetryPolicy cfg
      | Inr taskDef \<Rightarrow> mergeRetryPolicy (tRetryPolicy taskDef) (cfg_DefaultRetryPolicy cfg))"

definition handleJobError ::
  "'s Config \<Rightarrow> 's Manager \<Rightarrow> nat \<Rightarrow> Job \<Rightarrow> ResultMessage \<Rightarrow> time \<Rightarrow> 's Manager res" where
  "handleJobError cfg m a job msg now =
     (let runID = resolveRunID m (resJobID msg) (resRunID msg)
      in if IsTerminal (jStatus job)
         then (if jStatus job = JobStatusCancelled
               then closeRun m runID (resJobID msg) RunStatusFailed ResultError ''cancelled'' ''cancelled'' 0 now
               else Inr m)
         else let m1 = or_same m (restore cfg m a job now)
              in and_then (closeRun m1 runID (resJobID msg) RunStatusFailed (resType msg) (resReason msg) (resReason msg)
                             (resExitCode msg) now) (\<lambda>m2.
                 let attempts = wrap64 (jAttempts job + 1);
                     job' = job\<lparr>jAttempts := attempts\<rparr>;
                     m3 = upd_job m2 (jID job)
                            (\<lambda>j. j\<lparr>jAttempts := attempts, jFailureReason := resReason msg, jUpdatedAt := now\<rparr>)
                 in if resExitCode msg = cfg_DefaultPanicExitCode cfg then handleFailJob cfg m3 job' msg now
                    else if cfg_DoNotRetryFrom cfg \<le> resExitCode msg \<and> resExitCode msg \<le> cfg_DoNotRetryTo cfg
                         then handleFailJob cfg m3 job' msg now
                    else let effective = effective_policy cfg m3 job
                         in if attempts < MaxAttempts effective
                            then Inr (m3\<lparr>m_retries := m_retries m3 @ [(retryDelay effective attempts, jID job)]\<rparr>)
                            else handleFailJob cfg m3 job' msg now))"

text \<open>The function a retry timer runs.\<close>

definition retry_fires :: "'s Manager \<Rightarrow> string \<Rightarrow> time \<Rightarrow> 's Manager" where
  "retry_fires m jobID now =
     (case GetJob (m_store m) jobID of
        Inl e \<Rightarrow> m
      | Inr j \<Rightarrow>
          (if IsTerminal (jStatus j) then m
           else EnqueueJob (upd_job m jobID (\<lambda>jk. jk\<lparr>jStatus := JobStatusPending, jUpdatedAt := now\<rparr>))
                  (j\<lparr>jStatus := JobStatusPending\<rparr>)))"

definition handleResultMessage :: "'s Config \<Rightarrow> 's Manager \<Rightarrow> nat \<Rightarrow> ResultMessage \<Rightarrow> time \<Rightarrow> 's Manager res" where
  "handleResultMessage cfg m a msg now =
     (case GetJob (m_store m) (resJobID msg) of
        Inl e \<Rightarrow> Inr (job_not_found m a (resJobID msg))
      | Inr job \<Rightarrow>
          (case resType msg of
             ResultError \<Rightarrow> handleJobError cfg m a job msg now
           | ResultSubjobs \<Rightarrow>
               (let runID = resolveRunID m (resJobID msg) (resRunID msg)
                in and_then (handleSubjobsEmitted cfg m job (resJobs msg) now) (\<lambda>(subjobErr, m1).
                   let m2 = or_same m1 (restore cfg m1 a job now)
                   in case subjobErr of
                        Some e \<Rightarrow> Inr (send_error m2 a [] (error_text e))
                      | None \<Rightarrow> closeRun m2 runID (resJobID msg) RunStatusCompleted (resType msg) (resPayload msg) [] 0 now))
           | ResultSuccess \<Rightarrow> handleJobCompleted cfg m a job msg now))"

definition handleLogMessage :: "'s Manager \<Rightarrow> LogMessage \<Rightarrow> 's Manager res" where
  "handleLogMessage m msg =
     (let runID = resolveRunID m (lmJobID msg) (lmRunID msg)
      in if runID = [] then Inr m else with_store m (AppendRunLog (m_store m) runID (lmLine msg)))"

section \<open>One message\<close>

definition message_type :: "Message \<Rightarrow> string" where
  "message_type msg =
     (case msg of Propose p \<Rightarrow> ''*contract.ProposeMessage'' | Dispatch d \<Rightarrow> ''*contract.DispatchMessage''
      | System c \<Rightarrow> ''*contract.SystemMessage'' | Cancel i \<Rightarrow> ''*contract.CancelMessage'' | _ \<Rightarrow> [])"

definition handleWorkerMessage :: "'s Config \<Rightarrow> 's Manager \<Rightarrow> nat \<Rightarrow> Message \<Rightarrow> time \<Rightarrow> 's Manager res" where
  "handleWorkerMessage cfg m a msg now =
     (case msg of
        Heartbeat h \<Rightarrow>
          (let w = p_conns (m_workers m) ! a;
               w1 = UpdateHeartbeat ((SetState w (hbState h))\<lparr>w_cpuPercent := hbCPUPercent h, w_memPercent := hbMemoryPercent h\<rparr>) now;
               w2 = (case Send w1 ''heartbeat'' of Inl e \<Rightarrow> w1 | Inr w' \<Rightarrow> w')
           in Inr (m\<lparr>m_workers := upd_conn (m_workers m) a w2\<rparr>))
      | Result r \<Rightarrow> handleResultMessage cfg m a r now
      | Accept i \<Rightarrow> Inr (handleAcceptMessage cfg m a i now)
      | Reject r \<Rightarrow> Inr (handleRejectMessage cfg m a r now)
      | Log l \<Rightarrow> handleLogMessage m l
      | Staged r \<Rightarrow> Inr (handleStagedMessage m r now)
      | Starting r \<Rightarrow> Inr (handleStartingMessage cfg m a r now)
      | Capacity n \<Rightarrow>
          Inr (m\<lparr>m_workers := upd_conn (m_workers m) a (OverrideCapacity (p_conns (m_workers m) ! a) n)\<rparr>)
      | _ \<Rightarrow> Inr (send_error m a ''unhandled_message'' (''message of type '' @ message_type msg @ '' is not handled'')))"

text \<open>
  One frame of a connection. Finding the factory of a verb is the work of the module \<^verbatim>\<open>verreg\<close>: the
  argument \<open>resolve\<close>.
\<close>

definition serve_frame ::
  "(string \<Rightarrow> (netargv_Message \<Rightarrow> Message res) res) \<Rightarrow> 's Config \<Rightarrow> 's Manager \<Rightarrow> nat \<Rightarrow> netargv_Message \<Rightarrow> time \<Rightarrow> 's Manager res" where
  "serve_frame resolve cfg m a frame now =
     (case resolve (nm_Verb frame) of
        Inl e \<Rightarrow> Inr (send_error m a ''unknown_verb'' (''unknown message verb: '' @ nm_Verb frame))
      | Inr factory \<Rightarrow>
          (case factory frame of
             Inl e \<Rightarrow> Inr (send_error m a ''invalid_message'' (error_text e))
           | Inr msg \<Rightarrow> handleWorkerMessage cfg m a msg now))"

text \<open>The beginning and the end of a connection; the pool hands the jobs of a lost one to the manager.\<close>

definition connect_worker ::
  "'s Config \<Rightarrow> 's Manager \<Rightarrow> string \<Rightarrow> string \<Rightarrow> string \<Rightarrow> int \<Rightarrow> net_conn \<Rightarrow> time \<Rightarrow> (nat \<times> 's Manager) res" where
  "connect_worker cfg m i os arch capacity conn now =
     (case NewWorkerConnection (cfg_sets cfg) (cfg_ulid cfg (m_ulids m)) (m_workers m) i os arch capacity conn now of
        Inl e \<Rightarrow> Inl e
      | Inr ((a, ids), pool) \<Rightarrow>
          Inr (a, NotifyDispatcher (OnJobsRequeued (m\<lparr>m_workers := pool, m_ulids := m_ulids m + 1\<rparr>) ids now)))"

definition disconnect_worker :: "'s Config \<Rightarrow> 's Manager \<Rightarrow> nat \<Rightarrow> time \<Rightarrow> 's Manager" where
  "disconnect_worker cfg m a now =
     (let (ids, pool) = unregister (cfg_sets cfg) (m_workers m) a
      in OnJobsRequeued (m\<lparr>m_workers := pool\<rparr>) ids now)"

end
