(* ===== verification/Job_Lifecycle.thy ===== *)
theory Job_Lifecycle
  imports Conn_Handler
begin

text \<open>
  What the handlers of worker messages do to a job: late results, lost connections, consolidation,
  retries, child jobs and the webhooks they fire.
\<close>

section \<open>Frames\<close>

text \<open>
  \<open>same_jobs\<close>: only runs, logs and connections may differ. The handlers end with steps of this kind.
\<close>

definition same_jobs :: "'s Manager \<Rightarrow> 's Manager \<Rightarrow> bool" where
  "same_jobs m m' \<longleftrightarrow>
     ms_jobs (m_store m') = ms_jobs (m_store m) \<and> ms_taskDefs (m_store m') = ms_taskDefs (m_store m) \<and>
     ms_webhooks (m_store m') = ms_webhooks (m_store m) \<and> m_queue m' = m_queue m \<and>
     m_cancelledJobIDs m' = m_cancelledJobIDs m \<and> m_retries m' = m_retries m \<and> m_ulids m' = m_ulids m"

lemma same_jobs_refl [simp]: "same_jobs m m"
  by (simp add: same_jobs_def)

lemma same_jobs_trans [trans]: "same_jobs m m1 \<Longrightarrow> same_jobs m1 m2 \<Longrightarrow> same_jobs m m2"
  by (simp add: same_jobs_def)

named_theorems frame

lemma and_thenE: "and_then r f = Inr y \<Longrightarrow> (\<And>x. r = Inr x \<Longrightarrow> f x = Inr y \<Longrightarrow> P) \<Longrightarrow> P"
  by (auto simp: and_then_Inr_iff)

lemma upd_run_same [frame]: "same_jobs m (upd_run m i f)" "m_workers (upd_run m i f) = m_workers m"
  by (auto simp: upd_run_def UpdateRun_def same_jobs_def split: option.splits)

lemma store_frames:
  "AppendRunLog st r l = Inr st' \<Longrightarrow> ms_jobs st' = ms_jobs st \<and> ms_taskDefs st' = ms_taskDefs st \<and> ms_webhooks st' = ms_webhooks st"
  "CloseRunLogSubscribers st r = Inr st' \<Longrightarrow> ms_jobs st' = ms_jobs st \<and> ms_taskDefs st' = ms_taskDefs st \<and> ms_webhooks st' = ms_webhooks st"
  "CloseJobLogSubscribers st r = Inr st' \<Longrightarrow> ms_jobs st' = ms_jobs st \<and> ms_taskDefs st' = ms_taskDefs st \<and> ms_webhooks st' = ms_webhooks st"
  by (auto simp: AppendRunLog_def CloseRunLogSubscribers_def CloseJobLogSubscribers_def Let_def split: sum.splits)

lemma with_store_same [frame]:
  "with_store m (AppendRunLog (m_store m) r l) = Inr m' \<Longrightarrow> same_jobs m m' \<and> m_workers m' = m_workers m"
  "with_store m (CloseRunLogSubscribers (m_store m) r) = Inr m' \<Longrightarrow> same_jobs m m' \<and> m_workers m' = m_workers m"
  "with_store m (CloseJobLogSubscribers (m_store m) r) = Inr m' \<Longrightarrow> same_jobs m m' \<and> m_workers m' = m_workers m"
  by (auto simp: with_store_def same_jobs_def dest: store_frames split: sum.splits)

lemma closeRun_same [frame]:
  assumes "closeRun m r j s t out reason ec now = Inr m'"
  shows "same_jobs m m' \<and> m_workers m' = m_workers m"
proof (cases "r = []")
  case True
  then show ?thesis using assms by (simp add: closeRun_def)
next
  case False
  define m1 where "m1 = m\<lparr>m_activeRunIDs := AList.delete j (m_activeRunIDs m)\<rparr>"
  define f where "f = (\<lambda>run :: JobRun. run\<lparr>rStatus := s, rResultType := t, rOutputPayload := out, rFailureReason := reason,
     rExitCode := ec, rFinishedAt := now\<rparr>)"
  from assms False obtain m2 where m2: "(if s = RunStatusFailed \<and> reason \<noteq> []
        then with_store m1 (AppendRunLog (m_store m1) r (''[workforce] run failed: '' @ reason)) else Inr m1) = Inr m2"
      "with_store (upd_run m2 r f) (CloseRunLogSubscribers (m_store (upd_run m2 r f)) r) = Inr m'"
    by (auto simp: closeRun_def Let_def and_then_Inr_iff m1_def [symmetric] f_def [symmetric])
  have "same_jobs m m1 \<and> m_workers m1 = m_workers m" by (simp add: m1_def same_jobs_def)
  moreover have "same_jobs m1 m2 \<and> m_workers m2 = m_workers m1"
    using m2(1) with_store_same(1) [of m1] by (auto split: if_splits)
  moreover note upd_run_same [of m2 r f] with_store_same(2) [OF m2(2)]
  ultimately show ?thesis by (metis same_jobs_trans)
qed

lemma restore_same [frame]:
  "restore cfg m a job now = Inr m' \<Longrightarrow> lane_runs (cfg_lane cfg) \<Longrightarrow> same_jobs m m'"
  by (auto simp: restore_def same_jobs_def split: sum.splits)

lemma or_same_restore [frame]: "same_jobs m (or_same m (restore cfg m a job now))"
  by (auto simp: or_same_def restore_def same_jobs_def split: sum.splits)

lemma send_error_same [frame]: "same_jobs m (send_error m a c t)"
  by (simp add: send_error_def same_jobs_def)

section \<open>Late results\<close>

lemma late_result_same:
  assumes "GetJob (m_store m) (resJobID msg) = Inr job" and "IsTerminal (jStatus job)"
    and "handleResultMessage cfg m a msg now = Inr m'"
  shows "same_jobs m m'" "resType msg \<noteq> ResultSubjobs \<Longrightarrow> m_workers m' = m_workers m"
proof -
  have "same_jobs m m' \<and> (resType msg \<noteq> ResultSubjobs \<longrightarrow> m_workers m' = m_workers m)"
  proof (cases "resType msg")
    case ResultSuccess
    then show ?thesis using assms by (simp add: handleResultMessage_def handleJobCompleted_def)
  next
    case ResultError
    then show ?thesis
      using assms by (auto simp: handleResultMessage_def handleJobError_def Let_def dest: closeRun_same split: if_splits)
  next
    case ResultSubjobs
    let ?m2 = "or_same m (restore cfg m a job now)"
    have "closeRun ?m2 (resolveRunID m (resJobID msg) (resRunID msg)) (resJobID msg) RunStatusCompleted (resType msg)
        (resPayload msg) [] 0 now = Inr m'"
      using assms ResultSubjobs by (simp add: handleResultMessage_def handleSubjobsEmitted_def Let_def)
    from closeRun_same [OF this] show ?thesis
      using ResultSubjobs or_same_restore same_jobs_trans by blast
  qed
  then show "same_jobs m m'" "resType msg \<noteq> ResultSubjobs \<Longrightarrow> m_workers m' = m_workers m" by blast+
qed

section \<open>Lost connections\<close>

lemma close_open_runs_same: "same_jobs m (close_open_runs m i r now)" "m_workers (close_open_runs m i r now) = m_workers m"
proof -
  let ?f = "\<lambda>run :: JobRun. run\<lparr>rStatus := RunStatusFailed, rFailureReason := r, rFinishedAt := now\<rparr>"
  have "same_jobs m (foldl (\<lambda>m r. if open_run r then upd_run m (rID r) f else m) m rs) \<and>
      m_workers (foldl (\<lambda>m r. if open_run r then upd_run m (rID r) f else m) m rs) = m_workers m" for rs f
  proof (induction rs arbitrary: m)
    case (Cons r rs)
    then show ?case using upd_run_same [of m "rID r" f] same_jobs_trans by (auto split: if_splits)
  qed simp
  from this [where rs = "ListJobRuns (m_store m) i" and f = ?f]
  show "same_jobs m (close_open_runs m i r now)" "m_workers (close_open_runs m i r now) = m_workers m"
    unfolding close_open_runs_def by simp_all
qed

lemma EnqueueJob_frame [simp]:
  "m_store (EnqueueJob m j) = m_store m" "m_cancelledJobIDs (EnqueueJob m j) = m_cancelledJobIDs m"
  "m_retries (EnqueueJob m j) = m_retries m" "m_ulids (EnqueueJob m j) = m_ulids m"
  by (simp_all add: EnqueueJob_def NotifyDispatcher_def queue_push_def)

lemma EnqueueJob_queue:
  assumes "pq_inv higherJob (m_queue m)"
  shows "pq_inv higherJob (m_queue (EnqueueJob m j))" "pq_mset (m_queue (EnqueueJob m j)) = add_mset j (pq_mset (m_queue m))"
  using job_order.heap.push_ok [OF assms] job_order.heap.push_contents [OF assms]
  by (simp_all add: EnqueueJob_def NotifyDispatcher_def queue_push_def)

lemma requeue_job_spec:
  assumes "pq_inv higherJob (m_queue m)"
  shows "pq_inv higherJob (m_queue (requeue_job m i now))"
    "stored (requeue_job m i now) = (stored m)(i := map_option (\<lambda>j. j\<lparr>jStatus := JobStatusPending\<rparr>) (stored m i))"
    "pq_mset (m_queue (requeue_job m i now)) = pq_mset (m_queue m) +
       (case stored m i of None \<Rightarrow> {#} | Some j \<Rightarrow> {#j\<lparr>jStatus := JobStatusPending\<rparr>#})"
proof -
  define m1 where "m1 = close_open_runs m i ''worker disconnected'' now"
  have s: "stored m1 = stored m" "m_queue m1 = m_queue m"
    using close_open_runs_same(1) [of m i "''worker disconnected''" now] by (simp_all add: m1_def same_jobs_def)
  have "pq_inv higherJob (m_queue (requeue_job m i now)) \<and>
    stored (requeue_job m i now) = (stored m)(i := map_option (\<lambda>j. j\<lparr>jStatus := JobStatusPending\<rparr>) (stored m i)) \<and>
    pq_mset (m_queue (requeue_job m i now)) = pq_mset (m_queue m) +
       (case stored m i of None \<Rightarrow> {#} | Some j \<Rightarrow> {#j\<lparr>jStatus := JobStatusPending\<rparr>#})"
  proof (cases "stored m i")
    case None
    then have "requeue_job m i now = m1" using s by (simp add: requeue_job_def m1_def [symmetric] GetJob_def Let_def)
    then show ?thesis using s None assms by (simp add: fun_upd_idem)
  next
    case (Some j)
    let ?m2 = "upd_job m1 i (\<lambda>j. j\<lparr>jStatus := JobStatusPending\<rparr>)"
    have r: "requeue_job m i now = EnqueueJob ?m2 (j\<lparr>jStatus := JobStatusPending\<rparr>)"
      using s Some by (simp add: requeue_job_def m1_def [symmetric] GetJob_def Let_def)
    have q: "pq_inv higherJob (m_queue ?m2)" using assms s by simp
    show ?thesis
      unfolding r using EnqueueJob_queue [OF q] s Some stored_upd_job [of m1 i] by (simp add: fun_eq_iff)
  qed
  then show "pq_inv higherJob (m_queue (requeue_job m i now))"
    "stored (requeue_job m i now) = (stored m)(i := map_option (\<lambda>j. j\<lparr>jStatus := JobStatusPending\<rparr>) (stored m i))"
    "pq_mset (m_queue (requeue_job m i now)) = pq_mset (m_queue m) +
       (case stored m i of None \<Rightarrow> {#} | Some j \<Rightarrow> {#j\<lparr>jStatus := JobStatusPending\<rparr>#})" by blast+
qed

definition pending_copy :: "'s Manager \<Rightarrow> string \<Rightarrow> Job list" where
  "pending_copy m i = (case stored m i of None \<Rightarrow> [] | Some j \<Rightarrow> [j\<lparr>jStatus := JobStatusPending\<rparr>])"

lemma OnJobsRequeued_spec:
  assumes "pq_inv higherJob (m_queue m)" "distinct ids"
  shows "pq_inv higherJob (m_queue (OnJobsRequeued m ids now))"
    "stored (OnJobsRequeued m ids now) i =
       (if i \<in> set ids then map_option (\<lambda>j. j\<lparr>jStatus := JobStatusPending\<rparr>) (stored m i) else stored m i)"
    "pq_mset (m_queue (OnJobsRequeued m ids now)) = pq_mset (m_queue m) + mset (concat (map (pending_copy m) ids))"
proof -
  have "pq_inv higherJob (m_queue (OnJobsRequeued m ids now)) \<and>
    (\<forall>i. stored (OnJobsRequeued m ids now) i =
       (if i \<in> set ids then map_option (\<lambda>j. j\<lparr>jStatus := JobStatusPending\<rparr>) (stored m i) else stored m i)) \<and>
    pq_mset (m_queue (OnJobsRequeued m ids now)) = pq_mset (m_queue m) + mset (concat (map (pending_copy m) ids))"
    using assms
  proof (induction ids arbitrary: m)
    case Nil
    then show ?case by (simp add: OnJobsRequeued_def)
  next
    case (Cons k ids)
    let ?m1 = "requeue_job m k now"
    note r = requeue_job_spec [OF Cons.prems(1), of k now]
    have eq: "OnJobsRequeued m (k # ids) now = OnJobsRequeued ?m1 ids now" by (simp add: OnJobsRequeued_def)
    have ih: "pq_inv higherJob (m_queue (OnJobsRequeued ?m1 ids now))"
      "\<And>i. stored (OnJobsRequeued ?m1 ids now) i =
         (if i \<in> set ids then map_option (\<lambda>j. j\<lparr>jStatus := JobStatusPending\<rparr>) (stored ?m1 i) else stored ?m1 i)"
      "pq_mset (m_queue (OnJobsRequeued ?m1 ids now)) = pq_mset (m_queue ?m1) + mset (concat (map (pending_copy ?m1) ids))"
      using Cons.IH [OF r(1)] Cons.prems(2) by auto
    have "concat (map (pending_copy ?m1) ids) = concat (map (pending_copy m) ids)"
    proof (rule arg_cong [where f = concat], rule map_cong [OF refl])
      fix x assume "x \<in> set ids"
      then have "stored ?m1 x = stored m x" using Cons.prems(2) r(2) by auto
      then show "pending_copy ?m1 x = pending_copy m x" by (simp add: pending_copy_def)
    qed
    moreover have "(case stored m k of None \<Rightarrow> {#} | Some j \<Rightarrow> {#j\<lparr>jStatus := JobStatusPending\<rparr>#}) = mset (pending_copy m k)"
      by (simp add: pending_copy_def split: option.split)
    ultimately show ?case
      unfolding eq using ih r(2,3) Cons.prems(2) by simp
  qed
  then show "pq_inv higherJob (m_queue (OnJobsRequeued m ids now))"
    "stored (OnJobsRequeued m ids now) i =
       (if i \<in> set ids then map_option (\<lambda>j. j\<lparr>jStatus := JobStatusPending\<rparr>) (stored m i) else stored m i)"
    "pq_mset (m_queue (OnJobsRequeued m ids now)) = pq_mset (m_queue m) + mset (concat (map (pending_copy m) ids))" by blast+
qed

lemma inFlightIDs_ok:
  assumes "SimpleSet_ok (cfg_sets cfg) elems"
  shows "set (inFlightIDs (cfg_sets cfg) w) = elems (w_inFlight w)" "distinct (inFlightIDs (cfg_sets cfg) w)"
  using SimpleSet_okD(6,7) [OF assms] by (simp_all add: inFlightIDs_def)

lemma disconnect_spec:
  fixes cfg :: "'s Config"
  assumes "SimpleSet_ok (cfg_sets cfg) elems" and "pq_inv higherJob (m_queue m)"
    and ids: "ids = inFlightIDs (cfg_sets cfg) (p_conns (m_workers m) ! a)"
  shows "pq_inv higherJob (m_queue (disconnect_worker cfg m a now))"
    "stored (disconnect_worker cfg m a now) i =
       (if i \<in> set ids then map_option (\<lambda>j. j\<lparr>jStatus := JobStatusPending\<rparr>) (stored m i) else stored m i)"
    "pq_mset (m_queue (disconnect_worker cfg m a now)) = pq_mset (m_queue m) + mset (concat (map (pending_copy m) ids))"
proof -
  let ?m1 = "m\<lparr>m_workers := removeConnLocked (m_workers m) a\<rparr>"
  have d: "disconnect_worker cfg m a now = OnJobsRequeued ?m1 ids now"
    by (simp add: disconnect_worker_def unregister_def Let_def ids)
  have "distinct ids" using inFlightIDs_ok(2) [OF assms(1)] by (simp add: ids)
  moreover have "pq_inv higherJob (m_queue ?m1)" using assms(2) by simp
  ultimately have sp: "pq_inv higherJob (m_queue (OnJobsRequeued ?m1 ids now))"
    "stored (OnJobsRequeued ?m1 ids now) i =
       (if i \<in> set ids then map_option (\<lambda>j. j\<lparr>jStatus := JobStatusPending\<rparr>) (stored ?m1 i) else stored ?m1 i)"
    "pq_mset (m_queue (OnJobsRequeued ?m1 ids now)) = pq_mset (m_queue ?m1) + mset (concat (map (pending_copy ?m1) ids))"
    by (rule OnJobsRequeued_spec [rotated])+
  have "pending_copy ?m1 = pending_copy m" by (rule ext) (simp add: pending_copy_def)
  then show "pq_inv higherJob (m_queue (disconnect_worker cfg m a now))"
    "stored (disconnect_worker cfg m a now) i =
       (if i \<in> set ids then map_option (\<lambda>j. j\<lparr>jStatus := JobStatusPending\<rparr>) (stored m i) else stored m i)"
    "pq_mset (m_queue (disconnect_worker cfg m a now)) = pq_mset (m_queue m) + mset (concat (map (pending_copy m) ids))"
    unfolding d using sp by simp_all
qed

text \<open>
  C21: the result of a job that was cancelled while it ran changes no job and does not take the job off
  the books of its worker, so when that connection ends the cancelled job becomes pending again and is
  queued, as every job lost with the connection is; the jobs of other workers are left alone.
\<close>

theorem cancelled_job_resurrected:
  assumes "SimpleSet_ok (cfg_sets cfg) elems" and "pq_inv higherJob (m_queue m)"
    and "stored m (resJobID msg) = Some job" and "jStatus job = JobStatusCancelled"
    and "resJobID msg \<in> elems (w_inFlight (p_conns (m_workers m) ! a))"
    and "resType msg \<noteq> ResultSubjobs" and "handleResultMessage cfg m a msg now = Inr m1"
  shows "let m2 = disconnect_worker cfg m1 a now'
         in stored m1 = stored m \<and> m_workers m1 = m_workers m \<and> 
            map_option jStatus (stored m2 (resJobID msg)) = Some JobStatusPending \<and>
            job\<lparr>jStatus := JobStatusPending\<rparr> \<in># pq_mset (m_queue m2) \<and>
            (\<forall>i. i \<notin> elems (w_inFlight (p_conns (m_workers m) ! a)) \<longrightarrow> stored m2 i = stored m i)"
proof -
  have late: "GetJob (m_store m) (resJobID msg) = Inr job" "IsTerminal (jStatus job)"
    using assms(3,4) by (simp_all add: GetJob_def IsTerminal_def)
  have s: "stored m1 = stored m" "m_queue m1 = m_queue m" "m_workers m1 = m_workers m"
    using late_result_same [OF late assms(7)] assms(6) by (simp_all add: same_jobs_def)
  have inv: "pq_inv higherJob (m_queue m1)" using assms(2) s by simp
  let ?m2 = "disconnect_worker cfg m1 a now'"
  define ids where "ids = inFlightIDs (cfg_sets cfg) (p_conns (m_workers m1) ! a)"
  have lost: "set ids = elems (w_inFlight (p_conns (m_workers m) ! a))"
    using inFlightIDs_ok(1) [OF assms(1)] s(3) by (simp add: ids_def)
  note sp = disconnect_spec [OF assms(1) inv ids_def, of now']
  have "job\<lparr>jStatus := JobStatusPending\<rparr> \<in> set (pending_copy m1 (resJobID msg))"
    using assms(3) s(1) by (simp add: pending_copy_def)
  then have "job\<lparr>jStatus := JobStatusPending\<rparr> \<in> set (concat (map (pending_copy m1) ids))"
    using lost assms(5) by auto
  then have "job\<lparr>jStatus := JobStatusPending\<rparr> \<in># pq_mset (m_queue ?m2)" unfolding sp(3) by simp
  moreover have "stored ?m2 (resJobID msg) = Some (job\<lparr>jStatus := JobStatusPending\<rparr>)"
    unfolding sp(2) using lost assms(3,5) s(1) by simp
  moreover have "\<forall>i. i \<notin> elems (w_inFlight (p_conns (m_workers m) ! a)) \<longrightarrow> stored ?m2 i = stored m i"
    unfolding sp(2) using lost s(1) by simp
  ultimately show ?thesis using s by (simp add: Let_def)
qed

definition ex_cancelled :: "string list Manager" where
  "ex_cancelled = ex_manager\<lparr>m_store := SaveJob (m_store ex_manager) (ex_job\<lparr>jStatus := JobStatusCancelled\<rparr>),
     m_workers := ex_pool\<lparr>p_conns := [ex_worker\<lparr>w_inFlight := [''j'']\<rparr>]\<rparr>\<rparr>"

definition ex_result :: "ResultType \<Rightarrow> int \<Rightarrow> ResultMessage" where
  "ex_result t code = \<lparr>resParentJobID = [], resJobID = ''j'', resRunID = ''r'', resType = t, resDuration = 0,
     resWarnings = [], resReason = ''exit'', resExitCode = code, resJobs = [], resPayload = ''{}''\<rparr>"

theorem cancelled_job_resurrected_witness:
  "\<exists>m1. handleResultMessage ex_cfg ex_cancelled 0 (ex_result ResultSuccess 0) 5 = Inr m1 \<and>
     map_option jStatus (stored (disconnect_worker ex_cfg m1 0 6) ''j'') = Some JobStatusPending"
proof -
  let ?job = "ex_job\<lparr>jStatus := JobStatusCancelled\<rparr>"
  have q: "pq_inv higherJob (m_queue ex_cancelled)" using ex_queue(1) by (simp add: ex_cancelled_def)
  have st: "stored ex_cancelled (resJobID (ex_result ResultSuccess 0)) = Some ?job"
    by (simp add: ex_cancelled_def ex_result_def SaveJob_def ex_job_def)
  have fl: "resJobID (ex_result ResultSuccess 0) \<in> set (w_inFlight (p_conns (m_workers ex_cancelled) ! 0))"
    by (simp add: ex_cancelled_def ex_result_def)
  have h: "handleResultMessage ex_cfg ex_cancelled 0 (ex_result ResultSuccess 0) 5 = Inr ex_cancelled"
    using st by (simp add: handleResultMessage_def handleJobCompleted_def GetJob_def IsTerminal_def ex_result_def)
  have "map_option jStatus (stored (disconnect_worker ex_cfg ex_cancelled 0 6) (resJobID (ex_result ResultSuccess 0)))
      = Some JobStatusPending"
    using cancelled_job_resurrected [OF ex_cfg_ok(1) q st _ fl _ h, of 6] by (simp add: Let_def ex_result_def)
  then show ?thesis using h by (simp add: ex_result_def)
qed

section \<open>Completion and consolidation\<close>

definition jobs_keyed :: "MemStore \<Rightarrow> bool" where
  "jobs_keyed st \<longleftrightarrow> distinct (map fst (ms_jobs st)) \<and> (\<forall>i j. map_of (ms_jobs st) i = Some j \<longrightarrow> jID j = i)"

text \<open>All children of a job in a table are completed.\<close>

definition children_done :: "(string \<Rightarrow> Job option) \<Rightarrow> string \<Rightarrow> bool" where
  "children_done S p \<longleftrightarrow> (\<forall>i j. S i = Some j \<and> jParentJobID j = p \<longrightarrow> jStatus j = JobStatusCompleted)"

lemma siblings_done:
  assumes "jobs_keyed (m_store m)"
  shows "list_all (\<lambda>s. IsTerminal (jStatus s) \<and> jStatus s = JobStatusCompleted) (ListChildJobs (m_store m) p)
     \<longleftrightarrow> children_done (stored m) p"
proof -
  have "(j \<in> snd ` set (ms_jobs (m_store m))) = (\<exists>i. stored m i = Some j)" for j
    using assms by (force simp: jobs_keyed_def map_of_eq_Some_iff)
  then have "set (ListChildJobs (m_store m) p) = {j. (\<exists>i. stored m i = Some j) \<and> jParentJobID j = p}"
    by (auto simp: ListChildJobs_def)
  then show ?thesis by (auto simp: list_all_iff children_done_def IsTerminal_def)
qed

definition consolidating :: "Job \<Rightarrow> Job" where
  "consolidating p = p\<lparr>jStatus := JobStatusPending, jPhase := JobPhaseConsolidate\<rparr>"

lemma schedule_consolidation_ready:
  assumes "jobs_keyed (m_store m)" "pq_inv higherJob (m_queue m)" "jParentJobID job \<noteq> []"
    "children_done (stored m) (jParentJobID job)" "stored m (jParentJobID job) = Some p"
    "jStatus p = JobStatusAwaitingChildren"
  shows "stored (schedule_consolidation m job now) = (stored m)(jParentJobID job \<mapsto> (consolidating p)\<lparr>jUpdatedAt := now\<rparr>)"
    "pq_mset (m_queue (schedule_consolidation m job now)) = add_mset (consolidating p) (pq_mset (m_queue m))"
proof -
  have i: "jID p = jParentJobID job" using assms(1,5) by (simp add: jobs_keyed_def)
  let ?m1 = "upd_job m (jID p) (\<lambda>j. if jStatus j \<noteq> JobStatusAwaitingChildren then j
                             else j\<lparr>jStatus := JobStatusPending, jPhase := JobPhaseConsolidate, jUpdatedAt := now\<rparr>)"
  have s: "schedule_consolidation m job now = EnqueueJob ?m1 (consolidating p)"
    using assms siblings_done [OF assms(1)] i
    by (simp add: schedule_consolidation_def GetJob_def upd_job_def UpdateJob_def consolidating_def)
  have q: "pq_inv higherJob (m_queue ?m1)" using assms(2) by simp
  show "stored (schedule_consolidation m job now) = (stored m)(jParentJobID job \<mapsto> (consolidating p)\<lparr>jUpdatedAt := now\<rparr>)"
    using assms(5,6) by (simp add: s stored_upd_job i consolidating_def)
  show "pq_mset (m_queue (schedule_consolidation m job now)) = add_mset (consolidating p) (pq_mset (m_queue m))"
    using EnqueueJob_queue(2) [OF q] by (simp add: s)
qed

lemma schedule_consolidation_not_ready:
  assumes "jobs_keyed (m_store m)"
    "\<not> (jParentJobID job \<noteq> [] \<and> children_done (stored m) (jParentJobID job) \<and>
        map_option jStatus (stored m (jParentJobID job)) = Some JobStatusAwaitingChildren)"
  shows "stored (schedule_consolidation m job now) = stored m" "m_queue (schedule_consolidation m job now) = m_queue m"
proof -
  have "stored (schedule_consolidation m job now) = stored m \<and> m_queue (schedule_consolidation m job now) = m_queue m"
  proof (cases "jParentJobID job = [] \<or> \<not> children_done (stored m) (jParentJobID job) \<or> stored m (jParentJobID job) = None")
    case True
    then show ?thesis
      by (auto simp: schedule_consolidation_def siblings_done [OF assms(1)] GetJob_def)
  next
    case False
    then obtain p where p: "stored m (jParentJobID job) = Some p" by blast
    then have i: "jID p = jParentJobID job" using assms(1) by (simp add: jobs_keyed_def)
    show ?thesis
      using False p assms(2)
      by (auto simp: schedule_consolidation_def siblings_done [OF assms(1)] GetJob_def UpdateJob_def i fun_eq_iff)
  qed
  then show "stored (schedule_consolidation m job now) = stored m" "m_queue (schedule_consolidation m job now) = m_queue m"
    by blast+
qed

lemma jobs_keyed_same: "same_jobs m m' \<Longrightarrow> jobs_keyed (m_store m') \<longleftrightarrow> jobs_keyed (m_store m)"
  by (simp add: same_jobs_def jobs_keyed_def)

lemma jobs_keyed_UpdateJob:
  assumes "jobs_keyed st" "UpdateJob st i f = Inr st'" "\<And>j. jID (f j) = jID j"
  shows "jobs_keyed st'"
proof -
  obtain j where j: "map_of (ms_jobs st) i = Some j" "st' = st\<lparr>ms_jobs := AList.update i (f j) (ms_jobs st)\<rparr>"
    using assms(2) by (auto simp: UpdateJob_def split: option.splits)
  have "jID (f j) = i" using assms(1,3) j(1) by (simp add: jobs_keyed_def)
  then show ?thesis using assms(1) j(2) by (simp add: jobs_keyed_def distinct_update update_conv')
qed

lemma fire_jobs:
  "(\<And>u st. ms_jobs (f u st) = ms_jobs st) \<Longrightarrow> ms_jobs (m_store (fire cfg m f)) = ms_jobs (m_store m)"
  by (simp add: fire_def)

lemma restore_ok: "lane_runs (cfg_lane cfg) \<Longrightarrow> \<exists>m'. restore cfg m a job now = Inr m'"
  by (simp add: restore_def restoreCapacity_def lane_runs_def Let_def)

text \<open>The state in which a completed job looks at its siblings.\<close>

lemma handleJobCompleted_run:
  assumes "lane_runs (cfg_lane cfg)" "jobs_keyed (m_store m)" "stored m (resJobID msg) = Some job"
    "\<not> IsTerminal (jStatus job)" "handleJobCompleted cfg m a job msg now = Inr m'"
  obtains m5 where "m' = schedule_consolidation m5 (job\<lparr>jStatus := JobStatusCompleted\<rparr>) now"
    "stored m5 = (stored m)(resJobID msg \<mapsto> completed_job msg now job)" "m_queue m5 = m_queue m" "jobs_keyed (m_store m5)"
proof -
  obtain m1 where m1: "with_store m (CloseJobLogSubscribers (m_store m) (jID job)) = Inr m1"
    using assms(5) unfolding handleJobCompleted_def if_not_P [OF assms(4)] and_then_Inr_iff by blast
  have s1: "same_jobs m m1" using with_store_same(3) [OF m1] by blast
  then have j1: "stored m1 (resJobID msg) = Some job" "jobs_keyed (m_store m1)"
    using assms(2,3) jobs_keyed_same [OF s1] by (simp_all add: same_jobs_def)
  obtain st where st: "UpdateJob (m_store m1) (resJobID msg) (completed_job msg now) = Inr st"
    using j1(1) by (simp add: UpdateJob_def)
  define m2 where "m2 = m1\<lparr>m_store := st\<rparr>"
  have k2: "jobs_keyed (m_store m2)" "stored m2 = (stored m)(resJobID msg \<mapsto> completed_job msg now job)" "m_queue m2 = m_queue m"
  proof -
    show "jobs_keyed (m_store m2)"
      using jobs_keyed_UpdateJob [OF j1(2) st] by (simp add: m2_def completed_job_def)
    show "stored m2 = (stored m)(resJobID msg \<mapsto> completed_job msg now job)" "m_queue m2 = m_queue m"
      using st j1(1) s1 by (auto simp: m2_def UpdateJob_def same_jobs_def update_conv')
  qed
  let ?run = "resolveRunID m2 (resJobID msg) (resRunID msg)" and ?d = "job\<lparr>jStatus := JobStatusCompleted\<rparr>"
  define finish where "finish m4 = schedule_consolidation (fire cfg m4 (\<lambda>u st. FireJobCompleted u st ?d now)) ?d now" for m4
  have e: "and_then (closeRun m2 ?run (resJobID msg) RunStatusCompleted (resType msg) (resPayload msg) [] 0 now)
      (\<lambda>m3. case restore cfg m3 a job now of Inl e \<Rightarrow> Inr m3 | Inr m4 \<Rightarrow> Inr (finish m4)) = Inr m'"
    using assms(5) unfolding handleJobCompleted_def if_not_P [OF assms(4)] m1 and_then_simps st sum.case Let_def
      m2_def [symmetric] finish_def [symmetric] .
  then obtain m3 where m3: "closeRun m2 ?run (resJobID msg) RunStatusCompleted (resType msg) (resPayload msg) [] 0 now = Inr m3"
    by (auto simp: and_then_Inr_iff)
  obtain m4 where m4: "restore cfg m3 a job now = Inr m4" using restore_ok [OF assms(1)] by blast
  have m': "m' = finish m4" using e m3 m4 by simp
  have s4: "same_jobs m2 m4"
    using closeRun_same [OF m3] restore_same [OF m4 assms(1)] same_jobs_trans by blast
  define m5 where "m5 = fire cfg m4 (\<lambda>u st. FireJobCompleted u st ?d now)"
  have "ms_jobs (m_store m5) = ms_jobs (m_store m4)" unfolding m5_def by (rule fire_jobs) (simp add: FireJobCompleted_def)
  moreover have "m_queue m5 = m_queue m4" by (simp add: m5_def)
  ultimately have "stored m5 = stored m2" "m_queue m5 = m_queue m2" "jobs_keyed (m_store m5) = jobs_keyed (m_store m2)"
    using s4 by (simp_all add: same_jobs_def jobs_keyed_def)
  then show ?thesis using that [of m5] m' k2 by (simp add: finish_def m5_def)
qed

text \<open>
  C17: a job that completes is recorded with its result, and if it was the last child of a waiting
  parent the parent enters the consolidation phase: it becomes pending and is queued exactly once. In
  every other case neither another job nor the queue changes.
\<close>

theorem completion_consolidates:
  assumes "lane_runs (cfg_lane cfg)" "pq_inv higherJob (m_queue m)" "jobs_keyed (m_store m)"
    "stored m (resJobID msg) = Some job" "\<not> IsTerminal (jStatus job)" "resType msg = ResultSuccess"
    "handleResultMessage cfg m a msg now = Inr m'"
  shows "let S = (stored m)(resJobID msg \<mapsto> completed_job msg now job); p = jParentJobID job
         in if p \<noteq> [] \<and> children_done S p \<and> map_option jStatus (S p) = Some JobStatusAwaitingChildren
            then stored m' = S(p \<mapsto> (consolidating (the (S p)))\<lparr>jUpdatedAt := now\<rparr>) \<and>
                 pq_mset (m_queue m') = add_mset (consolidating (the (S p))) (pq_mset (m_queue m))
            else stored m' = S \<and> m_queue m' = m_queue m"
proof -
  have h: "handleJobCompleted cfg m a job msg now = Inr m'"
    using assms(4,6,7) by (simp add: handleResultMessage_def GetJob_def)
  let ?d = "job\<lparr>jStatus := JobStatusCompleted\<rparr>"
  obtain m5 where m5: "m' = schedule_consolidation m5 ?d now"
      "stored m5 = (stored m)(resJobID msg \<mapsto> completed_job msg now job)" "m_queue m5 = m_queue m" "jobs_keyed (m_store m5)"
    using handleJobCompleted_run [OF assms(1,3,4,5) h] by blast
  have q: "pq_inv higherJob (m_queue m5)" using assms(2) m5(3) by simp
  show ?thesis
  proof (cases "jParentJobID job \<noteq> [] \<and> children_done (stored m5) (jParentJobID job) \<and>
      map_option jStatus (stored m5 (jParentJobID job)) = Some JobStatusAwaitingChildren")
    case True
    then obtain p where p: "stored m5 (jParentJobID job) = Some p" "jStatus p = JobStatusAwaitingChildren" by auto
    show ?thesis
      using True p schedule_consolidation_ready [OF m5(4) q, of ?d p now] m5(1-3) by (simp add: Let_def)
  next
    case False
    then show ?thesis
      using schedule_consolidation_not_ready [OF m5(4), of ?d now] m5(1-3) by (simp add: Let_def)
  qed
qed

definition ex_parent :: Job where
  "ex_parent = Job_zero\<lparr>jID := ''p'', jTaskName := ''t'', jStatus := JobStatusAwaitingChildren, jWebhookURL := ''http://a''\<rparr>"

definition ex_child :: Job where
  "ex_child = ex_job\<lparr>jParentJobID := ''p'', jStatus := JobStatusRunning\<rparr>"

definition ex_family :: "string list Manager" where
  "ex_family = ex_manager\<lparr>m_store := SaveJob (SaveJob (m_store ex_manager) ex_parent) ex_child\<rparr>"

lemma ex_family_jobs: "ms_jobs (m_store ex_family) = [(''j'', ex_child), (''p'', ex_parent)]"
  by (simp add: ex_family_def ex_manager_def NewManager_def SaveJob_def SaveTask_def NewMemStore_def ex_parent_def ex_child_def ex_job_def)

lemma ex_family_ok [simp]:
  "pq_inv higherJob (m_queue ex_family)" "jobs_keyed (m_store ex_family)" "stored ex_family ''j'' = Some ex_child"
  "stored ex_family ''p'' = Some ex_parent"
proof -
  show "pq_inv higherJob (m_queue ex_family)" using ex_queue(1) by (simp add: ex_family_def)
  show "jobs_keyed (m_store ex_family)"
    unfolding jobs_keyed_def ex_family_jobs by (auto simp: ex_parent_def ex_child_def ex_job_def)
  show "stored ex_family ''j'' = Some ex_child" "stored ex_family ''p'' = Some ex_parent"
    unfolding ex_family_jobs by simp_all
qed

lemma ex_family_store:
  "ms_runs (m_store ex_family) = []" "ms_runLogs (m_store ex_family) = []" "ms_runSubscribers (m_store ex_family) = []"
  "ms_jobSubscribers (m_store ex_family) = []" "ms_chans (m_store ex_family) = []"
  "ms_taskDefs (m_store ex_family) = [(''t'', ex_task)]" "ms_webhooks (m_store ex_family) = []"
  "m_retries ex_family = []"
  by (simp_all add: ex_family_def ex_manager_def NewManager_def SaveJob_def SaveTask_def NewMemStore_def ex_task_def)

text \<open>Without log subscribers no channel is closed or written, and the handlers return.\<close>

definition no_subs :: "MemStore \<Rightarrow> bool" where
  "no_subs st \<longleftrightarrow> ms_runSubscribers st = [] \<and> ms_jobSubscribers st = []"

lemma no_subs_store:
  assumes "no_subs st"
  shows "\<exists>st'. AppendRunLog st r l = Inr st' \<and> no_subs st'" "\<exists>st'. CloseRunLogSubscribers st r = Inr st' \<and> no_subs st'"
    "\<exists>st'. CloseJobLogSubscribers st r = Inr st' \<and> no_subs st'"
  using assms
  by (auto simp: no_subs_def AppendRunLog_def CloseRunLogSubscribers_def CloseJobLogSubscribers_def slice_at_def Let_def
      split: option.splits)

lemma no_subs_with_store:
  assumes "no_subs (m_store m)"
  shows "\<exists>m'. with_store m (AppendRunLog (m_store m) r l) = Inr m' \<and> no_subs (m_store m')"
    "\<exists>m'. with_store m (CloseRunLogSubscribers (m_store m) r) = Inr m' \<and> no_subs (m_store m')"
    "\<exists>m'. with_store m (CloseJobLogSubscribers (m_store m) r) = Inr m' \<and> no_subs (m_store m')"
  using no_subs_store(1) [OF assms, of r l] no_subs_store(2,3) [OF assms, of r] by (auto simp: with_store_def)

lemma no_subs_steps [simp]:
  "no_subs (m_store (upd_run m i f)) \<longleftrightarrow> no_subs (m_store m)"
  "no_subs (m_store (upd_job m i g)) \<longleftrightarrow> no_subs (m_store m)"
  "no_subs (m_store (or_same m (restore cfg m a job now))) \<longleftrightarrow> no_subs (m_store m)"
  by (auto simp: no_subs_def upd_run_def UpdateRun_def upd_job_def UpdateJob_def or_same_def restore_def
      split: option.splits sum.splits)

lemma closeRun_returns:
  assumes "no_subs (m_store m)"
  shows "\<exists>m'. closeRun m r j s t out reason ec now = Inr m' \<and> no_subs (m_store m')"
proof (cases "r = []")
  case True
  then show ?thesis using assms by (simp add: closeRun_def)
next
  case False
  define m1 where "m1 = m\<lparr>m_activeRunIDs := AList.delete j (m_activeRunIDs m)\<rparr>"
  have n1: "no_subs (m_store m1)" using assms by (simp add: m1_def)
  define log where "log = (if s = RunStatusFailed \<and> reason \<noteq> []
        then with_store m1 (AppendRunLog (m_store m1) r (''[workforce] run failed: '' @ reason)) else Inr m1)"
  obtain m2 where m2: "log = Inr m2" "no_subs (m_store m2)"
    using n1 no_subs_with_store(1) [OF n1, of r "''[workforce] run failed: '' @ reason"] unfolding log_def by (metis (full_types))
  define m3 where "m3 = upd_run m2 r (\<lambda>r. r\<lparr>rStatus := s, rResultType := t, rOutputPayload := out,
                                   rFailureReason := reason, rExitCode := ec, rFinishedAt := now\<rparr>)"
  have "closeRun m r j s t out reason ec now = with_store m3 (CloseRunLogSubscribers (m_store m3) r)"
    unfolding closeRun_def if_not_P [OF False] Let_def m1_def [symmetric] log_def [symmetric] m2(1) and_then_simps
      m3_def [symmetric] ..
  moreover have "no_subs (m_store m3)" using m2(2) by (simp add: m3_def)
  ultimately show ?thesis using no_subs_with_store(2) by simp
qed

lemma handleJobCompleted_returns:
  assumes "no_subs (m_store m)"
  shows "\<exists>m'. handleJobCompleted cfg m a job msg now = Inr m'"
proof (cases "IsTerminal (jStatus job)")
  case False
  obtain m1 where m1: "with_store m (CloseJobLogSubscribers (m_store m) (jID job)) = Inr m1" "no_subs (m_store m1)"
    using no_subs_with_store(3) [OF assms] by blast
  show ?thesis
  proof (cases "UpdateJob (m_store m1) (resJobID msg) (completed_job msg now)")
    case (Inr st)
    let ?m2 = "m1\<lparr>m_store := st\<rparr>"
    have "no_subs (m_store ?m2)" using Inr m1(2) by (auto simp: UpdateJob_def no_subs_def split: option.splits)
    then obtain m3 where "closeRun ?m2 (resolveRunID ?m2 (resJobID msg) (resRunID msg)) (resJobID msg) RunStatusCompleted
        (resType msg) (resPayload msg) [] 0 now = Inr m3" using closeRun_returns by blast
    then show ?thesis
      unfolding handleJobCompleted_def if_not_P [OF False] m1 and_then_simps Inr sum.case Let_def by (auto split: sum.splits)
  qed (use False m1 in \<open>simp add: handleJobCompleted_def\<close>)
qed (simp add: handleJobCompleted_def)

theorem completion_consolidates_witness:
  "\<exists>m'. handleResultMessage ex_cfg ex_family 0 (ex_result ResultSuccess 0) 5 = Inr m' \<and>
     map_option jStatus (stored m' ''j'') = Some JobStatusCompleted \<and>
     pq_mset (m_queue m') = add_mset (consolidating ex_parent) (pq_mset (m_queue ex_family))"
proof -
  let ?msg = "ex_result ResultSuccess 0"
  have r: "resJobID ?msg = ''j''" "resType ?msg = ResultSuccess" by (simp_all add: ex_result_def)
  have c: "\<not> IsTerminal (jStatus ex_child)" "jParentJobID ex_child = ''p''" by (simp_all add: ex_child_def IsTerminal_def)
  have "no_subs (m_store ex_family)" by (simp add: no_subs_def ex_family_store)
  then obtain m' where m': "handleResultMessage ex_cfg ex_family 0 ?msg 5 = Inr m'"
    using handleJobCompleted_returns [of ex_family ex_cfg 0 ex_child ?msg 5] r by (auto simp: handleResultMessage_def GetJob_def)
  have st: "stored ex_family (resJobID ?msg) = Some ex_child" using r by simp
  let ?S = "(stored ex_family)(''j'' \<mapsto> completed_job ?msg 5 ex_child)"
  have "children_done ?S ''p''"
    unfolding children_done_def ex_family_jobs by (auto simp: completed_job_def ex_parent_def Job_zero_def)
  moreover have "?S ''p'' = Some ex_parent" "jStatus ex_parent = JobStatusAwaitingChildren" by (simp_all add: ex_parent_def)
  ultimately have "stored m' = ?S(''p'' \<mapsto> (consolidating ex_parent)\<lparr>jUpdatedAt := 5\<rparr>) \<and>
      pq_mset (m_queue m') = add_mset (consolidating ex_parent) (pq_mset (m_queue ex_family))"
    using completion_consolidates [OF ex_cfg_ok(2) ex_family_ok(1,2) st c(1) r(2) m'] unfolding Let_def c(2) r(1) by simp
  then show ?thesis using m' by (simp add: completed_job_def)
qed

section \<open>Failed runs\<close>

definition failed_job :: "time \<Rightarrow> Job \<Rightarrow> Job" where
  "failed_job now j = j\<lparr>jStatus := JobStatusFailed, jUpdatedAt := now, jCompletedAt := Some now,
     jDuration := Some (now - jCreatedAt j)\<rparr>"

text \<open>A job fails, and its parent with it.\<close>

definition fail_family :: "ResultMessage \<Rightarrow> time \<Rightarrow> string \<Rightarrow> string \<Rightarrow> (string \<Rightarrow> Job option) \<Rightarrow> string \<Rightarrow> Job option" where
  "fail_family msg now i p S =
     (let S1 = S(i := map_option (failed_job now) (S i))
      in if p = [] then S1 else S1(p := map_option (mark_failed (resReason msg) now) (S1 p)))"

lemma FireJobFailed_frame:
  "ms_jobs (FireJobFailed u st j r now) = ms_jobs st" "ms_taskDefs (FireJobFailed u st j r now) = ms_taskDefs st"
  "\<not> ShouldDispatchEvent j ''job.failed'' \<Longrightarrow> ms_webhooks (FireJobFailed u st j r now) = ms_webhooks st"
  by (auto simp: FireJobFailed_def webhook_enqueue_def EnqueueWebhook_def ShouldDispatchEvent_def)

lemma fire_failed:
  "stored (fire cfg m (\<lambda>u st. FireJobFailed u st j r now)) = stored m"
  "\<not> ShouldDispatchEvent j ''job.failed'' \<Longrightarrow>
     ms_webhooks (m_store (fire cfg m (\<lambda>u st. FireJobFailed u st j r now))) = ms_webhooks (m_store m)"
  "m_retries (fire cfg m f) = m_retries m"
  by (simp_all add: fire_def FireJobFailed_frame)

lemma upd_job_webhooks [simp]:
  "ms_webhooks (m_store (upd_job m i f)) = ms_webhooks (m_store m)" "m_retries (upd_job m i f) = m_retries m"
  "ms_taskDefs (m_store (upd_job m i f)) = ms_taskDefs (m_store m)"
  by (auto simp: upd_job_def UpdateJob_def split: option.splits)

lemma handleFailJob_spec:
  assumes "handleFailJob cfg m job msg now = Inr m'" "jobs_keyed (m_store m)"
  shows "stored m' = fail_family msg now (jID job) (jParentJobID job) (stored m)" "m_queue m' = m_queue m"
    "m_retries m' = m_retries m"
    "\<not> ShouldDispatchEvent job ''job.failed'' \<Longrightarrow> ms_webhooks (m_store m') = ms_webhooks (m_store m)"
proof -
  let ?i = "jID job" and ?p = "jParentJobID job" and ?w = "\<not> ShouldDispatchEvent job ''job.failed''"
  define fj where "fj = job\<lparr>jStatus := JobStatusFailed\<rparr>"
  define notify where "notify m = fire cfg m (\<lambda>u st. FireJobFailed u st fj (resReason msg) now)" for m
  have fj: "ShouldDispatchEvent fj e = ShouldDispatchEvent job e" for e by (simp add: fj_def ShouldDispatchEvent_def)
  have notify: "stored (notify x) = stored x" "m_queue (notify x) = m_queue x" "m_retries (notify x) = m_retries x"
    "?w \<Longrightarrow> ms_webhooks (m_store (notify x)) = ms_webhooks (m_store x)" for x
    unfolding notify_def by (simp_all add: fire_failed fj)
  define m2 where "m2 = notify (upd_job m ?i (failed_job now))"
  have s2: "stored m2 = (stored m)(?i := map_option (failed_job now) (stored m ?i))" "m_queue m2 = m_queue m"
    "m_retries m2 = m_retries m" "?w \<Longrightarrow> ms_webhooks (m_store m2) = ms_webhooks (m_store m)"
    by (simp_all add: m2_def notify stored_upd_job)
  have e: "handleFailJob cfg m job msg now =
      and_then (with_store m2 (CloseJobLogSubscribers (m_store m2) ?i)) (\<lambda>m3.
         if ?p = [] then Inr m3
         else case GetJob (m_store m3) ?p of
                Inl e \<Rightarrow> Inr m3
              | Inr parent \<Rightarrow>
                  and_then (with_store m3 (CloseJobLogSubscribers (m_store m3) (jID parent))) (\<lambda>m4.
                  case UpdateJob (m_store m4) (jID parent) (mark_failed (resReason msg) now) of
                    Inl e \<Rightarrow> Inr m4 | Inr st \<Rightarrow> Inr (notify (m4\<lparr>m_store := st\<rparr>))))"
    unfolding handleFailJob_def Let_def fj_def [symmetric] notify_def [symmetric] failed_job_def [symmetric] m2_def ..
  obtain m3 where m3: "with_store m2 (CloseJobLogSubscribers (m_store m2) ?i) = Inr m3"
    using assms(1) unfolding e and_then_Inr_iff by blast
  have s3: "same_jobs m2 m3" using with_store_same(3) [OF m3] by blast
  have eq3: "stored m3 = (stored m)(?i := map_option (failed_job now) (stored m ?i))" using s3 s2(1) by (simp add: same_jobs_def)
  have keys: "stored m x = Some j \<Longrightarrow> jID j = x" for x j using assms(2) by (simp add: jobs_keyed_def)
  have keyed: "jID j = x" if j: "stored m3 x = Some j" for x j
  proof (cases "x = ?i")
    case True
    then obtain j0 where "stored m ?i = Some j0" "j = failed_job now j0" using j unfolding eq3 by auto
    then show ?thesis using keys True by (simp add: failed_job_def)
  next
    case False
    then show ?thesis using j keys unfolding eq3 by simp
  qed
  have "stored m' = fail_family msg now ?i ?p (stored m) \<and> m_queue m' = m_queue m \<and> m_retries m' = m_retries m \<and>
      (?w \<longrightarrow> ms_webhooks (m_store m') = ms_webhooks (m_store m))"
  proof (cases "?p = [] \<or> stored m3 ?p = None")
    case True
    then have "m' = m3" using assms(1) unfolding e m3 and_then_simps by (auto simp: GetJob_def split: if_splits)
    moreover have "fail_family msg now ?i ?p (stored m) = stored m3"
      using True unfolding fail_family_def Let_def eq3 by (auto simp: fun_upd_idem)
    ultimately show ?thesis using s2 s3 by (simp add: same_jobs_def)
  next
    case False
    then obtain parent where p: "stored m3 ?p = Some parent" "jID parent = ?p" using keyed by blast
    have "and_then (with_store m3 (CloseJobLogSubscribers (m_store m3) ?p)) (\<lambda>m4.
        case UpdateJob (m_store m4) ?p (mark_failed (resReason msg) now) of
          Inl e \<Rightarrow> Inr m4 | Inr st \<Rightarrow> Inr (notify (m4\<lparr>m_store := st\<rparr>))) = (Inr m' :: _ res)"
      using assms(1) e m3 p False by (simp add: GetJob_def)
    then obtain m4 where m4: "with_store m3 (CloseJobLogSubscribers (m_store m3) ?p) = Inr m4"
        "(case UpdateJob (m_store m4) ?p (mark_failed (resReason msg) now) of
          Inl e \<Rightarrow> Inr m4 | Inr st \<Rightarrow> Inr (notify (m4\<lparr>m_store := st\<rparr>))) = (Inr m' :: _ res)"
      by (rule and_thenE)
    have s34: "same_jobs m3 m4" using with_store_same(3) [OF m4(1)] by blast
    have s4: "same_jobs m2 m4" by (rule same_jobs_trans [OF s3 s34])
    have "stored m4 ?p = Some parent" using p(1) s34 by (simp add: same_jobs_def)
    then have m': "m' = notify (upd_job m4 ?p (mark_failed (resReason msg) now))"
      using m4(2) by (simp add: UpdateJob_def upd_job_def)
    show ?thesis
      unfolding m' using False s2 s4 by (simp add: notify stored_upd_job fail_family_def Let_def same_jobs_def)
  qed
  then show "stored m' = fail_family msg now ?i ?p (stored m)" "m_queue m' = m_queue m" "m_retries m' = m_retries m"
    "?w \<Longrightarrow> ms_webhooks (m_store m') = ms_webhooks (m_store m)" by blast+
qed

definition attempted_job :: "ResultMessage \<Rightarrow> int \<Rightarrow> time \<Rightarrow> Job \<Rightarrow> Job" where
  "attempted_job msg n now j = j\<lparr>jAttempts := n, jFailureReason := resReason msg, jUpdatedAt := now\<rparr>"

text \<open>Exit codes after which a job is not tried again.\<close>

definition permanent :: "'s Config \<Rightarrow> int \<Rightarrow> bool" where
  "permanent cfg code \<longleftrightarrow>
     code = cfg_DefaultPanicExitCode cfg \<or> cfg_DoNotRetryFrom cfg \<le> code \<and> code \<le> cfg_DoNotRetryTo cfg"

lemma handleJobError_run:
  assumes "\<not> IsTerminal (jStatus job)" "handleJobError cfg m a job msg now = Inr m'"
  defines "n \<equiv> wrap64 (jAttempts job + 1)"
  obtains m2 where "same_jobs m m2"
    "(let m3 = upd_job m2 (jID job) (attempted_job msg n now); p = effective_policy cfg m job
      in if permanent cfg (resExitCode msg) \<or> \<not> n < MaxAttempts p then handleFailJob cfg m3 (job\<lparr>jAttempts := n\<rparr>) msg now
         else Inr (m3\<lparr>m_retries := m_retries m @ [(retryDelay p n, jID job)]\<rparr>)) = Inr m'"
proof -
  define m1 where "m1 = or_same m (restore cfg m a job now)"
  let ?close = "closeRun m1 (resolveRunID m (resJobID msg) (resRunID msg)) (resJobID msg) RunStatusFailed (resType msg)
      (resReason msg) (resReason msg) (resExitCode msg) now"
  define rest where "rest m2 = (let m3 = upd_job m2 (jID job) (attempted_job msg n now); job' = job\<lparr>jAttempts := n\<rparr>
      in if resExitCode msg = cfg_DefaultPanicExitCode cfg then handleFailJob cfg m3 job' msg now
         else if cfg_DoNotRetryFrom cfg \<le> resExitCode msg \<and> resExitCode msg \<le> cfg_DoNotRetryTo cfg
              then handleFailJob cfg m3 job' msg now
         else let effective = effective_policy cfg m3 job
              in if n < MaxAttempts effective
                 then Inr (m3\<lparr>m_retries := m_retries m3 @ [(retryDelay effective n, jID job)]\<rparr>)
                 else handleFailJob cfg m3 job' msg now)" for m2
  have "handleJobError cfg m a job msg now = and_then ?close rest"
    unfolding handleJobError_def Let_def if_not_P [OF assms(1)] m1_def [symmetric] rest_def n_def [symmetric]
      attempted_job_def [symmetric] ..
  then have "and_then ?close rest = Inr m'" using assms(2) by simp
  then obtain m2 where m2: "?close = Inr m2" "rest m2 = Inr m'" by (rule and_thenE)
  have s: "same_jobs m m2"
    using or_same_restore [of m cfg a job now] closeRun_same [OF m2(1)] same_jobs_trans unfolding m1_def by blast
  define m3 where "m3 = upd_job m2 (jID job) (attempted_job msg n now)"
  have "effective_policy cfg m3 job = effective_policy cfg m job" "m_retries m3 = m_retries m"
    using s by (simp_all add: m3_def effective_policy_def GetTask_def same_jobs_def)
  then have "rest m2 = (if permanent cfg (resExitCode msg) \<or> \<not> n < MaxAttempts (effective_policy cfg m job)
      then handleFailJob cfg m3 (job\<lparr>jAttempts := n\<rparr>) msg now
      else Inr (m3\<lparr>m_retries := m_retries m @ [(retryDelay (effective_policy cfg m job) n, jID job)]\<rparr>))"
    unfolding rest_def Let_def m3_def [symmetric] permanent_def by simp
  then show ?thesis using that [OF s] m2(2) unfolding Let_def m3_def [symmetric] by simp
qed

text \<open>
  C19: an error result of a live job counts one attempt and then does exactly one of two things. If the
  exit code is retryable and attempts are left, a retry is scheduled with the delay of the policy and
  the queue stays as it is. Otherwise the job fails, with its parent, whatever state the parent is in,
  and no retry is scheduled; when the job itself has no webhook for the event, no webhook is stored,
  even if its parent has one.
\<close>

theorem error_retries_or_fails:
  assumes "jobs_keyed (m_store m)" "stored m (resJobID msg) = Some job" "\<not> IsTerminal (jStatus job)"
    "resType msg = ResultError" "handleResultMessage cfg m a msg now = Inr m'"
  shows "let n = wrap64 (jAttempts job + 1); p = effective_policy cfg m job; i = jID job;
             S = (stored m)(i \<mapsto> attempted_job msg n now job)
         in m_queue m' = m_queue m \<and>
            (if permanent cfg (resExitCode msg) \<or> \<not> n < MaxAttempts p
             then stored m' = fail_family msg now i (jParentJobID job) S \<and> m_retries m' = m_retries m \<and>
                  (\<not> ShouldDispatchEvent job ''job.failed'' \<longrightarrow> ms_webhooks (m_store m') = ms_webhooks (m_store m))
             else stored m' = S \<and> m_retries m' = m_retries m @ [(retryDelay p n, i)])"
proof -
  let ?n = "wrap64 (jAttempts job + 1)" and ?p = "effective_policy cfg m job"
  have i: "jID job = resJobID msg" using assms(1,2) by (simp add: jobs_keyed_def)
  have h: "handleJobError cfg m a job msg now = Inr m'"
    using assms(2,4,5) by (simp add: handleResultMessage_def GetJob_def)
  obtain m2 where m2: "same_jobs m m2"
      "(let m3 = upd_job m2 (jID job) (attempted_job msg ?n now)
      in if permanent cfg (resExitCode msg) \<or> \<not> ?n < MaxAttempts ?p then handleFailJob cfg m3 (job\<lparr>jAttempts := ?n\<rparr>) msg now
         else Inr (m3\<lparr>m_retries := m_retries m @ [(retryDelay ?p ?n, jID job)]\<rparr>)) = Inr m'"
    using handleJobError_run [OF assms(3) h] unfolding Let_def by blast
  define m3 where "m3 = upd_job m2 (jID job) (attempted_job msg ?n now)"
  have s3: "stored m3 = (stored m)(jID job \<mapsto> attempted_job msg ?n now job)" "m_queue m3 = m_queue m"
    "m_retries m3 = m_retries m" "ms_webhooks (m_store m3) = ms_webhooks (m_store m)" "jobs_keyed (m_store m3)"
  proof -
    show "jobs_keyed (m_store m3)"
      using assms(1) jobs_keyed_same [OF m2(1)] jobs_keyed_UpdateJob [of "m_store m2" "jID job" "attempted_job msg ?n now"]
      by (auto simp: m3_def upd_job_def attempted_job_def split: sum.splits)
  qed (use m2(1) assms(2) i in \<open>simp_all add: m3_def same_jobs_def stored_upd_job\<close>)
  show ?thesis
  proof (cases "permanent cfg (resExitCode msg) \<or> \<not> ?n < MaxAttempts ?p")
    case True
    then have f: "handleFailJob cfg m3 (job\<lparr>jAttempts := ?n\<rparr>) msg now = Inr m'"
      using m2(2) unfolding Let_def m3_def [symmetric] by simp
    have "ShouldDispatchEvent (job\<lparr>jAttempts := ?n\<rparr>) e = ShouldDispatchEvent job e" for e
      by (simp add: ShouldDispatchEvent_def)
    then show ?thesis
      using True handleFailJob_spec [OF f s3(5)] s3 by (simp add: Let_def)
  next
    case False
    then have "m' = m3\<lparr>m_retries := m_retries m @ [(retryDelay ?p ?n, jID job)]\<rparr>"
      using m2(2) unfolding Let_def m3_def [symmetric] by simp
    then show ?thesis using False s3 by (simp add: Let_def)
  qed
qed

lemma handleFailJob_returns:
  assumes "no_subs (m_store m)"
  shows "\<exists>m'. handleFailJob cfg m job msg now = Inr m'"
proof -
  define m2 where "m2 = fire cfg (upd_job m (jID job) (failed_job now))
     (\<lambda>u st. FireJobFailed u st (job\<lparr>jStatus := JobStatusFailed\<rparr>) (resReason msg) now)"
  have "no_subs (m_store m2)"
    using assms no_subs_steps(2) [of m "jID job" "failed_job now"]
    by (simp add: m2_def fire_def FireJobFailed_def webhook_enqueue_def EnqueueWebhook_def no_subs_def)
  then obtain m3 where m3: "with_store m2 (CloseJobLogSubscribers (m_store m2) (jID job)) = Inr m3" "no_subs (m_store m3)"
    using no_subs_with_store(3) by blast
  have closes: "with_store m3 (CloseJobLogSubscribers (m_store m3) i) \<noteq> Inl e" for i e
    using no_subs_with_store(3) [OF m3(2), of i] by auto
  show ?thesis
    unfolding handleFailJob_def Let_def failed_job_def [symmetric] m2_def [symmetric] m3(1) and_then_simps
    using closes by (auto simp: and_then_def split: sum.split)
qed

lemma handleJobError_returns:
  assumes "no_subs (m_store m)"
  shows "\<exists>m'. handleJobError cfg m a job msg now = Inr m'"
proof (cases "IsTerminal (jStatus job)")
  case True
  then show ?thesis
    using closeRun_returns [OF assms] by (fastforce simp: handleJobError_def Let_def)
next
  case False
  define m1 where "m1 = or_same m (restore cfg m a job now)"
  have "no_subs (m_store m1)" using assms by (simp add: m1_def)
  then obtain m2 where m2: "closeRun m1 (resolveRunID m (resJobID msg) (resRunID msg)) (resJobID msg) RunStatusFailed
      (resType msg) (resReason msg) (resReason msg) (resExitCode msg) now = Inr m2" "no_subs (m_store m2)"
    using closeRun_returns by blast
  define m3 where "m3 = upd_job m2 (jID job) (attempted_job msg (wrap64 (jAttempts job + 1)) now)"
  have "no_subs (m_store m3)" using m2(2) by (simp add: m3_def)
  then have "\<exists>m'. handleFailJob cfg m3 j msg now = Inr m'" for j by (rule handleFailJob_returns)
  then show ?thesis
    unfolding handleJobError_def Let_def if_not_P [OF False] m1_def [symmetric] m2(1) and_then_simps
      attempted_job_def [symmetric] m3_def [symmetric] by auto
qed

theorem error_retries_or_fails_witness:
  "\<exists>m'. handleResultMessage ex_cfg ex_family 0 (ex_result ResultError 2) 5 = Inr m' \<and>
     map_option jStatus (stored m' ''p'') = Some JobStatusFailed \<and> ms_webhooks (m_store m') = [] \<and>
     ShouldDispatchEvent ex_parent ''job.failed''"
proof -
  let ?msg = "ex_result ResultError 2"
  have r: "resJobID ?msg = ''j''" "resType ?msg = ResultError" "permanent ex_cfg (resExitCode ?msg)"
    by (simp_all add: ex_result_def permanent_def ex_cfg_def)
  have c: "\<not> IsTerminal (jStatus ex_child)" "jParentJobID ex_child = ''p''" "jID ex_child = ''j''"
    "\<not> ShouldDispatchEvent ex_child e" for e
    by (simp_all add: ex_child_def IsTerminal_def ex_job_def Job_zero_def ShouldDispatchEvent_def)
  have "no_subs (m_store ex_family)" by (simp add: no_subs_def ex_family_store)
  then obtain m' where m': "handleResultMessage ex_cfg ex_family 0 ?msg 5 = Inr m'"
    using handleJobError_returns [of ex_family ex_cfg 0 ex_child ?msg 5] r by (auto simp: handleResultMessage_def GetJob_def)
  have st: "stored ex_family (resJobID ?msg) = Some ex_child" using r by simp
  have "map_option jStatus (stored m' ''p'') = Some JobStatusFailed" "ms_webhooks (m_store m') = []"
    using error_retries_or_fails [OF ex_family_ok(2) st c(1) r(2) m'] r(3) c
    by (simp_all add: Let_def fail_family_def mark_failed_def ex_family_store)
  then show ?thesis using m' by (simp add: ShouldDispatchEvent_def ex_parent_def Job_zero_def)
qed

section \<open>Retry delays\<close>

lemma wrap64_mult: "wrap64 (wrap64 x * k) = wrap64 (x * k)"
proof -
  have "wrap64 x mod 2 ^ 64 = x mod 2 ^ 64" by (simp add: wrap64_def mod_diff_left_eq)
  then have "(wrap64 x * k + 2 ^ 63) mod 2 ^ 64 = (x * k + 2 ^ 63) mod 2 ^ 64"
    by (metis mod_add_left_eq mod_mult_left_eq)
  then show ?thesis by (simp add: wrap64_def)
qed

lemma double_times_wraps: "in_int64 d \<Longrightarrow> double_times n d = wrap64 (d * 2 ^ n)"
proof (induction n arbitrary: d)
  case (Suc n)
  have "double_times n (wrap64 (d * 2)) = wrap64 (wrap64 (d * 2) * 2 ^ n)" by (rule Suc.IH) simp
  then show ?case by (simp add: wrap64_mult mult.assoc)
qed simp

text \<open>
  C22: while \<open>RetryDelay * 2 ^ (attempt - 1)\<close> fits 64 bits, the delay before a retry is that product cut
  at the maximum. The delay is never above a positive maximum. The doubling wraps around, though: from the
  65th attempt on every policy retries without any delay.
\<close>

theorem retryDelay_bounds:
  assumes "in_int64 (RetryDelay p)" "0 \<le> RetryDelay p" "1 \<le> attempt"
  shows "(RetryDelay p * 2 ^ nat (attempt - 1) \<le> max_int64 \<longrightarrow>
            retryDelay p attempt = (if 0 < MaxRetryDelay p then min (MaxRetryDelay p) (RetryDelay p * 2 ^ nat (attempt - 1))
                                    else RetryDelay p * 2 ^ nat (attempt - 1))) \<and>
         (0 < MaxRetryDelay p \<longrightarrow> retryDelay p attempt \<le> MaxRetryDelay p) \<and>
         (65 \<le> attempt \<longrightarrow> retryDelay p attempt = 0)"
proof -
  let ?x = "RetryDelay p * 2 ^ nat (attempt - 1)"
  have r: "retryDelay p attempt = (if 0 < MaxRetryDelay p \<and> MaxRetryDelay p < wrap64 ?x then MaxRetryDelay p else wrap64 ?x)"
    using double_times_wraps [OF assms(1)] by (simp add: retryDelay_def Let_def)
  have "?x \<le> max_int64 \<Longrightarrow> wrap64 ?x = ?x"
    using assms(2) by (intro wrap64_id) (simp add: in_int64_def min_int64_def order_trans [of _ 0])
  moreover have "65 \<le> attempt \<Longrightarrow> wrap64 ?x = 0"
  proof -
    assume "65 \<le> attempt"
    then have "64 \<le> nat (attempt - 1)" by linarith
    then have "(2::int) ^ 64 dvd ?x" by (intro dvd_mult le_imp_power_dvd)
    then have "(?x + 2 ^ 63) mod 2 ^ 64 = 2 ^ 63" by (auto simp: dvd_def)
    then show ?thesis by (simp add: wrap64_def)
  qed
  ultimately show ?thesis using r by auto
qed

theorem retryDelay_bounds_witness:
  "retryDelay \<lparr>MaxAttempts = 100, RetryDelay = Second, MaxRetryDelay = Minute\<rparr> 3 = 4 * Second \<and>
   retryDelay \<lparr>MaxAttempts = 100, RetryDelay = Second, MaxRetryDelay = Minute\<rparr> 65 = 0"
  using retryDelay_bounds [of "\<lparr>MaxAttempts = 100, RetryDelay = Second, MaxRetryDelay = Minute\<rparr>" 3]
    retryDelay_bounds [of "\<lparr>MaxAttempts = 100, RetryDelay = Second, MaxRetryDelay = Minute\<rparr>" 65]
  by (simp add: in_int64_def min_int64_def max_int64_def)

end
