(* ===== verification/Child_Jobs.thy ===== *)
theory Child_Jobs
  imports Job_Lifecycle
begin

text \<open>
  The children a run announces (\<^verbatim>\<open>handleSubjobsEmitted\<close> of \<^verbatim>\<open>manager/worker_conn_handler.go\<close>): what is
  created when every request can be met, and what happens when one cannot.
\<close>

section \<open>Child jobs\<close>

text \<open>The identifiers that will be drawn next: distinct, and not in use.\<close>

definition fresh_ids :: "'s Config \<Rightarrow> 's Manager \<Rightarrow> bool" where
  "fresh_ids cfg m \<longleftrightarrow> inj (cfg_ulid cfg) \<and> (\<forall>k. m_ulids m \<le> k \<longrightarrow> stored m (cfg_ulid cfg k) = None)"

definition spawnable :: "'s Config \<Rightarrow> 's Manager \<Rightarrow> ChildJobRequest \<Rightarrow> bool" where
  "spawnable cfg m r \<longleftrightarrow> (\<exists>t v. GetTask (m_store m) (crTask r) = Inr t \<and> child_version cfg r t = Inr v)"

definition save_child :: "'s Manager \<Rightarrow> Job \<Rightarrow> 's Manager" where
  "save_child m c = m\<lparr>m_store := SaveJob (m_store m) c, m_ulids := m_ulids m + 1\<rparr>"

lemma save_child_simps [simp]:
  "stored (save_child m c) = (stored m)(jID c \<mapsto> c)" "m_queue (save_child m c) = m_queue m"
  "m_ulids (save_child m c) = Suc (m_ulids m)" "GetTask (m_store (save_child m c)) t = GetTask (m_store m) t"
  "m_workers (save_child m c) = m_workers m" "m_retries (save_child m c) = m_retries m"
  by (simp_all add: save_child_def SaveJob_def GetTask_def fun_eq_iff)

lemma fresh_ids_save:
  "fresh_ids cfg m \<Longrightarrow> jID c = cfg_ulid cfg (m_ulids m) \<Longrightarrow> fresh_ids cfg (save_child m c)"
  by (auto simp: fresh_ids_def inj_eq)

lemma spawnable_save [simp]: "spawnable cfg (save_child m c) r = spawnable cfg m r"
  by (simp add: spawnable_def)

text \<open>A child and the request it was made from.\<close>

definition child_of :: "Job \<Rightarrow> time \<Rightarrow> ChildJobRequest \<Rightarrow> Job \<Rightarrow> bool" where
  "child_of parent now r c \<longleftrightarrow>
     jParentJobID c = jID parent \<and> jStatus c = JobStatusPending \<and> jPhase c = JobPhaseRun \<and>
     jPayload c = crPayload r \<and> jPriority c = crPriority r \<and> jUpdatedAt c = now \<and> jAttempts c = 0 \<and> jWebhookURL c = []"

lemma child_of_child_job: "child_of parent now r (child_job parent r t v i k now)"
  by (simp add: child_of_def child_job_def Job_zero_def)

lemma emit_children_step:
  "GetTask (m_store m) (crTask r) = Inr t \<Longrightarrow> child_version cfg r t = Inr v \<Longrightarrow>
   c = child_job parent r t v (cfg_ulid cfg (m_ulids m)) k now \<Longrightarrow>
   emit_children cfg m parent now k (r # reqs) acc = emit_children cfg (save_child m c) parent now (Suc k) reqs (acc @ [c])"
  by (simp add: Let_def save_child_def)

lemma emit_children_ok:
  assumes "\<forall>r \<in> set reqs. spawnable cfg m r" "fresh_ids cfg m"
  shows "\<exists>new m1. emit_children cfg m parent now k reqs acc = Inr (acc @ new, m1) \<and>
     list_all2 (child_of parent now) reqs new \<and> map jID new = map (cfg_ulid cfg) [m_ulids m ..< m_ulids m + length reqs] \<and>
     stored m1 = stored m ++ map_of (map (\<lambda>c. (jID c, c)) new) \<and> m_queue m1 = m_queue m \<and> m_workers m1 = m_workers m \<and>
     m_retries m1 = m_retries m"
  using assms
proof (induction reqs arbitrary: m k acc)
  case Nil
  then show ?case by simp
next
  case (Cons r reqs)
  obtain t v where t: "GetTask (m_store m) (crTask r) = Inr t" "child_version cfg r t = Inr v"
    using Cons.prems(1) by (auto simp: spawnable_def)
  define c where "c = child_job parent r t v (cfg_ulid cfg (m_ulids m)) k now"
  have c: "jID c = cfg_ulid cfg (m_ulids m)" "child_of parent now r c"
    by (simp_all add: c_def child_of_child_job) (simp add: child_job_def)
  let ?m = "save_child m c"
  have "\<forall>r \<in> set reqs. spawnable cfg ?m r" using Cons.prems(1) by simp
  from Cons.IH [OF this fresh_ids_save [OF Cons.prems(2) c(1)], of "Suc k" "acc @ [c]"]
  obtain new m1 where ih: "emit_children cfg ?m parent now (Suc k) reqs (acc @ [c]) = Inr ((acc @ [c]) @ new, m1)"
      "list_all2 (child_of parent now) reqs new"
      "map jID new = map (cfg_ulid cfg) [m_ulids ?m ..< m_ulids ?m + length reqs]"
      "stored m1 = stored ?m ++ map_of (map (\<lambda>c. (jID c, c)) new)" "m_queue m1 = m_queue ?m" "m_workers m1 = m_workers ?m"
      "m_retries m1 = m_retries ?m"
    by blast
  have e: "emit_children cfg m parent now k (r # reqs) acc = Inr (acc @ (c # new), m1)"
    using emit_children_step [OF t c_def] ih(1) by simp
  have "jID c \<notin> jID ` set new"
  proof -
    have "jID ` set new = cfg_ulid cfg ` {Suc (m_ulids m) ..< Suc (m_ulids m) + length reqs}"
      using arg_cong [OF ih(3), of set] by (simp del: upt_Suc)
    then show ?thesis using c(1) Cons.prems(2) by (auto simp: fresh_ids_def inj_eq)
  qed
  then have "map_of (map (\<lambda>c. (jID c, c)) new) (jID c) = None"
    by (simp add: map_of_eq_None_iff image_image)
  then have "stored m1 = stored m ++ map_of (map (\<lambda>c. (jID c, c)) (c # new))"
    unfolding ih(4) save_child_simps by (auto simp: fun_eq_iff map_add_def split: option.split)
  moreover have "map jID (c # new) = map (cfg_ulid cfg) [m_ulids m ..< m_ulids m + length (r # reqs)]"
    using ih(3) c(1) by (simp add: upt_conv_Cons del: upt_Suc)
  ultimately show ?case
    by (intro exI [of _ "c # new"] exI [of _ m1] conjI e) (simp_all add: ih(2,5-7) c(2) del: upt_Suc map_of.simps list.map)
qed

lemma emit_children_fails:
  assumes "r \<in> set reqs" "\<not> spawnable cfg m r" "fresh_ids cfg m" "stored m (jID parent) = Some parent"
    "ShouldDispatchEvent parent ''job.failed''"
  shows "emit_children cfg m parent now k reqs acc = Inl (Inl (Deadlock ''EnqueueWebhook inside UpdateJob''))"
  using assms
proof (induction reqs arbitrary: m k acc)
  case (Cons q reqs)
  have fp: "fail_parent m (jID parent) e reason now = Inl (Deadlock ''EnqueueWebhook inside UpdateJob'')" for e reason
    using Cons.prems(4,5) by (simp add: fail_parent_def)
  show ?case
  proof (cases "spawnable cfg m q")
    case False
    then show ?thesis using fp by (auto simp: spawnable_def split: sum.split)
  next
    case True
    then obtain t v where t: "GetTask (m_store m) (crTask q) = Inr t" "child_version cfg q t = Inr v"
      by (auto simp: spawnable_def)
    define c where "c = child_job parent q t v (cfg_ulid cfg (m_ulids m)) k now"
    have c: "jID c = cfg_ulid cfg (m_ulids m)" by (simp add: c_def child_job_def)
    have r: "r \<in> set reqs" using Cons.prems(1,2) True by auto
    have "jID parent \<noteq> jID c" using Cons.prems(3,4) c by (auto simp: fresh_ids_def)
    then have "stored (save_child m c) (jID parent) = Some parent" using Cons.prems(4) by simp
    with Cons.IH [OF r _ fresh_ids_save [OF Cons.prems(3) c], of "Suc k" "acc @ [c]"] Cons.prems(2,5)
    show ?thesis unfolding emit_children_step [OF t c_def] by simp
  qed
qed simp

text \<open>
  C18: a run that announces child jobs creates one pending job per request, in order, each with an
  identifier of its own, the payload and priority of the request and the link to its parent; all of
  them enter the queue, the parent waits for them, and every other job keeps its record.
\<close>

theorem subjobs_spawned:
  assumes "jobs_keyed (m_store m)" "pq_inv higherJob (m_queue m)" "fresh_ids cfg m"
    "stored m (resJobID msg) = Some parent" "\<not> IsTerminal (jStatus parent)" "resType msg = ResultSubjobs"
    "\<forall>r \<in> set (resJobs msg). spawnable cfg m r" "handleResultMessage cfg m a msg now = Inr m'"
  shows "\<exists>children. list_all2 (child_of parent now) (resJobs msg) children \<and> distinct (map jID children) \<and>
           (\<forall>c \<in> set children. stored m (jID c) = None \<and> stored m' (jID c) = Some c) \<and>
           stored m' (jID parent) = Some (parent\<lparr>jStatus := JobStatusAwaitingChildren, jUpdatedAt := now\<rparr>) \<and>
           (\<forall>i. i \<noteq> jID parent \<and> i \<notin> jID ` set children \<longrightarrow> stored m' i = stored m i) \<and>
           pq_mset (m_queue m') = pq_mset (m_queue m) + mset children"
proof -
  have i: "jID parent = resJobID msg" using assms(1,4) by (simp add: jobs_keyed_def)
  from emit_children_ok [OF assms(7,3), of parent now 0 "[]"]
  obtain cs m1 where cs: "emit_children cfg m parent now 0 (resJobs msg) [] = Inr (cs, m1)"
      "list_all2 (child_of parent now) (resJobs msg) cs"
      "map jID cs = map (cfg_ulid cfg) [m_ulids m ..< m_ulids m + length (resJobs msg)]"
      "stored m1 = stored m ++ map_of (map (\<lambda>c. (jID c, c)) cs)" "m_queue m1 = m_queue m" by auto
  have dist: "distinct (map jID cs)" 
    unfolding cs(3) using assms(3) by (simp add: fresh_ids_def distinct_map inj_on_subset [OF _ subset_UNIV])
  have fresh: "stored m (jID c) = None" if "c \<in> set cs" for c
  proof -
    have "jID c \<in> cfg_ulid cfg ` {m_ulids m ..< m_ulids m + length (resJobs msg)}"
      using that arg_cong [OF cs(3), of set] by (metis imageI set_map set_upt)
    then show ?thesis using assms(3) by (auto simp: fresh_ids_def)
  qed
  have ch: "map_of (map (\<lambda>c. (jID c, c)) cs) (jID c) = Some c" if "c \<in> set cs" for c
    using that dist by (intro map_of_is_SomeI) (auto simp: comp_def)
  have out: "map_of (map (\<lambda>c. (jID c, c)) cs) x = None" if "x \<notin> jID ` set cs" for x
    using that by (auto simp: map_of_eq_None_iff)
  have pn: "jID parent \<notin> jID ` set cs" using fresh assms(4) i by force
  have p1: "stored m1 (resJobID msg) = Some parent" using cs(4) out [OF pn] assms(4) i by (simp add: map_add_def)
  define m2 where "m2 = upd_job m1 (jID parent) (\<lambda>j. j\<lparr>jStatus := JobStatusAwaitingChildren, jUpdatedAt := now\<rparr>)"
  have "handleSubjobsEmitted cfg m parent (resJobs msg) now = Inr (None, EnqueueJobs m2 cs)"
    using assms(5) cs(1) p1 i by (simp add: handleSubjobsEmitted_def m2_def upd_job_def UpdateJob_def)
  then have "closeRun (or_same (EnqueueJobs m2 cs) (restore cfg (EnqueueJobs m2 cs) a parent now))
      (resolveRunID m (resJobID msg) (resRunID msg)) (resJobID msg) RunStatusCompleted (resType msg) (resPayload msg) [] 0 now
      = Inr m'"
    using assms(4,6,8) by (simp add: handleResultMessage_def GetJob_def Let_def)
  then have s: "same_jobs (EnqueueJobs m2 cs) m'"
    using closeRun_same or_same_restore same_jobs_trans by metis
  have q2: "pq_inv higherJob (m_queue m2)" using assms(2) cs(5) by (simp add: m2_def)
  have eq: "stored (EnqueueJobs m2 cs) = stored m2" "pq_mset (m_queue (EnqueueJobs m2 cs)) = pq_mset (m_queue m) + mset cs"
    using queue_push_all [OF q2, of cs] cs(5) by (simp_all add: EnqueueJobs_def NotifyDispatcher_def m2_def)
  have st: "stored m' x = (if x = jID parent then Some (parent\<lparr>jStatus := JobStatusAwaitingChildren, jUpdatedAt := now\<rparr>)
      else stored m1 x)" for x
    using s eq(1) p1 i by (simp add: same_jobs_def m2_def stored_upd_job)
  show ?thesis
  proof (intro exI [of _ cs] conjI)
    show "\<forall>c \<in> set cs. stored m (jID c) = None \<and> stored m' (jID c) = Some c"
    proof
      fix c assume c: "c \<in> set cs"
      then have "jID c \<noteq> jID parent" using pn by (metis imageI)
      then show "stored m (jID c) = None \<and> stored m' (jID c) = Some c"
        using fresh [OF c] ch [OF c] by (simp add: st cs(4) map_add_def)
    qed
    show "\<forall>i. i \<noteq> jID parent \<and> i \<notin> jID ` set cs \<longrightarrow> stored m' i = stored m i"
      using out by (simp add: st cs(4) map_add_def)
    show "pq_mset (m_queue m') = pq_mset (m_queue m) + mset cs" using s eq(2) by (simp add: same_jobs_def)
  qed (use cs(2) dist st in simp_all)
qed

lemma emit_children_quiet:
  "emit_children cfg m parent now k reqs acc = Inr (cs, m1) \<Longrightarrow> no_subs (m_store m) \<Longrightarrow> no_subs (m_store m1)"
  by (induction reqs arbitrary: m k acc)
    (auto simp: Let_def no_subs_def SaveJob_def split: sum.splits prod.splits)

lemma handleSubjobsEmitted_quiet:
  assumes "no_subs (m_store m)" "fresh_ids cfg m" "\<not> IsTerminal (jStatus parent)" "\<forall>r \<in> set reqs. spawnable cfg m r"
  shows "\<exists>m2. handleSubjobsEmitted cfg m parent reqs now = Inr (None, m2) \<and> no_subs (m_store m2)"
proof -
  obtain cs m1 where e: "emit_children cfg m parent now 0 reqs [] = Inr (cs, m1)"
    using emit_children_ok [OF assms(4,2), of parent now 0 "[]"] by blast
  have n: "no_subs (m_store m1)" by (rule emit_children_quiet [OF e assms(1)])
  have "m_store (foldl queue_push m0 js) = m_store m0" for m0 :: "'a Manager" and js
    by (induction js arbitrary: m0) (simp_all add: queue_push_def)
  then show ?thesis
    using assms(3) e n
    by (auto simp: handleSubjobsEmitted_def EnqueueJobs_def NotifyDispatcher_def UpdateJob_def no_subs_def split: option.split)
qed

lemma subjobs_return:
  assumes "no_subs (m_store m)" "fresh_ids cfg m" "stored m (resJobID msg) = Some parent" "\<not> IsTerminal (jStatus parent)"
    "resType msg = ResultSubjobs" "\<forall>r \<in> set (resJobs msg). spawnable cfg m r"
  shows "\<exists>m'. handleResultMessage cfg m a msg now = Inr m'"
proof -
  obtain m2 where m2: "handleSubjobsEmitted cfg m parent (resJobs msg) now = Inr (None, m2)" "no_subs (m_store m2)"
    using handleSubjobsEmitted_quiet [OF assms(1,2,4,6)] by blast
  have "no_subs (m_store (or_same m2 (restore cfg m2 a parent now)))" using m2(2) by simp
  then show ?thesis
    using closeRun_returns assms(3,5) m2(1) by (fastforce simp: handleResultMessage_def GetJob_def Let_def)
qed

definition ex_request :: "string \<Rightarrow> ChildJobRequest" where
  "ex_request t = \<lparr>crTask = t, crPayload = ''{}'', crPriority = 1, crVersion = []\<rparr>"

lemma ex_fresh: "fresh_ids ex_cfg ex_family"
proof -
  have "inj (\<lambda>n. ''u'' @ nat_digits n)" by (auto simp: inj_def dest!: arg_cong [where f = digits_val] simp: digits_val_digits)
  then show ?thesis by (simp add: fresh_ids_def ex_cfg_def ex_family_jobs)
qed

theorem subjobs_spawned_witness:
  "\<exists>m' c. handleResultMessage ex_cfg ex_family 0 ((ex_result ResultSubjobs 0)\<lparr>resJobs := [ex_request ''t'']\<rparr>) 5 = Inr m' \<and>
     jParentJobID c = ''j'' \<and> stored m' (jID c) = Some c \<and> c \<in># pq_mset (m_queue m') \<and>
     map_option jStatus (stored m' ''j'') = Some JobStatusAwaitingChildren"
proof -
  let ?msg = "(ex_result ResultSubjobs 0)\<lparr>resJobs := [ex_request ''t'']\<rparr>"
  have sp: "\<forall>r \<in> set (resJobs ?msg). spawnable ex_cfg ex_family r"
    by (simp add: spawnable_def ex_request_def GetTask_def ex_family_store child_version_def ex_cfg_def ex_registry_def)
  have r: "resJobID ?msg = ''j''" "resType ?msg = ResultSubjobs" by (simp_all add: ex_result_def)
  have st: "stored ex_family (resJobID ?msg) = Some ex_child" using r by simp
  have c: "\<not> IsTerminal (jStatus ex_child)" "jID ex_child = ''j''" by (simp_all add: ex_child_def IsTerminal_def ex_job_def)
  obtain m' where m': "handleResultMessage ex_cfg ex_family 0 ?msg 5 = Inr m'"
    using subjobs_return [OF _ ex_fresh st c(1) r(2) sp] ex_family_store by (auto simp: no_subs_def)
  from subjobs_spawned [OF ex_family_ok(2,1) ex_fresh st c(1) r(2) sp m']
  obtain cs where cs: "list_all2 (child_of ex_child 5) [ex_request ''t''] cs" "\<forall>c \<in> set cs. stored m' (jID c) = Some c"
      "stored m' ''j'' = Some (ex_child\<lparr>jStatus := JobStatusAwaitingChildren, jUpdatedAt := 5\<rparr>)"
      "pq_mset (m_queue m') = pq_mset (m_queue ex_family) + mset cs"
    unfolding c(2) by auto
  from cs(1) obtain k where k: "cs = [k]" "jParentJobID k = ''j''"
    by (auto simp: list_all2_Cons1 child_of_def c(2))
  show ?thesis using m' cs k by (intro exI [of _ m'] exI [of _ k]) simp
qed



end
