(* ===== verification/FS_Store.thy ===== *)
theory FS_Store
  imports Json_Payload
begin

text \<open>
  The store with a journal on disk (\<^verbatim>\<open>manager/store/fsstore.go\<close>, \<^verbatim>\<open>fsstore_journal.go\<close>,
  \<^verbatim>\<open>fsstore_snapshot.go\<close>). The four maps are the hot state; the files of the directory are the record
  \<open>disk\<close>. Operations of the file system succeed. What was written to the journal but not yet flushed is
  \<open>fs_pending\<close>; the entries waiting for the background writer are \<open>fs_journalCh\<close>.
\<close>

section \<open>Data\<close>

definition defaultCompactAfter :: int where "defaultCompactAfter = 500"
definition defaultJournalBufSize :: int where "defaultJournalBufSize = 256"

record FSStoreConfig =
  SyncInterval :: duration
  CompactAfter :: int
  JournalBufSize :: int

definition setDefaults :: "FSStoreConfig \<Rightarrow> FSStoreConfig" where
  "setDefaults c =
     (let c1 = (if SyncInterval c < 0 then c\<lparr>SyncInterval := 0\<rparr> else c);
          c2 = (if CompactAfter c1 \<le> 0 then c1\<lparr>CompactAfter := defaultCompactAfter\<rparr> else c1)
      in if JournalBufSize c2 \<le> 0 then c2\<lparr>JournalBufSize := defaultJournalBufSize\<rparr> else c2)"

record hotState =
  hs_jobs :: "(string, Job) gomap"
  hs_taskDefs :: "(string, Task) gomap"
  hs_runs :: "(string, JobRun) gomap"
  hs_webhooks :: "(string, WebhookEntry) gomap"

definition hs_empty :: hotState where
  "hs_empty = \<lparr>hs_jobs = [], hs_taskDefs = [], hs_runs = [], hs_webhooks = []\<rparr>"

text \<open>One constructor per operation of the journal, with the fields that operation uses.\<close>

datatype journalEntry =
    opJob Job
  | opTaskDef Task
  | opTaskDefDelete string
  | opWebhookEnqueue WebhookEntry
  | opWebhookAck string
  | opWebhookNack string int time
  | opRunCreate JobRun
  | opRunUpdate JobRun

text \<open>A line of the journal file; \<open>Torn\<close> is one whose end was not written.\<close>

datatype journal_line = Line journalEntry | Torn

record snapshot =
  snap_Version :: int
  snap_Jobs :: "Job list"
  snap_TaskDefs :: "Task list"
  snap_Webhooks :: "WebhookEntry list"
  snap_Runs :: "JobRun list"

record disk =
  d_snapshot :: "snapshot option"
  d_journal :: "journal_line list"
  d_runLogs :: "(string, bytes) gomap"
  d_legacyLogs :: "(string, bytes) gomap"

definition empty_disk :: disk where
  "empty_disk = \<lparr>d_snapshot = None, d_journal = [], d_runLogs = [], d_legacyLogs = []\<rparr>"

record FSStore =
  fs_cfg :: FSStoreConfig
  fs_hot :: hotState
  fs_runLogBufs :: "(string, bytes) gomap"
  fs_runSubscribers :: "(string, nat list) gomap"
  fs_jobSubscribers :: "(string, nat list) gomap"
  fs_chans :: "Chan list"
  fs_journalCh :: "journalEntry list"
  fs_pending :: "journalEntry list"
  fs_entryCount :: int
  fs_disk :: disk

section \<open>What survives JSON\<close>

text \<open>
  The entities are written with \<^verbatim>\<open>json.Marshal\<close> and read with \<^verbatim>\<open>json.Unmarshal\<close>. Texts (taken to be UTF-8),
  numbers and times survive; payloads go through their own methods, an empty one being nil. The payload
  of a webhook entry is an object that \<^verbatim>\<open>json.Marshal\<close> made, which is inlined and survives.
\<close>

definition reload_bytes :: "JsonOrBytes \<Rightarrow> JsonOrBytes res" where
  "reload_bytes b =
     (case UnmarshalJSON (marshal_field (opt_bytes b)) of
        Inl e \<Rightarrow> Inl e | Inr None \<Rightarrow> Inr [] | Inr (Some b') \<Rightarrow> Inr b')"

definition reload_job :: "Job \<Rightarrow> Job res" where
  "reload_job j =
     and_then (reload_bytes (jPayload j)) (\<lambda>p.
     and_then (reload_bytes (jResult j)) (\<lambda>r. Inr (j\<lparr>jPayload := p, jResult := r\<rparr>)))"

definition reload_run :: "JobRun \<Rightarrow> JobRun res" where
  "reload_run r =
     and_then (reload_bytes (rInputPayload r)) (\<lambda>p.
     and_then (reload_bytes (rOutputPayload r)) (\<lambda>q. Inr (r\<lparr>rInputPayload := p, rOutputPayload := q\<rparr>)))"

fun map_res :: "('a \<Rightarrow> 'b res) \<Rightarrow> 'a list \<Rightarrow> 'b list res" where
  "map_res f [] = Inr []"
| "map_res f (x # xs) = and_then (f x) (\<lambda>y. and_then (map_res f xs) (\<lambda>ys. Inr (y # ys)))"

section \<open>Snapshot and journal\<close>

definition put_job :: "hotState \<Rightarrow> Job \<Rightarrow> hotState" where
  "put_job h j = h\<lparr>hs_jobs := AList.update (jID j) j (hs_jobs h)\<rparr>"

definition put_task :: "hotState \<Rightarrow> Task \<Rightarrow> hotState" where
  "put_task h t = h\<lparr>hs_taskDefs := AList.update (tName t) t (hs_taskDefs h)\<rparr>"

definition put_run :: "hotState \<Rightarrow> JobRun \<Rightarrow> hotState" where
  "put_run h r = h\<lparr>hs_runs := AList.update (rID r) r (hs_runs h)\<rparr>"

definition put_webhook :: "hotState \<Rightarrow> WebhookEntry \<Rightarrow> hotState" where
  "put_webhook h e = h\<lparr>hs_webhooks := AList.update (whID e) e (hs_webhooks h)\<rparr>"

definition loadSnapshot :: "hotState \<Rightarrow> snapshot option \<Rightarrow> hotState res" where
  "loadSnapshot h snap =
     (case snap of
        None \<Rightarrow> Inr h
      | Some s \<Rightarrow>
          and_then (map_res reload_job (snap_Jobs s)) (\<lambda>js.
          and_then (map_res reload_run (snap_Runs s)) (\<lambda>rs.
            Inr (foldl put_run
                  (foldl put_webhook (foldl put_task (foldl put_job h js) (snap_TaskDefs s)) (snap_Webhooks s)) rs))))"

definition applyJournalEntry :: "hotState \<Rightarrow> journalEntry \<Rightarrow> hotState res" where
  "applyJournalEntry h e =
     (case e of
        opJob j \<Rightarrow> and_then (reload_job j) (\<lambda>j'. Inr (put_job h j'))
      | opTaskDef t \<Rightarrow> Inr (put_task h t)
      | opTaskDefDelete i \<Rightarrow> Inr (h\<lparr>hs_taskDefs := AList.delete i (hs_taskDefs h)\<rparr>)
      | opWebhookEnqueue w \<Rightarrow> Inr (put_webhook h w)
      | opWebhookAck i \<Rightarrow> Inr (h\<lparr>hs_webhooks := AList.delete i (hs_webhooks h)\<rparr>)
      | opWebhookNack i attempts t \<Rightarrow>
          (case map_of (hs_webhooks h) i of
             None \<Rightarrow> Inr h
           | Some w \<Rightarrow>
               Inr (h\<lparr>hs_webhooks := AList.update i (w\<lparr>whAttempts := attempts, whNextAttemptAt := t\<rparr>) (hs_webhooks h)\<rparr>))
      | opRunCreate r \<Rightarrow> and_then (reload_run r) (\<lambda>r'. Inr (put_run h r'))
      | opRunUpdate r \<Rightarrow> and_then (reload_run r) (\<lambda>r'. Inr (put_run h r')))"

text \<open>
  The scanner takes lines of at most one megabyte; \<open>sz\<close> is the length of the text of an entry with
  its newline, which the claims leave open.
\<close>

definition max_line :: nat where "max_line = 2 ^ 20"

fun replayJournal :: "(journalEntry \<Rightarrow> nat) \<Rightarrow> hotState \<Rightarrow> journal_line list \<Rightarrow> hotState res" where
  "replayJournal sz h [] = Inr h"
| "replayJournal sz h (Torn # ls) = Inr h"
| "replayJournal sz h (Line e # ls) =
     (if max_line < sz e then Inl (Errorf ''bufio.Scanner: token too long'')
      else and_then (applyJournalEntry h e) (\<lambda>h'. replayJournal sz h' ls))"

definition compact :: "FSStore \<Rightarrow> FSStore" where
  "compact fs =
     (let h = fs_hot fs;
          snap = \<lparr>snap_Version = 1, snap_Jobs = map snd (hs_jobs h), snap_TaskDefs = map snd (hs_taskDefs h),
                  snap_Webhooks = map snd (hs_webhooks h), snap_Runs = map snd (hs_runs h)\<rparr>
      in fs\<lparr>fs_disk := (fs_disk fs)\<lparr>d_snapshot := Some snap, d_journal := []\<rparr>\<rparr>)"

section \<open>The background writer\<close>

definition flushSync :: "FSStore \<Rightarrow> FSStore" where
  "flushSync fs =
     fs\<lparr>fs_pending := [],
        fs_disk := (fs_disk fs)\<lparr>d_journal := d_journal (fs_disk fs) @ map Line (fs_pending fs)\<rparr>\<rparr>"

definition doCompact :: "FSStore \<Rightarrow> FSStore" where
  "doCompact fs = (compact (flushSync fs))\<lparr>fs_entryCount := 0\<rparr>"

definition writeEntry :: "FSStore \<Rightarrow> journalEntry \<Rightarrow> FSStore" where
  "writeEntry fs e =
     (let fs1 = fs\<lparr>fs_pending := fs_pending fs @ [e], fs_entryCount := fs_entryCount fs + 1\<rparr>;
          fs2 = (if SyncInterval (fs_cfg fs1) = 0 then flushSync fs1 else fs1)
      in if CompactAfter (fs_cfg fs2) \<le> fs_entryCount fs2 then doCompact fs2 else fs2)"

text \<open>One round of the loop of \<^verbatim>\<open>runWriter\<close> that takes an entry from the channel.\<close>

definition runWriter_entry :: "FSStore \<Rightarrow> FSStore" where
  "runWriter_entry fs =
     (case fs_journalCh fs of [] \<Rightarrow> fs | e # es \<Rightarrow> writeEntry (fs\<lparr>fs_journalCh := es\<rparr>) e)"

text \<open>After \<^verbatim>\<open>done\<close> is closed the writer empties the channel and flushes.\<close>

definition Close :: "FSStore \<Rightarrow> FSStore" where
  "Close fs = flushSync (foldl writeEntry (fs\<lparr>fs_journalCh := []\<rparr>) (fs_journalCh fs))"

definition OpenFSStore :: "(journalEntry \<Rightarrow> nat) \<Rightarrow> FSStoreConfig \<Rightarrow> disk \<Rightarrow> FSStore res" where
  "OpenFSStore sz cfg d =
     and_then (loadSnapshot hs_empty (d_snapshot d)) (\<lambda>h.
     and_then (replayJournal sz h (d_journal d)) (\<lambda>h'.
       Inr (compact \<lparr>fs_cfg = setDefaults cfg, fs_hot = h', fs_runLogBufs = [], fs_runSubscribers = [],
                     fs_jobSubscribers = [], fs_chans = [], fs_journalCh = [], fs_pending = [], fs_entryCount = 0,
                     fs_disk = d\<rparr>)))"

text \<open>
  A send on the channel waits while it is full; the writer is then the only one to make room.
\<close>

definition journal :: "FSStore \<Rightarrow> journalEntry \<Rightarrow> FSStore" where
  "journal fs e =
     (let fs1 = (if int (length (fs_journalCh fs)) < JournalBufSize (fs_cfg fs) then fs else runWriter_entry fs)
      in fs1\<lparr>fs_journalCh := fs_journalCh fs1 @ [e]\<rparr>)"

section \<open>JobStore\<close>

text \<open>
  A write changes the maps under the lock and sends its entry after releasing it: \<open>FS_SaveJob_mem\<close>
  and the like are the locked part, which yields the entry to send.
\<close>

definition FS_SaveJob_mem :: "FSStore \<Rightarrow> Job \<Rightarrow> FSStore \<times> journalEntry" where
  "FS_SaveJob_mem fs job = (fs\<lparr>fs_hot := put_job (fs_hot fs) job\<rparr>, opJob job)"

definition FS_SaveJob :: "FSStore \<Rightarrow> Job \<Rightarrow> FSStore" where
  "FS_SaveJob fs job = (case FS_SaveJob_mem fs job of (fs1, e) \<Rightarrow> journal fs1 e)"

definition FS_GetJob :: "FSStore \<Rightarrow> string \<Rightarrow> Job res" where
  "FS_GetJob fs i = (case map_of (hs_jobs (fs_hot fs)) i of None \<Rightarrow> Inl (NotFound ''job'' i) | Some job \<Rightarrow> Inr job)"

definition FS_UpdateJob_mem :: "FSStore \<Rightarrow> string \<Rightarrow> (Job \<Rightarrow> Job) \<Rightarrow> (FSStore \<times> journalEntry) res" where
  "FS_UpdateJob_mem fs i mutate =
     (case map_of (hs_jobs (fs_hot fs)) i of
        None \<Rightarrow> Inl (NotFound ''job'' i)
      | Some job \<Rightarrow>
          Inr (fs\<lparr>fs_hot := (fs_hot fs)\<lparr>hs_jobs := AList.update i (mutate job) (hs_jobs (fs_hot fs))\<rparr>\<rparr>, opJob (mutate job)))"

definition FS_UpdateJob :: "FSStore \<Rightarrow> string \<Rightarrow> (Job \<Rightarrow> Job) \<Rightarrow> FSStore res" where
  "FS_UpdateJob fs i mutate =
     (case FS_UpdateJob_mem fs i mutate of Inl err \<Rightarrow> Inl err | Inr (fs1, e) \<Rightarrow> Inr (journal fs1 e))"

definition FS_ListJobs :: "FSStore \<Rightarrow> string \<Rightarrow> int \<Rightarrow> (Job list \<times> string) res" where
  "FS_ListJobs fs cursor limit =
     (let alls = sort_slice created_desc (filter (\<lambda>j. jParentJobID j = []) (map snd (hs_jobs (fs_hot fs))));
          start = (if cursor = [] then 0 else case cursor_start alls cursor of None \<Rightarrow> 0 | Some k \<Rightarrow> k)
      in if length alls \<le> start then Inr ([], [])
         else let e0 = wrap64 (int start + limit);
                  e = (if int (length alls) < e0 then int (length alls) else e0)
              in if e < int start then Inl (Panic ''slice bounds out of range'')
                 else let page = take (nat e - start) (drop start alls)
                      in if e < int (length alls)
                         then (if page = [] then Inl (Panic ''index out of range'') else Inr (page, jID (last page)))
                         else Inr (page, []))"

definition FS_ListPendingJobs :: "FSStore \<Rightarrow> Job list" where
  "FS_ListPendingJobs fs =
     sort_slice (\<lambda>a b. jPriority b < jPriority a)
       (filter (\<lambda>j. jStatus j = JobStatusPending) (map snd (hs_jobs (fs_hot fs))))"

definition FS_ListRecoverableJobs :: "FSStore \<Rightarrow> Job list" where
  "FS_ListRecoverableJobs fs =
     filter (\<lambda>j. jStatus j = JobStatusProposing \<or> jStatus j = JobStatusProvisioning \<or> jStatus j = JobStatusRunning)
       (map snd (hs_jobs (fs_hot fs)))"

definition FS_ListChildJobs :: "FSStore \<Rightarrow> string \<Rightarrow> Job list" where
  "FS_ListChildJobs fs parentJobID =
     sort_slice (\<lambda>a b. jCreatedAt a < jCreatedAt b)
       (filter (\<lambda>j. jParentJobID j = parentJobID) (map snd (hs_jobs (fs_hot fs))))"

definition FS_CountJobsByStatus :: "FSStore \<Rightarrow> (JobStatus, int) gomap" where
  "FS_CountJobsByStatus fs = count_statuses [] (map snd (hs_jobs (fs_hot fs)))"

section \<open>TaskStore\<close>

definition FS_SaveTask :: "FSStore \<Rightarrow> Task \<Rightarrow> FSStore" where
  "FS_SaveTask fs task = journal (fs\<lparr>fs_hot := put_task (fs_hot fs) task\<rparr>) (opTaskDef task)"

definition FS_GetTask :: "FSStore \<Rightarrow> string \<Rightarrow> Task res" where
  "FS_GetTask fs name =
     (case map_of (hs_taskDefs (fs_hot fs)) name of None \<Rightarrow> Inl (NotFound ''task'' name) | Some t \<Rightarrow> Inr t)"

definition FS_ListTasks :: "FSStore \<Rightarrow> Task list" where
  "FS_ListTasks fs = sort_slice (\<lambda>a b. string_less (tName a) (tName b)) (map snd (hs_taskDefs (fs_hot fs)))"

definition FS_UpdateTask :: "FSStore \<Rightarrow> string \<Rightarrow> (Task \<Rightarrow> Task) \<Rightarrow> FSStore res" where
  "FS_UpdateTask fs name mutate =
     (case map_of (hs_taskDefs (fs_hot fs)) name of
        None \<Rightarrow> Inl (NotFound ''task'' name)
      | Some t \<Rightarrow>
          Inr (journal (fs\<lparr>fs_hot := (fs_hot fs)\<lparr>hs_taskDefs := AList.update name (mutate t) (hs_taskDefs (fs_hot fs))\<rparr>\<rparr>)
                 (opTaskDef (mutate t))))"

definition FS_DeleteTask :: "FSStore \<Rightarrow> string \<Rightarrow> FSStore res" where
  "FS_DeleteTask fs name =
     (case map_of (hs_taskDefs (fs_hot fs)) name of
        None \<Rightarrow> Inl (NotFound ''task'' name)
      | Some t \<Rightarrow>
          Inr (journal (fs\<lparr>fs_hot := (fs_hot fs)\<lparr>hs_taskDefs := AList.delete name (hs_taskDefs (fs_hot fs))\<rparr>\<rparr>)
                 (opTaskDefDelete name)))"

section \<open>RunStore and WebhookStore\<close>

definition FS_CreateRun :: "FSStore \<Rightarrow> JobRun \<Rightarrow> FSStore" where
  "FS_CreateRun fs run = journal (fs\<lparr>fs_hot := put_run (fs_hot fs) run\<rparr>) (opRunCreate run)"

definition FS_UpdateRun :: "FSStore \<Rightarrow> string \<Rightarrow> (JobRun \<Rightarrow> JobRun) \<Rightarrow> FSStore res" where
  "FS_UpdateRun fs i mutate =
     (case map_of (hs_runs (fs_hot fs)) i of
        None \<Rightarrow> Inl (NotFound ''run'' i)
      | Some run \<Rightarrow>
          Inr (journal (fs\<lparr>fs_hot := (fs_hot fs)\<lparr>hs_runs := AList.update i (mutate run) (hs_runs (fs_hot fs))\<rparr>\<rparr>)
                 (opRunUpdate (mutate run))))"

definition FS_GetRun :: "FSStore \<Rightarrow> string \<Rightarrow> JobRun res" where
  "FS_GetRun fs i = (case map_of (hs_runs (fs_hot fs)) i of None \<Rightarrow> Inl (NotFound ''run'' i) | Some run \<Rightarrow> Inr run)"

definition FS_ListJobRuns :: "FSStore \<Rightarrow> string \<Rightarrow> JobRun list" where
  "FS_ListJobRuns fs jobID =
     sort_slice (\<lambda>a b. if IsZero (rStartedAt a) \<or> IsZero (rStartedAt b) then rAttempt a < rAttempt b
                       else rStartedAt a < rStartedAt b)
       (filter (\<lambda>r. rJobID r = jobID) (map snd (hs_runs (fs_hot fs))))"

definition FS_EnqueueWebhook :: "FSStore \<Rightarrow> WebhookEntry \<Rightarrow> FSStore" where
  "FS_EnqueueWebhook fs e = journal (fs\<lparr>fs_hot := put_webhook (fs_hot fs) e\<rparr>) (opWebhookEnqueue e)"

definition FS_DequeueWebhooks :: "FSStore \<Rightarrow> time \<Rightarrow> WebhookEntry list" where
  "FS_DequeueWebhooks fs now = filter (\<lambda>e. \<not> now < whNextAttemptAt e) (map snd (hs_webhooks (fs_hot fs)))"

definition FS_AckWebhook :: "FSStore \<Rightarrow> string \<Rightarrow> FSStore" where
  "FS_AckWebhook fs i =
     journal (fs\<lparr>fs_hot := (fs_hot fs)\<lparr>hs_webhooks := AList.delete i (hs_webhooks (fs_hot fs))\<rparr>\<rparr>) (opWebhookAck i)"

definition FS_NackWebhook :: "FSStore \<Rightarrow> string \<Rightarrow> int \<Rightarrow> time \<Rightarrow> FSStore res" where
  "FS_NackWebhook fs i attempts nextAttemptAt =
     (case map_of (hs_webhooks (fs_hot fs)) i of
        None \<Rightarrow> Inl (NotFound ''webhook entry'' i)
      | Some e \<Rightarrow>
          Inr (journal
                 (fs\<lparr>fs_hot := (fs_hot fs)\<lparr>hs_webhooks :=
                        AList.update i (e\<lparr>whAttempts := attempts, whNextAttemptAt := nextAttemptAt\<rparr>) (hs_webhooks (fs_hot fs))\<rparr>\<rparr>)
                 (opWebhookNack i attempts nextAttemptAt)))"

section \<open>LogStore\<close>

text \<open>Every chunk is followed by a newline, in the file as in the buffer of the process.\<close>

definition FS_AppendRunLog :: "FSStore \<Rightarrow> string \<Rightarrow> bytes \<Rightarrow> FSStore res" where
  "FS_AppendRunLog fs runID chunk =
     (let line = chunk @ newline;
          file = (case map_of (d_runLogs (fs_disk fs)) runID of None \<Rightarrow> [] | Some b \<Rightarrow> b);
          buf = (case map_of (fs_runLogBufs fs) runID of None \<Rightarrow> [] | Some b \<Rightarrow> b);
          fs1 = fs\<lparr>fs_disk := (fs_disk fs)\<lparr>d_runLogs := AList.update runID (file @ line) (d_runLogs (fs_disk fs))\<rparr>,
                   fs_runLogBufs := AList.update runID (buf @ line) (fs_runLogBufs fs)\<rparr>;
          runSubs = slice_at (fs_runSubscribers fs) runID;
          jobSubs = (case map_of (hs_runs (fs_hot fs)) runID of
                       None \<Rightarrow> [] | Some run \<Rightarrow> slice_at (fs_jobSubscribers fs) (rJobID run))
      in and_then (chan_try_send_all (fs_chans fs1) runSubs line) (\<lambda>cs.
         and_then (chan_try_send_all cs jobSubs line) (\<lambda>cs'. Inr (fs1\<lparr>fs_chans := cs'\<rparr>))))"

definition FS_GetRunLogReader :: "FSStore \<Rightarrow> string \<Rightarrow> bytes" where
  "FS_GetRunLogReader fs runID = (case map_of (d_runLogs (fs_disk fs)) runID of None \<Rightarrow> [] | Some b \<Rightarrow> b)"

definition FS_GetJobLogReader :: "FSStore \<Rightarrow> string \<Rightarrow> bytes" where
  "FS_GetJobLogReader fs jobID =
     (let runs = FS_ListJobRuns fs jobID
      in if runs = [] then (case map_of (d_legacyLogs (fs_disk fs)) jobID of Some b \<Rightarrow> b | None \<Rightarrow> [])
         else concat (map (\<lambda>r. FS_GetRunLogReader fs (rID r)) runs))"

definition FS_GetRootJobLogReader :: "FSStore \<Rightarrow> string \<Rightarrow> bytes" where
  "FS_GetRootJobLogReader fs rootJobID =
     concat (map (FS_GetJobLogReader fs) (rootJobID # map jID (FS_ListChildJobs fs rootJobID)))"

definition FS_SubscribeJobLogs :: "FSStore \<Rightarrow> string \<Rightarrow> (nat \<times> FSStore) option" where
  "FS_SubscribeJobLogs fs jobID =
     (let buffered = filter (\<lambda>b. b \<noteq> [])
            (map (\<lambda>r. case map_of (fs_runLogBufs fs) (rID r) of None \<Rightarrow> [] | Some b \<Rightarrow> b) (FS_ListJobRuns fs jobID));
          a = length (fs_chans fs)
      in if chan_cap < length buffered then None
         else Some (a, fs\<lparr>fs_chans := fs_chans fs @ [\<lparr>ch_buf = buffered, ch_closed = False\<rparr>],
                          fs_jobSubscribers :=
                            AList.update jobID (slice_at (fs_jobSubscribers fs) jobID @ [a]) (fs_jobSubscribers fs)\<rparr>))"

definition FS_SubscribeJobLogs_done :: "FSStore \<Rightarrow> string \<Rightarrow> nat \<Rightarrow> FSStore res" where
  "FS_SubscribeJobLogs_done fs jobID a =
     (let subs = slice_at (fs_jobSubscribers fs) jobID;
          fs1 = (if a \<in> set subs
                 then fs\<lparr>fs_jobSubscribers := AList.update jobID (remove1 a subs) (fs_jobSubscribers fs)\<rparr> else fs)
      in and_then (chan_close (fs_chans fs1) a) (\<lambda>cs. Inr (fs1\<lparr>fs_chans := cs\<rparr>)))"

definition FS_SubscribeRunLogs :: "FSStore \<Rightarrow> string \<Rightarrow> nat \<times> FSStore" where
  "FS_SubscribeRunLogs fs runID =
     (let buffered = (case map_of (fs_runLogBufs fs) runID of None \<Rightarrow> [] | Some b \<Rightarrow> if b = [] then [] else [b]);
          a = length (fs_chans fs)
      in (a, fs\<lparr>fs_chans := fs_chans fs @ [\<lparr>ch_buf = buffered, ch_closed = False\<rparr>],
                fs_runSubscribers :=
                  AList.update runID (slice_at (fs_runSubscribers fs) runID @ [a]) (fs_runSubscribers fs)\<rparr>))"

definition FS_CloseRunLogSubscribers :: "FSStore \<Rightarrow> string \<Rightarrow> FSStore res" where
  "FS_CloseRunLogSubscribers fs runID =
     and_then (chan_close_all (fs_chans fs) (slice_at (fs_runSubscribers fs) runID))
       (\<lambda>cs. Inr (fs\<lparr>fs_chans := cs, fs_runSubscribers := AList.delete runID (fs_runSubscribers fs)\<rparr>))"

definition FS_CloseJobLogSubscribers :: "FSStore \<Rightarrow> string \<Rightarrow> FSStore res" where
  "FS_CloseJobLogSubscribers fs jobID =
     and_then (chan_close_all (fs_chans fs) (slice_at (fs_jobSubscribers fs) jobID))
       (\<lambda>cs. Inr (fs\<lparr>fs_chans := cs, fs_jobSubscribers := AList.delete jobID (fs_jobSubscribers fs)\<rparr>))"

end
