(* ===== verification/FS_Recovery.thy ===== *)
theory FS_Recovery
  imports FS_Store "HOL-Library.Sublist"
begin

text \<open>
  What the store with a journal recovers. Each entry of the journal acts on the value stored under one
  key; a run of the store interleaves writes, log lines, rounds of the background writer and flushes.
\<close>

section \<open>Keys and values\<close>

datatype key = KJob string | KTask string | KRun string | KHook string

datatype entity = EJob Job | ETask Task | ERun JobRun | EHook WebhookEntry

definition look :: "hotState \<Rightarrow> key \<Rightarrow> entity option" where
  "look h k =
     (case k of
        KJob i \<Rightarrow> map_option EJob (map_of (hs_jobs h) i)
      | KTask i \<Rightarrow> map_option ETask (map_of (hs_taskDefs h) i)
      | KRun i \<Rightarrow> map_option ERun (map_of (hs_runs h) i)
      | KHook i \<Rightarrow> map_option EHook (map_of (hs_webhooks h) i))"

fun nack :: "int \<Rightarrow> time \<Rightarrow> entity \<Rightarrow> entity" where
  "nack a t (EHook w) = EHook (w\<lparr>whAttempts := a, whNextAttemptAt := t\<rparr>)"
| "nack a t x = x"

definition act :: "journalEntry \<Rightarrow> key \<Rightarrow> entity option \<Rightarrow> entity option" where
  "act e k v =
     (case e of
        opJob j \<Rightarrow> (if k = KJob (jID j) then Some (EJob j) else v)
      | opTaskDef t \<Rightarrow> (if k = KTask (tName t) then Some (ETask t) else v)
      | opTaskDefDelete i \<Rightarrow> (if k = KTask i then None else v)
      | opWebhookEnqueue w \<Rightarrow> (if k = KHook (whID w) then Some (EHook w) else v)
      | opWebhookAck i \<Rightarrow> (if k = KHook i then None else v)
      | opWebhookNack i a t \<Rightarrow> (if k = KHook i then map_option (nack a t) v else v)
      | opRunCreate r \<Rightarrow> (if k = KRun (rID r) then Some (ERun r) else v)
      | opRunUpdate r \<Rightarrow> (if k = KRun (rID r) then Some (ERun r) else v))"

definition acts :: "journalEntry list \<Rightarrow> key \<Rightarrow> entity option \<Rightarrow> entity option" where
  "acts es k v = foldl (\<lambda>v e. act e k v) v es"

lemma acts_simps [simp]:
  "acts [] k v = v" "acts (e # es) k v = acts es k (act e k v)" "acts (es @ fs) k v = acts fs k (acts es k v)"
  by (simp_all add: acts_def)

lemma nack_nack [simp]: "nack a t (nack b u x) = nack a t x"
  by (cases x) simp_all

lemma act_shape: "(\<exists>c. \<forall>v. act e k v = c) \<or> (\<exists>a t. \<forall>v. act e k v = map_option (nack a t) v) \<or> (\<forall>v. act e k v = v)"
  by (cases e) (auto simp: act_def)

lemma acts_shape: "(\<exists>c. \<forall>v. acts es k v = c) \<or> (\<exists>a t. \<forall>v. acts es k v = map_option (nack a t) v) \<or> (\<forall>v. acts es k v = v)"
proof (induction es rule: rev_induct)
  case Nil
  then show ?case by simp
next
  case (snoc e es)
  from snoc act_shape [of e k] show ?case
    by (elim disjE exE) (auto simp: option.map_comp comp_def)
qed

lemma acts_idem: "acts es k (acts es k v) = acts es k v"
  using acts_shape [of es k] by (elim disjE exE) (auto simp: option.map_comp comp_def)

lemma acts_job: "(\<forall>v w. acts es (KJob i) v = acts es (KJob i) w) \<or> (\<forall>v. acts es (KJob i) v = v)"
proof (induction es rule: rev_induct)
  case (snoc e es)
  then show ?case by (cases e) (auto simp: act_def)
qed simp

section \<open>Reading an entity back\<close>

definition reload_entity :: "entity \<Rightarrow> entity res" where
  "reload_entity x =
     (case x of
        EJob j \<Rightarrow> and_then (reload_job j) (\<lambda>j. Inr (EJob j))
      | ETask t \<Rightarrow> Inr (ETask t)
      | ERun r \<Rightarrow> and_then (reload_run r) (\<lambda>r. Inr (ERun r))
      | EHook w \<Rightarrow> Inr (EHook w))"

definition decodable :: "entity \<Rightarrow> bool" where
  "decodable x \<longleftrightarrow> (\<exists>y. reload_entity x = Inr y)"

definition reloaded :: "entity \<Rightarrow> entity" where
  "reloaded x = (case reload_entity x of Inr y \<Rightarrow> y | Inl e \<Rightarrow> x)"

fun entry_data :: "journalEntry \<Rightarrow> entity option" where
  "entry_data (opJob j) = Some (EJob j)"
| "entry_data (opTaskDef t) = Some (ETask t)"
| "entry_data (opWebhookEnqueue w) = Some (EHook w)"
| "entry_data (opRunCreate r) = Some (ERun r)"
| "entry_data (opRunUpdate r) = Some (ERun r)"
| "entry_data _ = None"

text \<open>An entry that can be read back: its entity decodes and its line fits the scanner.\<close>

definition storable :: "(journalEntry \<Rightarrow> nat) \<Rightarrow> journalEntry \<Rightarrow> bool" where
  "storable sz e \<longleftrightarrow> sz e \<le> max_line \<and> (case entry_data e of None \<Rightarrow> True | Some x \<Rightarrow> decodable x)"

lemma reload_job_id: "reload_job j = Inr j' \<Longrightarrow> jID j' = jID j"
  by (auto simp: reload_job_def and_then_Inr_iff)

lemma reload_run_id: "reload_run r = Inr r' \<Longrightarrow> rID r' = rID r"
  by (auto simp: reload_run_def and_then_Inr_iff)

lemma reloaded_nack [simp]: "reloaded (nack a t x) = nack a t (reloaded x)"
  by (cases x) (auto simp: reloaded_def reload_entity_def and_then_def split: sum.split)

lemma decodable_job: "decodable (EJob j) \<Longrightarrow> \<exists>j'. reload_job j = Inr j' \<and> reloaded (EJob j) = EJob j' \<and> jID j' = jID j"
  by (auto simp: decodable_def reloaded_def reload_entity_def and_then_Inr_iff reload_job_id)

lemma decodable_run: "decodable (ERun r) \<Longrightarrow> \<exists>r'. reload_run r = Inr r' \<and> reloaded (ERun r) = ERun r' \<and> rID r' = rID r"
  by (auto simp: decodable_def reloaded_def reload_entity_def and_then_Inr_iff reload_run_id)

lemma reloaded_simps [simp]: "reloaded (ETask t) = ETask t" "reloaded (EHook w) = EHook w"
  by (simp_all add: reloaded_def reload_entity_def)

lemma look_put:
  "look (put_job h j) k = (if k = KJob (jID j) then Some (EJob j) else look h k)"
  "look (put_task h t) k = (if k = KTask (tName t) then Some (ETask t) else look h k)"
  "look (put_run h r) k = (if k = KRun (rID r) then Some (ERun r) else look h k)"
  "look (put_webhook h w) k = (if k = KHook (whID w) then Some (EHook w) else look h k)"
  by (auto simp: look_def put_job_def put_task_def put_run_def put_webhook_def update_conv' split: key.split)

lemma look_upd:
  "look (h\<lparr>hs_jobs := AList.update i j (hs_jobs h)\<rparr>) k = (if k = KJob i then Some (EJob j) else look h k)"
  "look (h\<lparr>hs_taskDefs := AList.update i t (hs_taskDefs h)\<rparr>) k = (if k = KTask i then Some (ETask t) else look h k)"
  "look (h\<lparr>hs_runs := AList.update i r (hs_runs h)\<rparr>) k = (if k = KRun i then Some (ERun r) else look h k)"
  "look (h\<lparr>hs_webhooks := AList.update i w (hs_webhooks h)\<rparr>) k = (if k = KHook i then Some (EHook w) else look h k)"
  "look (h\<lparr>hs_taskDefs := AList.delete i (hs_taskDefs h)\<rparr>) k = (if k = KTask i then None else look h k)"
  "look (h\<lparr>hs_webhooks := AList.delete i (hs_webhooks h)\<rparr>) k = (if k = KHook i then None else look h k)"
  by (auto simp: look_def update_conv' delete_conv' split: key.split)

lemma look_hook: "look h (KHook i) = map_option EHook (map_of (hs_webhooks h) i)"
  by (simp add: look_def)

text \<open>
  Applying an entry to a state whose values are read back: the value of every key is what the entry makes
  of the original value, read back.
\<close>

lemma applyJournalEntry_act:
  assumes "storable sz e" "\<And>k. look h k = map_option reloaded (v k)"
  shows "\<exists>h'. applyJournalEntry h e = Inr h' \<and> (\<forall>k. look h' k = map_option reloaded (act e k (v k)))"
proof (cases e)
  case (opJob j)
  then obtain j' where "reload_job j = Inr j'" "reloaded (EJob j) = EJob j'" "jID j' = jID j"
    using assms(1) decodable_job by (auto simp: storable_def)
  then show ?thesis using assms(2) opJob by (simp add: applyJournalEntry_def look_put act_def)
next
  case (opRunCreate r)
  then obtain r' where "reload_run r = Inr r'" "reloaded (ERun r) = ERun r'" "rID r' = rID r"
    using assms(1) decodable_run by (auto simp: storable_def)
  then show ?thesis using assms(2) opRunCreate by (simp add: applyJournalEntry_def look_put act_def)
next
  case (opRunUpdate r)
  then obtain r' where "reload_run r = Inr r'" "reloaded (ERun r) = ERun r'" "rID r' = rID r"
    using assms(1) decodable_run by (auto simp: storable_def)
  then show ?thesis using assms(2) opRunUpdate by (simp add: applyJournalEntry_def look_put act_def)
next
  case (opTaskDef t)
  then show ?thesis using assms(2) by (simp add: applyJournalEntry_def look_put act_def)
next
  case (opWebhookEnqueue w)
  then show ?thesis using assms(2) by (simp add: applyJournalEntry_def look_put act_def)
next
  case (opTaskDefDelete i)
  then show ?thesis using assms(2) by (simp add: applyJournalEntry_def act_def look_upd)
next
  case (opWebhookAck i)
  then show ?thesis using assms(2) by (simp add: applyJournalEntry_def act_def look_upd)
next
  case (opWebhookNack i a t)
  note w = assms(2) [of "KHook i", unfolded look_hook]
  show ?thesis
  proof (cases "map_of (hs_webhooks h) i")
    case None
    then have "v (KHook i) = None" using w by simp
    then show ?thesis using None assms(2) opWebhookNack by (simp add: applyJournalEntry_def act_def)
  next
    case (Some x)
    then obtain y where y: "v (KHook i) = Some y" "reloaded y = EHook x" using w by (cases "v (KHook i)") auto
    then show ?thesis using Some assms(2) opWebhookNack by (simp add: applyJournalEntry_def act_def look_upd)
  qed
qed

lemma replayJournal_acts:
  assumes "\<forall>e \<in> set J. storable sz e" "\<And>k. look h k = map_option reloaded (v k)" "T = [] \<or> (\<exists>T'. T = Torn # T')"
  shows "\<exists>h'. replayJournal sz h (map Line J @ T) = Inr h' \<and> (\<forall>k. look h' k = map_option reloaded (acts J k (v k)))"
  using assms(1,2)
proof (induction J arbitrary: h v)
  case Nil
  then show ?case using assms(3) by auto
next
  case (Cons e J)
  obtain h1 where h1: "applyJournalEntry h e = Inr h1" "\<forall>k. look h1 k = map_option reloaded (act e k (v k))"
    using applyJournalEntry_act [of sz e h v] Cons.prems by auto
  have "\<not> max_line < sz e" using Cons.prems(1) by (simp add: storable_def)
  moreover obtain h' where "replayJournal sz h1 (map Line J @ T) = Inr h'"
      "\<forall>k. look h' k = map_option reloaded (acts J k (act e k (v k)))"
    using Cons.IH [of h1 "\<lambda>k. act e k (v k)"] Cons.prems(1) h1(2) by auto
  ultimately show ?case using h1(1) by simp
qed

section \<open>Reading a snapshot back\<close>

definition keyed :: "('v \<Rightarrow> 'k) \<Rightarrow> ('k, 'v) gomap \<Rightarrow> bool" where
  "keyed ident m \<longleftrightarrow> distinct (map fst m) \<and> (\<forall>(i, v) \<in> set m. ident v = i)"

lemma keyed_update: "keyed ident m \<Longrightarrow> ident v = i \<Longrightarrow> keyed ident (AList.update i v m)"
  using set_update_subset [of i v m] by (auto simp: keyed_def distinct_update)

lemma keyed_delete: "keyed ident m \<Longrightarrow> keyed ident (AList.delete i m)"
  using distinct_delete [of m i] by (auto simp: keyed_def AList.delete_eq)

lemma keyed_lookup: "keyed ident m \<Longrightarrow> map_of m i = Some v \<Longrightarrow> ident v = i"
  by (auto simp: keyed_def)

definition hot_wf :: "hotState \<Rightarrow> bool" where
  "hot_wf h \<longleftrightarrow> keyed jID (hs_jobs h) \<and> keyed tName (hs_taskDefs h) \<and> keyed rID (hs_runs h) \<and> keyed whID (hs_webhooks h)"

definition snap_of :: "hotState \<Rightarrow> snapshot" where
  "snap_of h = \<lparr>snap_Version = 1, snap_Jobs = map snd (hs_jobs h), snap_TaskDefs = map snd (hs_taskDefs h),
     snap_Webhooks = map snd (hs_webhooks h), snap_Runs = map snd (hs_runs h)\<rparr>"

lemma compact_snap: "compact fs = fs\<lparr>fs_disk := (fs_disk fs)\<lparr>d_snapshot := Some (snap_of (fs_hot fs)), d_journal := []\<rparr>\<rparr>"
  by (simp add: compact_def snap_of_def Let_def)

text \<open>Values put one after the other under their own distinct keys.\<close>

lemma map_of_foldl_update:
  assumes "distinct (map ident vs)"
  shows "map_of (foldl (\<lambda>m v. AList.update (ident v) v m) m vs) k =
     (case map_of (map (\<lambda>v. (ident v, v)) vs) k of None \<Rightarrow> map_of m k | Some v \<Rightarrow> Some v)"
  using assms
proof (induction vs arbitrary: m)
  case (Cons v vs)
  then have "map_of (map (\<lambda>v. (ident v, v)) vs) (ident v) = None" by (auto simp: map_of_eq_None_iff)
  then show ?case using Cons by (simp add: update_conv' split: option.split)
qed simp

lemma map_res_ok: "\<forall>x \<in> set xs. f x = Inr (g x) \<Longrightarrow> map_res f xs = Inr (map g xs)"
  by (induction xs) simp_all

lemma foldl_put:
  "hs_jobs (foldl put_job h js) = foldl (\<lambda>m v. AList.update (jID v) v m) (hs_jobs h) js"
  "hs_taskDefs (foldl put_task h ts) = foldl (\<lambda>m v. AList.update (tName v) v m) (hs_taskDefs h) ts"
  "hs_runs (foldl put_run h rs) = foldl (\<lambda>m v. AList.update (rID v) v m) (hs_runs h) rs"
  "hs_webhooks (foldl put_webhook h ws) = foldl (\<lambda>m v. AList.update (whID v) v m) (hs_webhooks h) ws"
  by (induction js arbitrary: h, simp_all add: put_job_def)
    (induction ts arbitrary: h, simp_all add: put_task_def,
     induction rs arbitrary: h, simp_all add: put_run_def,
     induction ws arbitrary: h, simp_all add: put_webhook_def)

lemma foldl_put_frame:
  "hs_taskDefs (foldl put_job h js) = hs_taskDefs h" "hs_runs (foldl put_job h js) = hs_runs h"
  "hs_webhooks (foldl put_job h js) = hs_webhooks h" "hs_jobs (foldl put_task h ts) = hs_jobs h"
  "hs_runs (foldl put_task h ts) = hs_runs h" "hs_webhooks (foldl put_task h ts) = hs_webhooks h"
  "hs_jobs (foldl put_run h rs) = hs_jobs h" "hs_taskDefs (foldl put_run h rs) = hs_taskDefs h"
  "hs_webhooks (foldl put_run h rs) = hs_webhooks h" "hs_jobs (foldl put_webhook h ws) = hs_jobs h"
  "hs_taskDefs (foldl put_webhook h ws) = hs_taskDefs h" "hs_runs (foldl put_webhook h ws) = hs_runs h"
proof -
  show "hs_taskDefs (foldl put_job h js) = hs_taskDefs h" "hs_runs (foldl put_job h js) = hs_runs h"
    "hs_webhooks (foldl put_job h js) = hs_webhooks h" by (induction js arbitrary: h) (simp_all add: put_job_def)
  show "hs_jobs (foldl put_task h ts) = hs_jobs h"
    "hs_runs (foldl put_task h ts) = hs_runs h" "hs_webhooks (foldl put_task h ts) = hs_webhooks h"
    by (induction ts arbitrary: h) (simp_all add: put_task_def)
  show "hs_jobs (foldl put_run h rs) = hs_jobs h" "hs_taskDefs (foldl put_run h rs) = hs_taskDefs h"
    "hs_webhooks (foldl put_run h rs) = hs_webhooks h" by (induction rs arbitrary: h) (simp_all add: put_run_def)
  show "hs_jobs (foldl put_webhook h ws) = hs_jobs h"
    "hs_taskDefs (foldl put_webhook h ws) = hs_taskDefs h" "hs_runs (foldl put_webhook h ws) = hs_runs h"
    by (induction ws arbitrary: h) (simp_all add: put_webhook_def)
qed

lemma reload_list:
  assumes "keyed ident m" "\<And>v. v \<in> snd ` set m \<Longrightarrow> ident (g v) = ident v"
  shows "map_of (foldl (\<lambda>m v. AList.update (ident v) v m) [] (map g (map snd m))) k = map_option g (map_of m k)"
proof -
  have k: "\<forall>(i, v) \<in> set m. ident v = i" "distinct (map fst m)" using assms(1) by (auto simp: keyed_def)
  have ids: "map ident (map g (map snd m)) = map fst m" using k(1) assms(2) by (induction m) force+
  have eq: "map (\<lambda>v. (ident v, v)) (map g (map snd m)) = map (\<lambda>(i, v). (i, g v)) m"
    using k(1) assms(2) by (induction m) force+
  have "map_of (map (\<lambda>v. (ident v, v)) (map g (map snd m))) k = map_option g (map_of m k)"
    unfolding eq by (simp add: map_of_map)
  moreover have "distinct (map ident (map g (map snd m)))" unfolding ids by (rule k(2))
  note map_of_foldl_update [OF this, of "[]" k]
  ultimately show ?thesis by (simp del: map_map split: option.split)
qed

definition hot_decodable :: "hotState \<Rightarrow> bool" where
  "hot_decodable h \<longleftrightarrow> (\<forall>k x. look h k = Some x \<longrightarrow> decodable x)"

lemma wf_values:
  assumes "hot_wf h" "hot_decodable h"
  shows "j \<in> snd ` set (hs_jobs h) \<Longrightarrow> decodable (EJob j)" "r \<in> snd ` set (hs_runs h) \<Longrightarrow> decodable (ERun r)"
proof -
  assume "j \<in> snd ` set (hs_jobs h)"
  then obtain i where "map_of (hs_jobs h) i = Some j" using assms(1) by (auto simp: hot_wf_def keyed_def)
  then have "look h (KJob i) = Some (EJob j)" by (simp add: look_def)
  then show "decodable (EJob j)" using assms(2) by (simp add: hot_decodable_def)
next
  assume "r \<in> snd ` set (hs_runs h)"
  then obtain i where "map_of (hs_runs h) i = Some r" using assms(1) by (auto simp: hot_wf_def keyed_def)
  then have "look h (KRun i) = Some (ERun r)" by (simp add: look_def)
  then show "decodable (ERun r)" using assms(2) by (simp add: hot_decodable_def)
qed

lemma loadSnapshot_look:
  assumes "hot_wf h" "hot_decodable h"
  shows "\<exists>h'. loadSnapshot hs_empty (Some (snap_of h)) = Inr h' \<and> (\<forall>k. look h' k = map_option reloaded (look h k))"
proof -
  define rj where "rj j = (case reloaded (EJob j) of EJob j' \<Rightarrow> j' | _ \<Rightarrow> j)" for j
  define rr where "rr r = (case reloaded (ERun r) of ERun r' \<Rightarrow> r' | _ \<Rightarrow> r)" for r
  have j: "reload_job j = Inr (rj j)" "reloaded (EJob j) = EJob (rj j)" "jID (rj j) = jID j"
    if "j \<in> snd ` set (hs_jobs h)" for j
    using decodable_job [OF wf_values(1) [OF assms that]] by (auto simp: rj_def)
  have r: "reload_run r = Inr (rr r)" "reloaded (ERun r) = ERun (rr r)" "rID (rr r) = rID r"
    if "r \<in> snd ` set (hs_runs h)" for r
    using decodable_run [OF wf_values(2) [OF assms that]] by (auto simp: rr_def)
  let ?js = "map rj (map snd (hs_jobs h))" and ?rs = "map rr (map snd (hs_runs h))"
  have "map_res reload_job (map snd (hs_jobs h)) = Inr ?js" "map_res reload_run (map snd (hs_runs h)) = Inr ?rs"
    by (rule map_res_ok, simp only: set_map, use j(1) r(1) in blast)+
  then obtain h' where h': "loadSnapshot hs_empty (Some (snap_of h)) = Inr h'"
      "h' = foldl put_run (foldl put_webhook (foldl put_task (foldl put_job hs_empty ?js) (map snd (hs_taskDefs h)))
              (map snd (hs_webhooks h))) ?rs"
    by (simp add: loadSnapshot_def snap_of_def)
  have wf: "keyed jID (hs_jobs h)" "keyed rID (hs_runs h)" "keyed tName (hs_taskDefs h)" "keyed whID (hs_webhooks h)"
    using assms(1) by (simp_all add: hot_wf_def)
  have "map_of (hs_jobs h') i = map_option rj (map_of (hs_jobs h) i)" for i
    using reload_list [OF wf(1), of rj i] j(3) by (simp add: h'(2) foldl_put foldl_put_frame hs_empty_def)
  moreover have "map_of (hs_runs h') i = map_option rr (map_of (hs_runs h) i)" for i
    using reload_list [OF wf(2), of rr i] r(3) by (simp add: h'(2) foldl_put foldl_put_frame hs_empty_def)
  moreover have "map_of (hs_taskDefs h') i = map_of (hs_taskDefs h) i" for i
    using reload_list [OF wf(3), of "\<lambda>t. t" i]
    by (simp add: h'(2) foldl_put foldl_put_frame hs_empty_def option.map_ident)
  moreover have "map_of (hs_webhooks h') i = map_of (hs_webhooks h) i" for i
    using reload_list [OF wf(4), of "\<lambda>t. t" i]
    by (simp add: h'(2) foldl_put foldl_put_frame hs_empty_def option.map_ident)
  moreover have "map_of (hs_jobs h) i = Some x \<Longrightarrow> x \<in> snd ` set (hs_jobs h)" for i x
    by (force dest: map_of_SomeD)
  moreover have "map_of (hs_runs h) i = Some x \<Longrightarrow> x \<in> snd ` set (hs_runs h)" for i x
    by (force dest: map_of_SomeD)
  ultimately have "look h' k = map_option reloaded (look h k)" for k
    using j(2) r(2) by (cases k) (auto simp: look_def option.map_comp comp_def intro!: option.map_cong0 split: option.split)
  then show ?thesis using h'(1) by blast
qed

section \<open>Runs of the store\<close>

text \<open>
  A write of a client: the entry it journals and the store it leaves. The functions that update a job or
  a run in place keep its identifier.
\<close>

inductive commits :: "FSStore \<Rightarrow> journalEntry \<Rightarrow> FSStore \<Rightarrow> bool" where
  save_job: "commits fs (opJob j) (FS_SaveJob fs j)"
| update_job: "FS_GetJob fs i = Inr j \<Longrightarrow> jID (f j) = i \<Longrightarrow> FS_UpdateJob fs i f = Inr fs' \<Longrightarrow> commits fs (opJob (f j)) fs'"
| save_task: "commits fs (opTaskDef t) (FS_SaveTask fs t)"
| update_task: "FS_GetTask fs i = Inr t \<Longrightarrow> tName (g t) = i \<Longrightarrow> FS_UpdateTask fs i g = Inr fs' \<Longrightarrow> commits fs (opTaskDef (g t)) fs'"
| delete_task: "FS_DeleteTask fs i = Inr fs' \<Longrightarrow> commits fs (opTaskDefDelete i) fs'"
| create_run: "commits fs (opRunCreate r) (FS_CreateRun fs r)"
| update_run: "FS_GetRun fs i = Inr r \<Longrightarrow> rID (u r) = i \<Longrightarrow> FS_UpdateRun fs i u = Inr fs' \<Longrightarrow> commits fs (opRunUpdate (u r)) fs'"
| enqueue_webhook: "commits fs (opWebhookEnqueue w) (FS_EnqueueWebhook fs w)"
| ack_webhook: "commits fs (opWebhookAck i) (FS_AckWebhook fs i)"
| nack_webhook: "FS_NackWebhook fs i a t = Inr fs' \<Longrightarrow> commits fs (opWebhookNack i a t) fs'"

inductive fs_run :: "(journalEntry \<Rightarrow> nat) \<Rightarrow> FSStore \<Rightarrow> FSStore \<Rightarrow> journalEntry list \<Rightarrow> bool" for sz fs0 where
  start: "fs_run sz fs0 fs0 []"
| client: "fs_run sz fs0 fs hist \<Longrightarrow> commits fs e fs' \<Longrightarrow> storable sz e \<Longrightarrow> fs_run sz fs0 fs' (hist @ [e])"
| background: "fs_run sz fs0 fs hist \<Longrightarrow> fs_run sz fs0 (runWriter_entry fs) hist"
| sync: "fs_run sz fs0 fs hist \<Longrightarrow> fs_run sz fs0 (flushSync fs) hist"
| log: "fs_run sz fs0 fs hist \<Longrightarrow> FS_AppendRunLog fs r chunk = Inr fs' \<Longrightarrow> fs_run sz fs0 fs' hist"

lemma hot_wf_steps:
  assumes "hot_wf h"
  shows "hot_wf (put_job h j)" "hot_wf (put_task h t)" "hot_wf (put_run h r)" "hot_wf (put_webhook h w)"
    "jID j = i \<Longrightarrow> hot_wf (h\<lparr>hs_jobs := AList.update i j (hs_jobs h)\<rparr>)"
    "tName t = i \<Longrightarrow> hot_wf (h\<lparr>hs_taskDefs := AList.update i t (hs_taskDefs h)\<rparr>)"
    "rID r = i \<Longrightarrow> hot_wf (h\<lparr>hs_runs := AList.update i r (hs_runs h)\<rparr>)"
    "whID w = i \<Longrightarrow> hot_wf (h\<lparr>hs_webhooks := AList.update i w (hs_webhooks h)\<rparr>)"
    "hot_wf (h\<lparr>hs_taskDefs := AList.delete i (hs_taskDefs h)\<rparr>)" "hot_wf (h\<lparr>hs_webhooks := AList.delete i (hs_webhooks h)\<rparr>)"
  using assms
  by (simp_all add: hot_wf_def put_job_def put_task_def put_run_def put_webhook_def keyed_update keyed_delete)

lemma commits_spec:
  assumes "commits fs e fs'"
  obtains h where "fs' = journal (fs\<lparr>fs_hot := h\<rparr>) e" "\<And>k. look h k = act e k (look (fs_hot fs) k)"
    "hot_wf (fs_hot fs) \<Longrightarrow> hot_wf h"
  using assms
proof cases
  case (save_job j)
  then show ?thesis
    using that [of "put_job (fs_hot fs) j"] by (simp add: FS_SaveJob_def FS_SaveJob_mem_def look_put act_def hot_wf_steps)
next
  case (update_job i j f)
  then have "map_of (hs_jobs (fs_hot fs)) i = Some j" by (simp add: FS_GetJob_def split: option.splits)
  then show ?thesis
    using update_job that [of "(fs_hot fs)\<lparr>hs_jobs := AList.update i (f j) (hs_jobs (fs_hot fs))\<rparr>"]
    by (simp add: FS_UpdateJob_def FS_UpdateJob_mem_def look_upd act_def hot_wf_steps)
next
  case (save_task t)
  then show ?thesis using that [of "put_task (fs_hot fs) t"] by (simp add: FS_SaveTask_def look_put act_def hot_wf_steps)
next
  case (update_task i t g)
  then have "map_of (hs_taskDefs (fs_hot fs)) i = Some t" by (simp add: FS_GetTask_def split: option.splits)
  then show ?thesis
    using update_task that [of "(fs_hot fs)\<lparr>hs_taskDefs := AList.update i (g t) (hs_taskDefs (fs_hot fs))\<rparr>"]
    by (simp add: FS_UpdateTask_def look_upd act_def hot_wf_steps)
next
  case (delete_task i)
  then show ?thesis
    using that [of "(fs_hot fs)\<lparr>hs_taskDefs := AList.delete i (hs_taskDefs (fs_hot fs))\<rparr>"]
    by (simp add: FS_DeleteTask_def look_upd act_def hot_wf_steps split: option.splits)
next
  case (create_run r)
  then show ?thesis using that [of "put_run (fs_hot fs) r"] by (simp add: FS_CreateRun_def look_put act_def hot_wf_steps)
next
  case (update_run i r u)
  then have "map_of (hs_runs (fs_hot fs)) i = Some r" by (simp add: FS_GetRun_def split: option.splits)
  then show ?thesis
    using update_run that [of "(fs_hot fs)\<lparr>hs_runs := AList.update i (u r) (hs_runs (fs_hot fs))\<rparr>"]
    by (simp add: FS_UpdateRun_def look_upd act_def hot_wf_steps)
next
  case (enqueue_webhook w)
  then show ?thesis
    using that [of "put_webhook (fs_hot fs) w"] by (simp add: FS_EnqueueWebhook_def look_put act_def hot_wf_steps)
next
  case (ack_webhook i)
  then show ?thesis
    using that [of "(fs_hot fs)\<lparr>hs_webhooks := AList.delete i (hs_webhooks (fs_hot fs))\<rparr>"]
    by (simp add: FS_AckWebhook_def look_upd act_def hot_wf_steps)
next
  case (nack_webhook i a t)
  then obtain w where w: "map_of (hs_webhooks (fs_hot fs)) i = Some w" by (auto simp: FS_NackWebhook_def split: option.splits)
  let ?h = "(fs_hot fs)\<lparr>hs_webhooks := AList.update i (w\<lparr>whAttempts := a, whNextAttemptAt := t\<rparr>) (hs_webhooks (fs_hot fs))\<rparr>"
  have "hot_wf ?h" if "hot_wf (fs_hot fs)"
  proof (rule hot_wf_steps(8) [OF that])
    show "whID (w\<lparr>whAttempts := a, whNextAttemptAt := t\<rparr>) = i"
      using that keyed_lookup [OF _ w] by (simp add: hot_wf_def)
  qed
  then show ?thesis
    using w nack_webhook that [of ?h] by (simp add: FS_NackWebhook_def look_upd act_def look_hook)
qed

section \<open>What is on disk\<close>

text \<open>
  \<open>rest\<close> holds the entries that are not yet with the writer. The snapshot may be ahead of the journal:
  it holds the effect of \<open>H0\<close>, of which only \<open>F0\<close> had been written when it was taken.
\<close>

definition on_disk :: "(key \<Rightarrow> entity option) \<Rightarrow> FSStore \<Rightarrow> journalEntry list \<Rightarrow> journalEntry list
    \<Rightarrow> journalEntry list \<Rightarrow> journalEntry list \<Rightarrow> journalEntry list \<Rightarrow> hotState \<Rightarrow> bool" where
  "on_disk base fs hist rest F0 J H0 h \<longleftrightarrow>
     hist = F0 @ J @ fs_pending fs @ rest \<and> prefix F0 H0 \<and> prefix H0 hist \<and>
     d_journal (fs_disk fs) = map Line J \<and> d_snapshot (fs_disk fs) = Some (snap_of h) \<and>
     hot_wf h \<and> (\<forall>k. look h k = acts H0 k (base k))"

definition fs_inv :: "(key \<Rightarrow> entity option) \<Rightarrow> FSStore \<Rightarrow> journalEntry list \<Rightarrow> journalEntry list \<Rightarrow> bool" where
  "fs_inv base fs hist rest \<longleftrightarrow>
     hot_wf (fs_hot fs) \<and> (\<forall>k. look (fs_hot fs) k = acts hist k (base k)) \<and>
     (\<exists>F0 J H0 h. on_disk base fs hist rest F0 J H0 h)"

lemma fs_invE:
  assumes "fs_inv base fs hist rest"
  obtains F0 J H0 h where "on_disk base fs hist rest F0 J H0 h" "hot_wf (fs_hot fs)"
    "\<And>k. look (fs_hot fs) k = acts hist k (base k)"
  using assms by (auto simp: fs_inv_def)

lemma on_disk_flush:
  "on_disk base fs hist rest F0 J H0 h \<Longrightarrow> on_disk base (flushSync fs) hist rest F0 (J @ fs_pending fs) H0 h"
  by (auto simp: on_disk_def flushSync_def)

lemma fs_inv_flush:
  assumes "fs_inv base fs hist rest"
  shows "fs_inv base (flushSync fs) hist rest"
proof -
  have "fs_hot (flushSync fs) = fs_hot fs" by (simp add: flushSync_def)
  then show ?thesis using assms on_disk_flush unfolding fs_inv_def by metis
qed

lemma fs_inv_cong:
  "fs_inv base fs hist rest \<Longrightarrow> fs_hot fs' = fs_hot fs \<Longrightarrow> fs_pending fs' = fs_pending fs \<Longrightarrow>
   d_journal (fs_disk fs') = d_journal (fs_disk fs) \<Longrightarrow> d_snapshot (fs_disk fs') = d_snapshot (fs_disk fs) \<Longrightarrow>
   fs_inv base fs' hist rest"
  by (simp add: fs_inv_def on_disk_def)

lemma fs_inv_pend:
  "fs_inv base fs hist (e # rest) \<Longrightarrow> fs_inv base (fs\<lparr>fs_pending := fs_pending fs @ [e], fs_entryCount := n\<rparr>) hist rest"
  by (auto simp: fs_inv_def on_disk_def)

lemma fs_inv_compact:
  assumes "fs_inv base fs hist rest" "fs_pending fs = []"
  shows "fs_inv base ((compact fs)\<lparr>fs_entryCount := n\<rparr>) hist rest"
proof -
  obtain F0 J H0 h where d: "on_disk base fs hist rest F0 J H0 h" and w: "hot_wf (fs_hot fs)"
      "\<And>k. look (fs_hot fs) k = acts hist k (base k)" using assms(1) by (rule fs_invE) blast
  have "on_disk base ((compact fs)\<lparr>fs_entryCount := n\<rparr>) hist rest (F0 @ J) [] hist (fs_hot fs)"
    using d w assms(2) by (simp add: on_disk_def compact_snap)
  then show ?thesis using w by (auto simp: fs_inv_def compact_snap)
qed

lemma fs_inv_write:
  assumes "fs_inv base fs hist (e # rest)"
  shows "fs_inv base (writeEntry fs e) hist rest"
proof -
  define fs1 where "fs1 = fs\<lparr>fs_pending := fs_pending fs @ [e], fs_entryCount := fs_entryCount fs + 1\<rparr>"
  define fs2 where "fs2 = (if SyncInterval (fs_cfg fs1) = 0 then flushSync fs1 else fs1)"
  have 1: "fs_inv base fs1 hist rest" unfolding fs1_def by (rule fs_inv_pend [OF assms])
  then have 2: "fs_inv base fs2 hist rest" unfolding fs2_def by (simp add: fs_inv_flush)
  have 3: "fs_inv base (doCompact fs2) hist rest"
    unfolding doCompact_def using fs_inv_flush [OF 2] by (rule fs_inv_compact) (simp add: flushSync_def)
  have "writeEntry fs e = (if CompactAfter (fs_cfg fs2) \<le> fs_entryCount fs2 then doCompact fs2 else fs2)"
    by (simp add: writeEntry_def fs1_def fs2_def Let_def)
  then show ?thesis using 2 3 by simp
qed

lemma fs_inv_ch: "fs_inv base (fs\<lparr>fs_journalCh := c\<rparr>) hist rest \<longleftrightarrow> fs_inv base fs hist rest"
  by (simp add: fs_inv_def on_disk_def)

lemma writer_frame [simp]:
  "fs_journalCh (writeEntry fs e) = fs_journalCh fs" "fs_cfg (writeEntry fs e) = fs_cfg fs"
  "fs_journalCh (flushSync fs) = fs_journalCh fs" "fs_cfg (flushSync fs) = fs_cfg fs" "fs_hot (flushSync fs) = fs_hot fs"
  "fs_hot (writeEntry fs e) = fs_hot fs"
  by (simp_all add: writeEntry_def doCompact_def compact_snap flushSync_def Let_def)

lemma fs_inv_round:
  assumes "fs_inv base fs hist (fs_journalCh fs @ late)"
  shows "fs_inv base (runWriter_entry fs) hist (fs_journalCh (runWriter_entry fs) @ late)"
proof (cases "fs_journalCh fs")
  case Nil
  then show ?thesis using assms by (simp add: runWriter_entry_def)
next
  case (Cons e es)
  then have "fs_inv base (fs\<lparr>fs_journalCh := es\<rparr>) hist (e # (es @ late))" using assms by (simp add: fs_inv_ch)
  from fs_inv_write [OF this] show ?thesis using Cons by (simp add: runWriter_entry_def)
qed

lemma fs_inv_journal:
  assumes "fs_inv base fs hist (fs_journalCh fs @ [e])"
  shows "fs_inv base (journal fs e) hist (fs_journalCh (journal fs e))"
  using assms fs_inv_round [OF assms] by (simp add: journal_def Let_def fs_inv_ch)

lemma fs_inv_commit:
  assumes "fs_inv base fs hist (fs_journalCh fs)" "commits fs e fs'"
  shows "fs_inv base fs' (hist @ [e]) (fs_journalCh fs')"
proof -
  obtain h where h: "fs' = journal (fs\<lparr>fs_hot := h\<rparr>) e" "\<And>k. look h k = act e k (look (fs_hot fs) k)"
      "hot_wf (fs_hot fs) \<Longrightarrow> hot_wf h" using commits_spec [OF assms(2)] by blast
  obtain F0 J H0 g where d: "on_disk base fs hist (fs_journalCh fs) F0 J H0 g" and w: "hot_wf (fs_hot fs)"
      "\<And>k. look (fs_hot fs) k = acts hist k (base k)" using assms(1) by (rule fs_invE) blast
  have "on_disk base (fs\<lparr>fs_hot := h\<rparr>) (hist @ [e]) (fs_journalCh fs @ [e]) F0 J H0 g"
    using d by (auto simp: on_disk_def intro: prefix_order.trans)
  then have "fs_inv base (fs\<lparr>fs_hot := h\<rparr>) (hist @ [e]) (fs_journalCh (fs\<lparr>fs_hot := h\<rparr>) @ [e])"
    using h w by (auto simp: fs_inv_def)
  then show ?thesis unfolding h(1) by (rule fs_inv_journal)
qed

lemma fs_inv_log:
  assumes "fs_inv base fs hist (fs_journalCh fs)" "FS_AppendRunLog fs r chunk = Inr fs'"
  shows "fs_inv base fs' hist (fs_journalCh fs')"
proof -
  have "fs_hot fs' = fs_hot fs \<and> fs_pending fs' = fs_pending fs \<and> fs_journalCh fs' = fs_journalCh fs \<and>
      d_journal (fs_disk fs') = d_journal (fs_disk fs) \<and> d_snapshot (fs_disk fs') = d_snapshot (fs_disk fs)"
    using assms(2) by (auto simp: FS_AppendRunLog_def Let_def and_then_Inr_iff)
  then show ?thesis using fs_inv_cong [OF assms(1)] by simp
qed

lemma fs_inv_Close:
  assumes "fs_inv base fs hist (fs_journalCh fs)"
  shows "fs_inv base (Close fs) hist []" "fs_pending (Close fs) = []"
proof -
  have "fs_inv base (foldl writeEntry fs1 es) hist []" if "fs_inv base fs1 hist es" for es fs1
    using that by (induction es arbitrary: fs1) (auto intro: fs_inv_write)
  then have "fs_inv base (foldl writeEntry (fs\<lparr>fs_journalCh := []\<rparr>) (fs_journalCh fs)) hist []"
    using assms by (simp add: fs_inv_ch)
  then show "fs_inv base (Close fs) hist []" unfolding Close_def by (rule fs_inv_flush)
  show "fs_pending (Close fs) = []" by (simp add: Close_def flushSync_def)
qed

section \<open>Opening the store\<close>

lemma hot_wf_foldl:
  "hot_wf h \<Longrightarrow> hot_wf (foldl put_job h js)" "hot_wf h \<Longrightarrow> hot_wf (foldl put_task h ts)"
  "hot_wf h \<Longrightarrow> hot_wf (foldl put_run h rs)" "hot_wf h \<Longrightarrow> hot_wf (foldl put_webhook h ws)"
proof -
  show "hot_wf h \<Longrightarrow> hot_wf (foldl put_job h js)" by (induction js arbitrary: h) (simp_all add: hot_wf_steps)
  show "hot_wf h \<Longrightarrow> hot_wf (foldl put_task h ts)" by (induction ts arbitrary: h) (simp_all add: hot_wf_steps)
  show "hot_wf h \<Longrightarrow> hot_wf (foldl put_run h rs)" by (induction rs arbitrary: h) (simp_all add: hot_wf_steps)
  show "hot_wf h \<Longrightarrow> hot_wf (foldl put_webhook h ws)" by (induction ws arbitrary: h) (simp_all add: hot_wf_steps)
qed

lemma hot_wf_load: "loadSnapshot hs_empty d = Inr h \<Longrightarrow> hot_wf h"
proof -
  have "hot_wf hs_empty" by (simp add: hot_wf_def hs_empty_def keyed_def)
  then show "loadSnapshot hs_empty d = Inr h \<Longrightarrow> hot_wf h"
    by (auto simp: loadSnapshot_def and_then_Inr_iff hot_wf_foldl split: option.splits)
qed

lemma hot_wf_apply: "applyJournalEntry h e = Inr h' \<Longrightarrow> hot_wf h \<Longrightarrow> hot_wf h'"
proof (cases e)
  case (opWebhookNack i a t)
  assume "applyJournalEntry h e = Inr h'" and wf: "hot_wf h"
  then show ?thesis
    using opWebhookNack keyed_lookup [of whID "hs_webhooks h" i]
    by (auto simp: applyJournalEntry_def hot_wf_steps(8) hot_wf_def split: option.splits intro!: keyed_update)
qed (auto simp: applyJournalEntry_def and_then_Inr_iff hot_wf_steps)

lemma hot_wf_replay: "replayJournal sz h ls = Inr h' \<Longrightarrow> hot_wf h \<Longrightarrow> hot_wf h'"
  by (induction sz h ls rule: replayJournal.induct) (auto simp: and_then_Inr_iff hot_wf_apply split: if_splits)

lemma OpenFSStore_inv:
  assumes "OpenFSStore sz cfg d = Inr fs0"
  shows "fs_inv (look (fs_hot fs0)) fs0 [] []" "fs_journalCh fs0 = []"
proof -
  from assms obtain h1 h where h: "loadSnapshot hs_empty (d_snapshot d) = Inr h1"
      "replayJournal sz h1 (d_journal d) = Inr h" "fs_hot fs0 = h" "fs_journalCh fs0 = []" "fs_pending fs0 = []"
      "fs_disk fs0 = d\<lparr>d_snapshot := Some (snap_of h), d_journal := []\<rparr>"
    by (auto simp: OpenFSStore_def and_then_Inr_iff compact_snap)
  have "hot_wf h" using hot_wf_replay [OF h(2) hot_wf_load [OF h(1)]] .
  then have "on_disk (look (fs_hot fs0)) fs0 [] [] [] [] [] h" using h by (simp add: on_disk_def)
  then show "fs_inv (look (fs_hot fs0)) fs0 [] []" using \<open>hot_wf h\<close> h(3) unfolding fs_inv_def by auto
  show "fs_journalCh fs0 = []" by (rule h(4))
qed

lemma fs_run_inv:
  assumes "OpenFSStore sz cfg d = Inr fs0" "fs_run sz fs0 fs hist"
  shows "fs_inv (look (fs_hot fs0)) fs hist (fs_journalCh fs)" "\<forall>e \<in> set hist. storable sz e"
proof -
  have "fs_inv (look (fs_hot fs0)) fs hist (fs_journalCh fs) \<and> (\<forall>e \<in> set hist. storable sz e)"
    using assms(2)
  proof induction
    case start
    then show ?case using OpenFSStore_inv [OF assms(1)] by simp
  next
    case (client fs hist e fs')
    then show ?case using fs_inv_commit by auto
  next
    case (background fs hist)
    then show ?case using fs_inv_round [of _ fs hist "[]"] by simp
  next
    case (sync fs hist)
    then show ?case using fs_inv_flush by simp
  next
    case (log fs hist r chunk fs')
    then show ?case using fs_inv_log by blast
  qed
  then show "fs_inv (look (fs_hot fs0)) fs hist (fs_journalCh fs)" "\<forall>e \<in> set hist. storable sz e" by blast+
qed

lemma decodable_nack [simp]: "decodable (nack a t x) = decodable x"
  by (cases x) (simp_all add: decodable_def reload_entity_def)

lemma act_decodable:
  assumes "storable sz e" "\<forall>x. v = Some x \<longrightarrow> decodable x" "act e k v = Some y"
  shows "decodable y"
  using assms by (cases e) (auto simp: act_def storable_def split: if_splits)

lemma acts_decodable:
  assumes "\<forall>e \<in> set es. storable sz e" "\<forall>x. v = Some x \<longrightarrow> decodable x" "acts es k v = Some y"
  shows "decodable y"
  using assms
proof (induction es arbitrary: v)
  case (Cons e es)
  have "\<forall>x. act e k v = Some x \<longrightarrow> decodable x" using act_decodable [of sz e v k] Cons.prems(1,2) by simp
  then show ?case using Cons.IH [of "act e k v"] Cons.prems(1,3) by simp
qed simp

lemma hist_decodable:
  assumes "\<forall>e \<in> set es. storable sz e" "hot_decodable g" "\<And>k. look h k = acts es k (look g k)"
  shows "hot_decodable h"
  unfolding hot_decodable_def assms(3)
proof (intro allI impI)
  fix k x assume "acts es k (look g k) = Some x"
  moreover have "\<forall>x. look g k = Some x \<longrightarrow> decodable x" using assms(2) by (simp add: hot_decodable_def)
  ultimately show "decodable x" using acts_decodable [OF assms(1)] by blast
qed

lemma reopen:
  assumes "hot_wf h" "hot_decodable h" "d_snapshot d = Some (snap_of h)" "d_journal d = map Line J @ T"
    "\<forall>e \<in> set J. storable sz e" "T = [] \<or> (\<exists>T'. T = Torn # T')"
  shows "\<exists>fs'. OpenFSStore sz cfg d = Inr fs' \<and> (\<forall>k. look (fs_hot fs') k = map_option reloaded (acts J k (look h k)))"
proof -
  obtain h1 where h1: "loadSnapshot hs_empty (d_snapshot d) = Inr h1" "\<forall>k. look h1 k = map_option reloaded (look h k)"
    using loadSnapshot_look [OF assms(1,2)] assms(3) by auto
  obtain h2 where h2: "replayJournal sz h1 (d_journal d) = Inr h2"
      "\<forall>k. look h2 k = map_option reloaded (acts J k (look h k))"
    using replayJournal_acts [OF assms(5) _ assms(6), of h1 "look h"] h1(2) assms(4) by auto
  show ?thesis using h1(1) h2 by (auto simp: OpenFSStore_def compact_snap)
qed

text \<open>Entries that a snapshot already contains do no harm when they are replayed on top of it.\<close>

lemma stale_replay:
  assumes "prefix F0 H0" "prefix H0 (F0 @ J)"
  shows "acts J k (acts H0 k v) = acts (F0 @ J) k v"
proof -
  obtain J0 where J0: "H0 = F0 @ J0" using assms(1) by (auto simp: prefix_def)
  then obtain J1 where "J = J0 @ J1" using assms(2) by (auto simp: prefix_def)
  then show ?thesis using J0 by (simp add: acts_idem)
qed

section \<open>Values that do not survive\<close>

lemma reload_nil: "reload_bytes [] = Inr ''null''"
  by code_simp

lemma reload_string:
  assumes "\<forall>c \<in> set x. plain c" "b64_decode x = None"
  shows "\<exists>e. reload_bytes (dquote # x @ [dquote]) = Inl e"
  using string_reload [OF assms(1)] assms(2) by (auto simp: reload_bytes_def opt_bytes_def Let_def)

lemma undecodable_job:
  assumes "reload_bytes (jPayload j) = Inl e \<or> reload_bytes (jResult j) = Inl e"
  shows "\<exists>e. reload_job j = Inl e"
  using assms by (cases "reload_bytes (jPayload j)") (auto simp: reload_job_def)

lemma replay_undecodable:
  assumes "opJob j \<in> set J" "reload_job j = Inl e"
  shows "\<exists>e. replayJournal sz h (map Line J) = Inl e"
  using assms(1)
proof (induction J arbitrary: h)
  case (Cons a J)
  then show ?case
    using assms(2) by (cases "applyJournalEntry h a") (auto simp: applyJournalEntry_def)
qed simp

lemma map_res_undecodable: "x \<in> set xs \<Longrightarrow> f x = Inl e \<Longrightarrow> \<exists>e. map_res f xs = Inl e"
proof (induction xs)
  case (Cons y ys)
  then show ?case by (cases "f y"; cases "map_res f ys") auto
qed simp

lemma reloaded_no_result:
  assumes "decodable (EJob j)" "jResult j = []"
  shows "\<exists>j'. reloaded (EJob j) = EJob j' \<and> jID j' = jID j \<and> jResult j' = ''null''"
  using decodable_job [OF assms(1)] assms(2) by (auto simp: reload_job_def and_then_Inr_iff reload_nil)

section \<open>Recovery\<close>


definition ex_fs :: FSStore where
  "ex_fs = compact \<lparr>fs_cfg = \<lparr>SyncInterval = 200000000, CompactAfter = 500, JournalBufSize = 256\<rparr>, fs_hot = hs_empty,
     fs_runLogBufs = [], fs_runSubscribers = [], fs_jobSubscribers = [], fs_chans = [], fs_journalCh = [], fs_pending = [],
     fs_entryCount = 0, fs_disk = empty_disk\<rparr>"

definition ex_stored :: Job where
  "ex_stored = Job_zero\<lparr>jID := ''j'', jPayload := ''{}''\<rparr>"

lemma ex_fs_open:
  "OpenFSStore (\<lambda>e. 100) \<lparr>SyncInterval = 200000000, CompactAfter = 0, JournalBufSize = 0\<rparr> empty_disk = Inr ex_fs"
  by (simp add: OpenFSStore_def empty_disk_def loadSnapshot_def ex_fs_def setDefaults_def Let_def
      defaultCompactAfter_def defaultJournalBufSize_def)

lemma ex_fs_decodable: "hot_decodable (fs_hot ex_fs)"
  by (simp add: hot_decodable_def ex_fs_def compact_snap hs_empty_def look_def split: key.split)

lemma ex_storable: "storable (\<lambda>e. 100) (opJob (ex_stored\<lparr>jPriority := p\<rparr>))" "storable (\<lambda>e. 100) (opJob ex_stored)"
proof -
  have "reload_bytes ''{}'' = Inr ''{}''" by code_simp
  then have "decodable (EJob (ex_stored\<lparr>jPriority := p\<rparr>))" "decodable (EJob ex_stored)"
    by (simp_all add: decodable_def reload_entity_def reload_job_def ex_stored_def Job_zero_def reload_nil)
  then show "storable (\<lambda>e. 100) (opJob (ex_stored\<lparr>jPriority := p\<rparr>))" "storable (\<lambda>e. 100) (opJob ex_stored)"
    by (simp_all add: storable_def max_line_def)
qed

lemma ex_run: "fs_run (\<lambda>e. 100) ex_fs (FS_SaveJob ex_fs ex_stored) [opJob ex_stored]"
  using fs_run.client [OF fs_run.start commits.save_job ex_storable(2)] by simp

lemma ex_get: "FS_GetJob (FS_SaveJob ex_fs ex_stored) ''j'' = Inr ex_stored"
  by (simp add: FS_GetJob_def FS_SaveJob_def FS_SaveJob_mem_def journal_def ex_fs_def compact_snap put_job_def ex_stored_def)


text \<open>
  A crash loses what was not flushed: of the buffered entries a beginning may have reached the disk, and
  the last line may be torn.
\<close>

definition crash_disk :: "FSStore \<Rightarrow> disk \<Rightarrow> bool" where
  "crash_disk fs d \<longleftrightarrow>
     (\<exists>n T. (T = [] \<or> T = [Torn]) \<and>
        d = (fs_disk fs)\<lparr>d_journal := d_journal (fs_disk fs) @ map Line (take n (fs_pending fs)) @ T\<rparr>)"

lemma job_prefix:
  assumes "prefix F0 H0" "prefix H0 hist" "hist = F0 @ J' @ R" "length F0 + m \<le> length (F0 @ J')"
  shows "\<exists>n. length F0 + m \<le> n \<and> n \<le> length hist \<and>
     acts J' (KJob i) (acts H0 (KJob i) v) = acts (take n hist) (KJob i) v"
  using acts_job [of J' i]
proof (elim disjE)
  assume "\<forall>v w. acts J' (KJob i) v = acts J' (KJob i) w"
  then have "acts J' (KJob i) (acts H0 (KJob i) v) = acts J' (KJob i) (acts F0 (KJob i) v)" by blast
  then show ?thesis using assms(3,4) by (intro exI [of _ "length (F0 @ J')"]) simp
next
  assume same: "\<forall>v. acts J' (KJob i) v = v"
  show ?thesis
  proof (cases "length F0 + m \<le> length H0")
    case True
    moreover have "take (length H0) hist = H0" "length H0 \<le> length hist" using assms(2) by (auto simp: prefix_def)
    ultimately show ?thesis using same by (intro exI [of _ "length H0"]) simp
  next
    case False
    then have "prefix H0 (F0 @ J')" using assms(2-4) prefix_length_prefix [of H0 hist "F0 @ J'"] by auto
    then have "acts J' (KJob i) (acts H0 (KJob i) v) = acts (F0 @ J') (KJob i) v"
      by (rule stale_replay [OF assms(1)])
    then show ?thesis using assms(3,4) by (intro exI [of _ "length (F0 @ J')"]) simp
  qed
qed



text \<open>
  C15: once a job is stored whose payload or result is a JSON string with a text that is not base64, the
  store cannot be opened again after it was closed, whatever else it holds: reading the job back fails, and
  that fails the start.
\<close>

theorem string_payload_prevents_open:
  assumes "OpenFSStore sz cfg d = Inr fs0" "fs_run sz fs0 fs hist" "commits fs (opJob j) fs'"
    "jPayload j = dquote # x @ [dquote] \<or> jResult j = dquote # x @ [dquote]"
    "\<forall>c \<in> set x. plain c" "b64_decode x = None"
  shows "\<exists>e. OpenFSStore sz cfg' (fs_disk (Close fs')) = Inl e"
proof -
  obtain e where e: "reload_job j = Inl e"
    using reload_string [OF assms(5,6)] assms(4) undecodable_job by metis
  have "fs_inv (look (fs_hot fs0)) fs' (hist @ [opJob j]) (fs_journalCh fs')"
    by (rule fs_inv_commit [OF fs_run_inv(1) [OF assms(1,2)] assms(3)])
  note c = fs_inv_Close [OF this]
  obtain F0 J H0 h where "on_disk (look (fs_hot fs0)) (Close fs') (hist @ [opJob j]) [] F0 J H0 h"
    using c(1) by (rule fs_invE) blast
  then have d: "hist @ [opJob j] = F0 @ J" "prefix F0 H0" "prefix H0 (F0 @ J)"
    "d_journal (fs_disk (Close fs')) = map Line J" "d_snapshot (fs_disk (Close fs')) = Some (snap_of h)"
    "\<And>k. look h k = acts H0 k (look (fs_hot fs0) k)" using c(2) by (auto simp: on_disk_def simp del: prefix_snoc)
  show ?thesis
  proof (cases "J = []")
    case True
    then have "H0 = hist @ [opJob j]" using d(1-3) by (metis append_Nil2 prefix_order.antisym)
    then have "look h (KJob (jID j)) = Some (EJob j)" using d(6) by (simp add: act_def)
    then have "j \<in> set (snap_Jobs (snap_of h))" by (force simp: look_def snap_of_def dest: map_of_SomeD)
    then obtain e' where "map_res reload_job (snap_Jobs (snap_of h)) = Inl e'" using map_res_undecodable e by metis
    then show ?thesis by (simp add: OpenFSStore_def d(5) loadSnapshot_def)
  next
    case False
    then have "opJob j \<in> set J" using d(1) by (metis last_appendR last_in_set last_snoc)
    then have "\<exists>e. replayJournal sz h1 (map Line J) = Inl e" for h1 using replay_undecodable e by blast
    then show ?thesis
      unfolding OpenFSStore_def d(4) by (cases "loadSnapshot hs_empty (d_snapshot (fs_disk (Close fs')))") (auto, metis and_then_simps(1))
  qed
qed

theorem string_payload_prevents_open_witness:
  "\<exists>e. OpenFSStore (\<lambda>e. 100) (fs_cfg ex_fs)
     (fs_disk (Close (FS_SaveJob ex_fs (ex_stored\<lparr>jResult := dquote # ''hello'' @ [dquote]\<rparr>)))) = Inl e"
proof -
  let ?j = "ex_stored\<lparr>jResult := dquote # ''hello'' @ [dquote]\<rparr>"
  have c: "\<forall>c \<in> set ''hello''. plain c" by (simp add: plain_bytes byte_def)
  have d: "b64_decode ''hello'' = None" by (simp add: b64_decode_def b64_val_def byte_def)
  have j: "jPayload ?j = dquote # ''hello'' @ [dquote] \<or> jResult ?j = dquote # ''hello'' @ [dquote]" by simp
  show ?thesis by (rule string_payload_prevents_open [OF ex_fs_open fs_run.start commits.save_job j c d])
qed

section \<open>Two writers\<close>

lemma writes_without_compaction:
  assumes "fs_entryCount fs + int (length es) < CompactAfter (fs_cfg fs)"
  shows "d_snapshot (fs_disk (foldl writeEntry fs es)) = d_snapshot (fs_disk fs)"
    "d_journal (fs_disk (foldl writeEntry fs es)) @ map Line (fs_pending (foldl writeEntry fs es)) =
       d_journal (fs_disk fs) @ map Line (fs_pending fs @ es)"
proof -
  have "d_snapshot (fs_disk (foldl writeEntry fs es)) = d_snapshot (fs_disk fs) \<and>
    d_journal (fs_disk (foldl writeEntry fs es)) @ map Line (fs_pending (foldl writeEntry fs es)) =
       d_journal (fs_disk fs) @ map Line (fs_pending fs @ es)"
    using assms
  proof (induction es arbitrary: fs)
    case (Cons e es)
    have w: "d_snapshot (fs_disk (writeEntry fs e)) = d_snapshot (fs_disk fs)"
      "d_journal (fs_disk (writeEntry fs e)) @ map Line (fs_pending (writeEntry fs e)) =
         d_journal (fs_disk fs) @ map Line (fs_pending fs @ [e])"
      "fs_entryCount (writeEntry fs e) = fs_entryCount fs + 1"
      using Cons.prems by (simp_all add: writeEntry_def flushSync_def Let_def)
    then show ?case using Cons.IH [of "writeEntry fs e"] Cons.prems by simp
  qed simp
  then show "d_snapshot (fs_disk (foldl writeEntry fs es)) = d_snapshot (fs_disk fs)"
    "d_journal (fs_disk (foldl writeEntry fs es)) @ map Line (fs_pending (foldl writeEntry fs es)) =
       d_journal (fs_disk fs) @ map Line (fs_pending fs @ es)" by blast+
qed

text \<open>
  C16: entries are journaled after the lock is released. When two updates of a job journal in the other
  order than they changed the memory, the store serves the second until it is closed, and the first when
  it is opened again.
\<close>

theorem journal_race:
  assumes "OpenFSStore sz cfg d = Inr fs0" "hot_decodable (fs_hot fs0)" "fs_run sz fs0 fs hist"
    "FS_GetJob fs i = Inr j" "jID (f j) = i" "jID (g (f j)) = i"
    "FS_UpdateJob_mem fs i f = Inr (fs1, e1)" "FS_UpdateJob_mem fs1 i g = Inr (fs2, e2)" "storable sz e1" "storable sz e2"
    "int (length (fs_journalCh fs)) + 2 \<le> JournalBufSize (fs_cfg fs)"
    "fs_entryCount fs + int (length (fs_journalCh fs)) + 2 < CompactAfter (fs_cfg fs)"
  shows "let fs3 = journal (journal fs2 e2) e1
         in FS_GetJob fs3 i = Inr (g (f j)) \<and>
            (\<exists>fs'. OpenFSStore sz cfg' (fs_disk (Close fs3)) = Inr fs' \<and>
                   look (fs_hot fs') (KJob i) = Some (reloaded (EJob (f j))))"
proof -
  let ?fs3 = "journal (journal fs2 e2) e1" and ?ch = "fs_journalCh fs @ [e2, e1]"
  have j: "map_of (hs_jobs (fs_hot fs)) i = Some j" using assms(4) by (simp add: FS_GetJob_def split: option.splits)
  have e: "e1 = opJob (f j)" "e2 = opJob (g (f j))" "fs_hot fs2 = (fs_hot fs)\<lparr>hs_jobs :=
        AList.update i (g (f j)) (AList.update i (f j) (hs_jobs (fs_hot fs)))\<rparr>"
      "fs2 = fs\<lparr>fs_hot := fs_hot fs2\<rparr>"
    using assms(7,8) j by (auto simp: FS_UpdateJob_mem_def)
  have fs3: "?fs3 = fs\<lparr>fs_hot := fs_hot fs2, fs_journalCh := ?ch\<rparr>"
    using assms(11) by (subst e(4), subst (2) e(4)) (simp add: journal_def)
  note inv = fs_run_inv [OF assms(1,3)]
  obtain F0 J H0 h where "on_disk (look (fs_hot fs0)) fs hist (fs_journalCh fs) F0 J H0 h"
    using inv(1) by (rule fs_invE) blast
  then have D: "hist = F0 @ J @ fs_pending fs @ fs_journalCh fs" "prefix H0 hist" "d_journal (fs_disk fs) = map Line J"
    "d_snapshot (fs_disk fs) = Some (snap_of h)" "hot_wf h" "\<And>k. look h k = acts H0 k (look (fs_hot fs0) k)"
    by (auto simp: on_disk_def)
  let ?J = "J @ fs_pending fs @ ?ch"
  have st: "\<forall>e \<in> set H0. storable sz e" "\<forall>e \<in> set ?J. storable sz e"
    using inv(2) D(1,2) set_mono_prefix assms(9,10) by (blast, auto)
  let ?w = "foldl writeEntry (?fs3\<lparr>fs_journalCh := []\<rparr>) ?ch"
  have "fs_entryCount (?fs3\<lparr>fs_journalCh := []\<rparr>) + int (length ?ch) < CompactAfter (fs_cfg (?fs3\<lparr>fs_journalCh := []\<rparr>))"
    using assms(12) by (simp add: fs3)
  note nc = writes_without_compaction [OF this]
  have "fs_disk (Close ?fs3) = (fs_disk ?w)\<lparr>d_journal := d_journal (fs_disk ?w) @ map Line (fs_pending ?w)\<rparr>"
    by (simp add: Close_def flushSync_def fs3)
  then have disk: "d_snapshot (fs_disk (Close ?fs3)) = Some (snap_of h)" "d_journal (fs_disk (Close ?fs3)) = map Line ?J @ []"
    using nc D(3,4) by (simp_all add: fs3)
  obtain fs' where "OpenFSStore sz cfg' (fs_disk (Close ?fs3)) = Inr fs'"
      "\<forall>k. look (fs_hot fs') k = map_option reloaded (acts ?J k (look h k))"
    using reopen [OF D(5) hist_decodable [OF st(1) assms(2) D(6)] disk st(2)] by blast
  moreover have "acts ?J (KJob i) v = Some (EJob (f j))" for v using assms(5) by (simp add: act_def e(1))
  moreover have "FS_GetJob ?fs3 i = Inr (g (f j))" by (simp add: fs3 FS_GetJob_def e(3))
  ultimately show ?thesis by (auto simp: Let_def)
qed

theorem journal_race_witness:
  "\<exists>fs1 e1 fs2 e2 fs'.
     FS_UpdateJob_mem (FS_SaveJob ex_fs ex_stored) ''j'' (\<lambda>j. j\<lparr>jPriority := 1\<rparr>) = Inr (fs1, e1) \<and>
     FS_UpdateJob_mem fs1 ''j'' (\<lambda>j. j\<lparr>jPriority := 2\<rparr>) = Inr (fs2, e2) \<and>
     FS_GetJob (journal (journal fs2 e2) e1) ''j'' = Inr (ex_stored\<lparr>jPriority := 2\<rparr>) \<and>
     OpenFSStore (\<lambda>e. 100) (fs_cfg ex_fs) (fs_disk (Close (journal (journal fs2 e2) e1))) = Inr fs' \<and>
     look (fs_hot fs') (KJob ''j'') = Some (reloaded (EJob (ex_stored\<lparr>jPriority := 1\<rparr>)))"
proof -
  let ?f = "\<lambda>j::Job. j\<lparr>jPriority := 1\<rparr>" and ?g = "\<lambda>j::Job. j\<lparr>jPriority := 2\<rparr>" and ?fs = "FS_SaveJob ex_fs ex_stored"
  have m: "map_of (hs_jobs (fs_hot ?fs)) ''j'' = Some ex_stored"
    using ex_get by (simp add: FS_GetJob_def split: option.splits)
  obtain fs1 where u1: "FS_UpdateJob_mem ?fs ''j'' ?f = Inr (fs1, opJob (?f ex_stored))"
      "map_of (hs_jobs (fs_hot fs1)) ''j'' = Some (?f ex_stored)" using m by (simp add: FS_UpdateJob_mem_def)
  obtain fs2 where u2: "FS_UpdateJob_mem fs1 ''j'' ?g = Inr (fs2, opJob (?g (?f ex_stored)))"
    using u1(2) by (simp add: FS_UpdateJob_mem_def)
  have s2: "storable (\<lambda>e. 100) (opJob (?g (?f ex_stored)))" using ex_storable(1) [of 2] by simp
  have k: "int (length (fs_journalCh ?fs)) + 2 \<le> JournalBufSize (fs_cfg ?fs)"
    "fs_entryCount ?fs + int (length (fs_journalCh ?fs)) + 2 < CompactAfter (fs_cfg ?fs)"
    by (simp_all add: FS_SaveJob_def FS_SaveJob_mem_def journal_def ex_fs_def compact_snap)
  have i: "jID (?f ex_stored) = ''j''" "jID (?g (?f ex_stored)) = ''j''" by (simp_all add: ex_stored_def)
  from journal_race [OF ex_fs_open ex_fs_decodable ex_run ex_get i u1(1) u2 ex_storable(1) s2 k, of "fs_cfg ex_fs"]
  show ?thesis using u1(1) u2 unfolding Let_def by fastforce
qed

end
