(* ===== verification/Store_Equivalence.thy ===== *)
theory Store_Equivalence
  imports FS_Recovery
begin

text \<open>
  The store with a journal and the in-memory store answer alike: one call of the store interfaces of
  \<^verbatim>\<open>manager/config.go\<close> on both, with the work of the background writer in between. Logs are left out: there
  the two stores differ by the newline after each chunk.
\<close>

section \<open>Calls and answers\<close>

datatype store_op =
    DoSaveJob Job | DoGetJob string | DoUpdateJob string "Job \<Rightarrow> Job" | DoListJobs string int | DoListPendingJobs
  | DoListRecoverableJobs | DoListChildJobs string | DoCountJobsByStatus
  | DoSaveTask Task | DoGetTask string | DoListTasks | DoUpdateTask string "Task \<Rightarrow> Task" | DoDeleteTask string
  | DoCreateRun JobRun | DoUpdateRun string "JobRun \<Rightarrow> JobRun" | DoGetRun string | DoListJobRuns string
  | DoEnqueueWebhook WebhookEntry | DoDequeueWebhooks time | DoAckWebhook string | DoNackWebhook string int time
  | BackgroundEntry | BackgroundSync

datatype store_out =
    Ok | Failed error | OutJob "Job res" | OutJobs "Job list" | OutPage "(Job list \<times> string) res"
  | OutCounts "(JobStatus, int) gomap" | OutTask "Task res" | OutTasks "Task list" | OutRun "JobRun res"
  | OutRuns "JobRun list" | OutWebhooks "WebhookEntry list"

definition upd_out :: "'st \<Rightarrow> 'st res \<Rightarrow> store_out \<times> 'st" where
  "upd_out st r = (case r of Inl e \<Rightarrow> (Failed e, st) | Inr st' \<Rightarrow> (Ok, st'))"

fun mem_do :: "MemStore \<Rightarrow> store_op \<Rightarrow> store_out \<times> MemStore" where
  "mem_do m (DoSaveJob j) = (Ok, SaveJob m j)"
| "mem_do m (DoGetJob i) = (OutJob (GetJob m i), m)"
| "mem_do m (DoUpdateJob i f) = upd_out m (UpdateJob m i f)"
| "mem_do m (DoListJobs c n) = (OutPage (ListJobs m c n), m)"
| "mem_do m DoListPendingJobs = (OutJobs (ListPendingJobs m), m)"
| "mem_do m DoListRecoverableJobs = (OutJobs (ListRecoverableJobs m), m)"
| "mem_do m (DoListChildJobs p) = (OutJobs (ListChildJobs m p), m)"
| "mem_do m DoCountJobsByStatus = (OutCounts (CountJobsByStatus m), m)"
| "mem_do m (DoSaveTask t) = (Ok, SaveTask m t)"
| "mem_do m (DoGetTask i) = (OutTask (GetTask m i), m)"
| "mem_do m DoListTasks = (OutTasks (ListTasks m), m)"
| "mem_do m (DoUpdateTask i g) = upd_out m (UpdateTask m i g)"
| "mem_do m (DoDeleteTask i) = upd_out m (DeleteTask m i)"
| "mem_do m (DoCreateRun r) = (Ok, CreateRun m r)"
| "mem_do m (DoUpdateRun i u) = upd_out m (UpdateRun m i u)"
| "mem_do m (DoGetRun i) = (OutRun (GetRun m i), m)"
| "mem_do m (DoListJobRuns i) = (OutRuns (ListJobRuns m i), m)"
| "mem_do m (DoEnqueueWebhook w) = (Ok, EnqueueWebhook m w)"
| "mem_do m (DoDequeueWebhooks now) = (OutWebhooks (DequeueWebhooks m now), m)"
| "mem_do m (DoAckWebhook i) = (Ok, AckWebhook m i)"
| "mem_do m (DoNackWebhook i a t) = upd_out m (NackWebhook m i a t)"
| "mem_do m BackgroundEntry = (Ok, m)"
| "mem_do m BackgroundSync = (Ok, m)"

fun fs_do :: "FSStore \<Rightarrow> store_op \<Rightarrow> store_out \<times> FSStore" where
  "fs_do fs (DoSaveJob j) = (Ok, FS_SaveJob fs j)"
| "fs_do fs (DoGetJob i) = (OutJob (FS_GetJob fs i), fs)"
| "fs_do fs (DoUpdateJob i f) = upd_out fs (FS_UpdateJob fs i f)"
| "fs_do fs (DoListJobs c n) = (OutPage (FS_ListJobs fs c n), fs)"
| "fs_do fs DoListPendingJobs = (OutJobs (FS_ListPendingJobs fs), fs)"
| "fs_do fs DoListRecoverableJobs = (OutJobs (FS_ListRecoverableJobs fs), fs)"
| "fs_do fs (DoListChildJobs p) = (OutJobs (FS_ListChildJobs fs p), fs)"
| "fs_do fs DoCountJobsByStatus = (OutCounts (FS_CountJobsByStatus fs), fs)"
| "fs_do fs (DoSaveTask t) = (Ok, FS_SaveTask fs t)"
| "fs_do fs (DoGetTask i) = (OutTask (FS_GetTask fs i), fs)"
| "fs_do fs DoListTasks = (OutTasks (FS_ListTasks fs), fs)"
| "fs_do fs (DoUpdateTask i g) = upd_out fs (FS_UpdateTask fs i g)"
| "fs_do fs (DoDeleteTask i) = upd_out fs (FS_DeleteTask fs i)"
| "fs_do fs (DoCreateRun r) = (Ok, FS_CreateRun fs r)"
| "fs_do fs (DoUpdateRun i u) = upd_out fs (FS_UpdateRun fs i u)"
| "fs_do fs (DoGetRun i) = (OutRun (FS_GetRun fs i), fs)"
| "fs_do fs (DoListJobRuns i) = (OutRuns (FS_ListJobRuns fs i), fs)"
| "fs_do fs (DoEnqueueWebhook w) = (Ok, FS_EnqueueWebhook fs w)"
| "fs_do fs (DoDequeueWebhooks now) = (OutWebhooks (FS_DequeueWebhooks fs now), fs)"
| "fs_do fs (DoAckWebhook i) = (Ok, FS_AckWebhook fs i)"
| "fs_do fs (DoNackWebhook i a t) = upd_out fs (FS_NackWebhook fs i a t)"
| "fs_do fs BackgroundEntry = (Ok, runWriter_entry fs)"
| "fs_do fs BackgroundSync = (Ok, flushSync fs)"

fun answers :: "('st \<Rightarrow> store_op \<Rightarrow> store_out \<times> 'st) \<Rightarrow> 'st \<Rightarrow> store_op list \<Rightarrow> store_out list" where
  "answers step st [] = []"
| "answers step st (p # ps) = (case step st p of (out, st') \<Rightarrow> out # answers step st' ps)"

section \<open>The abstraction\<close>

definition mem_of :: "hotState \<Rightarrow> MemStore" where
  "mem_of h = NewMemStore\<lparr>ms_jobs := hs_jobs h, ms_taskDefs := hs_taskDefs h, ms_runs := hs_runs h,
     ms_webhooks := hs_webhooks h\<rparr>"

lemma mem_of_simps [simp]:
  "ms_jobs (mem_of h) = hs_jobs h" "ms_taskDefs (mem_of h) = hs_taskDefs h" "ms_runs (mem_of h) = hs_runs h"
  "ms_webhooks (mem_of h) = hs_webhooks h"
  by (simp_all add: mem_of_def NewMemStore_def)

lemma mem_of_upd:
  "mem_of (h\<lparr>hs_jobs := x1\<rparr>) = (mem_of h)\<lparr>ms_jobs := x1\<rparr>" "mem_of (h\<lparr>hs_taskDefs := x2\<rparr>) = (mem_of h)\<lparr>ms_taskDefs := x2\<rparr>"
  "mem_of (h\<lparr>hs_runs := x3\<rparr>) = (mem_of h)\<lparr>ms_runs := x3\<rparr>" "mem_of (h\<lparr>hs_webhooks := x4\<rparr>) = (mem_of h)\<lparr>ms_webhooks := x4\<rparr>"
  by (simp_all add: mem_of_def NewMemStore_def)

lemma journal_hot [simp]: "fs_hot (journal fs e) = fs_hot fs"
  by (simp add: journal_def runWriter_entry_def Let_def split: list.split)

lemma runWriter_entry_hot [simp]: "fs_hot (runWriter_entry fs) = fs_hot fs"
  by (simp add: runWriter_entry_def split: list.split)

lemmas fs_writes = FS_SaveJob_def FS_SaveJob_mem_def FS_UpdateJob_def FS_UpdateJob_mem_def FS_SaveTask_def FS_UpdateTask_def
  FS_DeleteTask_def FS_CreateRun_def FS_UpdateRun_def FS_EnqueueWebhook_def FS_AckWebhook_def FS_NackWebhook_def
  put_job_def put_task_def put_run_def put_webhook_def

lemmas mem_writes = SaveJob_def UpdateJob_def SaveTask_def UpdateTask_def DeleteTask_def CreateRun_def UpdateRun_def
  EnqueueWebhook_def AckWebhook_def NackWebhook_def

lemma fs_reads:
  "FS_GetJob fs i = GetJob (mem_of (fs_hot fs)) i" "FS_ListJobs fs c n = ListJobs (mem_of (fs_hot fs)) c n"
  "FS_ListPendingJobs fs = ListPendingJobs (mem_of (fs_hot fs))"
  "FS_ListRecoverableJobs fs = ListRecoverableJobs (mem_of (fs_hot fs))"
  "FS_ListChildJobs fs p = ListChildJobs (mem_of (fs_hot fs)) p"
  "FS_CountJobsByStatus fs = CountJobsByStatus (mem_of (fs_hot fs))"
  "FS_GetTask fs i = GetTask (mem_of (fs_hot fs)) i" "FS_ListTasks fs = ListTasks (mem_of (fs_hot fs))"
  "FS_GetRun fs i = GetRun (mem_of (fs_hot fs)) i" "FS_ListJobRuns fs i = ListJobRuns (mem_of (fs_hot fs)) i"
  "FS_DequeueWebhooks fs now = DequeueWebhooks (mem_of (fs_hot fs)) now"
proof -
  show "FS_ListJobs fs c n = ListJobs (mem_of (fs_hot fs)) c n" by (simp add: FS_ListJobs_def ListJobs_def root_jobs_def)
  have "(\<lambda>a b. if IsZero (rStartedAt a) \<or> IsZero (rStartedAt b) then rAttempt a < rAttempt b
      else rStartedAt a < rStartedAt b) = run_before" by (simp add: run_before_def fun_eq_iff)
  then show "FS_ListJobRuns fs i = ListJobRuns (mem_of (fs_hot fs)) i" by (simp add: FS_ListJobRuns_def ListJobRuns_def)
  have "(\<lambda>a b. jCreatedAt a < jCreatedAt b) = created_asc" by (simp add: created_asc_def fun_eq_iff)
  then show "FS_ListChildJobs fs p = ListChildJobs (mem_of (fs_hot fs)) p" by (simp add: FS_ListChildJobs_def ListChildJobs_def)
qed (simp_all add: FS_GetJob_def GetJob_def FS_ListPendingJobs_def ListPendingJobs_def FS_ListRecoverableJobs_def
    ListRecoverableJobs_def recoverable_def FS_CountJobsByStatus_def CountJobsByStatus_def FS_GetTask_def GetTask_def
    FS_ListTasks_def ListTasks_def FS_GetRun_def GetRun_def FS_DequeueWebhooks_def DequeueWebhooks_def)

lemma fs_do_refines:
  "fst (fs_do fs p) = fst (mem_do (mem_of (fs_hot fs)) p)"
  "mem_of (fs_hot (snd (fs_do fs p))) = snd (mem_do (mem_of (fs_hot fs)) p)"
  by (cases p; auto simp: fs_reads fs_writes mem_writes mem_of_upd upd_out_def split: option.split)+

lemma answers_refine: "answers fs_do fs ps = answers mem_do (mem_of (fs_hot fs)) ps"
proof (induction ps arbitrary: fs)
  case (Cons p ps)
  then show ?case using fs_do_refines [of fs p] by (simp add: case_prod_beta)
qed simp

lemma opened_empty: "OpenFSStore sz cfg empty_disk = Inr fs \<Longrightarrow> mem_of (fs_hot fs) = NewMemStore"
  by (auto simp: OpenFSStore_def empty_disk_def loadSnapshot_def compact_snap mem_of_def hs_empty_def NewMemStore_def)

interpretation fs_jobs: job_store FS_SaveJob FS_GetJob FS_UpdateJob
  by unfold_locales (auto simp: fs_writes FS_GetJob_def update_conv' split: option.splits)



end
