(* ===== verification/Rate_Limiter.thy ===== *)
theory Rate_Limiter
  imports Contract_Types
begin

text \<open>
  The token buckets in front of the HTTP routes (\<^verbatim>\<open>manager/ratelimiter.go\<close>). Floating-point numbers are
  reals; every operation gets the time its clock reads. A request is its key, which the key function of
  the collection extracts.
\<close>

section \<open>One bucket\<close>

record Limiter =
  lim_rate :: real
  lim_capacity :: real
  lim_tokens :: real
  lim_lastUpdated :: time

definition NewLimiter :: "real \<Rightarrow> real \<Rightarrow> time \<Rightarrow> Limiter" where
  "NewLimiter rate capacity now =
     \<lparr>lim_rate = rate, lim_capacity = capacity, lim_tokens = capacity, lim_lastUpdated = now\<rparr>"

definition replenish :: "Limiter \<Rightarrow> time \<Rightarrow> Limiter" where
  "replenish l now =
     (let elapsed = seconds (now - lim_lastUpdated l);
          tokens = lim_tokens l + elapsed * lim_rate l
      in l\<lparr>lim_tokens := (if lim_capacity l < tokens then lim_capacity l else tokens), lim_lastUpdated := now\<rparr>)"

definition Allow :: "Limiter \<Rightarrow> time \<Rightarrow> bool \<times> Limiter" where
  "Allow l now =
     (let l1 = replenish l now
      in if 1 \<le> lim_tokens l1 then (True, l1\<lparr>lim_tokens := lim_tokens l1 - 1\<rparr>) else (False, l1))"

record attempt =
  at_allowed :: bool
  at_remaining :: int
  at_reset :: duration

definition Attempt :: "Limiter \<Rightarrow> time \<Rightarrow> attempt \<times> Limiter" where
  "Attempt l now =
     (let l1 = replenish l now;
          allowed = (1 \<le> lim_tokens l1);
          l2 = (if allowed then l1\<lparr>lim_tokens := lim_tokens l1 - 1\<rparr> else l1);
          timeToFullSecs = (lim_capacity l2 - lim_tokens l2) / lim_rate l2
      in (\<lparr>at_allowed = allowed, at_remaining = go_trunc (lim_tokens l2),
           at_reset = go_trunc (timeToFullSecs * 1000000000)\<rparr>, l2))"

definition lim_Capacity :: "Limiter \<Rightarrow> int" where "lim_Capacity l = go_trunc (lim_capacity l)"

section \<open>A bucket per client\<close>

record HTTPLimiterCollection =
  hl_limiters :: "(string, Limiter) gomap"
  hl_factory :: "time \<Rightarrow> Limiter"

definition NewHTTPLimiterCollection :: "(time \<Rightarrow> Limiter) \<Rightarrow> HTTPLimiterCollection" where
  "NewHTTPLimiterCollection factory = \<lparr>hl_limiters = [], hl_factory = factory\<rparr>"

definition hl_Get :: "HTTPLimiterCollection \<Rightarrow> string \<Rightarrow> time \<Rightarrow> Limiter \<times> HTTPLimiterCollection" where
  "hl_Get c key now =
     (case map_of (hl_limiters c) key of
        Some l \<Rightarrow> (l, c)
      | None \<Rightarrow> (let l = hl_factory c now in (l, c\<lparr>hl_limiters := AList.update key l (hl_limiters c)\<rparr>)))"

definition Cleanup :: "HTTPLimiterCollection \<Rightarrow> duration \<Rightarrow> time \<Rightarrow> HTTPLimiterCollection" where
  "Cleanup c idle now =
     c\<lparr>hl_limiters := filter (\<lambda>(key, l). \<not> idle < now - lim_lastUpdated l) (hl_limiters c)\<rparr>"

text \<open>The headers of the answer; a rejected request gets status 429, another one goes to the next handler.\<close>

datatype rl_answer = Next "(string \<times> string) list" | TooManyRequests "(string \<times> string) list"

definition hl_Middleware :: "HTTPLimiterCollection \<Rightarrow> string \<Rightarrow> time \<Rightarrow> rl_answer \<times> HTTPLimiterCollection" where
  "hl_Middleware c key now =
     (let (limiter, c1) = hl_Get c key now;
          (att, limiter') = Attempt limiter now;
          c2 = c1\<lparr>hl_limiters := AList.update key limiter' (hl_limiters c1)\<rparr>;
          resetSecs = Itoa \<lceil>seconds (at_reset att)\<rceil>;
          headers = [(''RateLimit-Limit'', Itoa (lim_Capacity limiter')), (''RateLimit-Remaining'', Itoa (at_remaining att)),
                     (''RateLimit-Reset'', resetSecs)]
      in (if at_allowed att then Next headers else TooManyRequests (headers @ [(''Retry-After'', resetSecs)]), c2))"

fun serve :: "HTTPLimiterCollection \<Rightarrow> (string \<times> time) list \<Rightarrow> rl_answer list \<times> HTTPLimiterCollection" where
  "serve c [] = ([], c)"
| "serve c ((key, now) # rs) =
     (let (a, c1) = hl_Middleware c key now; (as, c2) = serve c1 rs in (a # as, c2))"

fun is_next :: "rl_answer \<Rightarrow> bool" where
  "is_next (Next h) = True" | "is_next (TooManyRequests h) = False"

section \<open>Bounds\<close>

text \<open>The state of a bucket that was made by \<open>NewLimiter rate cap\<close>.\<close>

definition lim_ok :: "real \<Rightarrow> real \<Rightarrow> Limiter \<Rightarrow> bool" where
  "lim_ok rate cap l \<longleftrightarrow> lim_rate l = rate \<and> lim_capacity l = cap \<and> 0 \<le> lim_tokens l \<and> lim_tokens l \<le> cap"

lemma seconds_nonneg: "0 \<le> d \<Longrightarrow> 0 \<le> seconds d"
  by (simp add: seconds_def)

lemma replenish_ok:
  assumes "lim_ok rate cap l" "0 \<le> rate" "lim_lastUpdated l \<le> now"
  shows "lim_ok rate cap (replenish l now)" "lim_tokens (replenish l now) \<le> lim_tokens l + seconds (now - lim_lastUpdated l) * rate"
    "lim_lastUpdated (replenish l now) = now"
proof -
  have "0 \<le> seconds (now - lim_lastUpdated l) * rate" using assms by (simp add: seconds_nonneg)
  then show "lim_ok rate cap (replenish l now)"
      "lim_tokens (replenish l now) \<le> lim_tokens l + seconds (now - lim_lastUpdated l) * rate"
      "lim_lastUpdated (replenish l now) = now"
    using assms(1) by (auto simp: lim_ok_def replenish_def Let_def)
qed

text \<open>One attempt spends a token when it is allowed and gains at most the time that passed.\<close>

lemma Attempt_ok:
  assumes "lim_ok rate cap l" "0 \<le> rate" "lim_lastUpdated l \<le> now" "Attempt l now = (att, l')"
  shows "lim_ok rate cap l'" "lim_lastUpdated l' = now"
    "lim_tokens l' + (if at_allowed att then 1 else 0) \<le> lim_tokens l + seconds (now - lim_lastUpdated l) * rate"
  using replenish_ok [OF assms(1-3)] assms(4) by (auto simp: Attempt_def Let_def lim_ok_def)

definition bucket :: "HTTPLimiterCollection \<Rightarrow> string \<Rightarrow> time \<Rightarrow> Limiter" where
  "bucket c key now = (case map_of (hl_limiters c) key of Some l \<Rightarrow> l | None \<Rightarrow> hl_factory c now)"

lemma hl_Middleware_bucket:
  "fst (hl_Middleware c key now) =
     (let (att, l') = Attempt (bucket c key now) now;
          resetSecs = Itoa \<lceil>seconds (at_reset att)\<rceil>;
          headers = [(''RateLimit-Limit'', Itoa (lim_Capacity l')), (''RateLimit-Remaining'', Itoa (at_remaining att)),
                     (''RateLimit-Reset'', resetSecs)]
      in if at_allowed att then Next headers else TooManyRequests (headers @ [(''Retry-After'', resetSecs)]))"
  "map_of (hl_limiters (snd (hl_Middleware c key now))) =
     (map_of (hl_limiters c))(key \<mapsto> snd (Attempt (bucket c key now) now))"
  "hl_factory (snd (hl_Middleware c key now)) = hl_factory c"
  by (auto simp: hl_Middleware_def hl_Get_def bucket_def Let_def case_prod_beta fun_eq_iff split: option.split)

lemma hl_Middleware_next: "is_next (fst (hl_Middleware c key now)) = at_allowed (fst (Attempt (bucket c key now) now))"
  by (simp add: hl_Middleware_bucket(1) Let_def case_prod_beta)

text \<open>The requests of one client that are let through.\<close>

definition passed :: "string \<Rightarrow> (string \<times> time) list \<Rightarrow> rl_answer list \<Rightarrow> nat" where
  "passed key rs as = length (filter (\<lambda>((k, t), a). k = key \<and> is_next a) (zip rs as))"

lemma serve_bound:
  assumes "0 \<le> rate" "hl_factory c = NewLimiter rate cap" "0 \<le> cap"
    "map_of (hl_limiters c) key = Some l" "lim_ok rate cap l" "sorted (lim_lastUpdated l # map snd rs)"
  shows "real (passed key rs (fst (serve c rs))) \<le>
     lim_tokens l + seconds (last (lim_lastUpdated l # map snd rs) - lim_lastUpdated l) * rate"
  using assms
proof (induction rs arbitrary: c l)
  case Nil
  then show ?case by (simp add: passed_def seconds_def lim_ok_def)
next
  case (Cons r rs)
  obtain k t where r: "r = (k, t)" by fastforce
  define c1 where "c1 = snd (hl_Middleware c k t)"
  define ans where "ans = fst (hl_Middleware c k t)"
  have sv: "fst (serve c (r # rs)) = ans # fst (serve c1 rs)"
    by (simp add: r c1_def ans_def Let_def case_prod_beta)
  have f: "hl_factory c1 = NewLimiter rate cap" using Cons.prems(2) by (simp add: c1_def hl_Middleware_bucket)
  let ?last = "last (t # map snd rs)"
  have t: "lim_lastUpdated l \<le> t" "sorted (t # map snd rs)" "t \<le> ?last" using Cons.prems(6) by (auto simp: r last_map)
  show ?case
  proof (cases "k = key")
    case True
    obtain att l' where A: "Attempt l t = (att, l')" by fastforce
    have b: "bucket c k t = l" using True Cons.prems(4) by (simp add: bucket_def)
    note ok = Attempt_ok [OF Cons.prems(5,1) t(1) A]
    have "map_of (hl_limiters c1) key = Some l'" using True A b by (simp add: c1_def hl_Middleware_bucket)
    from Cons.IH [OF Cons.prems(1) f Cons.prems(3) this ok(1)] t(2)
    have ih: "real (passed key rs (fst (serve c1 rs))) \<le> lim_tokens l' + seconds (?last - t) * rate" by (simp add: ok(2))
    have "is_next ans = at_allowed att" using A b by (simp add: ans_def hl_Middleware_next)
    then have "real (passed key (r # rs) (fst (serve c (r # rs)))) =
        (if at_allowed att then 1 else 0) + real (passed key rs (fst (serve c1 rs)))"
      using True unfolding sv passed_def by (simp add: r)
    moreover have "seconds (?last - lim_lastUpdated l) * rate =
        seconds (t - lim_lastUpdated l) * rate + seconds (?last - t) * rate"
      by (simp add: seconds_def algebra_simps add_divide_distrib diff_divide_distrib)
    ultimately show ?thesis using ih ok(3) by (simp add: r)
  next
    case False
    have "map_of (hl_limiters c1) key = Some l" using False Cons.prems(4) by (simp add: c1_def hl_Middleware_bucket)
    moreover have "sorted (lim_lastUpdated l # map snd rs)" using Cons.prems(6) by (simp add: r)
    ultimately have "real (passed key rs (fst (serve c1 rs))) \<le>
        lim_tokens l + seconds (last (lim_lastUpdated l # map snd rs) - lim_lastUpdated l) * rate"
      using Cons.IH [OF Cons.prems(1) f Cons.prems(3) _ Cons.prems(5)] by blast
    moreover have "last (lim_lastUpdated l # map snd rs) \<le> ?last" using t by (cases rs) auto
    then have "seconds (last (lim_lastUpdated l # map snd rs) - lim_lastUpdated l) * rate
        \<le> seconds (?last - lim_lastUpdated l) * rate"
      using Cons.prems(1) by (intro mult_right_mono) (simp_all add: seconds_def divide_right_mono)
    moreover have "passed key (r # rs) (fst (serve c (r # rs))) = passed key rs (fst (serve c1 rs))"
      using False unfolding sv passed_def by (simp add: r)
    ultimately show ?thesis by (simp add: r)
  qed
qed



section \<open>Eviction\<close>

text \<open>Two collections that differ only in buckets that are full by the time \<open>t\<close>.\<close>

definition full_by :: "real \<Rightarrow> real \<Rightarrow> time \<Rightarrow> Limiter \<Rightarrow> bool" where
  "full_by rate cap t l \<longleftrightarrow>
     lim_rate l = rate \<and> lim_capacity l = cap \<and> lim_lastUpdated l \<le> t \<and>
     cap \<le> lim_tokens l + seconds (t - lim_lastUpdated l) * rate"

definition evicted :: "real \<Rightarrow> real \<Rightarrow> time \<Rightarrow> HTTPLimiterCollection \<Rightarrow> HTTPLimiterCollection \<Rightarrow> bool" where
  "evicted rate cap t c c' \<longleftrightarrow>
     hl_factory c = NewLimiter rate cap \<and> hl_factory c' = NewLimiter rate cap \<and>
     (\<forall>key. map_of (hl_limiters c') key = map_of (hl_limiters c) key \<or>
            map_of (hl_limiters c') key = None \<and> (\<exists>l. map_of (hl_limiters c) key = Some l \<and> full_by rate cap t l))"

lemma full_by_later:
  assumes "full_by rate cap t l" "t \<le> t'" "0 \<le> rate"
  shows "full_by rate cap t' l" "replenish l t' = replenish (NewLimiter rate cap t') t'"
proof -
  have "seconds (t - lim_lastUpdated l) * rate \<le> seconds (t' - lim_lastUpdated l) * rate"
    using assms(2,3) by (intro mult_right_mono) (simp_all add: seconds_def divide_right_mono)
  then show f: "full_by rate cap t' l" using assms(1,2) by (auto simp: full_by_def)
  have "(if lim_capacity l < x then lim_capacity l else x) = cap" if "cap \<le> x" for x
    using that f by (auto simp: full_by_def)
  then show "replenish l t' = replenish (NewLimiter rate cap t') t'"
    using f by (simp add: replenish_def NewLimiter_def full_by_def Let_def seconds_def)
qed

lemma evicted_step:
  assumes "evicted rate cap t c c'" "t \<le> t'" "0 \<le> rate"
  shows "fst (hl_Middleware c' k t') = fst (hl_Middleware c k t')"
    "evicted rate cap t' (snd (hl_Middleware c k t')) (snd (hl_Middleware c' k t'))"
proof -
  have fac: "hl_factory c = NewLimiter rate cap" "hl_factory c' = NewLimiter rate cap" using assms(1) by (simp_all add: evicted_def)
  have diff: "map_of (hl_limiters c') key = map_of (hl_limiters c) key \<or>
      map_of (hl_limiters c') key = None \<and> (\<exists>l. map_of (hl_limiters c) key = Some l \<and> full_by rate cap t l)" for key
    using assms(1) by (simp add: evicted_def)
  have "replenish (bucket c' k t') t' = replenish (bucket c k t') t'"
    using diff [of k]
  proof (elim disjE conjE exE)
    fix l assume "map_of (hl_limiters c') k = None" "map_of (hl_limiters c) k = Some l" "full_by rate cap t l"
    then show ?thesis using full_by_later(2) [OF _ assms(2,3)] fac by (simp add: bucket_def)
  qed (simp add: bucket_def fac split: option.split)
  then have att: "Attempt (bucket c' k t') t' = Attempt (bucket c k t') t'" by (simp add: Attempt_def)
  then show "fst (hl_Middleware c' k t') = fst (hl_Middleware c k t')" by (simp add: hl_Middleware_bucket(1))
  show "evicted rate cap t' (snd (hl_Middleware c k t')) (snd (hl_Middleware c' k t'))"
    unfolding evicted_def hl_Middleware_bucket(2,3) att
    using fac diff full_by_later(1) [OF _ assms(2,3)] by (metis fun_upd_apply)
qed

lemma map_of_filter_val:
  "keys_distinct m \<Longrightarrow>
   map_of (filter (\<lambda>(k, v). P v) m) x = (case map_of m x of None \<Rightarrow> None | Some v \<Rightarrow> if P v then Some v else None)"
proof (induction m)
  case (Cons a m)
  obtain k v where a: "a = (k, v)" by fastforce
  have "map_of m k = None" "keys_distinct m" using Cons.prems by (auto simp: keys_distinct_def a map_of_eq_None_iff)
  then show ?case using Cons.IH by (auto simp: a split: option.split)
qed simp

text \<open>
  Removing idle buckets cannot be noticed when the idle time is long enough to fill a bucket: every
  later request gets the same answer, headers included.
\<close>

lemma Cleanup_invisible:
  assumes "0 \<le> rate" "cap \<le> seconds idle * rate" "hl_factory c = NewLimiter rate cap" "keys_distinct (hl_limiters c)"
    "\<forall>(key, l) \<in> set (hl_limiters c). lim_ok rate cap l \<and> lim_lastUpdated l \<le> now" "sorted (now # map snd rs)"
  shows "fst (serve (Cleanup c idle now) rs) = fst (serve c rs)"
proof -
  have full: "full_by rate cap now l" if l: "map_of (hl_limiters c) k = Some l" "idle < now - lim_lastUpdated l" for k l
  proof -
    have ok: "lim_ok rate cap l" "lim_lastUpdated l \<le> now" using assms(5) map_of_SomeD [OF l(1)] by auto
    have "seconds idle * rate \<le> seconds (now - lim_lastUpdated l) * rate"
      using l(2) assms(1) by (intro mult_right_mono) (simp_all add: seconds_def divide_right_mono)
    then show ?thesis using ok assms(2) by (auto simp: full_by_def lim_ok_def)
  qed
  have "evicted rate cap now c (Cleanup c idle now)"
    unfolding evicted_def Cleanup_def using assms(3) full map_of_filter_val [OF assms(4)]
    by (auto split: option.split)
  moreover have "fst (serve c' rs) = fst (serve c rs)" if "evicted rate cap now c c'" for c'
    using that assms(6)
  proof (induction rs arbitrary: c c' now)
    case (Cons r rs)
    obtain k t where r: "r = (k, t)" by fastforce
    have t: "now \<le> t" "sorted (t # map snd rs)" using Cons.prems(2) by (auto simp: r)
    note st = evicted_step [OF Cons.prems(1) t(1) assms(1), of k]
    have "fst (serve (snd (hl_Middleware c' k t)) rs) = fst (serve (snd (hl_Middleware c k t)) rs)"
      by (rule Cons.IH [OF st(2) t(2)])
    then show ?case using st(1) by (simp add: r Let_def case_prod_beta)
  qed simp
  ultimately show ?thesis by blast
qed

end
