(* ===== verification/Manager_Config.thy ===== *)
theory Manager_Config
  imports Job_Lifecycle
begin

text \<open>
  The configuration of the manager (\<^verbatim>\<open>manager/config.go\<close>). Stores, functions and loggers are present or
  nil; the selector, the registry and the pointer to the webhook settings are options. Exit codes are
  unsigned bytes.
\<close>

record WebhookSettings =
  ws_WebhookTimeout :: duration
  ws_WebhookMaxBackoff :: duration
  ws_MaxWebhookAttempts :: int

record 's FullConfig =
  mc_JobStore :: bool
  mc_TaskStore :: bool
  mc_LogStore :: bool
  mc_RunStore :: bool
  mc_WebhookStore :: bool
  mc_ArtifactsRegistry :: "ArtifactRegistry option"
  mc_Domain :: string
  mc_Logger :: bool
  mc_WorkerSelector :: "(int \<Rightarrow> 's WorkerPool \<Rightarrow> nat list \<Rightarrow> (nat \<times> int) option) option"
  mc_HeartbeatTimeout :: duration
  mc_WorkerConnectPath :: string
  mc_WorkerAuthFunc :: bool
  mc_ClientAuthFunc :: bool
  mc_NoWorkerAuth :: bool
  mc_NoClientAuth :: bool
  mc_Webhook :: "WebhookSettings option"
  mc_MaxArtifactUploadSize :: int
  mc_ArtifactSignedURLTTL :: duration
  mc_DefaultRetryPolicy :: RetryPolicy
  mc_StarvationTimeout :: duration
  mc_OnResourceShortage :: bool
  mc_ScaleUpCooldown :: duration
  mc_IdleWorkerThreshold :: duration
  mc_OnIdleWorker :: bool
  mc_ScaleDownCooldown :: duration
  mc_IdleWorkerEvaluationInterval :: duration
  mc_DefaultPanicExitCode :: int
  mc_DoNotRetryFrom :: int
  mc_DoNotRetryTo :: int

text \<open>\<open>or_default d x\<close> is the default \<open>d\<close> when the field still has its zero value.\<close>

definition or_default :: "int \<Rightarrow> int \<Rightarrow> int" where "or_default d x = (if x = 0 then d else x)"

definition default_webhook :: "WebhookSettings \<Rightarrow> WebhookSettings" where
  "default_webhook w = w\<lparr>ws_WebhookTimeout := or_default Second (ws_WebhookTimeout w),
     ws_WebhookMaxBackoff := or_default (5 * Minute) (ws_WebhookMaxBackoff w)\<rparr>"

definition default_retry :: "RetryPolicy \<Rightarrow> RetryPolicy" where
  "default_retry p = \<lparr>MaxAttempts = or_default 3 (MaxAttempts p), RetryDelay = or_default Second (RetryDelay p),
     MaxRetryDelay = or_default Minute (MaxRetryDelay p)\<rparr>"

text \<open>
  The fields in the order of the source; the last two tests both assign the lower bound of the range. A nil
  pointer to the webhook settings is dereferenced.
\<close>

definition default_fields :: "'s FullConfig \<Rightarrow> WebhookSettings \<Rightarrow> 's FullConfig" where
  "default_fields c w =
     c\<lparr>mc_Logger := True,
       mc_WorkerSelector := (case mc_WorkerSelector c of None \<Rightarrow> Some LeastLoadedSelector | Some s \<Rightarrow> Some s),
       mc_IdleWorkerThreshold := or_default (5 * Minute) (mc_IdleWorkerThreshold c),
       mc_HeartbeatTimeout := or_default (30 * Second) (mc_HeartbeatTimeout c),
       mc_Webhook := Some (default_webhook w),
       mc_MaxArtifactUploadSize := or_default (500 * 1024 * 1024) (mc_MaxArtifactUploadSize c),
       mc_ArtifactSignedURLTTL := or_default (60 * Minute) (mc_ArtifactSignedURLTTL c),
       mc_DefaultRetryPolicy := default_retry (mc_DefaultRetryPolicy c),
       mc_StarvationTimeout := or_default (5 * Minute) (mc_StarvationTimeout c),
       mc_ScaleUpCooldown := or_default (30 * Second) (mc_ScaleUpCooldown c),
       mc_ScaleDownCooldown := or_default (60 * Second) (mc_ScaleDownCooldown c),
       mc_IdleWorkerEvaluationInterval := or_default (15 * Minute) (mc_IdleWorkerEvaluationInterval c),
       mc_WorkerConnectPath := (if mc_WorkerConnectPath c = [] then ''/workers/connect'' else mc_WorkerConnectPath c),
       mc_DefaultPanicExitCode := or_default 2 (mc_DefaultPanicExitCode c)\<rparr>"

definition default_range :: "'s FullConfig \<Rightarrow> 's FullConfig" where
  "default_range c =
     (let c1 = (if mc_DoNotRetryFrom c = 0 then c\<lparr>mc_DoNotRetryFrom := 200\<rparr> else c)
      in if mc_DoNotRetryTo c1 = 0 then c1\<lparr>mc_DoNotRetryFrom := 254\<rparr> else c1)"

definition applyDefaults :: "'s FullConfig \<Rightarrow> 's FullConfig res" where
  "applyDefaults c =
     (case mc_Webhook c of
        None \<Rightarrow> Inl (Panic ''invalid memory address or nil pointer dereference'')
      | Some w \<Rightarrow> Inr (default_range (default_fields c w)))"

definition validate :: "'s FullConfig \<Rightarrow> error option" where
  "validate c =
     (if \<not> mc_JobStore c then Some (Errorf ''Jobs store is required'')
      else if \<not> mc_TaskStore c then Some (Errorf ''Tasks store is required'')
      else if \<not> mc_LogStore c then Some (Errorf ''Logs store is required'')
      else if \<not> mc_RunStore c then Some (Errorf ''Run store is required'')
      else if \<not> mc_WebhookStore c then Some (Errorf ''Webhooks store is required'')
      else if mc_ArtifactsRegistry c = None then Some (Errorf ''Artifact Registry is required'')
      else if \<not> mc_WorkerAuthFunc c \<and> \<not> mc_NoWorkerAuth c
           then Some (Errorf ''WorkerAuthFunc is required; set NoWorkerAuth=true to allow unauthenticated workers'')
      else if \<not> mc_ClientAuthFunc c \<and> \<not> mc_NoClientAuth c
           then Some (Errorf ''ClientAuthFunc is required; set NoClientAuth=true to allow unauthenticated API access'')
      else None)"

text \<open>What the rest of the manager reads; sets, lanes, identifiers and signatures come from libraries.\<close>

definition config_of ::
  "'s SimpleSet \<Rightarrow> 's lane_Do \<Rightarrow> (nat \<Rightarrow> string) \<Rightarrow> (string \<Rightarrow> string res) option \<Rightarrow> 's FullConfig \<Rightarrow> 's Config" where
  "config_of sets lane ulid signer c =
     \<lparr>cfg_sets = sets, cfg_lane = lane, cfg_ulid = ulid, cfg_signer = signer,
      cfg_ArtifactsRegistry = mc_ArtifactsRegistry c,
      cfg_WorkerSelector = (case mc_WorkerSelector c of Some s \<Rightarrow> s | None \<Rightarrow> LeastLoadedSelector),
      cfg_StarvationTimeout = mc_StarvationTimeout c, cfg_has_OnResourceShortage = mc_OnResourceShortage c,
      cfg_ScaleUpCooldown = mc_ScaleUpCooldown c, cfg_DefaultRetryPolicy = mc_DefaultRetryPolicy c,
      cfg_DefaultPanicExitCode = mc_DefaultPanicExitCode c, cfg_DoNotRetryFrom = mc_DoNotRetryFrom c,
      cfg_DoNotRetryTo = mc_DoNotRetryTo c\<rparr>"

definition NewConfig :: "'s FullConfig \<Rightarrow> 's FullConfig res" where
  "NewConfig cfg =
     and_then (applyDefaults cfg) (\<lambda>c. case validate c of Some e \<Rightarrow> Inl e | None \<Rightarrow> Inr c)"

section \<open>Properties\<close>

lemma or_default_idem [simp]: "or_default d (or_default d x) = or_default d x"
  by (simp add: or_default_def)

lemma or_default_nz [simp]: "d \<noteq> 0 \<Longrightarrow> or_default d x \<noteq> 0"
  by (simp add: or_default_def)

lemma default_webhook_idem [simp]: "default_webhook (default_webhook w) = default_webhook w"
  by (simp add: default_webhook_def)

lemma default_retry_idem [simp]: "default_retry (default_retry p) = default_retry p"
  by (simp add: default_retry_def)

lemma default_range_form:
  "default_range c = c\<lparr>mc_DoNotRetryFrom := (if mc_DoNotRetryTo c = 0 then 254 else or_default 200 (mc_DoNotRetryFrom c))\<rparr>"
  by (simp add: default_range_def or_default_def Let_def)

lemma default_fields_idem: "default_fields (default_fields c w) (default_webhook w) = default_fields c w"
  by (simp add: default_fields_def split: option.split)

lemma default_fields_range:
  "mc_Webhook (default_fields c w) = Some (default_webhook w)"
  "default_fields (c\<lparr>mc_DoNotRetryFrom := n\<rparr>) w = (default_fields c w)\<lparr>mc_DoNotRetryFrom := n\<rparr>"
  "mc_DoNotRetryTo (default_fields c w) = mc_DoNotRetryTo c" "mc_DoNotRetryFrom (default_fields c w) = mc_DoNotRetryFrom c"
  by (simp_all add: default_fields_def)

lemma applyDefaults_idem:
  assumes "applyDefaults c = Inr c'"
  shows "applyDefaults c' = Inr c'"
proof -
  obtain w where w: "mc_Webhook c = Some w" "c' = default_range (default_fields c w)"
    using assms by (auto simp: applyDefaults_def split: option.splits)
  have "mc_Webhook c' = Some (default_webhook w)" by (simp add: w(2) default_range_form default_fields_range)
  moreover have "default_range (default_fields c' (default_webhook w)) = c'"
    by (simp add: w(2) default_range_form default_fields_range default_fields_idem)
  ultimately show ?thesis by (simp add: applyDefaults_def)
qed

lemma applyDefaults_fields:
  assumes "applyDefaults c = Inr c'"
  shows "mc_DoNotRetryTo c' = mc_DoNotRetryTo c"
    "mc_DoNotRetryFrom c' = (if mc_DoNotRetryTo c = 0 then 254 else or_default 200 (mc_DoNotRetryFrom c))"
    "mc_WorkerSelector c' \<noteq> None" "mc_HeartbeatTimeout c' \<noteq> 0" "mc_StarvationTimeout c' \<noteq> 0"
    "mc_DefaultRetryPolicy c' = default_retry (mc_DefaultRetryPolicy c)"
proof -
  obtain w where w: "c' = default_range (default_fields c w)"
    using assms by (auto simp: applyDefaults_def split: option.splits)
  show "mc_DoNotRetryTo c' = mc_DoNotRetryTo c"
    "mc_DoNotRetryFrom c' = (if mc_DoNotRetryTo c = 0 then 254 else or_default 200 (mc_DoNotRetryFrom c))"
    "mc_HeartbeatTimeout c' \<noteq> 0" "mc_StarvationTimeout c' \<noteq> 0"
    "mc_DefaultRetryPolicy c' = default_retry (mc_DefaultRetryPolicy c)"
    by (simp_all add: w default_range_form default_fields_def)
  show "mc_WorkerSelector c' \<noteq> None" by (simp add: w default_range_form default_fields_def split: option.split)
qed


definition ex_full :: "string list FullConfig" where
  "ex_full =
     \<lparr>mc_JobStore = True, mc_TaskStore = True, mc_LogStore = True, mc_RunStore = True, mc_WebhookStore = True,
      mc_ArtifactsRegistry = Some ex_registry, mc_Domain = [], mc_Logger = False, mc_WorkerSelector = None,
      mc_HeartbeatTimeout = 0, mc_WorkerConnectPath = [], mc_WorkerAuthFunc = False, mc_ClientAuthFunc = True,
      mc_NoWorkerAuth = True, mc_NoClientAuth = False,
      mc_Webhook = Some \<lparr>ws_WebhookTimeout = 0, ws_WebhookMaxBackoff = 0, ws_MaxWebhookAttempts = 0\<rparr>,
      mc_MaxArtifactUploadSize = 0, mc_ArtifactSignedURLTTL = 0,
      mc_DefaultRetryPolicy = \<lparr>MaxAttempts = 0, RetryDelay = 0, MaxRetryDelay = 0\<rparr>, mc_StarvationTimeout = 0,
      mc_OnResourceShortage = False, mc_ScaleUpCooldown = 0, mc_IdleWorkerThreshold = 0, mc_OnIdleWorker = False,
      mc_ScaleDownCooldown = 0, mc_IdleWorkerEvaluationInterval = 0, mc_DefaultPanicExitCode = 0, mc_DoNotRetryFrom = 0,
      mc_DoNotRetryTo = 0\<rparr>"


end
