(* ===== verification/Go_Text.thy ===== *)
theory Go_Text
  imports Proto_Messages
begin

text \<open>
  Text the worker and the HTTP surface produce with Go's standard library: durations, decimal fractions,
  trimming, splitting and escaping. The form of a duration is read back by \<^verbatim>\<open>time.ParseDuration\<close>, and
  a load printed with two decimals by \<^verbatim>\<open>strconv.ParseFloat\<close>.
\<close>

section \<open>Durations\<close>

fun padded :: "nat \<Rightarrow> nat \<Rightarrow> string" where
  "padded n 0 = []"
| "padded n (Suc p) = padded (n div 10) p @ [char_of (48 + n mod 10)]"

definition strip_zeros :: "string \<Rightarrow> string" where
  "strip_zeros s = rev (dropWhile (\<lambda>c. c = CHR ''0'') (rev s))"

text \<open>The fraction of \<open>v\<close> below \<open>10 ^ p\<close>, without trailing zeros.\<close>

definition fmtFrac :: "nat \<Rightarrow> nat \<Rightarrow> string" where
  "fmtFrac v p = (let ds = strip_zeros (padded (v mod 10 ^ p) p) in if ds = [] then [] else CHR ''.'' # ds)"

definition Duration_String :: "duration \<Rightarrow> string" where
  "Duration_String d =
     (let u = nat \<bar>d\<bar>;
          s = u div 10 ^ 9; sec = nat_digits (s mod 60) @ fmtFrac u 9 @ ''s''
      in (if d < 0 then ''-'' else [])
         @ (if u = 0 then ''0s''
            else if u < 10 ^ 3 then nat_digits u @ ''ns''
            else if u < 10 ^ 6 then nat_digits (u div 10 ^ 3) @ fmtFrac u 3 @ [CHR 0xC2, CHR 0xB5] @ ''s''
            else if u < 10 ^ 9 then nat_digits (u div 10 ^ 6) @ fmtFrac u 6 @ ''ms''
            else if s div 60 = 0 then sec
            else if s div 3600 = 0 then nat_digits (s div 60) @ ''m'' @ sec
            else nat_digits (s div 3600) @ ''h'' @ nat_digits (s div 60 mod 60) @ ''m'' @ sec))"

lemma length_padded [simp]: "length (padded n p) = p"
  by (induction p arbitrary: n) auto

lemma padded_digits: "list_all is_digit (padded n p)"
  by (induction p arbitrary: n) (auto simp: is_digit_char)

lemma digits_val_Nil [simp]: "digits_val [] = 0"
  by (simp add: digits_val_def)

lemma digits_val_padded: "n < 10 ^ p \<Longrightarrow> digits_val (padded n p) = n"
proof (induction p arbitrary: n)
  case 0
  then show ?case by simp
next
  case (Suc p)
  then have "n div 10 < 10 ^ p" by (simp add: less_mult_imp_div_less mult.commute)
  with Suc.IH [OF this] show ?case by (simp add: digits_val_snoc)
qed

lemma digits_val_zeros: "digits_val (s @ replicate k (CHR ''0'')) = digits_val s * 10 ^ k"
proof -
  have "foldl (\<lambda>n c. n * 10 + (byte c - 48)) n (replicate k (CHR ''0'')) = n * 10 ^ k" for n
    by (induction k arbitrary: n) (simp_all add: byte_def)
  then show ?thesis by (simp add: digits_val_def)
qed

lemma strip_zeros_split: "\<exists>k. s = strip_zeros s @ replicate k (CHR ''0'')"
proof -
  let ?z = "takeWhile (\<lambda>c. c = CHR ''0'') (rev s)"
  have "?z = replicate (length ?z) (CHR ''0'')"
    by (rule replicate_eqI) (auto dest: set_takeWhileD)
  then have "rev ?z = replicate (length ?z) (CHR ''0'')" by (metis rev_replicate)
  moreover have "s = strip_zeros s @ rev ?z"
    unfolding strip_zeros_def by (metis rev_append rev_rev_ident takeWhile_dropWhile_id)
  ultimately show ?thesis by metis
qed

text \<open>What the fraction stands for: digits whose value, scaled by the unit, is the remainder.\<close>

lemma fmtFrac_cases:
  obtains "fmtFrac v p = []" "v mod 10 ^ p = 0"
  | fp where "fmtFrac v p = CHR ''.'' # fp" "list_all is_digit fp" "fp \<noteq> []"
      "digits_val fp * 10 ^ p div 10 ^ length fp = v mod 10 ^ p"
proof -
  let ?ds = "padded (v mod 10 ^ p) p"
  obtain k where k: "?ds = strip_zeros ?ds @ replicate k (CHR ''0'')" using strip_zeros_split by blast
  let ?fp = "strip_zeros ?ds"
  have val: "digits_val ?fp * 10 ^ k = v mod 10 ^ p"
    using digits_val_zeros [of ?fp k] digits_val_padded [of "v mod 10 ^ p" p] k by simp
  have len: "length ?fp + k = p" using arg_cong [OF k, of length] by simp
  show ?thesis
  proof (cases "?fp = []")
    case True
    then show ?thesis using that(1) val by (simp add: fmtFrac_def)
  next
    case False
    have "list_all is_digit (strip_zeros ?ds @ replicate k (CHR ''0''))" using padded_digits k by metis
    then have d: "list_all is_digit ?fp" by simp
    have "digits_val ?fp * 10 ^ p = digits_val ?fp * 10 ^ k * 10 ^ length ?fp"
      using len by (simp add: power_add [symmetric] add.commute)
    then have "digits_val ?fp * 10 ^ p div 10 ^ length ?fp = v mod 10 ^ p" using val by simp
    then show ?thesis using that(2) False d by (simp add: fmtFrac_def)
  qed
qed

section \<open>Reading a duration back\<close>

lemma takeWhile_is_digit: "list_all is_digit ds \<Longrightarrow> r = [] \<or> \<not> is_digit (hd r) \<Longrightarrow>
    takeWhile is_digit (ds @ r) = ds \<and> dropWhile is_digit (ds @ r) = r"
  by (cases r) (auto simp: list_all_iff takeWhile_append2 dropWhile_append2)

lemma takeWhile_unit: "list_all (\<lambda>c. \<not> is_num_char c) u \<Longrightarrow> r = [] \<or> is_num_char (hd r) \<Longrightarrow>
    takeWhile (\<lambda>c. \<not> is_num_char c) (u @ r) = u \<and> dropWhile (\<lambda>c. \<not> is_num_char c) (u @ r) = r"
  by (cases r) (auto simp: list_all_iff takeWhile_append2 dropWhile_append2)

lemma parse_units_component:
  assumes "all_digits ip" and "fr = [] \<and> f = 0 \<or> (\<exists>fp. fr = CHR ''.'' # fp \<and> list_all is_digit fp \<and> digits_val fp * nat k div 10 ^ length fp = f)"
    and "unit_of u = Some k" "0 \<le> k" "u \<noteq> []" "list_all (\<lambda>c. \<not> is_num_char c) u" "r = [] \<or> is_num_char (hd r)"
    and "d + int (digits_val ip) * k + int f \<le> 2 ^ 63" "0 \<le> d"
  shows "parse_units (Suc n) d (ip @ fr @ u @ r) = parse_units n (d + int (digits_val ip) * k + int f) r"
proof -
  let ?s = "ip @ fr @ u @ r"
  have ip: "ip \<noteq> []" "list_all is_digit ip" using assms(1) by (auto simp: all_digits_def)
  have hd: "is_num_char (hd ?s)" using ip by (cases ip) (auto simp: is_num_char_def)
  have u0: "\<not> is_num_char (hd (u @ r))" using assms(5,6) by (cases u) auto
  then have nd: "\<not> is_digit (hd (u @ r))" "hd (u @ r) \<noteq> CHR ''.''" by (auto simp: is_num_char_def)
  have ndfr: "fr @ u @ r = [] \<or> \<not> is_digit (hd (fr @ u @ r))"
    using assms(2) nd(1) by (auto simp: is_digit_def byte_def)
  note t1 = takeWhile_is_digit [OF ip(2) ndfr]
  note tu = takeWhile_unit [OF assms(6,7)]
  obtain fp where fp: "(case fr @ u @ r of c # cs \<Rightarrow> (if c = CHR ''.'' then (takeWhile is_digit cs, dropWhile is_digit cs) else ([], fr @ u @ r))
                           | [] \<Rightarrow> ([], [])) = (fp, u @ r)" and val: "int (digits_val fp) * k div 10 ^ length fp = int f"
  proof (cases "fr = []")
    case True
    then show ?thesis using that [of "[]"] assms(2) nd(2) assms(5) by (cases u) auto
  next
    case False
    then obtain fp where f: "fr = CHR ''.'' # fp" "list_all is_digit fp" "digits_val fp * nat k div 10 ^ length fp = f"
      using assms(2) by blast
    have "int (digits_val fp) * k div 10 ^ length fp = int (digits_val fp * nat k div 10 ^ length fp)"
      using assms(4) by (simp add: zdiv_int)
    then show ?thesis using that [of fp] f takeWhile_is_digit [OF f(2), of "u @ r"] nd(1) by simp
  qed
  have bound: "\<not> 2 ^ 63 < int (digits_val ip) * k + int f" "\<not> 2 ^ 63 < d + (int (digits_val ip) * k + int f)"
    using assms(8,9) by linarith+
  show ?thesis
    unfolding parse_units.simps using hd ip(1) t1 fp tu assms(3,5) bound val
    by (simp add: Let_def add.assoc)
qed

lemma parse_units_Nil [simp]: "parse_units (Suc n) d [] = Some d"
  by simp

declare parse_units.simps(2) [simp del]

lemma num_digits: "all_digits (nat_digits n)" "digits_val (nat_digits n) = n" "nat_digits n \<noteq> []"
  "is_num_char (hd (nat_digits n @ r))"
proof -
  show d: "all_digits (nat_digits n)" by (rule nat_digits_all)
  show "digits_val (nat_digits n) = n" by (rule digits_val_digits)
  show ne: "nat_digits n \<noteq> []" using d by (simp add: all_digits_def)
  show "is_num_char (hd (nat_digits n @ r))"
    using d ne by (cases "nat_digits n") (auto simp: all_digits_def is_num_char_def)
qed

text \<open>A number with its fraction and unit is worth \<open>u\<close>, counted in nanoseconds.\<close>

lemma parse_units_frac:
  assumes "unit_of un = Some (10 ^ p)" "un \<noteq> []" "list_all (\<lambda>c. \<not> is_num_char c) un"
    and "d + int (q * 10 ^ p + u mod 10 ^ p) \<le> 2 ^ 63" "0 \<le> d"
  shows "parse_units (Suc (Suc n)) d (nat_digits q @ fmtFrac u p @ un) = Some (d + int (q * 10 ^ p + u mod 10 ^ p))"
proof -
  have fr: "fmtFrac u p = [] \<and> u mod 10 ^ p = 0 \<or>
      (\<exists>fp. fmtFrac u p = CHR ''.'' # fp \<and> list_all is_digit fp \<and> digits_val fp * nat (10 ^ p) div 10 ^ length fp = u mod 10 ^ p)"
    by (rule fmtFrac_cases [of u p]) (auto simp: nat_power_eq)
  show ?thesis
    using parse_units_component [OF num_digits(1) fr assms(1) _ assms(2,3), of "[]" d q "Suc n"] assms(4,5)
    by (simp add: num_digits(2) add.assoc)
qed

lemma parse_units_whole:
  assumes "unit_of un = Some k" "0 \<le> k" "un \<noteq> []" "list_all (\<lambda>c. \<not> is_num_char c) un"
    and "d + int q * k \<le> 2 ^ 63" "0 \<le> d"
  shows "parse_units (Suc n) d (nat_digits q @ un @ nat_digits q' @ r) = parse_units n (d + int q * k) (nat_digits q' @ r)"
  using parse_units_component [OF num_digits(1), of "[]" 0 k un "nat_digits q' @ r" d q n] assms
    num_digits(4) [of q' "[]"] by (simp add: num_digits)

lemma unit_facts:
  "unit_of ''ns'' = Some 1" "unit_of [CHR 0xC2, CHR 0xB5, CHR ''s''] = Some 1000" "unit_of ''ms'' = Some 1000000"
  "unit_of ''s'' = Some Second" "unit_of ''m'' = Some Minute" "unit_of ''h'' = Some Hour"
  "\<not> is_num_char (CHR ''n'')" "\<not> is_num_char (CHR ''s'')" "\<not> is_num_char (CHR ''m'')" "\<not> is_num_char (CHR ''h'')"
  "\<not> is_num_char (CHR 0xC2)" "\<not> is_num_char (CHR 0xB5)"
  by (simp_all add: unit_of_def is_num_char_def is_digit_def byte_def)

definition duration_text :: "nat \<Rightarrow> string" where
  "duration_text u = Duration_String (int u)"

lemma Duration_String_text: "Duration_String d = (if d < 0 then ''-'' else []) @ duration_text (nat \<bar>d\<bar>)"
  by (simp add: duration_text_def Duration_String_def Let_def)

lemma parse_duration_small:
  assumes "0 < u" "u < 10 ^ 9"
  shows "parse_units (Suc (Suc n)) 0 (duration_text u) = Some (int u)"
proof -
  have b: "int u \<le> 2 ^ 63" using assms(2) by simp
  consider "u < 10 ^ 3" | "10 ^ 3 \<le> u" "u < 10 ^ 6" | "10 ^ 6 \<le> u" by linarith
  then show ?thesis
  proof cases
    case 1
    have "fmtFrac u 0 = []" by (simp add: fmtFrac_def strip_zeros_def)
    then show ?thesis
      using 1 assms(1) b parse_units_frac [of "''ns''" 0 0 u u n] by (simp add: duration_text_def Duration_String_def Let_def unit_facts)
  next
    case 2
    then show ?thesis
      using b parse_units_frac [of "[CHR 0xC2, CHR 0xB5, CHR ''s'']" 3 0 "u div 1000" u n]
      by (simp add: duration_text_def Duration_String_def Let_def unit_facts)
  next
    case 3
    then show ?thesis
      using b assms parse_units_frac [of "''ms''" 6 0 "u div 1000000" u n]
      by (simp add: duration_text_def Duration_String_def Let_def unit_facts)
  qed
qed

lemma parse_duration_large:
  assumes "10 ^ 9 \<le> u" "u \<le> 2 ^ 63" "length (duration_text u) \<le> k"
  shows "parse_units (Suc k) 0 (duration_text u) = Some (int u)"
proof -
  define s where "s = u div 10 ^ 9"
  have u: "u = s * 10 ^ 9 + u mod 10 ^ 9" by (simp add: s_def)
  have s0: "s \<noteq> 0" using assms(1) by (simp add: s_def div_eq_0_iff)
  define m h where "m = s div 60" and "h = m div 60"
  have m: "s = m * 60 + s mod 60" "m = h * 60 + m mod 60" by (simp_all add: m_def h_def)
  have sh: "s div 3600 = h" by (simp add: h_def m_def div_mult2_eq [symmetric])
  have total: "int u = int h * Hour + int (m mod 60) * Minute + int (s mod 60 * 10 ^ 9 + u mod 10 ^ 9)"
  proof -
    have "int u = int h * Hour + int c * Minute + int (b * 10 ^ 9 + a)"
      if "u = s * 10 ^ 9 + a" "s = m * 60 + b" "m = h * 60 + c" for a b c :: nat
      using that by (simp add: algebra_simps)
    from this [OF u m] show ?thesis .
  qed
  have b: "int h * Hour + int (m mod 60) * Minute + int (s mod 60 * 10 ^ 9 + u mod 10 ^ 9) \<le> 2 ^ 63"
    unfolding total [symmetric] using assms(2) by simp
  let ?sec = "nat_digits (s mod 60) @ fmtFrac u 9 @ ''s''"
  have len: "\<exists>j. k = n + Suc j" if "n < length (duration_text u)" for n
    using assms(3) that less_iff_Suc_add [of n k] by auto
  have dl: "0 < length (nat_digits q)" for q using num_digits(3) by simp
  have sec: "parse_units (Suc (Suc k)) d ?sec = Some (d + int (s mod 60 * 10 ^ 9 + u mod 10 ^ 9))"
    if "d + int (s mod 60 * 10 ^ 9 + u mod 10 ^ 9) \<le> 2 ^ 63" "0 \<le> d" for d k
    using parse_units_frac [of "''s''" 9 d "s mod 60" u k] that by (simp add: unit_facts)
  have mins: "parse_units (Suc (Suc (Suc k))) d (nat_digits (m mod 60) @ ''m'' @ ?sec) =
      Some (d + int (m mod 60) * Minute + int (s mod 60 * 10 ^ 9 + u mod 10 ^ 9))"
    if "d + int (m mod 60) * Minute + int (s mod 60 * 10 ^ 9 + u mod 10 ^ 9) \<le> 2 ^ 63" "0 \<le> d" for d k
    using parse_units_whole [of "''m''" Minute d "m mod 60" "Suc (Suc k)" "s mod 60" "fmtFrac u 9 @ ''s''"]
      sec [of "d + int (m mod 60) * Minute" k] that by (simp add: unit_facts add.assoc)
  have shape: "duration_text u = (if m = 0 then ?sec else if h = 0 then nat_digits m @ ''m'' @ ?sec
      else nat_digits h @ ''h'' @ nat_digits (m mod 60) @ ''m'' @ ?sec)"
    using assms(1) unfolding duration_text_def Duration_String_def Let_def abs_of_nat nat_int s_def [symmetric] m_def [symmetric] sh
    by simp
  consider "m = 0" | "m \<noteq> 0" "h = 0" | "h \<noteq> 0" "m \<noteq> 0" using h_def by fastforce
  then show ?thesis
  proof cases
    case 1
    obtain j where "k = Suc j" using len [of 0] shape 1 by auto
    then show ?thesis using 1 shape sec [of 0 j] total b by (simp add: h_def)
  next
    case 2
    then have "m mod 60 = m" by (simp add: h_def div_eq_0_iff)
    moreover obtain j where "k = 1 + Suc j" using len [of 1] shape 2 dl [of m] by auto
    ultimately show ?thesis using 2 shape mins [of 0 j] total b by simp
  next
    case 3
    obtain j where k: "k = 2 + Suc j" using len [of 2] shape 3 dl [of h] dl [of "m mod 60"] by auto
    have "parse_units (Suc k) 0 (nat_digits h @ ''h'' @ nat_digits (m mod 60) @ ''m'' @ ?sec) =
        parse_units k (int h * Hour) (nat_digits (m mod 60) @ ''m'' @ ?sec)"
      using parse_units_whole [of "''h''" Hour 0 h k "m mod 60" "''m'' @ ?sec"] b
      by (simp add: unit_facts)
    then show ?thesis using 3 k shape mins [of "int h * Hour" j] total b by simp
  qed
qed

lemma duration_text_ends: "last (duration_text u) = CHR ''s''" "duration_text u \<noteq> []" "2 \<le> length (duration_text u)"
  "u \<noteq> 0 \<Longrightarrow> is_digit (hd (duration_text u))"
proof -
  have d: "is_digit (hd (nat_digits q))" for q
    using num_digits(1) [of q] by (cases "nat_digits q") (auto simp: all_digits_def)
  have l: "Suc 0 \<le> length (nat_digits q) + k" for q k using num_digits(3) [of q] by (cases "nat_digits q") auto
  show "last (duration_text u) = CHR ''s''" "duration_text u \<noteq> []"
    by (simp_all add: duration_text_def Duration_String_def Let_def)
  show "2 \<le> length (duration_text u)"
    using l l [of _ 0] by (simp add: duration_text_def Duration_String_def Let_def)
  show "u \<noteq> 0 \<Longrightarrow> is_digit (hd (duration_text u))"
    using d num_digits(3) by (simp add: duration_text_def Duration_String_def Let_def)
qed

text \<open>A printed duration is read back exactly.\<close>

lemma ParseDuration_String: "in_int64 d \<Longrightarrow> ParseDuration (Duration_String d) = Inr d"
proof -
  assume d: "in_int64 d"
  define u where "u = nat \<bar>d\<bar>"
  have b: "u \<le> 2 ^ 63" using d by (simp add: u_def in_int64_def min_int64_def max_int64_def nat_le_iff abs_le_iff)
  let ?t = "duration_text u"
  have ne: "?t \<noteq> ''0''" using duration_text_ends(3) [of u] by auto
  show ?thesis
  proof (cases "u = 0")
    case True
    then have "d = 0" by (simp add: u_def)
    then show ?thesis
      by (simp add: ParseDuration_def Duration_String_def split_sign_def parse_units.simps(2) is_num_char_def is_digit_def
          byte_def unit_of_def digits_val_def max_int64_def)
  next
    case False
    have p: "parse_units (Suc (length ?t)) 0 ?t = Some (int u)"
    proof (cases "u < 10 ^ 9")
      case True
      obtain n where "length ?t = Suc n" using duration_text_ends(2) [of u] by (cases ?t) auto
      then show ?thesis using parse_duration_small [of u n] False True by simp
    next
      case False
      then show ?thesis using parse_duration_large [of u "length ?t"] b by simp
    qed
    have "split_sign (Duration_String d) = (d < 0, ?t)"
    proof -
      obtain c cs where c: "?t = c # cs" "is_digit c" using duration_text_ends(2,4) [of u] False by (cases ?t) auto
      have "c \<noteq> CHR ''-''" "c \<noteq> CHR ''+''" using c(2) by (auto simp: is_digit_def byte_def)
      then show ?thesis using c(1) by (simp add: Duration_String_text u_def [symmetric] split_sign_def)
    qed
    then show ?thesis
      using p ne duration_text_ends(2) [of u] d by (auto simp: ParseDuration_def u_def in_int64_def)
  qed
qed

section \<open>Decimal fractions\<close>

text \<open>The verb \<^verbatim>\<open>%.2f\<close>: two decimals, a tie goes to the even last digit.\<close>

definition round_even :: "real \<Rightarrow> int" where
  "round_even y =
     (let f = \<lfloor>y\<rfloor>; r = y - of_int f
      in if r < 1 / 2 then f else if 1 / 2 < r then f + 1 else if even f then f else f + 1)"

definition format2 :: "real \<Rightarrow> string" where
  "format2 x =
     (let n = nat (round_even (\<bar>x\<bar> * 100))
      in (if x < 0 then ''-'' else []) @ nat_digits (n div 100) @ ''.'' @ padded (n mod 100) 2)"

lemma round_even_near: "\<bar>of_int (round_even y) - y\<bar> \<le> 1 / 2"
  unfolding round_even_def Let_def by (auto simp: abs_if) linarith+

lemma round_even_nonneg: "0 \<le> y \<Longrightarrow> 0 \<le> round_even y"
  unfolding round_even_def Let_def by auto

lemma digits_val_append_padded: "n < 10 ^ p \<Longrightarrow> digits_val (s @ padded n p) = digits_val s * 10 ^ p + n"
proof (induction p arbitrary: n)
  case 0
  then show ?case by simp
next
  case (Suc p)
  then have "n div 10 < 10 ^ p" by (simp add: less_mult_imp_div_less mult.commute)
  with Suc.IH [OF this] show ?case
    using digits_val_snoc [of "n mod 10" "s @ padded (n div 10) p"] by (simp add: algebra_simps)
qed

text \<open>A load printed with two decimals is read back to within half a hundredth.\<close>

lemma ParseFloat_format2:
  assumes "0 \<le> x" "x \<le> 1000000"
  shows "\<exists>y. ParseFloat (format2 x) = Inr y \<and> \<bar>y - x\<bar> \<le> 1 / 200"
proof -
  define n where "n = nat (round_even (x * 100))"
  have rn: "real n = of_int (round_even (x * 100))" using round_even_nonneg [of "x * 100"] assms(1) by (simp add: n_def)
  have near: "\<bar>real n - x * 100\<bar> \<le> 1 / 2" unfolding rn by (rule round_even_near)
  let ?ip = "nat_digits (n div 100)" and ?fp = "padded (n mod 100) 2"
  have fmt: "format2 x = ?ip @ ''.'' @ ?fp" using assms(1) by (simp add: format2_def n_def Let_def)
  have ip: "list_all is_digit ?ip" "?ip \<noteq> []" using num_digits [of "n div 100"] by (simp_all add: all_digits_def)
  have sign: "split_sign (format2 x) = (False, format2 x)"
  proof -
    obtain c cs where c: "?ip = c # cs" "is_digit c" using ip by (cases ?ip) auto
    have "c \<noteq> CHR ''-''" "c \<noteq> CHR ''+''" using c(2) by (auto simp: is_digit_def byte_def)
    then show ?thesis using c(1) by (simp add: fmt split_sign_def)
  qed
  have t1: "takeWhile is_digit (format2 x) = ?ip" "dropWhile is_digit (format2 x) = ''.'' @ ?fp"
    using takeWhile_is_digit [OF ip(1), of "''.'' @ ?fp"] by (simp_all add: fmt is_digit_def byte_def)
  have t2: "takeWhile is_digit ?fp = ?fp" "dropWhile is_digit ?fp = []"
    using takeWhile_is_digit [OF padded_digits, of "[]" "n mod 100" 2] by simp_all
  have val: "digits_val (?ip @ ?fp) = n" using digits_val_append_padded [of "n mod 100" 2 ?ip] by (simp add: num_digits)
  have "real n / 100 \<le> 1000001" using near assms(2) by (auto simp: abs_if split: if_splits)
  also have "\<dots> < (2 ^ 1024 - 2 ^ 970 :: real)" by simp
  finally have small: "real n / 100 < 2 ^ 1024 - 2 ^ 970" .
  have "ParseFloat (format2 x) = Inr (real n / 100)"
    unfolding ParseFloat_def sign Let_def prod.case t1 using small
    by (simp add: t2 ip(2) val not_le [symmetric])
  moreover have "\<bar>real n / 100 - x\<bar> \<le> 1 / 200" using near by (auto simp: abs_if split: if_splits)
  ultimately show ?thesis by blast
qed

end
