(* ===== verification/Metrics_Sampler.thy ===== *)
theory Metrics_Sampler
  imports Contract_Types Window_Ring
begin

text \<open>
  The load sampler of a worker (\<^verbatim>\<open>worker/metrics_sampler.go\<close>): it keeps the last five readings of the
  processor and the memory and publishes their exponential moving average. The readings come from
  \<^verbatim>\<open>gopsutil\<close> and are arguments; floating-point numbers are reals.
\<close>

section \<open>The sampler\<close>

record systemMetrics =
  smCPUPercent :: real
  smMemPercent :: real
  smSampledAt :: time

definition systemMetrics_zero :: systemMetrics where
  "systemMetrics_zero = \<lparr>smCPUPercent = 0, smMemPercent = 0, smSampledAt = 0\<rparr>"

definition IsOverLimit :: "systemMetrics \<Rightarrow> real \<Rightarrow> real \<Rightarrow> bool" where
  "IsOverLimit sm cpuLimit memoryLimit \<longleftrightarrow>
     (0 < cpuLimit \<and> cpuLimit \<le> smCPUPercent sm) \<or> (0 < memoryLimit \<and> memoryLimit \<le> smMemPercent sm)"

record metricsSampler =
  sp_window :: "systemMetrics Window"
  sp_last :: systemMetrics
  sp_interval :: duration
  sp_sampleTimeout :: duration

definition newMetricsSampler :: "duration \<Rightarrow> duration \<Rightarrow> metricsSampler res" where
  "newMetricsSampler interval sampleTimeout =
     (case Window_New systemMetrics_zero 5 of
        None \<Rightarrow> Inl (Panic ''window: capacity must be greater than 0'')
      | Some w \<Rightarrow> Inr \<lparr>sp_window = w, sp_last = systemMetrics_zero, sp_interval = interval, sp_sampleTimeout = sampleTimeout\<rparr>)"

definition sampler_snapshot :: "metricsSampler \<Rightarrow> systemMetrics" where "sampler_snapshot m = sp_last m"

text \<open>What the two calls into \<^verbatim>\<open>gopsutil\<close> return: the loads of the processors and the used memory.\<close>

definition SampleOnce :: "time \<Rightarrow> real list res \<Rightarrow> real res \<Rightarrow> systemMetrics res" where
  "SampleOnce now cpuPercent usedPercent =
     and_then cpuPercent (\<lambda>cs.
       case cs of
         [] \<Rightarrow> Inl (Panic ''index out of range'')
       | c # _ \<Rightarrow> and_then usedPercent (\<lambda>v. Inr \<lparr>smCPUPercent = c, smMemPercent = v, smSampledAt = now\<rparr>))"

definition addMetrics :: "systemMetrics \<Rightarrow> systemMetrics \<Rightarrow> systemMetrics" where
  "addMetrics acc nxt =
     \<lparr>smCPUPercent = smCPUPercent acc + smCPUPercent nxt, smMemPercent = smMemPercent acc + smMemPercent nxt,
      smSampledAt = smSampledAt nxt\<rparr>"

definition divideMetrics :: "systemMetrics \<Rightarrow> nat \<Rightarrow> systemMetrics" where
  "divideMetrics tot n =
     \<lparr>smCPUPercent = smCPUPercent tot / real n, smMemPercent = smMemPercent tot / real n,
      smSampledAt = smSampledAt tot\<rparr>"

definition CalculateSystemSMA :: "metricsSampler \<Rightarrow> systemMetrics" where
  "CalculateSystemSMA m = Window_Average systemMetrics_zero addMetrics divideMetrics (sp_window m)"

definition combineMetrics :: "systemMetrics \<Rightarrow> systemMetrics \<Rightarrow> real \<Rightarrow> systemMetrics" where
  "combineMetrics ema nxt alpha =
     \<lparr>smCPUPercent = smCPUPercent nxt * alpha + smCPUPercent ema * (1 - alpha),
      smMemPercent = smMemPercent nxt * alpha + smMemPercent ema * (1 - alpha),
      smSampledAt = smSampledAt nxt\<rparr>"

text \<open>The callback of \<open>Each\<close> keeps the first reading and combines the later ones with it.\<close>

definition CalculateSystemEMA :: "metricsSampler \<Rightarrow> systemMetrics" where
  "CalculateSystemEMA m =
     (let n = Window_Count (sp_window m);
          alpha = 2 / real (n + 1)
      in if n = 0 then systemMetrics_zero
         else case Window_Each (sp_window m) of
                [] \<Rightarrow> systemMetrics_zero
              | x # xs \<Rightarrow> foldl (\<lambda>ema nxt. combineMetrics ema nxt alpha) x xs)"

text \<open>One round of the sampling loop; a failed reading leaves the sampler as it was.\<close>

definition sample_round :: "metricsSampler \<Rightarrow> time \<Rightarrow> real list res \<Rightarrow> real res \<Rightarrow> error option \<times> metricsSampler" where
  "sample_round m now cpuPercent usedPercent =
     (case SampleOnce now cpuPercent usedPercent of
        Inl e \<Rightarrow> (Some e, m)
      | Inr metrics \<Rightarrow>
          (let m1 = m\<lparr>sp_window := Window_Push (sp_window m) metrics\<rparr>
           in (None, m1\<lparr>sp_last := CalculateSystemEMA m1\<rparr>)))"

record systemMetricsDelta =
  CPUPercentDelta :: real
  MemPercentDelta :: real
  TimeElapsed :: duration

definition CalculateMetricsDelta :: "systemMetrics \<Rightarrow> systemMetrics \<Rightarrow> systemMetricsDelta" where
  "CalculateMetricsDelta prev cur =
     \<lparr>CPUPercentDelta = smCPUPercent cur - smCPUPercent prev, MemPercentDelta = smMemPercent cur - smMemPercent prev,
      TimeElapsed = smSampledAt cur - smSampledAt prev\<rparr>"

section \<open>Averages stay between the readings\<close>

text \<open>A half space of readings: one coordinate is above or below a bound. Combining stays inside.\<close>

definition convex_metrics :: "(systemMetrics \<Rightarrow> bool) \<Rightarrow> bool" where
  "convex_metrics P \<longleftrightarrow> (\<forall>a b alpha. 0 \<le> alpha \<longrightarrow> alpha \<le> 1 \<longrightarrow> P a \<longrightarrow> P b \<longrightarrow> P (combineMetrics a b alpha))"

lemma convex_combination_less:
  fixes x y l \<alpha> :: real
  assumes "0 \<le> \<alpha>" "\<alpha> \<le> 1" "x < l" "y < l"
  shows "y * \<alpha> + x * (1 - \<alpha>) < l"
  using convex_bound_lt [of y l x \<alpha> "1 - \<alpha>"] assms by (simp add: mult.commute)

lemma convex_combination_ge:
  fixes x y l \<alpha> :: real
  assumes "0 \<le> \<alpha>" "\<alpha> \<le> 1" "l \<le> x" "l \<le> y"
  shows "l \<le> y * \<alpha> + x * (1 - \<alpha>)"
  using convex_bound_le [of "- y" "- l" "- x" \<alpha> "1 - \<alpha>"] assms by (simp add: mult.commute)

lemma convex_bounds:
  "convex_metrics (\<lambda>s. smCPUPercent s < l)" "convex_metrics (\<lambda>s. l \<le> smCPUPercent s)"
  "convex_metrics (\<lambda>s. smMemPercent s < l)" "convex_metrics (\<lambda>s. l \<le> smMemPercent s)"
  by (simp_all add: convex_metrics_def combineMetrics_def convex_combination_less convex_combination_ge)

lemma foldl_combine:
  assumes "convex_metrics P" "0 \<le> alpha" "alpha \<le> 1"
  shows "P x \<Longrightarrow> \<forall>s \<in> set xs. P s \<Longrightarrow> P (foldl (\<lambda>ema nxt. combineMetrics ema nxt alpha) x xs)"
  using assms by (induction xs arbitrary: x) (simp_all add: convex_metrics_def)

lemma EMA_convex:
  assumes "convex_metrics P" and "Window_Each (sp_window m) \<noteq> []" and "\<forall>s \<in> set (Window_Each (sp_window m)). P s"
  shows "P (CalculateSystemEMA m)"
proof -
  obtain x xs where e: "Window_Each (sp_window m) = x # xs" using assms(2) by (cases "Window_Each (sp_window m)") auto
  then have c: "win_count (sp_window m) \<noteq> 0" using length_Window_Each [of "sp_window m"] by auto
  define alpha where "alpha = 2 / real (win_count (sp_window m) + 1)"
  have "0 \<le> alpha" "alpha \<le> 1" using c by (simp_all add: alpha_def)
  then have "P (foldl (\<lambda>ema nxt. combineMetrics ema nxt alpha) x xs)"
    using foldl_combine [OF assms(1)] assms(3) e by simp
  then show ?thesis using c e by (simp add: CalculateSystemEMA_def Window_Count_def Let_def alpha_def)
qed

text \<open>The rounds of the sampling loop over the readings of a worker's life.\<close>

definition sample_all :: "metricsSampler \<Rightarrow> (time \<times> real \<times> real) list \<Rightarrow> metricsSampler" where
  "sample_all m rs = foldl (\<lambda>m (t, c, v). snd (sample_round m t (Inr [c]) (Inr v))) m rs"

definition reading :: "time \<times> real \<times> real \<Rightarrow> systemMetrics" where
  "reading = (\<lambda>(t, c, v). \<lparr>smCPUPercent = c, smMemPercent = v, smSampledAt = t\<rparr>)"

lemma sample_all_snoc: "sample_all m (rs @ [r]) =
    (let m1 = (sample_all m rs)\<lparr>sp_window := Window_Push (sp_window (sample_all m rs)) (reading r)\<rparr>
     in m1\<lparr>sp_last := CalculateSystemEMA m1\<rparr>)"
  by (cases r) (simp add: sample_all_def sample_round_def SampleOnce_def reading_def Let_def)

lemma sample_all_window: "sp_window (sample_all m rs) = Window_push_all (sp_window m) (map reading rs)"
proof (induction rs rule: rev_induct)
  case Nil
  then show ?case by (simp add: sample_all_def Window_push_all_def)
next
  case (snoc r rs)
  then show ?case by (simp add: sample_all_snoc Let_def Window_push_all_def)
qed

lemma EMA_sp_last [simp]: "CalculateSystemEMA (m\<lparr>sp_last := x\<rparr>) = CalculateSystemEMA m"
  by (simp add: CalculateSystemEMA_def Let_def)

lemma sample_all_last:
  assumes "rs \<noteq> []"
  shows "sp_last (sample_all m rs) = CalculateSystemEMA (sample_all m rs)"
proof -
  obtain rs' r where "rs = rs' @ [r]" using assms by (cases rs rule: rev_cases) auto
  then show ?thesis by (simp add: sample_all_snoc Let_def)
qed

lemma new_sampler_window:
  assumes "newMetricsSampler i t = Inr m"
  shows "Window_New systemMetrics_zero 5 = Some (sp_window m)" and "sampler_snapshot m = systemMetrics_zero"
  using assms by (auto simp: newMetricsSampler_def sampler_snapshot_def split: option.splits)

lemma sample_all_each:
  assumes "newMetricsSampler i t = Inr m"
  shows "Window_Each (sp_window (sample_all m rs)) = map reading (drop (length rs - 5) rs)"
  using push_all_invariant [OF new_sampler_window(1) [OF assms], of "map reading rs"]
  by (simp add: sample_all_window drop_map)

text \<open>
  The published load follows the last five readings. A worker whose last five readings are below both
  limits is not over its limits, a worker whose last five readings reach the limit of the processor or
  that of the memory is, and a sampler that has not read anything reports no load.
\<close>

lemma pressure_follows_readings:
  assumes "newMetricsSampler i t = Inr m"
  defines "recent \<equiv> \<lambda>rs. set (map reading (drop (length rs - 5) rs))"
  shows "(rs \<noteq> [] \<longrightarrow> (\<forall>s \<in> recent rs. smCPUPercent s < cl \<and> smMemPercent s < ml) \<longrightarrow>
            \<not> IsOverLimit (sampler_snapshot (sample_all m rs)) cl ml) \<and>
         (rs \<noteq> [] \<longrightarrow> 0 < cl \<longrightarrow> (\<forall>s \<in> recent rs. cl \<le> smCPUPercent s) \<longrightarrow>
            IsOverLimit (sampler_snapshot (sample_all m rs)) cl ml) \<and>
         (rs \<noteq> [] \<longrightarrow> 0 < ml \<longrightarrow> (\<forall>s \<in> recent rs. ml \<le> smMemPercent s) \<longrightarrow>
            IsOverLimit (sampler_snapshot (sample_all m rs)) cl ml) \<and>
         \<not> IsOverLimit (sampler_snapshot (sample_all m [])) cl ml"
proof -
  have each: "set (Window_Each (sp_window (sample_all m rs))) = recent rs"
    unfolding recent_def sample_all_each [OF assms(1)] ..
  have ema: "P (sampler_snapshot (sample_all m rs))"
    if "rs \<noteq> []" and "convex_metrics P" and "\<forall>s \<in> recent rs. P s" for P
  proof -
    have "length rs - 5 < length rs" using that(1) by simp
    then have "Window_Each (sp_window (sample_all m rs)) \<noteq> []" by (simp add: sample_all_each [OF assms(1)])
    from EMA_convex [OF that(2) this] show ?thesis using that each by (simp add: sampler_snapshot_def sample_all_last)
  qed
  have "\<not> IsOverLimit (sampler_snapshot (sample_all m [])) cl ml"
    using new_sampler_window(2) [OF assms(1)] by (simp add: sample_all_def IsOverLimit_def systemMetrics_zero_def)
  moreover have "\<not> IsOverLimit (sampler_snapshot (sample_all m rs)) cl ml"
    if "rs \<noteq> []" "\<forall>s \<in> recent rs. smCPUPercent s < cl \<and> smMemPercent s < ml"
    using ema [OF that(1) convex_bounds(1) [of cl]] ema [OF that(1) convex_bounds(3) [of ml]] that(2)
    by (auto simp: IsOverLimit_def)
  moreover have "IsOverLimit (sampler_snapshot (sample_all m rs)) cl ml"
    if "rs \<noteq> []" "0 < cl" "\<forall>s \<in> recent rs. cl \<le> smCPUPercent s"
    using ema [OF that(1) convex_bounds(2) that(3)] that(2) by (simp add: IsOverLimit_def)
  moreover have "IsOverLimit (sampler_snapshot (sample_all m rs)) cl ml"
    if "rs \<noteq> []" "0 < ml" "\<forall>s \<in> recent rs. ml \<le> smMemPercent s"
    using ema [OF that(1) convex_bounds(4) that(3)] that(2) by (simp add: IsOverLimit_def)
  ultimately show ?thesis by blast
qed

end
