(* ===== verification/Single_Flight.thy ===== *)
theory Single_Flight
  imports Contract_Types
begin

text \<open>
  Duplicate suppression (\<^verbatim>\<open>worker/sf/sf.go\<close>): of the callers that ask for one key at a time, one runs the
  function and the others wait for its result. Calls are objects the group and the waiting callers share,
  so they live in a heap; a caller is at one of the points where it holds the lock or waits.
\<close>

section \<open>Calls and groups\<close>

text \<open>How the function ended: it returned, it panicked, or it left its goroutine.\<close>

datatype 'v outcome = Returned 'v "error option" | Panicked string | Goexit

datatype call_err = NoErr | UserErr error | PanicError string | ErrGoexit

record 'v call =
  call_val :: "'v option"
  call_err :: call_err
  call_dups :: nat
  call_done :: bool
  call_chans :: "nat list"

record 'v Group =
  g_m :: "(string, nat) gomap"
  g_calls :: "'v call list"

definition Group_zero :: "'v Group" where "Group_zero = \<lparr>g_m = [], g_calls = []\<rparr>"

definition new_call :: "nat list \<Rightarrow> 'v call" where
  "new_call chans = \<lparr>call_val = None, call_err = NoErr, call_dups = 0, call_done = False, call_chans = chans\<rparr>"

text \<open>What a caller gets; a panic or an exit of the function is passed on to it.\<close>

datatype 'v sf_Result = Got "'v option" "error option" bool | Repanic string | Exit

section \<open>Operations\<close>

text \<open>
  The part of \<open>Do\<close> under the lock: a caller joins the call of its key, or it registers a new one and
  runs the function. The boolean tells whether it runs it.
\<close>

definition Do_enter :: "'v Group \<Rightarrow> string \<Rightarrow> (nat \<times> bool) \<times> 'v Group" where
  "Do_enter g key =
     (case map_of (g_m g) key of
        Some c \<Rightarrow> ((c, False), g\<lparr>g_calls := (g_calls g)[c := (g_calls g ! c)\<lparr>call_dups := Suc (call_dups (g_calls g ! c))\<rparr>]\<rparr>)
      | None \<Rightarrow> ((length (g_calls g), True),
                 g\<lparr>g_m := AList.update key (length (g_calls g)) (g_m g), g_calls := g_calls g @ [new_call []]\<rparr>))"

definition DoChan_enter :: "'v Group \<Rightarrow> string \<Rightarrow> nat \<Rightarrow> (nat \<times> bool) \<times> 'v Group" where
  "DoChan_enter g key ch =
     (case map_of (g_m g) key of
        Some c \<Rightarrow> ((c, False), g\<lparr>g_calls := (g_calls g)[c := (g_calls g ! c)\<lparr>call_dups := Suc (call_dups (g_calls g ! c)),
                                        call_chans := call_chans (g_calls g ! c) @ [ch]\<rparr>]\<rparr>)
      | None \<Rightarrow> ((length (g_calls g), True),
                 g\<lparr>g_m := AList.update key (length (g_calls g)) (g_m g), g_calls := g_calls g @ [new_call [ch]]\<rparr>))"

definition store_outcome :: "'v outcome \<Rightarrow> 'v call \<Rightarrow> 'v call" where
  "store_outcome out c =
     (case out of
        Returned v e \<Rightarrow> c\<lparr>call_val := Some v, call_err := (case e of None \<Rightarrow> NoErr | Some x \<Rightarrow> UserErr x)\<rparr>
      | Panicked p \<Rightarrow> c\<lparr>call_err := PanicError p\<rparr>
      | Goexit \<Rightarrow> c\<lparr>call_err := ErrGoexit\<rparr>)"

text \<open>The deferred part of \<open>doCall\<close>: the waiting group is released and the key forgotten.\<close>

definition doCall_end :: "'v Group \<Rightarrow> nat \<Rightarrow> string \<Rightarrow> 'v outcome \<Rightarrow> 'v Group" where
  "doCall_end g c key out =
     g\<lparr>g_calls := (g_calls g)[c := (store_outcome out (g_calls g ! c))\<lparr>call_done := True\<rparr>],
       g_m := (if map_of (g_m g) key = Some c then AList.delete key (g_m g) else g_m g)\<rparr>"

definition call_result :: "'v call \<Rightarrow> bool \<Rightarrow> 'v sf_Result" where
  "call_result c shared =
     (case call_err c of
        PanicError p \<Rightarrow> Repanic p
      | ErrGoexit \<Rightarrow> Exit
      | NoErr \<Rightarrow> Got (call_val c) None shared
      | UserErr e \<Rightarrow> Got (call_val c) (Some e) shared)"

text \<open>
  What a waiting caller returns, what the running caller returns, and what the channels receive, which
  is nothing when the function did not return: a panic ends the process then.
\<close>

definition Do_wait :: "'v Group \<Rightarrow> nat \<Rightarrow> 'v sf_Result option" where
  "Do_wait g c = (if call_done (g_calls g ! c) then Some (call_result (g_calls g ! c) True) else None)"

definition Do_leader :: "'v Group \<Rightarrow> nat \<Rightarrow> 'v sf_Result" where
  "Do_leader g c = call_result (g_calls g ! c) (0 < call_dups (g_calls g ! c))"

definition Chan_results :: "'v Group \<Rightarrow> nat \<Rightarrow> (nat \<times> 'v sf_Result) list" where
  "Chan_results g c =
     (if (\<exists>p. call_err (g_calls g ! c) = PanicError p) \<or> call_err (g_calls g ! c) = ErrGoexit then []
      else map (\<lambda>ch. (ch, Do_leader g c)) (call_chans (g_calls g ! c)))"

definition Forget :: "'v Group \<Rightarrow> string \<Rightarrow> 'v Group" where
  "Forget g key = g\<lparr>g_m := AList.delete key (g_m g)\<rparr>"

section \<open>Interleaved callers\<close>

text \<open>
  A configuration: the group, the running functions, the callers that wait, and how each ended call
  ended. Callers enter and functions end in any order.
\<close>

record 'v flight =
  fl_group :: "'v Group"
  fl_running :: "(string \<times> nat) list"
  fl_waiting :: "(string \<times> nat) list"
  fl_ended :: "(nat \<times> 'v outcome) list"

definition flight_init :: "'v flight" where
  "flight_init = \<lparr>fl_group = Group_zero, fl_running = [], fl_waiting = [], fl_ended = []\<rparr>"

inductive flight_step :: "'v flight \<Rightarrow> 'v flight \<Rightarrow> bool" where
  enter: "Do_enter (fl_group f) key = ((c, runs), g) \<Longrightarrow>
    flight_step f (f\<lparr>fl_group := g, fl_running := (if runs then (key, c) # fl_running f else fl_running f),
                     fl_waiting := (if runs then fl_waiting f else (key, c) # fl_waiting f)\<rparr>)"
| enter_chan: "DoChan_enter (fl_group f) key ch = ((c, runs), g) \<Longrightarrow>
    flight_step f (f\<lparr>fl_group := g, fl_running := (if runs then (key, c) # fl_running f else fl_running f)\<rparr>)"
| ended: "(key, c) \<in> set (fl_running f) \<Longrightarrow>
    flight_step f (f\<lparr>fl_group := doCall_end (fl_group f) c key out, fl_running := remove1 (key, c) (fl_running f),
                     fl_ended := (c, out) # fl_ended f\<rparr>)"

inductive flight_reachable :: "'v flight \<Rightarrow> bool" where
  init: "flight_reachable flight_init"
| step: "flight_reachable f \<Longrightarrow> flight_step f f' \<Longrightarrow> flight_reachable f'"

fun outcome_result :: "'v outcome \<Rightarrow> 'v sf_Result" where
  "outcome_result (Returned v e) = Got (Some v) e True"
| "outcome_result (Panicked p) = Repanic p"
| "outcome_result Goexit = Exit"

definition flight_inv :: "'v flight \<Rightarrow> bool" where
  "flight_inv f \<longleftrightarrow>
     (let g = fl_group f; cs = g_calls g
      in keys_distinct (g_m g) \<and> mset (g_m g) = mset (fl_running f) \<and> distinct (map snd (fl_running f)) \<and>
         (\<forall>(k, c) \<in> set (fl_running f). c < length cs \<and> \<not> call_done (cs ! c) \<and> call_err (cs ! c) = NoErr \<and> call_val (cs ! c) = None) \<and>
         (\<forall>(k, c) \<in> set (fl_waiting f). c < length cs \<and> (call_done (cs ! c) \<or> (k, c) \<in> set (fl_running f))) \<and>
         (\<forall>(c, out) \<in> set (fl_ended f). c < length cs \<and> call_done (cs ! c) \<and> call_result (cs ! c) True = outcome_result out) \<and>
         (\<forall>c < length cs. call_done (cs ! c) \<longrightarrow> c \<in> fst ` set (fl_ended f)))"

lemma flight_inv_init: "flight_inv flight_init"
  by (simp add: flight_inv_def flight_init_def Group_zero_def)

lemma running_lookup:
  assumes "flight_inv f"
  shows "map_of (g_m (fl_group f)) k = Some c \<longleftrightarrow> (k, c) \<in> set (fl_running f)"
    and "map_of (g_m (fl_group f)) k = None \<longleftrightarrow> k \<notin> fst ` set (fl_running f)"
proof -
  have kd: "keys_distinct (g_m (fl_group f))" and ms: "mset (g_m (fl_group f)) = mset (fl_running f)"
    using assms by (simp_all add: flight_inv_def Let_def)
  note st = mset_eq_setD [OF ms]
  show "map_of (g_m (fl_group f)) k = Some c \<longleftrightarrow> (k, c) \<in> set (fl_running f)"
    using map_of_in_set [OF kd] st by metis
  show "map_of (g_m (fl_group f)) k = None \<longleftrightarrow> k \<notin> fst ` set (fl_running f)"
    unfolding map_of_eq_None_iff st ..
qed

text \<open>Joining a call changes nothing but the number of its callers and its channels.\<close>

lemma flight_inv_join:
  assumes "flight_inv f" and "map_of (g_m (fl_group f)) k = Some c"
    and "c' = (g_calls (fl_group f) ! c)\<lparr>call_dups := n, call_chans := chs\<rparr>" and "set ws \<subseteq> insert (k, c) (set (fl_waiting f))"
  shows "flight_inv (f\<lparr>fl_group := (fl_group f)\<lparr>g_calls := (g_calls (fl_group f))[c := c']\<rparr>, fl_waiting := ws\<rparr>)"
proof -
  have r: "(k, c) \<in> set (fl_running f)" using running_lookup(1) [OF assms(1)] assms(2) by blast
  let ?cs = "g_calls (fl_group f)"
  have same: "call_done (?cs[c := c'] ! i) = call_done (?cs ! i)" "call_err (?cs[c := c'] ! i) = call_err (?cs ! i)"
    "call_val (?cs[c := c'] ! i) = call_val (?cs ! i)" if "i < length ?cs" for i
    using assms(3) that by (cases "i = c"; simp)+
  have res: "call_result (?cs[c := c'] ! i) b = call_result (?cs ! i) b" if "i < length ?cs" for i b
    unfolding call_result_def same [OF that] ..
  have ws: "\<forall>(k, c) \<in> set ws. c < length ?cs \<and> (call_done (?cs ! c) \<or> (k, c) \<in> set (fl_running f))"
    using assms(1,4) r unfolding flight_inv_def Let_def by blast
  show ?thesis
    using assms(1) ws unfolding flight_inv_def Let_def by (auto simp: same res)
qed

text \<open>Registering a call puts it into the group and makes it run.\<close>

lemma flight_inv_register:
  assumes "flight_inv f" and "map_of (g_m (fl_group f)) k = None"
  shows "flight_inv (f\<lparr>fl_group := (fl_group f)\<lparr>g_m := AList.update k (length (g_calls (fl_group f))) (g_m (fl_group f)),
                         g_calls := g_calls (fl_group f) @ [new_call chs]\<rparr>,
                       fl_running := (k, length (g_calls (fl_group f))) # fl_running f\<rparr>)"
proof -
  let ?cs = "g_calls (fl_group f)" and ?n = "length (g_calls (fl_group f))"
  have new: "k \<notin> fst ` set (g_m (fl_group f))" using assms(2) by (simp add: map_of_eq_None_iff)
  have "?n \<notin> snd ` set (fl_running f)" using assms(1) by (fastforce simp: flight_inv_def Let_def)
  then show ?thesis
    using assms(1) mset_update_new [OF new, of ?n] unfolding flight_inv_def Let_def
    by (auto simp: nth_append new_call_def less_Suc_eq)
qed

lemma store_outcome_result:
  "call_err c = NoErr \<Longrightarrow> call_val c = None \<Longrightarrow> call_result ((store_outcome out c)\<lparr>call_done := True\<rparr>) True = outcome_result out"
  by (cases out) (auto simp: store_outcome_def call_result_def split: option.splits)

lemma flight_inv_end:
  assumes "flight_inv f" and "(k, c) \<in> set (fl_running f)"
  shows "flight_inv (f\<lparr>fl_group := doCall_end (fl_group f) c k out, fl_running := remove1 (k, c) (fl_running f),
                       fl_ended := (c, out) # fl_ended f\<rparr>)"
proof -
  let ?g = "fl_group f" and ?cs = "g_calls (fl_group f)"
  have inv: "keys_distinct (g_m ?g)" "mset (g_m ?g) = mset (fl_running f)" "distinct (map snd (fl_running f))"
    using assms(1) by (simp_all add: flight_inv_def Let_def)
  have c: "c < length ?cs" "\<not> call_done (?cs ! c)" "call_err (?cs ! c) = NoErr" "call_val (?cs ! c) = None"
    using assms by (auto simp: flight_inv_def Let_def)
  have m: "map_of (g_m ?g) k = Some c" using running_lookup(1) [OF assms(1)] assms(2) by blast
  have del: "mset (AList.delete k (g_m ?g)) = mset (remove1 (k, c) (fl_running f))"
    using mset_delete_key [OF inv(1), of k c] mset_eq_setD [OF inv(2)] assms(2) inv(2) by simp
  have dist: "distinct (fl_running f)" using inv(3) by (simp add: distinct_map)
  have rem: "set (remove1 (k, c) (fl_running f)) = set (fl_running f) - {(k, c)}" using dist by simp
  have other: "i \<noteq> c" if "(k', i) \<in> set (remove1 (k, c) (fl_running f))" for k' i
  proof
    assume "i = c"
    then have "(k', c) \<in> set (fl_running f)" "k' \<noteq> k" using that rem by auto
    then show False using inv(3) assms(2) inj_onD [of snd "set (fl_running f)" "(k', c)" "(k, c)"] by (auto simp: distinct_map)
  qed
  have d1: "distinct (map snd (remove1 (k, c) (fl_running f)))"
    using inv(3) by (auto simp: distinct_map intro: inj_on_diff)
  show ?thesis
    using assms(1) c m del rem d1 other inv(1) store_outcome_result [OF c(3,4)] unfolding flight_inv_def Let_def doCall_end_def
    by (auto simp: nth_list_update)
qed

lemma flight_inv_step: "flight_step f f' \<Longrightarrow> flight_inv f \<Longrightarrow> flight_inv f'"
proof (induction rule: flight_step.induct)
  case (enter f key c runs g)
  show ?case
  proof (cases "map_of (g_m (fl_group f)) key")
    case None
    then show ?thesis
      using enter flight_inv_register [OF enter(2) None, of "[]"] by (auto simp: Do_enter_def)
  next
    case (Some c')
    then show ?thesis
      using enter flight_inv_join [OF enter(2) Some refl, where ws = "(key, c') # fl_waiting f" and n = "Suc (call_dups (g_calls (fl_group f) ! c'))"
          and chs = "call_chans (g_calls (fl_group f) ! c')"] by (auto simp: Do_enter_def)
  qed
next
  case (enter_chan f key ch c runs g)
  show ?case
  proof (cases "map_of (g_m (fl_group f)) key")
    case None
    then show ?thesis
      using enter_chan flight_inv_register [OF enter_chan(2) None, of "[ch]"] by (auto simp: DoChan_enter_def)
  next
    case (Some c')
    then show ?thesis
      using enter_chan flight_inv_join [OF enter_chan(2) Some refl, where ws = "fl_waiting f" and n = "Suc (call_dups (g_calls (fl_group f) ! c'))"
          and chs = "call_chans (g_calls (fl_group f) ! c') @ [ch]"] by (auto simp: DoChan_enter_def)
  qed
next
  case (ended key c f out)
  then show ?case by (intro flight_inv_end)
qed

lemma flight_reachable_inv: "flight_reachable f \<Longrightarrow> flight_inv f"
  by (induction rule: flight_reachable.induct) (auto intro: flight_inv_init flight_inv_step)

text \<open>
  C35: however callers and functions interleave, at most one function runs per key, a caller joins the
  running function of its key when there is one and runs its own otherwise, and a caller that waited gets
  exactly how that function ended: its values, its panic or its exit. While it waits the function runs.
\<close>

theorem Do_exclusive:
  assumes "flight_reachable f"
  shows "distinct (map fst (fl_running f)) \<and>
         (\<forall>key. case map_of (fl_running f) key of
                  Some c \<Rightarrow> fst (Do_enter (fl_group f) key) = (c, False)
                | None \<Rightarrow> snd (fst (Do_enter (fl_group f) key)) \<and>
                         fst (fst (Do_enter (fl_group f) key)) \<notin> snd ` set (fl_waiting f) \<union> snd ` set (fl_running f)) \<and>
         (\<forall>(key, c) \<in> set (fl_waiting f).
            case Do_wait (fl_group f) c of
              None \<Rightarrow> (key, c) \<in> set (fl_running f)
            | Some r \<Rightarrow> \<exists>out. (c, out) \<in> set (fl_ended f) \<and> r = outcome_result out)"
proof -
  note inv = flight_reachable_inv [OF assms]
  have kd: "keys_distinct (g_m (fl_group f))" and ms: "mset (g_m (fl_group f)) = mset (fl_running f)"
    using inv by (simp_all add: flight_inv_def Let_def)
  have "mset (map fst (g_m (fl_group f))) = mset (map fst (fl_running f))" using ms by simp
  then have dist: "distinct (map fst (fl_running f))" using kd mset_eq_imp_distinct_iff by (metis keys_distinct_def)
  have same: "map_of (fl_running f) = map_of (g_m (fl_group f))"
    using map_of_eqI_perm [of "fl_running f" "g_m (fl_group f)"] dist kd ms by (simp add: keys_distinct_def)
  have bound: "\<forall>(k, c) \<in> set (fl_waiting f) \<union> set (fl_running f). c < length (g_calls (fl_group f))"
    using inv unfolding flight_inv_def Let_def by blast
  have enter: "case map_of (fl_running f) key of
                  Some c \<Rightarrow> fst (Do_enter (fl_group f) key) = (c, False)
                | None \<Rightarrow> snd (fst (Do_enter (fl_group f) key)) \<and>
                         fst (fst (Do_enter (fl_group f) key)) \<notin> snd ` set (fl_waiting f) \<union> snd ` set (fl_running f)" for key
    unfolding same using bound by (fastforce simp: Do_enter_def split: option.split)
  have wait: "case Do_wait (fl_group f) c of
              None \<Rightarrow> (key, c) \<in> set (fl_running f)
            | Some r \<Rightarrow> \<exists>out. (c, out) \<in> set (fl_ended f) \<and> r = outcome_result out" if "(key, c) \<in> set (fl_waiting f)" for key c
  proof (cases "call_done (g_calls (fl_group f) ! c)")
    case True
    have "c < length (g_calls (fl_group f))" using bound that by blast
    then obtain out where "(c, out) \<in> set (fl_ended f)" using inv True by (fastforce simp: flight_inv_def Let_def)
    moreover from this have "call_result (g_calls (fl_group f) ! c) True = outcome_result out"
      using inv by (auto simp: flight_inv_def Let_def)
    ultimately show ?thesis using True by (auto simp: Do_wait_def)
  next
    case False
    then show ?thesis using inv that by (auto simp: Do_wait_def flight_inv_def Let_def)
  qed
  show ?thesis using dist enter wait by blast
qed

text \<open>Two callers of one key, the second of which waits for the result of the first.\<close>

definition ex_flight :: "int flight" where
  "ex_flight =
     (let g1 = snd (Do_enter Group_zero ''k''); g2 = snd (Do_enter g1 ''k'')
      in \<lparr>fl_group = doCall_end g2 0 ''k'' (Returned 7 None), fl_running = [], fl_waiting = [(''k'', 0)], fl_ended = [(0, Returned 7 None)]\<rparr>)"

lemma ex_flight_reachable: "flight_reachable ex_flight"
proof -
  let ?g1 = "snd (Do_enter (Group_zero :: int Group) ''k'')"
  let ?g2 = "snd (Do_enter ?g1 ''k'')"
  define f1 where "f1 = (flight_init :: int flight)\<lparr>fl_group := ?g1, fl_running := [(''k'', 0)], fl_waiting := []\<rparr>"
  define f2 where "f2 = f1\<lparr>fl_group := ?g2, fl_waiting := [(''k'', 0)]\<rparr>"
  have "flight_step flight_init f1"
    using flight_step.enter [of flight_init "''k''" 0 True ?g1]
    by (simp add: f1_def flight_init_def Group_zero_def Do_enter_def)
  moreover have "flight_step f1 f2"
    using flight_step.enter [of f1 "''k''" 0 False ?g2]
    by (simp add: f2_def f1_def flight_init_def Group_zero_def Do_enter_def)
  moreover have "flight_step f2 ex_flight"
    using flight_step.ended [of "''k''" 0 f2 "Returned 7 None"]
    by (simp add: f2_def f1_def ex_flight_def flight_init_def Let_def)
  ultimately show ?thesis using flight_reachable.intros by metis
qed

theorem Do_exclusive_witness: "flight_reachable ex_flight \<and> Do_wait (fl_group ex_flight) 0 = Some (Got (Some 7) None True)"
proof -
  have "Do_wait (fl_group ex_flight) 0 \<noteq> None"
    by (simp add: ex_flight_def Let_def Do_enter_def Group_zero_def doCall_end_def Do_wait_def new_call_def)
  then show ?thesis
    using Do_exclusive [OF ex_flight_reachable] ex_flight_reachable by (auto simp: ex_flight_def Let_def split: option.splits)
qed

end
