(* ===== verification/Task_Runner.thy ===== *)
theory Task_Runner
  imports Go_Text
begin

text \<open>
  Running a task binary (\<^verbatim>\<open>worker/runner.go\<close>). The operating system is an argument: given a command it
  says how the process starts, what it writes and how it ends. Descriptor 3 carries the result, descriptor
  4 the child jobs; the branch for Windows, which has neither, is left out.
\<close>

section \<open>Commands and processes\<close>

record runner_Limitations =
  rl_MaxExecutionTime :: duration
  rl_MaxMemoryBytes :: int
  rl_MaxCPUCores :: real

record ProcConfig =
  pc_RootDir :: string
  pc_Env :: "string list"

record taskExec =
  te_JobID :: string
  te_TaskName :: string
  te_ParentJobID :: string
  te_Phase :: string
  te_Attempt :: int
  te_BinaryPath :: string
  te_Payload :: bytes
  te_Limits :: runner_Limitations
  te_Proc :: ProcConfig
  te_NoResult :: bool

text \<open>The command given to \<^verbatim>\<open>os/exec\<close>; a time limit of zero is none.\<close>

record command =
  cmd_Path :: string
  cmd_Stdin :: bytes
  cmd_Dir :: string
  cmd_Env :: "string list"
  cmd_Timeout :: duration

text \<open>What \<^verbatim>\<open>Wait\<close> reports: success, an exit status with its text, or another error.\<close>

datatype wait_err = WaitOk | ExitStatus int string | WaitError string

record process =
  pr_start :: "string option"
  pr_output :: "(bool \<times> bytes) list"
  pr_result :: bytes
  pr_childJobs :: bytes
  pr_wait :: wait_err

text \<open>What can fail before the process is started, each with its error text.\<close>

record run_setup =
  rs_resultPipe :: "string option"
  rs_childPipe :: "string option"
  rs_mkdirTemp :: "string + string"

datatype task_error = exitError int string | runnerError string

definition exitCodeOf :: "wait_err \<Rightarrow> int" where
  "exitCodeOf e = (case e of WaitOk \<Rightarrow> 0 | ExitStatus c s \<Rightarrow> c | WaitError s \<Rightarrow> 1)"

definition wait_text :: "wait_err \<Rightarrow> string" where
  "wait_text e = (case e of WaitOk \<Rightarrow> [] | ExitStatus c s \<Rightarrow> s | WaitError s \<Rightarrow> s)"

definition task_error_text :: "task_error \<Rightarrow> string" where
  "task_error_text e = (case e of exitError c r \<Rightarrow> ''exit '' @ Itoa c @ '': '' @ r | runnerError s \<Rightarrow> s)"

definition IsExitError :: "task_error \<Rightarrow> int \<times> string \<times> bool" where
  "IsExitError e = (case e of exitError c r \<Rightarrow> (c, r, True) | runnerError s \<Rightarrow> (0, [], False))"

section \<open>The environment\<close>

definition system_keys :: "string list" where
  "system_keys =
     [''PATH'', ''HOME'', ''SSL_CERT_FILE'', ''SSL_CERT_DIR'', ''COMSPEC'', ''SYSTEMROOT'', ''USERPROFILE'', ''HOMEDRIVE'',
      ''HOMEPATH'', ''TMP'', ''TEMP'']"

text \<open>\<^verbatim>\<open>Getenv\<close> gives the empty string for a variable that is not set.\<close>

definition SystemEnv :: "(string \<Rightarrow> string) \<Rightarrow> string list" where
  "SystemEnv getenv = map (\<lambda>k. k @ ''='' @ getenv k) (filter (\<lambda>k. getenv k \<noteq> []) system_keys)"

definition HasPrefix :: "string \<Rightarrow> string \<Rightarrow> bool" where
  "HasPrefix s p \<longleftrightarrow> take (length p) s = p"

definition EnvWithPrefix :: "string list \<Rightarrow> string \<Rightarrow> string list" where
  "EnvWithPrefix environ pre = filter (\<lambda>e. HasPrefix e pre) environ"

definition task_env :: "string \<Rightarrow> taskExec \<Rightarrow> string \<Rightarrow> string list" where
  "task_env tmpStorageDir t rootDir =
     pc_Env (te_Proc t)
     @ [''WORKFORCE_PHASE='' @ te_Phase t, ''WORKFORCE_JOB_ID='' @ te_JobID t, ''WORKFORCE_TASK_TYPE='' @ te_TaskName t,
        ''WORKFORCE_PARENT_JOB_ID='' @ te_ParentJobID t, ''WORKFORCE_ATTEMPT='' @ Itoa (te_Attempt t),
        ''WORKFORCE_TMP_STORAGE_DIRECTORY='' @ tmpStorageDir, ''WORKFORCE_TASK_STORAGE_DIRECTORY='' @ rootDir]"

section \<open>Running a task\<close>

record task_output =
  to_result :: bytes
  to_childJobs :: bytes
  to_stderr :: string

definition stderr_of :: "process \<Rightarrow> string" where
  "stderr_of p = concat (map snd (filter fst (pr_output p)))"

text \<open>The part after the process has started.\<close>

definition task_outcome :: "taskExec \<Rightarrow> process \<Rightarrow> task_error + task_output" where
  "task_outcome t p =
     (let code = exitCodeOf (pr_wait p)
      in if code \<noteq> 0
         then Inl (exitError code (if stderr_of p = [] then wait_text (pr_wait p) else stderr_of p))
         else if \<not> te_NoResult t \<and> pr_childJobs p = [] \<and> pr_result p = []
         then Inl (runnerError ''binary exited 0 without writing a result or child jobs'')
         else Inr \<lparr>to_result = pr_result p, to_childJobs = pr_childJobs p, to_stderr = stderr_of p\<rparr>)"

text \<open>\<open>RunTask\<close> gives the chunks written to the log besides its result.\<close>

definition RunTask :: "(command \<Rightarrow> process) \<Rightarrow> string \<Rightarrow> run_setup \<Rightarrow> taskExec \<Rightarrow> bytes list \<times> (task_error + task_output)" where
  "RunTask exec tmpStorageDir su t =
     (case rs_resultPipe su of
        Some e \<Rightarrow> ([], Inl (runnerError (''runner: result pipe: '' @ e)))
      | None \<Rightarrow>
          (case rs_childPipe su of
             Some e \<Rightarrow> ([], Inl (runnerError (''runner: child jobs pipe: '' @ e)))
           | None \<Rightarrow>
               (case (if pc_RootDir (te_Proc t) = [] then rs_mkdirTemp su else Inr (pc_RootDir (te_Proc t))) of
                  Inl e \<Rightarrow> ([], Inl (runnerError (''runner: create temp root: '' @ e)))
                | Inr rootDir \<Rightarrow>
                    (let p = exec \<lparr>cmd_Path = te_BinaryPath t, cmd_Stdin = te_Payload t, cmd_Dir = rootDir,
                                   cmd_Env = task_env tmpStorageDir t rootDir,
                                   cmd_Timeout = max 0 (rl_MaxExecutionTime (te_Limits t))\<rparr>
                     in case pr_start p of
                          Some e \<Rightarrow> ([], Inl (runnerError (''runner: start: '' @ e)))
                        | None \<Rightarrow> (map snd (pr_output p), task_outcome t p)))))"

text \<open>A task succeeds exactly when its process was started, ended with status zero and left an answer.\<close>

lemma RunTask_success:
  fixes exec :: "command \<Rightarrow> process" and d :: string
  assumes "rs_resultPipe su = None" "rs_childPipe su = None" "pc_RootDir (te_Proc t) \<noteq> []"
  defines "p \<equiv> exec \<lparr>cmd_Path = te_BinaryPath t, cmd_Stdin = te_Payload t, cmd_Dir = pc_RootDir (te_Proc t),
                      cmd_Env = task_env d t (pc_RootDir (te_Proc t)), cmd_Timeout = max 0 (rl_MaxExecutionTime (te_Limits t))\<rparr>"
  shows "(\<exists>out. snd (RunTask exec d su t) = Inr out) \<longleftrightarrow>
         pr_start p = None \<and> exitCodeOf (pr_wait p) = 0 \<and> (te_NoResult t \<or> pr_childJobs p \<noteq> [] \<or> pr_result p \<noteq> [])"
  using assms by (auto simp: RunTask_def task_outcome_def Let_def split: option.split)

end
