(* ===== verification/Artifact_Cache.thy ===== *)
theory Artifact_Cache
  imports Contract_Types
begin

text \<open>
  The worker's cache of task binaries (\<^verbatim>\<open>worker/cache/cache.go\<close>): files named by their hash, evicted by
  age and least recently used first. The directory is part of the state; the hash function and what a
  download delivers are arguments.
\<close>

section \<open>The cache\<close>

record cache_entry =
  en_path :: string
  en_size :: int
  en_lastUsed :: time

record ArtifactCache =
  ac_dir :: string
  ac_maxSize :: int
  ac_ttl :: duration
  ac_entries :: "(string, cache_entry) gomap"
  ac_total :: int
  ac_files :: "(string, bytes) gomap"

definition NewArtifactCache :: "string \<Rightarrow> int \<Rightarrow> duration \<Rightarrow> (string, bytes) gomap \<Rightarrow> ArtifactCache" where
  "NewArtifactCache dir maxSize ttl files =
     \<lparr>ac_dir = dir, ac_maxSize = maxSize, ac_ttl = ttl, ac_entries = [], ac_total = 0, ac_files = files\<rparr>"

definition removeLocked :: "ArtifactCache \<Rightarrow> string \<Rightarrow> ArtifactCache" where
  "removeLocked c hash =
     (case map_of (ac_entries c) hash of
        None \<Rightarrow> c
      | Some e \<Rightarrow> c\<lparr>ac_files := AList.delete (en_path e) (ac_files c), ac_total := ac_total c - en_size e,
                    ac_entries := AList.delete hash (ac_entries c)\<rparr>)"

fun evict_loop :: "ArtifactCache \<Rightarrow> string list \<Rightarrow> ArtifactCache" where
  "evict_loop c [] = c"
| "evict_loop c (h # hs) = (if ac_total c \<le> ac_maxSize c then c else evict_loop (removeLocked c h) hs)"

definition evictLocked :: "ArtifactCache \<Rightarrow> ArtifactCache" where
  "evictLocked c =
     (if ac_maxSize c \<le> 0 \<or> ac_total c \<le> ac_maxSize c then c
      else evict_loop c (map fst (sort_slice (\<lambda>a b. snd a < snd b) (map (\<lambda>(h, e). (h, en_lastUsed e)) (ac_entries c)))))"

definition cache_get :: "ArtifactCache \<Rightarrow> string \<Rightarrow> time \<Rightarrow> string \<times> ArtifactCache" where
  "cache_get c hash now =
     (case map_of (ac_entries c) hash of
        None \<Rightarrow> ([], c)
      | Some e \<Rightarrow>
          (if 0 < ac_ttl c \<and> ac_ttl c < now - en_lastUsed e then ([], removeLocked c hash)
           else (en_path e, c\<lparr>ac_entries := AList.update hash (e\<lparr>en_lastUsed := now\<rparr>) (ac_entries c)\<rparr>)))"

text \<open>
  How a download goes: what the server delivers (or why nothing arrives), and whether the file can be put
  in its place and be made executable.
\<close>

record download =
  dl_body :: "bytes res"
  dl_rename :: "error option"
  dl_chmod :: "error option"

definition artifact_path :: "string \<Rightarrow> string \<Rightarrow> string" where
  "artifact_path dir name = (if name = [] then dir else dir @ ''/'' @ name)"

definition Obtain :: "(bytes \<Rightarrow> string) \<Rightarrow> ArtifactCache \<Rightarrow> string \<Rightarrow> download \<Rightarrow> time \<Rightarrow> string res \<times> ArtifactCache" where
  "Obtain sha c hash d now =
     (case dl_body d of
        Inl e \<Rightarrow> (Inl e, c)
      | Inr data \<Rightarrow>
          (if hash \<noteq> [] \<and> sha data \<noteq> hash then (Inl (Errorf ''cache: integrity check failed''), c)
           else case dl_rename d of
                  Some e \<Rightarrow> (Inl e, c)
                | None \<Rightarrow>
                    (let dest = artifact_path (ac_dir c) hash;
                         c1 = c\<lparr>ac_files := AList.update dest data (ac_files c)\<rparr>
                     in case dl_chmod d of
                          Some e \<Rightarrow> (Inl e, c1)
                        | None \<Rightarrow>
                            (Inr dest,
                             evictLocked (c1\<lparr>ac_entries := AList.update hash \<lparr>en_path = dest, en_size = int (length data), en_lastUsed = now\<rparr>
                                               (ac_entries c1),
                                             ac_total := ac_total c1 + int (length data)\<rparr>)))))"

text \<open>A caller that finds the file cached at \<open>t1\<close>, or else obtains it at \<open>t2\<close> with no other caller in flight.\<close>

definition Fetch :: "(bytes \<Rightarrow> string) \<Rightarrow> ArtifactCache \<Rightarrow> string \<Rightarrow> download \<Rightarrow> time \<Rightarrow> time \<Rightarrow> string res \<times> ArtifactCache" where
  "Fetch sha c hash d t1 t2 =
     (let (path, c1) = cache_get c hash t1
      in if path \<noteq> [] then (Inr path, c1) else Obtain sha c1 hash d t2)"

section \<open>Invariant\<close>

definition cache_size :: "(string, cache_entry) gomap \<Rightarrow> int" where
  "cache_size es = sum_list (map (en_size \<circ> snd) es)"

text \<open>
  The entries are files of the directory under their hash with verified contents, used no later than
  \<open>now\<close>, and the counted total is the sum of their sizes.
\<close>

definition entry_ok :: "(bytes \<Rightarrow> string) \<Rightarrow> ArtifactCache \<Rightarrow> time \<Rightarrow> string \<Rightarrow> cache_entry \<Rightarrow> bool" where
  "entry_ok sha c now h e \<longleftrightarrow>
     h \<noteq> [] \<and> en_path e = artifact_path (ac_dir c) h \<and> en_lastUsed e \<le> now \<and>
     (\<exists>data. map_of (ac_files c) (en_path e) = Some data \<and> sha data = h \<and> en_size e = int (length data))"

definition cache_inv :: "(bytes \<Rightarrow> string) \<Rightarrow> ArtifactCache \<Rightarrow> time \<Rightarrow> bool" where
  "cache_inv sha c now \<longleftrightarrow>
     ac_dir c \<noteq> [] \<and> keys_distinct (ac_entries c) \<and> ac_total c = cache_size (ac_entries c) \<and>
     (\<forall>h e. map_of (ac_entries c) h = Some e \<longrightarrow> entry_ok sha c now h e)"

lemma artifact_path_inj: "h \<noteq> [] \<Longrightarrow> h' \<noteq> [] \<Longrightarrow> artifact_path d h = artifact_path d h' \<longleftrightarrow> h = h'"
  by (simp add: artifact_path_def)

lemma cache_size_delete:
  "keys_distinct es \<Longrightarrow> map_of es h = Some e \<Longrightarrow> cache_size (AList.delete h es) = cache_size es - en_size e"
  unfolding cache_size_def by (rule sum_delete)

lemma cache_size_update_new: "map_of es h = None \<Longrightarrow> cache_size (AList.update h e es) = cache_size es + en_size e"
  unfolding cache_size_def by (rule sum_update_new)

lemma cache_size_update_same:
  "map_of es h = Some e \<Longrightarrow> en_size e' = en_size e \<Longrightarrow> cache_size (AList.update h e' es) = cache_size es"
  by (induction es) (auto simp: cache_size_def split: if_splits)

lemma removeLocked_inv: "cache_inv sha c now \<Longrightarrow> cache_inv sha (removeLocked c h) now"
proof -
  assume inv: "cache_inv sha c now"
  show ?thesis
  proof (cases "map_of (ac_entries c) h")
    case None
    then show ?thesis using inv by (simp add: removeLocked_def)
  next
    case (Some e)
    have he: "h \<noteq> []" "en_path e = artifact_path (ac_dir c) h" using inv Some by (auto simp: cache_inv_def entry_ok_def)
    have "entry_ok sha (removeLocked c h) now h' e'" if "map_of (ac_entries c) h' = Some e'" "h' \<noteq> h" for h' e'
    proof -
      have ok: "entry_ok sha c now h' e'" using inv that by (simp add: cache_inv_def)
      then have "en_path e' \<noteq> en_path e" using he that(2) by (auto simp: entry_ok_def artifact_path_inj)
      then show ?thesis using ok Some by (auto simp: entry_ok_def removeLocked_def)
    qed
    then show ?thesis
      using inv Some by (auto simp: cache_inv_def removeLocked_def cache_size_delete split: if_splits)
  qed
qed

lemma removeLocked_fields [simp]:
  "ac_dir (removeLocked c h) = ac_dir c" "ac_maxSize (removeLocked c h) = ac_maxSize c" "ac_ttl (removeLocked c h) = ac_ttl c"
  by (simp_all add: removeLocked_def split: option.split)

lemma removeLocked_entries: "map_of (ac_entries (removeLocked c h)) = (map_of (ac_entries c))(h := None)"
  by (auto simp: removeLocked_def split: option.split)

lemma evict_loop_inv: "cache_inv sha c now \<Longrightarrow> cache_inv sha (evict_loop c hs) now"
  by (induction c hs rule: evict_loop.induct) (simp_all add: removeLocked_inv)

lemma evictLocked_inv: "cache_inv sha c now \<Longrightarrow> cache_inv sha (evictLocked c) now"
  by (simp add: evictLocked_def evict_loop_inv)

section \<open>Eviction\<close>

lemma entry_size_le:
  assumes "cache_inv sha c now" "map_of (ac_entries c) h = Some e"
  shows "0 \<le> en_size e" and "en_size e \<le> ac_total c"
proof -
  have nn: "0 \<le> en_size e'" if "map_of (ac_entries c) h' = Some e'" for h' e'
  proof -
    have "entry_ok sha c now h' e'" using assms(1) that by (simp add: cache_inv_def)
    then show ?thesis by (auto simp: entry_ok_def)
  qed
  show "0 \<le> en_size e" using nn assms(2) .
  have kd: "keys_distinct (ac_entries c)" and total: "ac_total c = cache_size (ac_entries c)"
    using assms(1) by (simp_all add: cache_inv_def)
  have "en_size e' \<in> {0..}" if "(h', e') \<in> set (ac_entries c)" for h' e'
    using nn [of h' e'] that map_of_in_set [OF kd] by simp
  then have "\<forall>x \<in> set (map (en_size \<circ> snd) (ac_entries c)). 0 \<le> x" by auto
  moreover have "en_size e \<in> set (map (en_size \<circ> snd) (ac_entries c))"
    using map_of_SomeD [OF assms(2)] by force
  ultimately show "en_size e \<le> ac_total c"
    unfolding total cache_size_def by (rule member_le_sum_nonneg [rotated])
qed

lemma total_nonneg: "cache_inv sha c now \<Longrightarrow> 0 \<le> ac_total c"
proof (cases "ac_entries c")
  case Nil
  moreover assume "cache_inv sha c now"
  ultimately show ?thesis by (simp add: cache_inv_def cache_size_def)
next
  case (Cons a es)
  moreover assume inv: "cache_inv sha c now"
  ultimately show ?thesis using entry_size_le [OF inv, of "fst a" "snd a"] by simp
qed

lemma evict_loop_bound:
  assumes "cache_inv sha c now" "dom (map_of (ac_entries c)) \<subseteq> set hs" "0 < ac_maxSize c"
  shows "ac_total (evict_loop c hs) \<le> ac_maxSize c"
  using assms
proof (induction c hs rule: evict_loop.induct)
  case (1 c)
  then have "ac_entries c = []" by (simp add: dom_map_of_conv_image_fst)
  then show ?case using 1 by (simp add: cache_inv_def cache_size_def)
next
  case (2 c h hs)
  have "dom (map_of (ac_entries (removeLocked c h))) \<subseteq> set hs" using 2(3) by (auto simp: removeLocked_entries)
  then show ?case using 2(1) [OF _ removeLocked_inv [OF 2(2)]] 2(4) by simp
qed

text \<open>The entry at the end of the order of eviction stays exactly when it fits alone.\<close>

lemma evict_loop_last:
  assumes "cache_inv sha c now" "dom (map_of (ac_entries c)) \<subseteq> insert h (set hs)" "h \<notin> set hs" "map_of (ac_entries c) h = Some e"
  shows "map_of (ac_entries (evict_loop c (hs @ [h]))) h = (if en_size e \<le> ac_maxSize c then Some e else None)"
  using assms
proof (induction hs arbitrary: c)
  case Nil
  have kd: "keys_distinct (ac_entries c)" using Nil(1) by (simp add: cache_inv_def)
  have "set (map fst (ac_entries c)) = {h}" 
    using Nil(2) map_of_SomeD [OF Nil(4)] by (force simp: dom_map_of_conv_image_fst)
  then have "map fst (ac_entries c) = [h]"
    using kd distinct_card [of "map fst (ac_entries c)"] by (cases "ac_entries c") (auto simp: keys_distinct_def dest: subset_singletonD)
  then have "ac_entries c = [(h, e)]" using Nil(4) by (cases "ac_entries c") auto
  then show ?case using Nil(1) by (auto simp: cache_inv_def cache_size_def removeLocked_entries)
next
  case (Cons x hs)
  show ?case
  proof (cases "ac_total c \<le> ac_maxSize c")
    case True
    then show ?thesis using entry_size_le(2) [OF Cons(2,5)] Cons(5) by simp
  next
    case False
    have "dom (map_of (ac_entries (removeLocked c x))) \<subseteq> insert h (set hs)"
      "map_of (ac_entries (removeLocked c x)) h = Some e"
      using Cons(3-5) by (auto simp: removeLocked_entries)
    then show ?thesis using Cons(1) [OF removeLocked_inv [OF Cons(2)]] Cons(4) False by simp
  qed
qed

lemma evict_loop_fields [simp]:
  "ac_dir (evict_loop c hs) = ac_dir c" "ac_maxSize (evict_loop c hs) = ac_maxSize c"
  by (induction c hs rule: evict_loop.induct) simp_all

lemma evictLocked_fields [simp]: "ac_dir (evictLocked c) = ac_dir c" "ac_maxSize (evictLocked c) = ac_maxSize c"
  by (simp_all add: evictLocked_def)

definition cache_bounded :: "ArtifactCache \<Rightarrow> bool" where
  "cache_bounded c \<longleftrightarrow> ac_maxSize c \<le> 0 \<or> ac_total c \<le> ac_maxSize c"

definition eviction_order :: "ArtifactCache \<Rightarrow> (string \<times> time) list" where
  "eviction_order c = sort_slice (\<lambda>a b. snd a < snd b) (map (\<lambda>(h, e). (h, en_lastUsed e)) (ac_entries c))"

lemma eviction_order_keys: "set (map fst (eviction_order c)) = dom (map_of (ac_entries c))"
  "distinct (map fst (eviction_order c)) \<longleftrightarrow> keys_distinct (ac_entries c)"
proof -
  have m: "mset (map fst (eviction_order c)) = mset (map fst (ac_entries c))"
    by (simp add: eviction_order_def image_mset.compositionality comp_def case_prod_beta)
  show "set (map fst (eviction_order c)) = dom (map_of (ac_entries c))"
    using mset_eq_setD [OF m] by (simp add: dom_map_of_conv_image_fst)
  show "distinct (map fst (eviction_order c)) \<longleftrightarrow> keys_distinct (ac_entries c)"
    using mset_eq_imp_distinct_iff [OF m] by (simp add: keys_distinct_def)
qed

lemma evictLocked_bounded:
  assumes "cache_inv sha c now"
  shows "cache_bounded (evictLocked c)"
proof (cases "ac_maxSize c \<le> 0 \<or> ac_total c \<le> ac_maxSize c")
  case True
  then show ?thesis by (simp add: evictLocked_def cache_bounded_def)
next
  case False
  then show ?thesis
    using evict_loop_bound [OF assms, of "map fst (eviction_order c)"] eviction_order_keys(1) [of c]
    by (simp add: evictLocked_def cache_bounded_def eviction_order_def [symmetric])
qed

section \<open>Fetching\<close>

lemma cache_inv_entry: "cache_inv sha c now \<Longrightarrow> map_of (ac_entries c) h = Some e \<Longrightarrow> entry_ok sha c now h e"
  by (simp add: cache_inv_def)

lemma cache_inv_later: "cache_inv sha c t0 \<Longrightarrow> t0 \<le> t1 \<Longrightarrow> cache_inv sha c t1"
proof -
  assume inv: "cache_inv sha c t0" and t: "t0 \<le> t1"
  have "entry_ok sha c t1 h e" if "map_of (ac_entries c) h = Some e" for h e
    using cache_inv_entry [OF inv that] t unfolding entry_ok_def by auto
  then show ?thesis using inv by (simp add: cache_inv_def)
qed

lemma cache_get_inv:
  assumes "cache_inv sha c t0" "t0 \<le> t1"
  shows "cache_inv sha (snd (cache_get c hash t1)) t1"
proof -
  have mono: "cache_inv sha c t1" using assms by (rule cache_inv_later)
  show ?thesis
  proof (cases "map_of (ac_entries c) hash")
    case None
    then show ?thesis using mono by (simp add: cache_get_def)
  next
    case (Some e)
    let ?c = "c\<lparr>ac_entries := AList.update hash (e\<lparr>en_lastUsed := t1\<rparr>) (ac_entries c)\<rparr>"
    have "cache_size (ac_entries ?c) = cache_size (ac_entries c)" using cache_size_update_same [OF Some] by simp
    moreover have "entry_ok sha ?c t1 h e'" if "map_of (ac_entries ?c) h = Some e'" for h e'
      using cache_inv_entry [OF mono, of h] Some that by (cases "h = hash") (auto simp: entry_ok_def)
    ultimately have "cache_inv sha ?c t1" using mono by (simp add: cache_inv_def)
    then show ?thesis using Some removeLocked_inv [OF mono] by (simp add: cache_get_def)
  qed
qed

lemma cache_get_hit:
  assumes "cache_inv sha c t0" "fst (cache_get c hash t1) \<noteq> []"
  shows "fst (cache_get c hash t1) = artifact_path (ac_dir c) hash"
    and "\<exists>data. map_of (ac_files (snd (cache_get c hash t1))) (artifact_path (ac_dir c) hash) = Some data \<and> sha data = hash"
    and "ac_total (snd (cache_get c hash t1)) = ac_total c"
proof -
  obtain e where e: "map_of (ac_entries c) hash = Some e" "\<not> (0 < ac_ttl c \<and> ac_ttl c < t1 - en_lastUsed e)"
    using assms(2) by (auto simp: cache_get_def split: option.splits if_splits)
  from cache_inv_entry [OF assms(1) e(1)] e
  show "fst (cache_get c hash t1) = artifact_path (ac_dir c) hash"
    "\<exists>data. map_of (ac_files (snd (cache_get c hash t1))) (artifact_path (ac_dir c) hash) = Some data \<and> sha data = hash"
    "ac_total (snd (cache_get c hash t1)) = ac_total c"
    by (auto simp: cache_get_def entry_ok_def)
qed

text \<open>A caller that does not find its file leaves no entry for it behind.\<close>

lemma cache_get_miss:
  assumes "cache_inv sha c t0" "fst (cache_get c hash t1) = []"
  shows "map_of (ac_entries (snd (cache_get c hash t1))) hash = None"
    and "snd (cache_get c hash t1) = removeLocked c hash"
proof -
  have "snd (cache_get c hash t1) = removeLocked c hash"
  proof (cases "map_of (ac_entries c) hash")
    case None
    then show ?thesis by (simp add: cache_get_def removeLocked_def)
  next
    case (Some e)
    then have "en_path e \<noteq> []" using cache_inv_entry [OF assms(1) Some] by (simp add: entry_ok_def artifact_path_def)
    then show ?thesis using assms(2) Some by (simp add: cache_get_def split: if_splits)
  qed
  then show "snd (cache_get c hash t1) = removeLocked c hash"
    "map_of (ac_entries (snd (cache_get c hash t1))) hash = None" by (simp_all add: removeLocked_entries)
qed

lemma cache_get_fields [simp]: "ac_dir (snd (cache_get c h t)) = ac_dir c" "ac_maxSize (snd (cache_get c h t)) = ac_maxSize c"
  by (simp_all add: cache_get_def split: option.split)

text \<open>A file put into the directory for a hash without an entry, with its entry.\<close>

definition add_entry :: "ArtifactCache \<Rightarrow> string \<Rightarrow> bytes \<Rightarrow> time \<Rightarrow> ArtifactCache" where
  "add_entry c hash data now =
     (let dest = artifact_path (ac_dir c) hash
      in c\<lparr>ac_files := AList.update dest data (ac_files c),
           ac_entries := AList.update hash \<lparr>en_path = dest, en_size = int (length data), en_lastUsed = now\<rparr> (ac_entries c),
           ac_total := ac_total c + int (length data)\<rparr>)"

lemma other_file_ok:
  assumes "entry_ok sha c t0 h e" "hash \<noteq> []" "h \<noteq> hash" "t0 \<le> now" "ac_dir c' = ac_dir c"
    "ac_files c' = AList.update (artifact_path (ac_dir c) hash) data (ac_files c)"
  shows "entry_ok sha c' now h e"
  using assms by (auto simp: entry_ok_def artifact_path_inj)

lemma add_entry_inv:
  assumes "cache_inv sha c t0" "map_of (ac_entries c) hash = None" "hash \<noteq> []" "sha data = hash" "t0 \<le> now"
  shows "cache_inv sha (add_entry c hash data now) now"
proof -
  let ?c = "add_entry c hash data now"
  have "entry_ok sha ?c now h e" if "map_of (ac_entries ?c) h = Some e" for h e
  proof (cases "h = hash")
    case True
    then have "e = \<lparr>en_path = artifact_path (ac_dir c) hash, en_size = int (length data), en_lastUsed = now\<rparr>"
      using that by (simp add: add_entry_def Let_def)
    then show ?thesis using True assms(3,4) by (simp add: add_entry_def Let_def entry_ok_def)
  next
    case False
    then have "entry_ok sha c t0 h e"
      using that cache_inv_entry [OF assms(1), of h e] by (simp add: add_entry_def Let_def)
    from other_file_ok [OF this assms(3) False assms(5)] show ?thesis by (simp add: add_entry_def Let_def)
  qed
  then show ?thesis
    using assms(1) cache_size_update_new [OF assms(2)] by (simp add: cache_inv_def add_entry_def Let_def)
qed

text \<open>The newest entry is the last to be evicted.\<close>

lemma evict_newest:
  assumes inv: "cache_inv sha c now" and e: "map_of (ac_entries c) hash = Some e" "en_lastUsed e = now"
    and older: "\<And>h e'. map_of (ac_entries c) h = Some e' \<Longrightarrow> h \<noteq> hash \<Longrightarrow> en_lastUsed e' < now" and lim: "0 < ac_maxSize c"
  shows "map_of (ac_entries (evictLocked c)) hash = (if en_size e \<le> ac_maxSize c then Some e else None)"
proof (cases "ac_total c \<le> ac_maxSize c")
  case True
  then show ?thesis using entry_size_le(2) [OF inv e(1)] e(1) by (simp add: evictLocked_def)
next
  case False
  let ?o = "eviction_order c"
  have kd: "keys_distinct (ac_entries c)" using inv by (simp add: cache_inv_def)
  have mem: "(h, t) \<in> set ?o \<longleftrightarrow> (\<exists>e'. map_of (ac_entries c) h = Some e' \<and> t = en_lastUsed e')" for h t
    using map_of_in_set [OF kd] by (auto simp: eviction_order_def)
  obtain xs ys where o: "?o = xs @ (hash, now) # ys" using mem [of hash now] e by (auto dest: split_list)
  have dist: "distinct (map fst ?o)" using eviction_order_keys(2) kd by blast
  have srt: "sorted_wrt (\<lambda>a b. \<not> snd b < snd a) ?o"
    unfolding eviction_order_def by (rule by_key_asc.sorted_sort_slice)
  have "ys = []"
  proof (rule ccontr)
    assume "ys \<noteq> []"
    then obtain h t zs where y: "ys = (h, t) # zs" by (cases ys) auto
    then have "h \<noteq> hash" "(h, t) \<in> set ?o" using o dist by auto
    then have "t < now" using mem older by auto
    moreover have "\<not> t < now" using srt o y by (simp add: sorted_wrt_append)
    ultimately show False by simp
  qed
  then have hs: "map fst ?o = map fst xs @ [hash]" using o by simp
  then have "dom (map_of (ac_entries c)) \<subseteq> insert hash (set (map fst xs))" "hash \<notin> set (map fst xs)"
    using eviction_order_keys(1) [of c] dist by auto
  from evict_loop_last [OF inv this e(1)] show ?thesis
    using False lim hs by (simp add: evictLocked_def eviction_order_def [symmetric])
qed

lemma Obtain_ok:
  assumes "dl_body d = Inr data" "sha data = hash" "dl_rename d = None" "dl_chmod d = None"
  shows "Obtain sha c hash d now = (Inr (artifact_path (ac_dir c) hash), evictLocked (add_entry c hash data now))"
  using assms by (simp add: Obtain_def add_entry_def Let_def)

lemma Obtain_cases:
  assumes "hash \<noteq> []"
  obtains data where "dl_body d = Inr data" "sha data = hash" "dl_rename d = None" "dl_chmod d = None"
  | e where "fst (Obtain sha c hash d now) = Inl e" "snd (Obtain sha c hash d now) = c"
  | e data where "dl_body d = Inr data" "sha data = hash" "fst (Obtain sha c hash d now) = Inl e"
      "snd (Obtain sha c hash d now) = c\<lparr>ac_files := AList.update (artifact_path (ac_dir c) hash) data (ac_files c)\<rparr>"
proof (cases "dl_body d")
  case (Inl e)
  then show ?thesis using that(2) by (simp add: Obtain_def)
next
  case data: (Inr data)
  show ?thesis
  proof (cases "sha data = hash")
    case False
    then show ?thesis using that(2) data assms by (simp add: Obtain_def)
  next
    case hash: True
    show ?thesis
    proof (cases "dl_rename d")
      case None
      then show ?thesis using that(1,3) data hash by (cases "dl_chmod d") (simp_all add: Obtain_def Let_def)
    next
      case (Some e)
      then show ?thesis using that(2) data hash by (simp add: Obtain_def)
    qed
  qed
qed

lemma put_file_inv:
  assumes "cache_inv sha c t0" "map_of (ac_entries c) hash = None" "hash \<noteq> []" "t0 \<le> now"
  shows "cache_inv sha (c\<lparr>ac_files := AList.update (artifact_path (ac_dir c) hash) data (ac_files c)\<rparr>) now"
    (is "cache_inv sha ?c now")
proof -
  have "entry_ok sha ?c now h e" if "map_of (ac_entries c) h = Some e" for h e
    using other_file_ok [OF cache_inv_entry [OF assms(1) that] assms(3), of now ?c data] that assms(2,4) by (cases "h = hash") auto
  then show ?thesis using assms(1) by (simp add: cache_inv_def)
qed

text \<open>
  What a caller of the cache gets: a path at which there is a file of the right hash, unless the file is
  larger than the whole cache, in which case it has been deleted again.
\<close>

definition fetched :: "(bytes \<Rightarrow> string) \<Rightarrow> ArtifactCache \<Rightarrow> string \<Rightarrow> download \<Rightarrow> string \<Rightarrow> bool" where
  "fetched sha c hash d path \<longleftrightarrow>
     path = artifact_path (ac_dir c) hash \<and>
     (case map_of (ac_files c) path of
        Some data \<Rightarrow> sha data = hash
      | None \<Rightarrow> (\<exists>data. dl_body d = Inr data \<and> 0 < ac_maxSize c \<and> ac_maxSize c < int (length data)))"

lemma evict_loop_files:
  assumes "cache_inv sha c now" "hash \<noteq> []" "map_of (ac_entries c) hash = Some e"
  shows "map_of (ac_files (evict_loop c hs)) (artifact_path (ac_dir c) hash) =
         (if map_of (ac_entries (evict_loop c hs)) hash = None then None else map_of (ac_files c) (artifact_path (ac_dir c) hash))"
  using assms
proof (induction c hs rule: evict_loop.induct)
  case (1 c)
  then show ?case by simp
next
  case (2 c h hs)
  have ok: "en_path e = artifact_path (ac_dir c) hash" using cache_inv_entry [OF 2(2,4)] by (simp add: entry_ok_def)
  show ?case
  proof (cases "ac_total c \<le> ac_maxSize c")
    case True
    then show ?thesis using 2(4) by simp
  next
    case False
    show ?thesis
    proof (cases "h = hash")
      case True
      have gone: "map_of (ac_entries (evict_loop c' hs)) hash = None" if "map_of (ac_entries c') hash = None" for c' hs
        using that by (induction c' hs rule: evict_loop.induct) (auto simp: removeLocked_entries)
      have gonef: "map_of (ac_files (evict_loop c' hs)) p = None" if "map_of (ac_files c') p = None" for c' hs p
        using that by (induction c' hs rule: evict_loop.induct) (auto simp: removeLocked_def split: option.split)
      show ?thesis using False True gone gonef ok 2(4) by (simp add: removeLocked_def)
    next
      case no: False
      have e: "map_of (ac_entries (removeLocked c h)) hash = Some e" using 2(4) no by (simp add: removeLocked_entries)
      have "map_of (ac_files (removeLocked c h)) (artifact_path (ac_dir c) hash) = map_of (ac_files c) (artifact_path (ac_dir c) hash)"
        using no 2(3) cache_inv_entry [OF 2(2), of h]
        by (auto simp: removeLocked_def entry_ok_def artifact_path_inj split: option.split)
      then show ?thesis using 2(1) [OF False removeLocked_inv [OF 2(2)] 2(3) e] False by simp
    qed
  qed
qed

lemma Obtain_correct:
  assumes inv: "cache_inv sha c t0" and none: "map_of (ac_entries c) hash = None" and h: "hash \<noteq> []" and t: "t0 < now"
    and b: "cache_bounded c"
  shows "cache_inv sha (snd (Obtain sha c hash d now)) now" and "cache_bounded (snd (Obtain sha c hash d now))"
    and "fst (Obtain sha c hash d now) = Inr p \<Longrightarrow> fetched sha (snd (Obtain sha c hash d now)) hash d p"
proof -
  let ?r = "Obtain sha c hash d now"
  have "cache_inv sha (snd ?r) now \<and> cache_bounded (snd ?r) \<and> (fst ?r = Inr p \<longrightarrow> fetched sha (snd ?r) hash d p)"
  proof (rule Obtain_cases [OF h, where d = d and sha = sha and c = c and now = now])
    fix data assume d: "dl_body d = Inr data" "sha data = hash" "dl_rename d = None" "dl_chmod d = None"
    let ?c = "add_entry c hash data now"
    let ?e = "\<lparr>en_path = artifact_path (ac_dir c) hash, en_size = int (length data), en_lastUsed = now\<rparr>"
    have i: "cache_inv sha ?c now" using add_entry_inv [OF inv none h d(2)] t by simp
    have e: "map_of (ac_entries ?c) hash = Some ?e" by (simp add: add_entry_def Let_def)
    have f: "map_of (ac_files ?c) (artifact_path (ac_dir c) hash) = Some data" "ac_dir ?c = ac_dir c" "ac_maxSize ?c = ac_maxSize c"
      by (simp_all add: add_entry_def Let_def)
    have older: "en_lastUsed e' < now" if "map_of (ac_entries ?c) k = Some e'" "k \<noteq> hash" for k e'
      using cache_inv_entry [OF inv, of k e'] that t by (simp add: add_entry_def Let_def entry_ok_def)
    have "fetched sha (evictLocked ?c) hash d (artifact_path (ac_dir c) hash)"
    proof (cases "0 < ac_maxSize c")
      case True
      have "map_of (ac_entries (evictLocked ?c)) hash = (if int (length data) \<le> ac_maxSize c then Some ?e else None)"
        using evict_newest [OF i e _ older] True f by simp
      moreover have "map_of (ac_files (evictLocked ?c)) (artifact_path (ac_dir c) hash) =
          (if map_of (ac_entries (evictLocked ?c)) hash = None then None else Some data)"
        using evict_loop_files [OF i h e] f e by (simp add: evictLocked_def)
      ultimately show ?thesis using True d f by (simp add: fetched_def)
    next
      case False
      then show ?thesis using d f by (simp add: evictLocked_def fetched_def)
    qed
    then show ?thesis
      unfolding Obtain_ok [where sha = sha, OF d] using evictLocked_inv [OF i] evictLocked_bounded [OF i] by auto
  next
    fix e assume "fst ?r = Inl e" "snd ?r = c"
    then show ?thesis using cache_inv_later [OF inv, of now] t b by simp
  next
    fix e data assume "fst ?r = Inl e"
      "snd ?r = c\<lparr>ac_files := AList.update (artifact_path (ac_dir c) hash) data (ac_files c)\<rparr>"
    then show ?thesis using put_file_inv [OF inv none h, of now data] t b by (simp add: cache_bounded_def)
  qed
  then show "cache_inv sha (snd ?r) now" "cache_bounded (snd ?r)" "fst ?r = Inr p \<Longrightarrow> fetched sha (snd ?r) hash d p"
    by blast+
qed

lemma cache_bounded_get:
  assumes "cache_inv sha c t0" "cache_bounded c"
  shows "cache_bounded (snd (cache_get c hash t1))"
proof (cases "fst (cache_get c hash t1) = []")
  case True
  show ?thesis
  proof (cases "map_of (ac_entries c) hash")
    case None
    then show ?thesis using assms(2) by (simp add: cache_get_def)
  next
    case (Some e)
    then show ?thesis
      using cache_get_miss(2) [OF assms(1) True] entry_size_le(1) [OF assms(1) Some] assms(2)
      by (auto simp: cache_bounded_def removeLocked_def)
  qed
next
  case False
  then show ?thesis using cache_get_hit(3) [OF assms(1) False] assms(2) by (simp add: cache_bounded_def)
qed

lemma Fetch_correct:
  assumes inv: "cache_inv sha c t0" and b: "cache_bounded c" and h: "hash \<noteq> []" and t: "t0 < t1" "t1 < t2"
  shows "cache_inv sha (snd (Fetch sha c hash d t1 t2)) t2" and "cache_bounded (snd (Fetch sha c hash d t1 t2))"
    and "fst (Fetch sha c hash d t1 t2) = Inr p \<Longrightarrow> fetched sha (snd (Fetch sha c hash d t1 t2)) hash d p"
proof -
  let ?g = "cache_get c hash t1" and ?r = "Fetch sha c hash d t1 t2"
  have gi: "cache_inv sha (snd ?g) t1" using cache_get_inv [OF inv, of t1] t by simp
  have gb: "cache_bounded (snd ?g)" using cache_bounded_get [OF inv b] .
  have "cache_inv sha (snd ?r) t2 \<and> cache_bounded (snd ?r) \<and> (fst ?r = Inr p \<longrightarrow> fetched sha (snd ?r) hash d p)"
  proof (cases "fst ?g = []")
    case True
    then have r: "?r = Obtain sha (snd ?g) hash d t2" by (simp add: Fetch_def case_prod_beta)
    show ?thesis
      unfolding r using Obtain_correct [OF gi cache_get_miss(1) [OF inv True] h t(2) gb] by blast
  next
    case False
    then have r: "?r = (Inr (fst ?g), snd ?g)" by (simp add: Fetch_def case_prod_beta)
    show ?thesis
      unfolding r using cache_get_hit [OF inv False] cache_inv_later [OF gi, of t2] gb t by (auto simp: fetched_def)
  qed
  then show "cache_inv sha (snd ?r) t2" "cache_bounded (snd ?r)" "fst ?r = Inr p \<Longrightarrow> fetched sha (snd ?r) hash d p" by blast+
qed

text \<open>One caller after the other, each with its hash, its download and two later and later times.\<close>

type_synonym request = "string \<times> download \<times> time \<times> time"

definition fetch_all :: "(bytes \<Rightarrow> string) \<Rightarrow> ArtifactCache \<Rightarrow> request list \<Rightarrow> ArtifactCache" where
  "fetch_all sha c rs = foldl (\<lambda>c (h, d, t1, t2). snd (Fetch sha c h d t1 t2)) c rs"

fun in_order :: "time \<Rightarrow> request list \<Rightarrow> bool" where
  "in_order t [] \<longleftrightarrow> True"
| "in_order t ((h, d, t1, t2) # rs) \<longleftrightarrow> h \<noteq> [] \<and> t < t1 \<and> t1 < t2 \<and> in_order t2 rs"

lemma fetch_all_inv:
  assumes "cache_inv sha c t" "cache_bounded c" "in_order t (rs @ rs')"
  shows "\<exists>t'. cache_inv sha (fetch_all sha c rs) t' \<and> cache_bounded (fetch_all sha c rs) \<and> in_order t' rs'"
  using assms
proof (induction rs arbitrary: c t)
  case Nil
  then show ?case by (auto simp: fetch_all_def)
next
  case (Cons r rs)
  obtain h d t1 t2 where r: "r = (h, d, t1, t2)" by (cases r)
  have "h \<noteq> []" "t < t1" "t1 < t2" "in_order t2 (rs @ rs')" using Cons.prems(3) r by simp_all
  with Fetch_correct [OF Cons.prems(1,2), of h t1 t2 d] Cons.IH show ?case by (simp add: fetch_all_def r)
qed

lemma Fetch_succeeds:
  assumes "dl_body d = Inr data" "sha data = hash" "dl_rename d = None" "dl_chmod d = None"
  shows "\<exists>p. fst (Fetch sha c hash d t1 t2) = Inr p"
  using assms by (simp add: Fetch_def Obtain_def case_prod_beta Let_def)

lemma Fetch_fields:
  "ac_dir (snd (Fetch sha c h d t1 t2)) = ac_dir c \<and> ac_maxSize (snd (Fetch sha c h d t1 t2)) = ac_maxSize c"
  by (auto simp: Fetch_def Obtain_def Let_def case_prod_beta split: sum.split option.split)

lemma fetch_all_fields: "ac_dir (fetch_all sha c rs) = ac_dir c \<and> ac_maxSize (fetch_all sha c rs) = ac_maxSize c"
  unfolding fetch_all_def using Fetch_fields by (induction rs arbitrary: c) (auto simp: case_prod_beta)

lemma fetch_all_new:
  assumes "dir \<noteq> []" "in_order t0 (rs @ [(hash, d, t1, t2)])" "c = fetch_all sha (NewArtifactCache dir maxSize ttl files) rs"
  obtains t' where "cache_inv sha c t'" "cache_bounded c" "hash \<noteq> []" "t' < t1" "t1 < t2" "ac_dir c = dir" "ac_maxSize c = maxSize"
proof -
  have "cache_inv sha (NewArtifactCache dir maxSize ttl files) t0" "cache_bounded (NewArtifactCache dir maxSize ttl files)"
    using assms(1) by (auto simp: cache_inv_def NewArtifactCache_def cache_size_def cache_bounded_def)
  from fetch_all_inv [OF this assms(2)] obtain t' where "cache_inv sha c t'" "cache_bounded c" "in_order t' [(hash, d, t1, t2)]"
    by (auto simp: assms(3))
  moreover have "ac_dir c = dir" "ac_maxSize c = maxSize" by (simp_all add: assms(3) fetch_all_fields NewArtifactCache_def)
  ultimately show thesis by (intro that [of t']) auto
qed

lemma fetched_from_new:
  assumes "dir \<noteq> []" "in_order t0 (rs @ [(hash, d, t1, t2)])" "c = fetch_all sha (NewArtifactCache dir maxSize ttl files) rs"
    and "fst (Fetch sha c hash d t1 t2) = Inr p"
  shows "p = dir @ ''/'' @ hash \<and>
     (case map_of (ac_files (snd (Fetch sha c hash d t1 t2))) p of
        Some data \<Rightarrow> sha data = hash
      | None \<Rightarrow> (\<exists>data. dl_body d = Inr data \<and> 0 < maxSize \<and> maxSize < int (length data)))"
proof -
  obtain t' where c: "cache_inv sha c t'" "cache_bounded c" "hash \<noteq> []" "t' < t1" "t1 < t2" "ac_dir c = dir" "ac_maxSize c = maxSize"
    using fetch_all_new [OF assms(1-3)] by blast
  show ?thesis
    using Fetch_correct(3) [OF c(1-5) assms(4)] Fetch_fields [of sha c hash d t1 t2] c(3,6,7)
    by (auto simp: fetched_def artifact_path_def split: option.splits)
qed



text \<open>
  Two callers that both look before either of them downloads: the second download replaces the entry of
  the first and its size is counted twice.
\<close>

lemma double_obtain_counts_twice:
  fixes t1 t2 :: time
  assumes "cache_inv sha c t0" "map_of (ac_entries c) hash = None" "hash \<noteq> []" "ac_maxSize c \<le> 0"
    and "dl_body d = Inr data" "sha data = hash" "dl_rename d = None" "dl_chmod d = None"
  defines "c2 \<equiv> snd (Obtain sha (snd (Obtain sha c hash d t1)) hash d t2)"
  shows "ac_total c2 = cache_size (ac_entries c2) + int (length data)"
proof -
  let ?e = "\<lambda>t. \<lparr>en_path = artifact_path (ac_dir c) hash, en_size = int (length data), en_lastUsed = t\<rparr>"
  have "cache_size (AList.update hash (?e t2) (AList.update hash (?e t1) (ac_entries c))) = cache_size (ac_entries c) + int (length data)"
    using cache_size_update_same [of "AList.update hash (?e t1) (ac_entries c)" hash "?e t1" "?e t2"]
      cache_size_update_new [OF assms(2), of "?e t1"] by simp
  then show ?thesis
    unfolding c2_def Obtain_ok [where sha = sha, OF assms(5-8)] using assms(1,4)
    by (simp add: evictLocked_def add_entry_def Let_def cache_inv_def)
qed

end
