(* ===== verification/Worker_Node.thy ===== *)
theory Worker_Node
  imports Task_Runner Metrics_Sampler Artifact_Cache
begin

text \<open>
  The worker daemon (\<^verbatim>\<open>worker/worker.go\<close>, \<^verbatim>\<open>worker/handle_message.go\<close>): one definition per message handler,
  per phase of a running job and per step of the connection. Every handler runs in a goroutine of its own
  and locks what it changes, so the model runs handlers one after the other, in any order. The lines a
  worker writes are part of its state; a nil dereference is the error \<open>Panic\<close>.
\<close>

section \<open>Configuration\<close>

record ResourceLimits =
  rl_MaxCPUPercent :: real
  rl_MaxMemPercent :: real
  rl_SampleInterval :: duration

record worker_Config =
  wf_ManagerAddr :: string
  wf_Capacity :: int
  wf_CacheDir :: string
  wf_CacheMaxSize :: int
  wf_CacheTTL :: duration
  wf_TmpStorageDir :: string
  wf_TmpStorageMaxLifetime :: duration
  wf_TmpStorageCleanupInterval :: duration
  wf_HeartbeatInterval :: duration
  wf_HeartbeatTimeout :: duration
  wf_WorkerID :: string
  wf_AuthToken :: string
  wf_InheritableENVPrefix :: string
  wf_ReconnectMaxAttempts :: int
  wf_KillGracePeriod :: duration
  wf_AllowNonRoot :: bool
  wf_ResourceLimits :: ResourceLimits

text \<open>The retry strategy and the logger, which have defaults too, are objects of other modules.\<close>

definition dflt :: "int \<Rightarrow> int \<Rightarrow> int" where "dflt d x = (if x = 0 then d else x)"

definition worker_applyDefaults :: "worker_Config \<Rightarrow> worker_Config" where
  "worker_applyDefaults c =
     c\<lparr>wf_CacheDir := (if wf_CacheDir c = [] then ''/tmp/workforce'' else wf_CacheDir c),
       wf_HeartbeatInterval := dflt (10 * Second) (wf_HeartbeatInterval c),
       wf_HeartbeatTimeout := dflt (30 * Second) (wf_HeartbeatTimeout c),
       wf_KillGracePeriod := dflt (5 * Second) (wf_KillGracePeriod c),
       wf_Capacity := dflt 1 (wf_Capacity c),
       wf_ResourceLimits := (wf_ResourceLimits c)\<lparr>rl_SampleInterval := dflt (2 * Second) (rl_SampleInterval (wf_ResourceLimits c))\<rparr>,
       wf_ReconnectMaxAttempts := dflt 10000 (wf_ReconnectMaxAttempts c),
       wf_InheritableENVPrefix := (if wf_InheritableENVPrefix c = [] then ''WORKFORCE_WORKER_TASK_'' else wf_InheritableENVPrefix c),
       wf_TmpStorageMaxLifetime := dflt (48 * Hour) (wf_TmpStorageMaxLifetime c),
       wf_TmpStorageCleanupInterval := dflt (3 * Hour) (wf_TmpStorageCleanupInterval c)\<rparr>"

section \<open>State\<close>

text \<open>The connection of a worker: none, one that can be written to, or one that was closed.\<close>

datatype net_conn = NilConn | OpenConn | ClosedConn

record activeTask =
  tk_cancelled :: bool
  tk_cost :: int
  tk_runID :: string

text \<open>What was written to the connection: a line, or a header with the payload after it.\<close>

datatype sent = Line string | WithPayload string bytes

text \<open>A goroutine of \<open>runJob\<close>: before its binary is started, or while the binary runs.\<close>

datatype job_routine = Fetching ProposeMessage DispatchMessage | Executing ProposeMessage DispatchMessage taskExec

record Worker =
  w_cfg :: worker_Config
  w_artifactCache :: ArtifactCache
  w_metricsSampler :: metricsSampler
  w_depCache :: "string list"
  w_state :: WorkerState
  w_conn :: net_conn
  w_done :: bool
  w_tasks :: "(string, activeTask) gomap"
  w_pendingJobs :: "(string, ProposeMessage) gomap"
  w_usedCap :: int
  w_lastHeartbeatAck :: int
  w_heartbeatSendFailureCount :: int
  w_sent :: "sent list"
  w_routines :: "job_routine list"

definition New_Worker :: "worker_Config \<Rightarrow> (string, bytes) gomap \<Rightarrow> Worker res" where
  "New_Worker cfg0 files =
     (let cfg = worker_applyDefaults cfg0; iv = rl_SampleInterval (wf_ResourceLimits cfg)
      in and_then (newMetricsSampler iv (iv div 2)) (\<lambda>ms.
         Inr \<lparr>w_cfg = cfg, w_artifactCache = NewArtifactCache (wf_CacheDir cfg) (wf_CacheMaxSize cfg) (wf_CacheTTL cfg) files,
              w_metricsSampler = ms, w_depCache = [], w_state = WorkerStateOffline, w_conn = NilConn, w_done = False,
              w_tasks = [], w_pendingJobs = [], w_usedCap = 0, w_lastHeartbeatAck = 0, w_heartbeatSendFailureCount = 0,
              w_sent = [], w_routines = []\<rparr>))"

section \<open>Writing\<close>

definition write_conn :: "Worker \<Rightarrow> sent \<Rightarrow> (error option \<times> Worker) res" where
  "write_conn w x =
     (case w_conn w of
        NilConn \<Rightarrow> Inl (Panic ''invalid memory address or nil pointer dereference'')
      | ClosedConn \<Rightarrow> Inr (Some (Errorf ''use of closed network connection''), w)
      | OpenConn \<Rightarrow> Inr (None, w\<lparr>w_sent := w_sent w @ [x]\<rparr>))"

definition worker_send :: "Worker \<Rightarrow> string \<Rightarrow> (error option \<times> Worker) res" where
  "worker_send w line = write_conn w (Line line)"

definition sendWithPayload :: "Worker \<Rightarrow> string \<Rightarrow> bytes \<Rightarrow> (error option \<times> Worker) res" where
  "sendWithPayload w header payload =
     write_conn w (WithPayload (header @ '' -- '' @ Itoa (int (length payload))) payload)"

text \<open>The handlers ignore the error of a write.\<close>

definition ignore_err :: "(error option \<times> Worker) res \<Rightarrow> Worker res" where
  "ignore_err r = and_then r (\<lambda>(e, w). Inr w)"

abbreviation emit :: "Worker \<Rightarrow> string \<Rightarrow> Worker res" where
  "emit w line \<equiv> ignore_err (worker_send w line)"

abbreviation emitp :: "Worker \<Rightarrow> string \<Rightarrow> bytes \<Rightarrow> Worker res" where
  "emitp w header payload \<equiv> ignore_err (sendWithPayload w header payload)"

definition close_conn :: "Worker \<Rightarrow> Worker res" where
  "close_conn w =
     (if w_conn w = NilConn then Inl (Panic ''invalid memory address or nil pointer dereference'')
      else Inr (w\<lparr>w_conn := ClosedConn\<rparr>))"

definition squote :: char where "squote = CHR 0x27"

definition sendError :: "Worker \<Rightarrow> string \<Rightarrow> string \<Rightarrow> Worker res" where
  "sendError w code message =
     (let safe = filter (\<lambda>c. c \<noteq> squote) message
      in emit w (''error --code='' @ code @ '' --message='' @ [squote] @ safe @ [squote]))"

section \<open>Proposals\<close>

fun check_deps :: "(string \<Rightarrow> bool) \<Rightarrow> string list \<Rightarrow> string list \<Rightarrow> string list \<times> string list" where
  "check_deps lookPath cache [] = ([], cache)"
| "check_deps lookPath cache (d # ds) =
     (if d \<in> set cache then check_deps lookPath cache ds
      else if \<not> lookPath d then (let (missing, c) = check_deps lookPath cache ds in (d # missing, c))
      else check_deps lookPath (d # cache) ds)"

definition checkDeps :: "(string \<Rightarrow> bool) \<Rightarrow> Worker \<Rightarrow> string list \<Rightarrow> string list \<times> Worker" where
  "checkDeps lookPath w deps =
     (let (missing, c) = check_deps lookPath (w_depCache w) deps in (missing, w\<lparr>w_depCache := c\<rparr>))"

definition comma_join :: "string list \<Rightarrow> string" where
  "comma_join xs = (case xs of [] \<Rightarrow> [] | y # ys \<Rightarrow> y @ concat (map (\<lambda>z. '','' @ z) ys))"

definition reject_line :: "string \<Rightarrow> string \<Rightarrow> string" where
  "reject_line jobID reason = ''reject --job-id='' @ jobID @ '' --reason='' @ reason"

definition handlePropose :: "(string \<Rightarrow> bool) \<Rightarrow> Worker \<Rightarrow> ProposeMessage \<Rightarrow> Worker res" where
  "handlePropose lookPath w msg =
     (let lim = wf_ResourceLimits (w_cfg w)
      in if w_state w \<noteq> WorkerStateOnline then emit w (reject_line (pmJobID msg) ''draining'')
         else if (0 < rl_MaxCPUPercent lim \<or> 0 < rl_MaxMemPercent lim) \<and>
                 IsOverLimit (sampler_snapshot (w_metricsSampler w)) (rl_MaxCPUPercent lim) (rl_MaxMemPercent lim)
         then emit w (reject_line (pmJobID msg) ''pressure'')
         else let (missing, w1) = checkDeps lookPath w (pmArtifactDeps msg)
              in if missing \<noteq> []
                 then emit w1 (reject_line (pmJobID msg) ''missing_deps'' @ '' --detail='' @ [squote] @ comma_join missing @ [squote])
                 else if wrap64 (w_usedCap w1 + pmCost msg) \<le> wf_Capacity (w_cfg w1)
                 then emit (w1\<lparr>w_usedCap := wrap64 (w_usedCap w1 + pmCost msg),
                              w_pendingJobs := AList.update (pmJobID msg) msg (w_pendingJobs w1)\<rparr>)
                        (''accept --job-id='' @ pmJobID msg)
                 else emit w1 (reject_line (pmJobID msg) ''capacity''))"

section \<open>Dispatching, cancelling and stopping\<close>

definition handleDispatch :: "Worker \<Rightarrow> DispatchMessage \<Rightarrow> Worker res" where
  "handleDispatch w msg =
     (case map_of (w_pendingJobs w) (dmJobID msg) of
        None \<Rightarrow> sendError w ''unknown_job'' ''dispatched job was not proposed or accepted''
      | Some proposal \<Rightarrow>
          and_then (emit (w\<lparr>w_pendingJobs := AList.delete (dmJobID msg) (w_pendingJobs w),
                            w_tasks := AList.update (dmJobID msg) \<lparr>tk_cancelled = False, tk_cost = pmCost proposal, tk_runID = dmRunID msg\<rparr> (w_tasks w)\<rparr>)
                      (''staged --job-id='' @ dmJobID msg @ '' --run-id='' @ dmRunID msg))
            (\<lambda>w1. Inr (w1\<lparr>w_routines := w_routines w1 @ [Fetching proposal msg]\<rparr>)))"

definition state_Transition :: "WorkerState \<Rightarrow> WorkerState \<Rightarrow> Worker \<Rightarrow> bool \<times> Worker" where
  "state_Transition old new w = (if w_state w = old then (True, w\<lparr>w_state := new\<rparr>) else (False, w))"

definition handleSystem :: "Worker \<Rightarrow> string \<Rightarrow> Worker res" where
  "handleSystem w cmd =
     (if cmd = ''drain''
      then let w1 = w\<lparr>w_state := WorkerStateDraining\<rparr>
           in if w_tasks w1 = [] then close_conn (w1\<lparr>w_state := WorkerStateShuttingDown\<rparr>) else Inr w1
      else if cmd = ''shutdown''
      then let (ok1, w1) = state_Transition WorkerStateOnline WorkerStateShuttingDown w;
               (ok, w2) = (if ok1 then (True, w1) else state_Transition WorkerStateDraining WorkerStateShuttingDown w1)
           in if \<not> ok then Inr w2
              else if w_done w2 then Inl (Panic ''close of closed channel'') else Inr (w2\<lparr>w_done := True\<rparr>)
      else Inr w)"

definition handleCancel :: "Worker \<Rightarrow> string \<Rightarrow> Worker" where
  "handleCancel w jobID =
     (case map_of (w_tasks w) jobID of
        None \<Rightarrow> w
      | Some t \<Rightarrow> w\<lparr>w_tasks := AList.update jobID (t\<lparr>tk_cancelled := True\<rparr>) (w_tasks w)\<rparr>)"

fun message_type :: "Message \<Rightarrow> string" where
  "message_type (Propose p) = ''*contract.ProposeMessage''"
| "message_type (Dispatch d) = ''*contract.DispatchMessage''"
| "message_type (Staged r) = ''*contract.StagedMessage''"
| "message_type (Accept j) = ''*contract.AcceptMessage''"
| "message_type (Reject r) = ''*contract.RejectMessage''"
| "message_type (Starting r) = ''*contract.StartingMessage''"
| "message_type (Log l) = ''*contract.LogMessage''"
| "message_type (Result r) = ''*contract.ResultMessage''"
| "message_type (Heartbeat h) = ''*contract.HeartbeatMessage''"
| "message_type (System c) = ''*contract.SystemMessage''"
| "message_type (Capacity n) = ''*contract.CapacityMessage''"
| "message_type (Cancel j) = ''*contract.CancelMessage''"

text \<open>Unix time counts from 1970; an instant of the model counts from the year 1.\<close>

definition unix_epoch :: time where "unix_epoch = 62135596800 * Second"

definition Unix :: "time \<Rightarrow> int" where "Unix t = (t - unix_epoch) div Second"

definition UnixNano :: "time \<Rightarrow> int" where "UnixNano t = wrap64 (t - unix_epoch)"

definition handleMessage :: "(string \<Rightarrow> bool) \<Rightarrow> time \<Rightarrow> Worker \<Rightarrow> Message \<Rightarrow> Worker res" where
  "handleMessage lookPath now w msg =
     (case msg of
        Propose m \<Rightarrow> handlePropose lookPath w m
      | Dispatch m \<Rightarrow> handleDispatch w m
      | Heartbeat h \<Rightarrow> Inr (w\<lparr>w_lastHeartbeatAck := UnixNano now\<rparr>)
      | System c \<Rightarrow> handleSystem w c
      | Cancel j \<Rightarrow> Inr (handleCancel w j)
      | _ \<Rightarrow> sendError w ''unhandled_message'' (''message of type '' @ message_type msg @ '' is not handled''))"

section \<open>Logs\<close>

definition log_header :: "string \<Rightarrow> string \<Rightarrow> string" where
  "log_header jobID runID = ''log --job-id='' @ jobID @ '' --run-id='' @ runID"

text \<open>
  The writer that forwards complete lines: it sends what is before a line end and goes on with the rest.
  The worker is threaded through because every line is written to its connection.
\<close>

function write_lines :: "Worker \<Rightarrow> string \<Rightarrow> bytes \<Rightarrow> (bytes \<times> Worker) res" where
  "write_lines w header buf =
     (if nl \<notin> set buf then Inr (buf, w)
      else and_then (emitp w header (takeWhile (\<lambda>c. c \<noteq> nl) buf))
             (\<lambda>w1. write_lines w1 header (tl (dropWhile (\<lambda>c. c \<noteq> nl) buf))))"
  by pat_completeness auto

termination
proof (relation "measure (\<lambda>(w, h, buf). length buf)")
  fix w header buf and w1 :: Worker
  assume "\<not> nl \<notin> set buf"
  then have "0 < length buf" by auto
  moreover have "length (dropWhile (\<lambda>c. c \<noteq> nl) buf) \<le> length buf" by (rule length_dropWhile_le)
  ultimately show "((w1, header, tl (dropWhile (\<lambda>c. c \<noteq> nl) buf)), w, header, buf) \<in> measure (\<lambda>(w, h, buf). length buf)"
    unfolding in_measure prod.case length_tl by linarith
qed simp

declare write_lines.simps [simp del]

definition log_Write :: "string \<Rightarrow> bytes \<times> Worker \<Rightarrow> bytes \<Rightarrow> (bytes \<times> Worker) res" where
  "log_Write header = (\<lambda>(buf, w) p. write_lines w header (buf @ p))"

fun log_Write_all :: "string \<Rightarrow> bytes \<times> Worker \<Rightarrow> bytes list \<Rightarrow> (bytes \<times> Worker) res" where
  "log_Write_all header l [] = Inr l"
| "log_Write_all header l (p # ps) = and_then (log_Write header l p) (\<lambda>l1. log_Write_all header l1 ps)"

section \<open>Running a job\<close>

definition trim_chars :: "char set \<Rightarrow> string \<Rightarrow> string" where
  "trim_chars cs s = rev (dropWhile (\<lambda>c. c \<in> cs) (rev (dropWhile (\<lambda>c. c \<in> cs) s)))"

definition html_escape_char :: "char \<Rightarrow> string" where
  "html_escape_char c =
     (if c = CHR ''&'' then ''&amp;'' else if c = squote then ''&#39;'' else if c = CHR ''<'' then ''&lt;''
      else if c = CHR ''>'' then ''&gt;'' else if c = CHR 0x22 then ''&#34;'' else [c])"

definition sanitize :: "string \<Rightarrow> string" where
  "sanitize s = concat (map html_escape_char (trim_chars {nl, CHR 0x0D, CHR 0x09} (filter (\<lambda>c. c \<noteq> squote) s)))"

text \<open>The frames around a log, drawn with the box characters of Unicode in UTF-8.\<close>

definition box_edge :: "char \<Rightarrow> string" where
  "box_edge corner = [CHR 0xE2, CHR 0x94, corner] @ concat (replicate 56 [CHR 0xE2, CHR 0x94, CHR 0x80]) @ [nl]"

definition box_row :: "string \<Rightarrow> string" where
  "box_row s = [CHR 0xE2, CHR 0x94, CHR 0x82] @ ''  '' @ s @ [nl]"

definition log_banner :: "ProposeMessage \<Rightarrow> DispatchMessage \<Rightarrow> string \<Rightarrow> string \<Rightarrow> bytes" where
  "log_banner p d clock workerID =
     [nl] @ box_edge (CHR 0x8C) @ box_row (pmTask p) @ box_row (''phase:   '' @ dmPhase d)
     @ box_row (''attempt: '' @ Itoa (dmAttempt d)) @ box_row (''job:     '' @ dmJobID d) @ box_row (''run:     '' @ dmRunID d)
     @ box_row (''time:    '' @ clock) @ box_row (''worker:  '' @ workerID) @ box_edge (CHR 0x94)"

definition log_footer :: "string \<Rightarrow> string \<Rightarrow> duration \<Rightarrow> bytes \<Rightarrow> bytes" where
  "log_footer status clock dur body =
     [nl, nl, nl] @ box_edge (CHR 0x8C) @ box_row (''status:   '' @ status) @ box_row (''time:     '' @ clock)
     @ box_row (''duration: '' @ Duration_String dur) @ box_edge (CHR 0x94) @ [nl] @ body @ [nl]"

definition releaseTask :: "Worker \<Rightarrow> string \<Rightarrow> Worker res" where
  "releaseTask w jobID =
     (let w1 = (case map_of (w_tasks w) jobID of
                  None \<Rightarrow> w
                | Some t \<Rightarrow> w\<lparr>w_usedCap := wrap64 (w_usedCap w - tk_cost t), w_tasks := AList.delete jobID (w_tasks w)\<rparr>)
      in if (w_state w1 = WorkerStateDraining \<or> w_state w1 = WorkerStateShuttingDown) \<and> w_tasks w1 = []
         then close_conn (w1\<lparr>w_state := WorkerStateShuttingDown\<rparr>)
         else Inr w1)"

text \<open>What the surroundings of a job contribute: the download, the disk, the clocks, the environment, the process.\<close>

record job_env =
  je_sha :: "bytes \<Rightarrow> string"
  je_download :: download
  je_lookedUp :: time
  je_obtained :: time
  je_mkdir :: "error option"
  je_startClock :: string
  je_getenv :: "string \<Rightarrow> string"
  je_environ :: "string list"
  je_setup :: run_setup
  je_exec :: "command \<Rightarrow> process"
  je_endClock :: string
  je_duration :: duration

definition result_header :: "DispatchMessage \<Rightarrow> string \<Rightarrow> string" where
  "result_header d kind = ''result --job-id='' @ dmJobID d @ '' --run-id='' @ dmRunID d @ '' --type='' @ kind"

definition make_task :: "Worker \<Rightarrow> job_env \<Rightarrow> ProposeMessage \<Rightarrow> DispatchMessage \<Rightarrow> string \<Rightarrow> taskExec" where
  "make_task w env p d binaryPath =
     \<lparr>te_JobID = dmJobID d, te_TaskName = pmTask p, te_ParentJobID = pmParentJobID p, te_Phase = dmPhase d,
      te_Attempt = dmAttempt d, te_BinaryPath = binaryPath, te_Payload = dmPayload d,
      te_Limits = \<lparr>rl_MaxExecutionTime = dmMaxExecTime d, rl_MaxMemoryBytes = dmMaxMemoryBytes d, rl_MaxCPUCores = dmMaxCPUCores d\<rparr>,
      te_Proc = \<lparr>pc_RootDir = artifact_path (wf_TmpStorageDir (w_cfg w)) (dmJobID d),
                 pc_Env = SystemEnv (je_getenv env) @ EnvWithPrefix (je_environ env) (wf_InheritableENVPrefix (w_cfg w))\<rparr>,
      te_NoResult = pmNoResult p\<rparr>"

text \<open>
  \<open>runJob\<close> up to the start of the binary: the task to run, or nothing when the job ended early. The
  deferred release of the task happens on every way out.
\<close>

definition runJob_start :: "job_env \<Rightarrow> Worker \<Rightarrow> ProposeMessage \<Rightarrow> DispatchMessage \<Rightarrow> (taskExec option \<times> Worker) res" where
  "runJob_start env w p d =
     (let (r, cache) = Fetch (je_sha env) (w_artifactCache w) (pmArtifactHash p) (je_download env) (je_lookedUp env) (je_obtained env);
          w1 = w\<lparr>w_artifactCache := cache\<rparr>;
          ended = (\<lambda>w. and_then (releaseTask w (dmJobID d)) (\<lambda>w'. Inr (None, w')))
      in case r of
           Inl e \<Rightarrow> and_then (emit w1 (''result --job-id='' @ dmJobID d @ '' --type=error --reason='' @ [squote] @ sanitize (error_text e) @ [squote])) ended
         | Inr binaryPath \<Rightarrow>
             and_then (emit w1 (''starting --job-id='' @ dmJobID d @ '' --run-id='' @ dmRunID d)) (\<lambda>w2.
             case je_mkdir env of
               Some e \<Rightarrow> and_then (emit w2 (result_header d ''error'' @ '' --reason='' @ [squote] @ sanitize (error_text e) @ [squote])) ended
             | None \<Rightarrow>
                 and_then (emitp w2 (log_header (dmJobID d) (dmRunID d)) (log_banner p d (je_startClock env) (wf_WorkerID (w_cfg w2)))) (\<lambda>w3.
                   Inr (Some (make_task w3 env p d binaryPath), w3))))"

text \<open>\<open>runJob\<close> from the run of the binary on: its output goes to the log, then a footer and the result.\<close>

definition report :: "job_env \<Rightarrow> Worker \<Rightarrow> DispatchMessage \<Rightarrow> task_error + task_output \<Rightarrow> Worker res" where
  "report env w d r =
     (let foot = (\<lambda>status body. emitp w (log_header (dmJobID d) (dmRunID d)) (log_footer status (je_endClock env) (je_duration env) body));
          dur = '' --duration='' @ Duration_String (je_duration env)
      in case r of
           Inl e \<Rightarrow>
             (let (code, reason0, isExit) = IsExitError e; reason = (if isExit then reason0 else task_error_text e)
              in and_then (foot ''failed'' reason) (\<lambda>w1.
                   emitp w1 (result_header d ''error'' @ '' --exit-code='' @ Itoa code @ dur) reason))
         | Inr out \<Rightarrow>
             (if to_childJobs out \<noteq> []
              then and_then (foot ''success'' (to_childJobs out)) (\<lambda>w1. emitp w1 (result_header d ''subjobs'' @ dur) (to_childJobs out))
              else and_then (foot ''success'' (to_result out)) (\<lambda>w1. emitp w1 (result_header d ''result'' @ dur) (to_result out))))"

definition runJob_end :: "job_env \<Rightarrow> Worker \<Rightarrow> DispatchMessage \<Rightarrow> taskExec \<Rightarrow> Worker res" where
  "runJob_end env w d t =
     (let (chunks, r) = RunTask (je_exec env) (wf_TmpStorageDir (w_cfg w)) (je_setup env) t
      in and_then (log_Write_all (log_header (dmJobID d) (dmRunID d)) ([], w) chunks) (\<lambda>(buf, w1).
         and_then (report env w1 d r) (\<lambda>w2. releaseTask w2 (dmJobID d))))"

definition runJob :: "job_env \<Rightarrow> Worker \<Rightarrow> ProposeMessage \<Rightarrow> DispatchMessage \<Rightarrow> Worker res" where
  "runJob env w p d =
     and_then (runJob_start env w p d) (\<lambda>(t, w1). case t of None \<Rightarrow> Inr w1 | Some t \<Rightarrow> runJob_end env w1 d t)"

section \<open>The connection\<close>

definition ErrShutdownAll :: error where "ErrShutdownAll = Sentinel ''shutdown all''"
definition ErrRetryLimitExceeded :: error where "ErrRetryLimitExceeded = Sentinel ''retry limit exceeded''"

definition HeartbeatRoutine :: "Worker \<Rightarrow> time \<Rightarrow> (error option \<times> Worker) res" where
  "HeartbeatRoutine w now =
     (if w_conn w = NilConn then Inr (None, w)
      else
        let delta = wrap64 (Unix now - w_lastHeartbeatAck w); lim = wf_ResourceLimits (w_cfg w)
        in if go_trunc (seconds (wf_HeartbeatTimeout (w_cfg w))) < delta
           then and_then (close_conn w) (\<lambda>w1. Inr (Some ErrShutdownAll, w1))
           else
             let metrics = sampler_snapshot (w_metricsSampler w);
                 w1 = (if w_state w = WorkerStateOnline \<or> w_state w = WorkerStatePressure
                       then w\<lparr>w_state := (if IsOverLimit metrics (rl_MaxCPUPercent lim) (rl_MaxMemPercent lim) then WorkerStatePressure
                                           else WorkerStateOnline)\<rparr>
                       else w)
             in and_then (worker_send w1 (''heartbeat --cpu='' @ format2 (smCPUPercent metrics) @ '' --mem='' @ format2 (smMemPercent metrics)
                                           @ '' --state='' @ Itoa (w_state w1))) (\<lambda>(err, w2).
                case err of
                  Some e \<Rightarrow>
                    (let n = w_heartbeatSendFailureCount w2 + 1; w3 = w2\<lparr>w_heartbeatSendFailureCount := n\<rparr>
                     in and_then (if 3 \<le> n then close_conn w3 else Inr w3) (\<lambda>w4. Inr (Some e, w4)))
                | None \<Rightarrow> Inr (None, (if 0 < w_heartbeatSendFailureCount w2
                                     then w2\<lparr>w_heartbeatSendFailureCount := w_heartbeatSendFailureCount w2 - 1\<rparr> else w2))))"

text \<open>\<open>ConnectAndWork\<close>: the reset and the dial, the handling of one frame, and the way out.\<close>

definition connect_headers :: "worker_Config \<Rightarrow> string \<Rightarrow> string \<Rightarrow> string \<Rightarrow> (string \<times> string) list" where
  "connect_headers cfg workerKey os arch =
     [(''X-Workforce-Key'', workerKey), (''X-Worker-ID'', wf_WorkerID cfg), (''X-Worker-Capacity'', Itoa (wf_Capacity cfg)),
      (''X-Worker-OS'', os), (''X-Worker-Arch'', arch)]
     @ (if wf_AuthToken cfg = [] then [] else [(''Authorization'', ''Bearer '' @ wf_AuthToken cfg)])"

definition reset_connection :: "Worker \<Rightarrow> Worker" where
  "reset_connection w =
     w\<lparr>w_state := WorkerStateOffline, w_done := False, w_tasks := [], w_pendingJobs := [], w_usedCap := 0\<rparr>"

definition connect :: "Worker \<Rightarrow> error option \<Rightarrow> error option \<Rightarrow> time \<Rightarrow> error option \<times> Worker" where
  "connect w req dial now =
     (let w1 = reset_connection w
      in case req of
           Some e \<Rightarrow> (Some (Errorf (''failed to build connection request: '' @ error_text e)), w1)
         | None \<Rightarrow>
             (case dial of
                Some e \<Rightarrow> (Some (Errorf (''failed to connect to manager: '' @ error_text e)), w1\<lparr>w_conn := NilConn\<rparr>)
              | None \<Rightarrow> (None, w1\<lparr>w_conn := OpenConn, w_lastHeartbeatAck := UnixNano now, w_state := WorkerStateOnline\<rparr>)))"

definition receive :: "(string \<Rightarrow> bool) \<Rightarrow> time \<Rightarrow> Worker \<Rightarrow> netargv_Message \<Rightarrow> Worker res" where
  "receive lookPath now w frame =
     (case map_of RegisterMessages (nm_Verb frame) of
        None \<Rightarrow> sendError w ''unknown_verb'' (''unknown message verb: '' @ nm_Verb frame)
      | Some factory \<Rightarrow>
          (case factory frame of
             Inl e \<Rightarrow> sendError w ''invalid_message'' (error_text e)
           | Inr msg \<Rightarrow> handleMessage lookPath now w msg))"

datatype stream_end = StreamEOF | StreamError error

definition disconnect :: "Worker \<Rightarrow> stream_end \<Rightarrow> error option \<times> Worker" where
  "disconnect w se =
     (case se of StreamEOF \<Rightarrow> None | StreamError e \<Rightarrow> Some (Errorf (''failed to read message from stream: '' @ error_text e)),
      w\<lparr>w_conn := NilConn\<rparr>)"

text \<open>What the routine around it returns to the service group; the last branch is the one marked unreachable.\<close>

definition ConnectAndWorkRoutine :: "Worker \<Rightarrow> error option \<Rightarrow> error option \<Rightarrow> error list res" where
  "ConnectAndWorkRoutine w err ctxErr =
     (case err of
        Some e \<Rightarrow> Inr (if w_state w = WorkerStateShuttingDown \<or> e = ErrRetryLimitExceeded then [ErrShutdownAll, e] else [e])
      | None \<Rightarrow>
          (if w_state w = WorkerStateShuttingDown \<or> ctxErr \<noteq> None then Inr [ErrShutdownAll]
           else Inl (Panic ''invalid memory address or nil pointer dereference'')))"

end
