(* ===== verification/Worker_Safety.thy ===== *)
theory Worker_Safety
  imports Worker_Node
begin

text \<open>
  What the worker daemon guarantees: it never runs more than its capacity while it is connected, its log
  lines do not depend on how the binary writes them, and what goes wrong when the connection is lost, when
  the manager falls silent and when it is told to stop.
\<close>

section \<open>Writing changes nothing but what was written\<close>

definition only_sent :: "Worker \<Rightarrow> Worker \<Rightarrow> bool" where
  "only_sent w w' \<longleftrightarrow> (\<exists>s. w' = w\<lparr>w_sent := s\<rparr>)"

lemma only_sent_refl [simp]: "only_sent w w"
  unfolding only_sent_def by (rule exI [of _ "w_sent w"]) simp

lemma only_sent_sent [simp]: "only_sent w (w\<lparr>w_sent := s\<rparr>)"
  by (auto simp: only_sent_def)

lemma only_sent_trans: "only_sent w w' \<Longrightarrow> only_sent w' w'' \<Longrightarrow> only_sent w w''"
  by (auto simp: only_sent_def)

lemma only_sent_fields:
  assumes "only_sent w w'"
  shows "w_cfg w' = w_cfg w" "w_conn w' = w_conn w" "w_state w' = w_state w" "w_tasks w' = w_tasks w"
    "w_pendingJobs w' = w_pendingJobs w" "w_usedCap w' = w_usedCap w" "w_routines w' = w_routines w" "w_done w' = w_done w"
    "w_depCache w' = w_depCache w" "w_artifactCache w' = w_artifactCache w"
  using assms by (auto simp: only_sent_def)

lemma write_conn_cases:
  "write_conn w x = (if w_conn w = NilConn then Inl (Panic ''invalid memory address or nil pointer dereference'')
     else if w_conn w = ClosedConn then Inr (Some (Errorf ''use of closed network connection''), w)
     else Inr (None, w\<lparr>w_sent := w_sent w @ [x]\<rparr>))"
  by (cases "w_conn w") (simp_all add: write_conn_def)

lemma emit_only_sent: "emit w l = Inr w' \<Longrightarrow> only_sent w w'"
  unfolding worker_send_def ignore_err_def write_conn_cases by (auto split: if_splits)

lemma emitp_only_sent: "emitp w h b = Inr w' \<Longrightarrow> only_sent w w'"
  unfolding sendWithPayload_def ignore_err_def write_conn_cases by (auto split: if_splits)

lemma emit_nil: "w_conn w = NilConn \<Longrightarrow> emit w l = Inl (Panic ''invalid memory address or nil pointer dereference'')"
  by (simp add: worker_send_def ignore_err_def write_conn_def)

lemma emitp_nil: "w_conn w = NilConn \<Longrightarrow> emitp w h b = Inl (Panic ''invalid memory address or nil pointer dereference'')"
  by (simp add: sendWithPayload_def ignore_err_def write_conn_def)

lemma emit_open: "w_conn w = OpenConn \<Longrightarrow> emit w l = Inr (w\<lparr>w_sent := w_sent w @ [Line l]\<rparr>)"
  by (simp add: worker_send_def ignore_err_def write_conn_def)

lemma emitp_open:
  "w_conn w = OpenConn \<Longrightarrow>
   emitp w h b = Inr (w\<lparr>w_sent := w_sent w @ [WithPayload (h @ '' -- '' @ Itoa (int (length b))) b]\<rparr>)"
  by (simp add: sendWithPayload_def ignore_err_def write_conn_def)

lemma sendError_only_sent: "sendError w c m = Inr w' \<Longrightarrow> only_sent w w'"
  by (simp add: sendError_def Let_def emit_only_sent)

section \<open>Log lines\<close>

definition log_frames :: "string \<Rightarrow> bytes list \<Rightarrow> sent list" where
  "log_frames h ls = map (\<lambda>l. WithPayload (h @ '' -- '' @ Itoa (int (length l))) l) ls"

lemma write_lines_open:
  "w_conn w = OpenConn \<Longrightarrow> write_lines w h buf = Inr (tail_of buf, w\<lparr>w_sent := w_sent w @ log_frames h (lines_of buf)\<rparr>)"
proof (induction "length buf" arbitrary: w buf rule: less_induct)
  case less
  show ?case
  proof (cases "nl \<in> set buf")
    case False
    then show ?thesis
      by (simp add: write_lines.simps [of w h buf] lines_of.simps [of buf] tail_of_plain log_frames_def)
  next
    case True
    let ?x = "takeWhile (\<lambda>c. c \<noteq> nl) buf" and ?r = "tl (dropWhile (\<lambda>c. c \<noteq> nl) buf)"
    have "0 < length buf" using True by auto
    then have len: "length ?r < length buf"
      unfolding length_tl using length_dropWhile_le [of "\<lambda>c. c \<noteq> nl" buf] by linarith
    have tl: "tail_of ?r = tail_of buf" using tail_of_split [of ?x ?r] split_nl [OF True] by metis
    let ?w = "w\<lparr>w_sent := w_sent w @ [WithPayload (h @ '' -- '' @ Itoa (int (length ?x))) ?x]\<rparr>"
    have "write_lines w h buf = write_lines ?w h ?r"
      using True less.prems by (subst write_lines.simps) (simp add: emitp_open)
    also have "\<dots> = Inr (tail_of buf, ?w\<lparr>w_sent := w_sent ?w @ log_frames h (lines_of ?r)\<rparr>)"
      using less.hyps [OF len, of ?w] less.prems tl by simp
    finally show ?thesis using True by (subst lines_of.simps) (simp add: log_frames_def)
  qed
qed

lemma log_Write_all_open:
  "w_conn w = OpenConn \<Longrightarrow> nl \<notin> set buf \<Longrightarrow>
   log_Write_all h (buf, w) ps =
     Inr (tail_of (buf @ concat ps), w\<lparr>w_sent := w_sent w @ log_frames h (lines_of (buf @ concat ps))\<rparr>)"
proof (induction ps arbitrary: buf w)
  case Nil
  then show ?case by (simp add: tail_of_plain lines_of.simps [of buf] log_frames_def)
next
  case (Cons p ps)
  let ?w = "w\<lparr>w_sent := w_sent w @ log_frames h (lines_of (buf @ p))\<rparr>"
  have "log_Write_all h (buf, w) (p # ps) = log_Write_all h (tail_of (buf @ p), ?w) ps"
    using write_lines_open [OF Cons.prems(1)] by (simp add: log_Write_def)
  also have "\<dots> = Inr (tail_of (tail_of (buf @ p) @ concat ps),
      ?w\<lparr>w_sent := w_sent ?w @ log_frames h (lines_of (tail_of (buf @ p) @ concat ps))\<rparr>)"
    using Cons.IH [of ?w "tail_of (buf @ p)"] Cons.prems(1) tail_of_no_nl by simp
  finally show ?case
    using lines_of_append [of "buf @ p" "concat ps"] tail_of_append [of "buf @ p" "concat ps"] by (simp add: log_frames_def)
qed

lemma lines_of_join: "concat (map (\<lambda>l. l @ [nl]) (lines_of buf)) @ tail_of buf = buf"
proof (induction buf rule: lines_of.induct)
  case (1 buf)
  show ?case
  proof (cases "nl \<in> set buf")
    case False
    then show ?thesis by (simp add: lines_of.simps [of buf] tail_of_plain)
  next
    case True
    let ?x = "takeWhile (\<lambda>c. c \<noteq> nl) buf" and ?r = "tl (dropWhile (\<lambda>c. c \<noteq> nl) buf)"
    have b: "buf = ?x @ nl # ?r" using split_nl [OF True] .
    have "tail_of buf = tail_of ?r" using tail_of_split [of ?x ?r] b by metis
    moreover have "lines_of buf = ?x # lines_of ?r" using True by (subst lines_of.simps) simp
    ultimately have "concat (map (\<lambda>l. l @ [nl]) (lines_of buf)) @ tail_of buf = ?x @ nl # ?r" using 1 True by simp
    then show ?thesis using b by metis
  qed
qed

lemma report_open:
  assumes "w_conn w = OpenConn"
  shows "\<exists>foot h b. report env w d r = Inr (w\<lparr>w_sent := w_sent w @ [WithPayload (log_header (dmJobID d) (dmRunID d) @ '' -- '' @ Itoa (int (length foot))) foot,
                                   WithPayload (h @ '' -- '' @ Itoa (int (length b))) b]\<rparr>) \<and>
     (let dur = '' --duration='' @ Duration_String (je_duration env)
      in case r of
           Inl (exitError c why) \<Rightarrow> h = result_header d ''error'' @ '' --exit-code='' @ Itoa c @ dur \<and> b = why
         | Inl (runnerError why) \<Rightarrow> h = result_header d ''error'' @ '' --exit-code=0'' @ dur \<and> b = why
         | Inr out \<Rightarrow> (if to_childJobs out = [] then h = result_header d ''result'' @ dur \<and> b = to_result out
                       else h = result_header d ''subjobs'' @ dur \<and> b = to_childJobs out))"
proof -
  have z: "Itoa 0 = ''0''" by code_simp
  let ?foot = "\<lambda>status body. log_footer status (je_endClock env) (je_duration env) body"
  let ?dur = "'' --duration='' @ Duration_String (je_duration env)"
  note open_simps = report_def IsExitError_def emitp_open assms task_error_text_def z Let_def
  show ?thesis
  proof (cases r)
    case (Inl e)
    show ?thesis
    proof (cases e)
      case (exitError c why)
      show ?thesis
        by (rule exI [of _ "?foot ''failed'' why"], rule exI [of _ "result_header d ''error'' @ '' --exit-code='' @ Itoa c @ ?dur"], rule exI [of _ why])
          (simp add: Inl exitError open_simps)
    next
      case (runnerError why)
      show ?thesis
        by (rule exI [of _ "?foot ''failed'' why"], rule exI [of _ "result_header d ''error'' @ '' --exit-code=0'' @ ?dur"], rule exI [of _ why])
          (simp add: Inl runnerError open_simps)
    qed
  next
    case (Inr out)
    let ?b = "if to_childJobs out = [] then to_result out else to_childJobs out"
    let ?k = "if to_childJobs out = [] then ''result'' else ''subjobs''"
    show ?thesis
      by (rule exI [of _ "?foot ''success'' ?b"], rule exI [of _ "result_header d ?k @ ?dur"], rule exI [of _ ?b])
        (simp add: Inr open_simps)
  qed
qed

lemma releaseTask_sent: "releaseTask w j = Inr w' \<Longrightarrow> w_sent w' = w_sent w"
  by (auto simp: releaseTask_def Let_def close_conn_def split: option.splits if_splits)


section \<open>A session\<close>

text \<open>
  What happens between two connects: frames are handled, goroutines of jobs start and finish their
  binaries, heartbeats are sent. The manager proposes a job only while the worker does not have it, with a
  cost that is not negative and does not overflow.
\<close>

definition known_job :: "Worker \<Rightarrow> string \<Rightarrow> bool" where
  "known_job w j \<longleftrightarrow> map_of (w_pendingJobs w) j \<noteq> None \<or> map_of (w_tasks w) j \<noteq> None"

definition fair_message :: "Worker \<Rightarrow> Message \<Rightarrow> bool" where
  "fair_message w msg \<longleftrightarrow>
     (case msg of Propose m \<Rightarrow> \<not> known_job w (pmJobID m) \<and> 0 \<le> pmCost m \<and> in_int64 (wf_Capacity (w_cfg w) + pmCost m)
      | _ \<Rightarrow> True)"

inductive session_step :: "Worker \<Rightarrow> Worker \<Rightarrow> bool" where
  message: "handleMessage lookPath now w msg = Inr w' \<Longrightarrow> fair_message w msg \<Longrightarrow> session_step w w'"
| bad_frame: "sendError w code text = Inr w' \<Longrightarrow> session_step w w'"
| begin_job: "w_routines w = pre @ Fetching p d # post \<Longrightarrow> runJob_start env w p d = Inr (None, w') \<Longrightarrow>
    session_step w (w'\<lparr>w_routines := pre @ post\<rparr>)"
| start_job: "w_routines w = pre @ Fetching p d # post \<Longrightarrow> runJob_start env w p d = Inr (Some t, w') \<Longrightarrow>
    session_step w (w'\<lparr>w_routines := pre @ Executing p d t # post\<rparr>)"
| finish_job: "w_routines w = pre @ Executing p d t # post \<Longrightarrow> runJob_end env w d t = Inr w' \<Longrightarrow>
    session_step w (w'\<lparr>w_routines := pre @ post\<rparr>)"
| heartbeat: "HeartbeatRoutine w now = Inr (err, w') \<Longrightarrow> session_step w w'"
| sample: "session_step w (w\<lparr>w_metricsSampler := snd (sample_round (w_metricsSampler w) now cs v)\<rparr>)"

abbreviation session :: "Worker \<Rightarrow> Worker \<Rightarrow> bool" where
  "session \<equiv> session_step\<^sup>*\<^sup>*"

text \<open>The job of a goroutine with its cost.\<close>

fun routine_job :: "job_routine \<Rightarrow> string \<times> int" where
  "routine_job (Fetching p d) = (dmJobID d, pmCost p)"
| "routine_job (Executing p d t) = (dmJobID d, pmCost p)"

definition running_load :: "Worker \<Rightarrow> int" where
  "running_load w = sum_list (map (snd \<circ> routine_job) (w_routines w))"

definition pending_load :: "Worker \<Rightarrow> int" where
  "pending_load w = sum_list (map (pmCost \<circ> snd) (w_pendingJobs w))"

definition session_inv :: "Worker \<Rightarrow> bool" where
  "session_inv w \<longleftrightarrow>
     keys_distinct (w_pendingJobs w) \<and> keys_distinct (w_tasks w) \<and>
     (\<forall>j. map_of (w_pendingJobs w) j = None \<or> map_of (w_tasks w) j = None) \<and>
     mset (map (\<lambda>(j, t). (j, tk_cost t)) (w_tasks w)) = mset (map routine_job (w_routines w)) \<and>
     (\<forall>x \<in> set (w_pendingJobs w). 0 \<le> pmCost (snd x)) \<and> (\<forall>r \<in> set (w_routines w). 0 \<le> snd (routine_job r)) \<and>
     w_usedCap w = running_load w + pending_load w \<and> w_usedCap w \<le> wf_Capacity (w_cfg w) \<and> in_int64 (wf_Capacity (w_cfg w))"

lemma session_inv_cong:
  assumes "session_inv w" "w_cfg w' = w_cfg w" "w_pendingJobs w' = w_pendingJobs w" "w_tasks w' = w_tasks w"
    "w_usedCap w' = w_usedCap w" "w_routines w' = w_routines w"
  shows "session_inv w'"
  using assms by (simp add: session_inv_def running_load_def pending_load_def)

lemma session_inv_sent: "only_sent w w' \<Longrightarrow> session_inv w \<Longrightarrow> session_inv w'"
  by (rule session_inv_cong) (simp_all add: only_sent_fields)

lemma loads_nonneg: "session_inv w \<Longrightarrow> 0 \<le> running_load w" "session_inv w \<Longrightarrow> 0 \<le> pending_load w"
  by (auto simp: session_inv_def running_load_def pending_load_def intro!: sum_list_nonneg)

lemma checkDeps_fields:
  assumes "checkDeps lp w ds = (m, w')"
  shows "w_cfg w' = w_cfg w" "w_pendingJobs w' = w_pendingJobs w" "w_tasks w' = w_tasks w" "w_usedCap w' = w_usedCap w"
    "w_routines w' = w_routines w" "w_state w' = w_state w" "w_conn w' = w_conn w"
  using assms by (auto simp: checkDeps_def split: prod.splits)

lemma handlePropose_cases:
  assumes "handlePropose lp w msg = Inr w'"
  obtains "w_cfg w' = w_cfg w" "w_pendingJobs w' = w_pendingJobs w" "w_tasks w' = w_tasks w" "w_usedCap w' = w_usedCap w"
      "w_routines w' = w_routines w" "w_state w' = w_state w" "w_conn w' = w_conn w"
  | "w_state w = WorkerStateOnline" "wrap64 (w_usedCap w + pmCost msg) \<le> wf_Capacity (w_cfg w)"
      "w_cfg w' = w_cfg w" "w_pendingJobs w' = AList.update (pmJobID msg) msg (w_pendingJobs w)" "w_tasks w' = w_tasks w"
      "w_usedCap w' = wrap64 (w_usedCap w + pmCost msg)" "w_routines w' = w_routines w" "w_state w' = w_state w" "w_conn w' = w_conn w"
proof -
  obtain m w1 where cd: "checkDeps lp w (pmArtifactDeps msg) = (m, w1)" by fastforce
  note c = checkDeps_fields [OF cd]
  let ?acc = "w1\<lparr>w_usedCap := wrap64 (w_usedCap w1 + pmCost msg), w_pendingJobs := AList.update (pmJobID msg) msg (w_pendingJobs w1)\<rparr>"
  have "(\<exists>l. emit w l = Inr w') \<or> (\<exists>l. emit w1 l = Inr w') \<or>
      (w_state w = WorkerStateOnline \<and> wrap64 (w_usedCap w1 + pmCost msg) \<le> wf_Capacity (w_cfg w1) \<and> (\<exists>l. emit ?acc l = Inr w'))"
    using assms by (auto simp: handlePropose_def Let_def cd split: if_splits)
  then consider l where "emit w l = Inr w'" | l where "emit w1 l = Inr w'"
    | l where "w_state w = WorkerStateOnline" "wrap64 (w_usedCap w1 + pmCost msg) \<le> wf_Capacity (w_cfg w1)" "emit ?acc l = Inr w'"
    by blast
  then show ?thesis
  proof cases
    case 1
    then show ?thesis using that(1) only_sent_fields [OF emit_only_sent [OF 1]] by simp
  next
    case 2
    then show ?thesis using that(1) only_sent_fields [OF emit_only_sent [OF 2]] c by simp
  next
    case 3
    then show ?thesis using that(2) only_sent_fields [OF emit_only_sent [OF 3(3)]] c by simp
  qed
qed

lemma propose_inv:
  assumes "session_inv w" "handlePropose lp w msg = Inr w'" "fair_message w (Propose msg)"
  shows "session_inv w'"
  using assms(2)
proof (cases rule: handlePropose_cases)
  case 1
  then show ?thesis using session_inv_cong [OF assms(1)] by blast
next
  case 2
  have new: "map_of (w_pendingJobs w) (pmJobID msg) = None" "map_of (w_tasks w) (pmJobID msg) = None"
    and cost: "0 \<le> pmCost msg" "in_int64 (wf_Capacity (w_cfg w) + pmCost msg)"
    using assms(3) by (simp_all add: fair_message_def known_job_def)
  have used: "0 \<le> w_usedCap w" "w_usedCap w \<le> wf_Capacity (w_cfg w)"
    using assms(1) loads_nonneg [OF assms(1)] by (simp_all add: session_inv_def)
  have "in_int64 (w_usedCap w + pmCost msg)"
    by (rule in_int64_between [OF in_int64_0 cost(2)]) (use used cost in simp_all)
  then have sum: "w_usedCap w' = w_usedCap w + pmCost msg" "w_usedCap w + pmCost msg \<le> wf_Capacity (w_cfg w)"
    using 2(2,6) by simp_all
  have "pending_load w' = pending_load w + pmCost msg"
    unfolding pending_load_def 2(4) using sum_update_new [OF new(1), of pmCost msg] .
  moreover have "running_load w' = running_load w" by (simp add: running_load_def 2(7))
  moreover have "\<forall>x \<in> set (AList.update (pmJobID msg) msg (w_pendingJobs w)). 0 \<le> pmCost (snd x)"
    using assms(1) cost(1) by (simp add: session_inv_def set_update_new [OF new(1)])
  ultimately show ?thesis
    using assms(1) new sum unfolding session_inv_def 2(3,4,5,7) sum(1) by auto
qed

lemma dispatch_inv:
  assumes "session_inv w" "handleDispatch w msg = Inr w'"
  shows "session_inv w'"
proof (cases "map_of (w_pendingJobs w) (dmJobID msg)")
  case None
  then show ?thesis using assms session_inv_sent [OF sendError_only_sent] by (simp add: handleDispatch_def)
next
  case (Some p)
  let ?j = "dmJobID msg"
  let ?t = "\<lparr>tk_cancelled = False, tk_cost = pmCost p, tk_runID = dmRunID msg\<rparr>"
  let ?w = "w\<lparr>w_pendingJobs := AList.delete ?j (w_pendingJobs w), w_tasks := AList.update ?j ?t (w_tasks w)\<rparr>"
  from assms(2) Some obtain w1 where w1: "only_sent ?w w1" "w' = w1\<lparr>w_routines := w_routines w1 @ [Fetching p msg]\<rparr>"
    by (auto simp: handleDispatch_def and_then_Inr_iff dest: emit_only_sent)
  note f = only_sent_fields [OF w1(1)]
  have kd: "keys_distinct (w_pendingJobs w)" "map_of (w_tasks w) ?j = None"
    using assms(1) Some by (auto simp: session_inv_def dest: spec [of _ ?j])
  then have new: "?j \<notin> fst ` set (w_tasks w)" by (simp add: map_of_eq_None_iff)
  have fields: "w_cfg w' = w_cfg w" "w_pendingJobs w' = AList.delete ?j (w_pendingJobs w)" "w_tasks w' = AList.update ?j ?t (w_tasks w)"
    "w_usedCap w' = w_usedCap w" "w_routines w' = w_routines w @ [Fetching p msg]"
    using f w1(2) by simp_all
  have "pending_load w' = pending_load w - pmCost p"
    unfolding pending_load_def fields using sum_delete [OF kd(1) Some, of pmCost] .
  moreover have "running_load w' = running_load w + pmCost p" by (simp add: running_load_def fields)
  moreover have "0 \<le> pmCost p" using assms(1) map_of_SomeD [OF Some] by (force simp: session_inv_def)
  moreover have "set (AList.delete ?j (w_pendingJobs w)) \<subseteq> set (w_pendingJobs w)" by (auto simp: AList.delete_eq)
  ultimately show ?thesis
    using assms(1) kd new unfolding session_inv_def fields by (auto simp: mset_update_new subset_iff)
qed

lemma handleMessage_inv:
  assumes "session_inv w" "handleMessage lp now w msg = Inr w'" "fair_message w msg"
  shows "session_inv w'"
proof (cases msg)
  case (Propose m)
  then show ?thesis using assms propose_inv [OF assms(1)] by (simp add: handleMessage_def)
next
  case (Dispatch m)
  then show ?thesis using assms dispatch_inv [OF assms(1)] by (simp add: handleMessage_def)
next
  case (Heartbeat h)
  then show ?thesis using assms(2) by (auto simp: handleMessage_def intro: session_inv_cong [OF assms(1)])
next
  case (System c)
  then show ?thesis
    using assms(2) by (auto simp: handleMessage_def handleSystem_def state_Transition_def close_conn_def Let_def
        split: if_splits intro!: session_inv_cong [OF assms(1)])
next
  case (Cancel j)
  show ?thesis
  proof (cases "map_of (w_tasks w) j")
    case None
    then show ?thesis using assms Cancel by (simp add: handleMessage_def handleCancel_def)
  next
    case (Some t)
    have "map (\<lambda>(j, t). (j, tk_cost t)) (AList.update j (t\<lparr>tk_cancelled := True\<rparr>) m) = map (\<lambda>(j, t). (j, tk_cost t)) m"
      if "map_of m j = Some t" for m
      using that by (induction m) (auto split: if_splits)
    from arg_cong [OF this [OF Some], of mset]
    have e: "mset (map (\<lambda>(j, t). (j, tk_cost t)) (AList.update j (t\<lparr>tk_cancelled := True\<rparr>) (w_tasks w))) =
        mset (map (\<lambda>(j, t). (j, tk_cost t)) (w_tasks w))" .
    have pend: "map_of (w_pendingJobs w) j = None" using assms(1) Some by (auto simp: session_inv_def dest: spec [of _ j])
    have w': "w' = w\<lparr>w_tasks := AList.update j (t\<lparr>tk_cancelled := True\<rparr>) (w_tasks w)\<rparr>"
      using assms(2) Cancel Some by (simp add: handleMessage_def handleCancel_def)
    show ?thesis
      using assms(1) e pend unfolding session_inv_def running_load_def pending_load_def w' by simp
  qed
qed (use assms(2) session_inv_sent [OF sendError_only_sent assms(1)] in \<open>simp_all add: handleMessage_def\<close>)

text \<open>Releasing the task of a goroutine that ends gives its cost back.\<close>

lemma release_inv:
  assumes inv: "session_inv w" and r: "w_routines w = pre @ r # post" and rel: "releaseTask w (fst (routine_job r)) = Inr w'"
  shows "session_inv (w'\<lparr>w_routines := pre @ post\<rparr>)"
proof -
  obtain j c where jc: "routine_job r = (j, c)" by fastforce
  have ms: "mset (map (\<lambda>(j, t). (j, tk_cost t)) (w_tasks w)) = mset (map routine_job (w_routines w))"
    and kd: "keys_distinct (w_tasks w)" using inv by (simp_all add: session_inv_def)
  have "(j, c) \<in> set (map (\<lambda>(j, t). (j, tk_cost t)) (w_tasks w))"
    using mset_eq_setD [OF ms] r jc by simp
  then obtain t where t: "(j, t) \<in> set (w_tasks w)" "tk_cost t = c" by auto
  then have mt: "map_of (w_tasks w) j = Some t" using map_of_in_set [OF kd] by blast
  have c: "0 \<le> c" using inv r jc by (simp add: session_inv_def)
  have run: "running_load w = running_load (w\<lparr>w_routines := pre @ post\<rparr>) + c" by (simp add: running_load_def r jc)
  have nn: "0 \<le> running_load (w\<lparr>w_routines := pre @ post\<rparr>)"
  proof -
    have "\<forall>r \<in> set (pre @ post). 0 \<le> snd (routine_job r)" using inv r by (simp add: session_inv_def)
    then show ?thesis by (auto simp: running_load_def intro!: add_nonneg_nonneg sum_list_nonneg)
  qed
  have cap: "w_usedCap w \<le> wf_Capacity (w_cfg w)" "in_int64 (wf_Capacity (w_cfg w))" "w_usedCap w = running_load w + pending_load w"
    using inv by (simp_all add: session_inv_def)
  have "in_int64 (w_usedCap w - c)"
    by (rule in_int64_between [OF in_int64_0 cap(2)]) (use run nn cap c loads_nonneg [OF inv] in simp_all)
  then have fields: "w_cfg w' = w_cfg w" "w_pendingJobs w' = w_pendingJobs w" "w_tasks w' = AList.delete j (w_tasks w)"
    "w_usedCap w' = w_usedCap w - c"
    using rel mt t(2) by (auto simp: releaseTask_def jc close_conn_def Let_def split: if_splits)
  have del: "mset (map (\<lambda>(j, t). (j, tk_cost t)) (AList.delete j (w_tasks w))) = mset (map routine_job (pre @ post))"
    using ms mset_delete_key [OF kd t(1)] t r jc by (simp add: image_mset_Diff)
  have loads: "running_load (w'\<lparr>w_routines := pre @ post\<rparr>) = running_load w - c"
    "pending_load (w'\<lparr>w_routines := pre @ post\<rparr>) = pending_load w"
    using run by (simp_all add: running_load_def pending_load_def fields)
  have "map_of (w_pendingJobs w) k = None \<or> map_of (AList.delete j (w_tasks w)) k = None" for k
    using inv by (simp add: session_inv_def)
  moreover have "\<forall>r \<in> set (pre @ post). 0 \<le> snd (routine_job r)" using inv r by (simp add: session_inv_def)
  ultimately show ?thesis
    using inv del loads cap c kd unfolding session_inv_def
    by (simp add: fields del: map_append map_of_delete)
qed

text \<open>Between its bookkeeping a job only writes and fetches.\<close>

definition same_jobs_state :: "Worker \<Rightarrow> Worker \<Rightarrow> bool" where
  "same_jobs_state w w' \<longleftrightarrow>
     w_cfg w' = w_cfg w \<and> w_pendingJobs w' = w_pendingJobs w \<and> w_tasks w' = w_tasks w \<and> w_usedCap w' = w_usedCap w \<and>
     w_routines w' = w_routines w \<and> w_state w' = w_state w \<and> w_conn w' = w_conn w"

lemma same_jobs_sent: "only_sent w w' \<Longrightarrow> same_jobs_state w w'"
  by (simp add: same_jobs_state_def only_sent_fields)

lemma same_jobs_state_trans: "same_jobs_state w w' \<Longrightarrow> same_jobs_state w' w'' \<Longrightarrow> same_jobs_state w w''"
  by (simp add: same_jobs_state_def)

lemma same_jobs_inv: "same_jobs_state w w' \<Longrightarrow> session_inv w \<Longrightarrow> session_inv w'"
  by (rule session_inv_cong) (simp_all add: same_jobs_state_def)

lemma runJob_start_cases:
  assumes "runJob_start env w p d = Inr (r, w')"
  shows "case r of None \<Rightarrow> (\<exists>w1. same_jobs_state w w1 \<and> releaseTask w1 (dmJobID d) = Inr w') | Some t \<Rightarrow> same_jobs_state w w'"
proof -
  obtain f cache where f: "Fetch (je_sha env) (w_artifactCache w) (pmArtifactHash p) (je_download env) (je_lookedUp env) (je_obtained env) = (f, cache)"
    by fastforce
  let ?w = "w\<lparr>w_artifactCache := cache\<rparr>"
  have base: "same_jobs_state w ?w" by (simp add: same_jobs_state_def)
  have sent: "same_jobs_state w w2" if "emit w1 l = Inr w2" "same_jobs_state w w1" for w1 w2 l
    using same_jobs_state_trans [OF that(2) same_jobs_sent [OF emit_only_sent [OF that(1)]]] .
  have sentp: "same_jobs_state w w2" if "emitp w1 l b = Inr w2" "same_jobs_state w w1" for w1 w2 l b
    using same_jobs_state_trans [OF that(2) same_jobs_sent [OF emitp_only_sent [OF that(1)]]] .
  show ?thesis
    using assms base unfolding runJob_start_def Let_def f prod.case
    by (auto simp: and_then_Inr_iff split: sum.splits option.splits dest!: sent sentp)
qed

lemma write_lines_only_sent: "write_lines w h buf = Inr (b, w') \<Longrightarrow> only_sent w w'"
proof (induction w h buf arbitrary: b w' rule: write_lines.induct)
  case (1 w h buf)
  show ?case
  proof (cases "nl \<in> set buf")
    case False
    then show ?thesis using "1.prems" by (simp add: write_lines.simps [of w h buf])
  next
    case True
    then obtain w1 where w1: "emitp w h (takeWhile (\<lambda>c. c \<noteq> nl) buf) = Inr w1"
        "write_lines w1 h (tl (dropWhile (\<lambda>c. c \<noteq> nl) buf)) = Inr (b, w')"
      using "1.prems" by (subst (asm) write_lines.simps) (auto simp: and_then_Inr_iff)
    then show ?thesis using "1.IH" [of w1] True emitp_only_sent only_sent_trans by blast
  qed
qed

lemma log_Write_all_only_sent: "log_Write_all h (buf, w) ps = Inr (b, w') \<Longrightarrow> only_sent w w'"
proof (induction ps arbitrary: buf w)
  case Nil
  then show ?case by simp
next
  case (Cons p ps)
  then obtain b1 w1 where "write_lines w h (buf @ p) = Inr (b1, w1)" "log_Write_all h (b1, w1) ps = Inr (b, w')"
    by (auto simp: log_Write_def and_then_Inr_iff)
  then show ?case using Cons.IH write_lines_only_sent only_sent_trans by blast
qed

lemma report_only_sent: "report env w d r = Inr w' \<Longrightarrow> only_sent w w'"
  unfolding report_def Let_def
  by (auto simp: and_then_Inr_iff case_prod_beta split: sum.splits if_splits dest!: emitp_only_sent intro: only_sent_trans)

lemma runJob_end_cases:
  assumes "runJob_end env w d t = Inr w'"
  obtains w1 where "same_jobs_state w w1" "releaseTask w1 (dmJobID d) = Inr w'"
proof -
  obtain chunks r where run: "RunTask (je_exec env) (wf_TmpStorageDir (w_cfg w)) (je_setup env) t = (chunks, r)" by fastforce
  from assms obtain b w1 w2 where
    "log_Write_all (log_header (dmJobID d) (dmRunID d)) ([], w) chunks = Inr (b, w1)" "report env w1 d r = Inr w2"
    "releaseTask w2 (dmJobID d) = Inr w'"
    by (auto simp: runJob_end_def run and_then_Inr_iff)
  then show ?thesis using that same_jobs_sent log_Write_all_only_sent report_only_sent only_sent_trans by blast
qed

lemma heartbeat_cases:
  assumes "HeartbeatRoutine w now = Inr (e, w')"
  shows "w_cfg w' = w_cfg w" "w_pendingJobs w' = w_pendingJobs w" "w_tasks w' = w_tasks w" "w_usedCap w' = w_usedCap w"
    "w_routines w' = w_routines w" "w_state w' = w_state w \<or> w_state w \<in> {WorkerStateOnline, WorkerStatePressure}"
    "w_conn w' = w_conn w \<or> w_conn w' = ClosedConn"
  using assms unfolding HeartbeatRoutine_def Let_def worker_send_def write_conn_cases close_conn_def
  by (auto simp: and_then_Inr_iff split: if_splits option.splits)

lemma session_step_inv: "session_step w w' \<Longrightarrow> session_inv w \<Longrightarrow> session_inv w'"
proof (induction rule: session_step.induct)
  case (message lookPath now w msg w')
  show ?case using handleMessage_inv [OF message(3,1,2)] .
next
  case (bad_frame w code msg w')
  show ?case using session_inv_sent [OF sendError_only_sent [OF bad_frame(1)] bad_frame(2)] .
next
  case (begin_job w pre p d post env w')
  then obtain w1 where w1: "same_jobs_state w w1" "releaseTask w1 (dmJobID d) = Inr w'" using runJob_start_cases [OF begin_job(2)] by auto
  then show ?case
    using release_inv [OF same_jobs_inv [OF w1(1) begin_job(3)], of pre "Fetching p d" post w'] begin_job(1)
    by (simp add: same_jobs_state_def)
next
  case (start_job w pre p d post env t w')
  then have s: "same_jobs_state w w'" using runJob_start_cases [OF start_job(2)] by simp
  show ?case
    using same_jobs_inv [OF s start_job(3)] start_job(1) s
    by (simp add: session_inv_def running_load_def pending_load_def same_jobs_state_def)
next
  case (finish_job w pre p d t post env w')
  from finish_job(2) obtain w1 where w1: "same_jobs_state w w1" "releaseTask w1 (dmJobID d) = Inr w'"
    by (rule runJob_end_cases)
  then show ?case
    using release_inv [OF same_jobs_inv [OF w1(1) finish_job(3)], of pre "Executing p d t" post w'] finish_job(1)
    by (simp add: same_jobs_state_def)
next
  case (heartbeat w now err w')
  show ?case by (rule session_inv_cong [OF heartbeat(2)]) (simp_all add: heartbeat_cases(1-5) [OF heartbeat(1)])
next
  case (sample w now cs v)
  then show ?case by (rule session_inv_cong) simp_all
qed

lemma session_inv_steps: "session w w' \<Longrightarrow> session_inv w \<Longrightarrow> session_inv w'"
  by (induction rule: rtranclp_induct) (auto intro: session_step_inv)

section \<open>Capacity\<close>

lemma releaseTask_fields:
  assumes "releaseTask w j = Inr w'"
  shows "w_cfg w' = w_cfg w" "w_pendingJobs w' = w_pendingJobs w" "w_tasks w' = AList.delete j (w_tasks w)" "w_routines w' = w_routines w"
    "w_state w' = w_state w \<or> w_state w' = WorkerStateShuttingDown" "w_conn w' = w_conn w \<or> w_conn w' = ClosedConn"
    "w_state w \<in> {WorkerStateDraining, WorkerStateShuttingDown} \<Longrightarrow> w_tasks w' = [] \<Longrightarrow> w_conn w' = ClosedConn"
proof -
  have "map_of (w_tasks w) j = None \<Longrightarrow> AList.delete j (w_tasks w) = w_tasks w"
    by (simp add: delete_id map_of_eq_None_iff)
  then show "w_cfg w' = w_cfg w" "w_pendingJobs w' = w_pendingJobs w" "w_tasks w' = AList.delete j (w_tasks w)" "w_routines w' = w_routines w"
    "w_state w' = w_state w \<or> w_state w' = WorkerStateShuttingDown" "w_conn w' = w_conn w \<or> w_conn w' = ClosedConn"
    "w_state w \<in> {WorkerStateDraining, WorkerStateShuttingDown} \<Longrightarrow> w_tasks w' = [] \<Longrightarrow> w_conn w' = ClosedConn"
    using assms by (auto simp: releaseTask_def Let_def close_conn_def split: option.splits if_splits)
qed

text \<open>How a message changes what the jobs of a worker depend on.\<close>

lemma handleDispatch_cases:
  assumes "handleDispatch w msg = Inr w'"
  obtains "only_sent w w'"
  | t r where "w_cfg w' = w_cfg w" "w_pendingJobs w' = AList.delete (dmJobID msg) (w_pendingJobs w)"
      "w_tasks w' = AList.update (dmJobID msg) t (w_tasks w)" "w_state w' = w_state w" "w_conn w' = w_conn w" "w_routines w' = w_routines w @ [r]"
proof (cases "map_of (w_pendingJobs w) (dmJobID msg)")
  case None
  then show ?thesis using assms that(1) sendError_only_sent by (simp add: handleDispatch_def)
next
  case (Some p)
  then obtain t w1 where w1: "only_sent (w\<lparr>w_pendingJobs := AList.delete (dmJobID msg) (w_pendingJobs w),
      w_tasks := AList.update (dmJobID msg) t (w_tasks w)\<rparr>) w1" "w' = w1\<lparr>w_routines := w_routines w1 @ [Fetching p msg]\<rparr>"
    using assms by (auto simp: handleDispatch_def and_then_Inr_iff dest: emit_only_sent)
  show ?thesis by (rule that(2)) (simp_all add: only_sent_fields [OF w1(1)] w1(2))
qed

lemma handleMessage_cfg: "handleMessage lp now w msg = Inr w' \<Longrightarrow> w_cfg w' = w_cfg w"
proof (cases msg)
  case (Propose m)
  moreover assume "handleMessage lp now w msg = Inr w'"
  ultimately have "handlePropose lp w m = Inr w'" by (simp add: handleMessage_def)
  then show ?thesis by (rule handlePropose_cases)
next
  case (Dispatch m)
  moreover assume "handleMessage lp now w msg = Inr w'"
  ultimately have "handleDispatch w m = Inr w'" by (simp add: handleMessage_def)
  then show ?thesis by (rule handleDispatch_cases) (simp_all add: only_sent_fields)
qed (auto simp: handleMessage_def handleSystem_def handleCancel_def state_Transition_def close_conn_def Let_def
      split: if_splits option.splits dest!: sendError_only_sent simp: only_sent_fields)

lemma session_step_cfg: "session_step w w' \<Longrightarrow> w_cfg w' = w_cfg w"
proof (induction rule: session_step.induct)
  case (message lookPath now w msg w')
  then show ?case by (simp add: handleMessage_cfg)
next
  case (bad_frame w code msg w')
  then show ?case using only_sent_fields(1) [OF sendError_only_sent] by blast
next
  case (begin_job w pre p d post env w')
  then show ?case using runJob_start_cases [OF begin_job(2)] by (auto simp: same_jobs_state_def releaseTask_fields(1))
next
  case (start_job w pre p d post env t w')
  then show ?case using runJob_start_cases [OF start_job(2)] by (simp add: same_jobs_state_def)
next
  case (finish_job w pre p d t post env w')
  from finish_job(2) obtain w1 where "same_jobs_state w w1" "releaseTask w1 (dmJobID d) = Inr w'" by (rule runJob_end_cases)
  then show ?case by (simp add: same_jobs_state_def releaseTask_fields(1))
next
  case (heartbeat w now err w')
  then show ?case by (simp add: heartbeat_cases(1))
qed simp

lemma session_cfg: "session w w' \<Longrightarrow> w_cfg w' = w_cfg w"
  by (induction rule: rtranclp_induct) (simp_all add: session_step_cfg)


text \<open>A worker of capacity 4, connected, and a job of cost 3 for it.\<close>

definition ex_wcfg :: worker_Config where
  "ex_wcfg =
     \<lparr>wf_ManagerAddr = ''m'', wf_Capacity = 4, wf_CacheDir = ''c'', wf_CacheMaxSize = 0, wf_CacheTTL = 0, wf_TmpStorageDir = ''tmp'',
      wf_TmpStorageMaxLifetime = 0, wf_TmpStorageCleanupInterval = 0, wf_HeartbeatInterval = 10 * Second,
      wf_HeartbeatTimeout = 30 * Second, wf_WorkerID = ''w'', wf_AuthToken = [], wf_InheritableENVPrefix = ''P_'',
      wf_ReconnectMaxAttempts = 1, wf_KillGracePeriod = 0, wf_AllowNonRoot = True,
      wf_ResourceLimits = \<lparr>rl_MaxCPUPercent = 0, rl_MaxMemPercent = 0, rl_SampleInterval = Second\<rparr>\<rparr>"

definition ex_worker :: Worker where
  "ex_worker =
     \<lparr>w_cfg = ex_wcfg, w_artifactCache = NewArtifactCache ''c'' 0 0 [],
      w_metricsSampler = \<lparr>sp_window = \<lparr>win_data = replicate 5 systemMetrics_zero, win_cap = 5, win_head = 0, win_count = 0\<rparr>,
                          sp_last = systemMetrics_zero, sp_interval = Second, sp_sampleTimeout = Second\<rparr>,
      w_depCache = [], w_state = WorkerStateOnline, w_conn = OpenConn, w_done = False, w_tasks = [], w_pendingJobs = [],
      w_usedCap = 0, w_lastHeartbeatAck = UnixNano unix_epoch, w_heartbeatSendFailureCount = 0, w_sent = [], w_routines = []\<rparr>"

definition ex_propose :: ProposeMessage where
  "ex_propose = \<lparr>pmJobID = ''j'', pmParentJobID = [], pmTask = ''t'', pmCost = 3, pmNoResult = False, pmArtifactHash = ''h'',
                 pmArtifactURL = ''/u'', pmArtifactDeps = []\<rparr>"

definition ex_dispatch :: DispatchMessage where
  "ex_dispatch = \<lparr>dmJobID = ''j'', dmRunID = ''r'', dmPhase = ''run'', dmAttempt = 1, dmMaxExecTime = 0, dmMaxMemoryBytes = 0,
                  dmMaxCPUCores = 0, dmPayload = []\<rparr>"

definition ex_accepted :: Worker where
  "ex_accepted = ex_worker\<lparr>w_usedCap := 3, w_pendingJobs := [(''j'', ex_propose)], w_sent := [Line ''accept --job-id=j'']\<rparr>"

lemma ex_connect: "connect ex_worker None None unix_epoch = (None, ex_worker)"
  by (simp add: connect_def reset_connection_def ex_worker_def)

lemma ex_accept: "handlePropose (\<lambda>_. True) ex_worker ex_propose = Inr ex_accepted"
  by (simp add: handlePropose_def checkDeps_def ex_worker_def ex_accepted_def ex_wcfg_def ex_propose_def IsOverLimit_def Let_def
      emit_open in_int64_def min_int64_def max_int64_def)

lemma ex_session: "session ex_worker ex_accepted"
proof -
  have "fair_message ex_worker (Propose ex_propose)"
    by (simp add: fair_message_def known_job_def ex_worker_def ex_wcfg_def ex_propose_def in_int64_def min_int64_def max_int64_def)
  moreover have "handleMessage (\<lambda>_. True) 0 ex_worker (Propose ex_propose) = Inr ex_accepted"
    by (simp add: handleMessage_def ex_accept)
  ultimately show ?thesis by (intro r_into_rtranclp session_step.message)
qed


text \<open>The binary of the job prints one line and a half and a result.\<close>

definition ex_env :: job_env where
  "ex_env =
     \<lparr>je_sha = id, je_download = \<lparr>dl_body = Inr ''h'', dl_rename = None, dl_chmod = None\<rparr>, je_lookedUp = 1, je_obtained = 2,
      je_mkdir = None, je_startClock = [], je_getenv = (\<lambda>_. []), je_environ = [],
      je_setup = \<lparr>rs_resultPipe = None, rs_childPipe = None, rs_mkdirTemp = Inr ''x''\<rparr>,
      je_exec = (\<lambda>_. \<lparr>pr_start = None, pr_output = [(False, ''a''), (False, [nl, CHR ''b''])], pr_result = ''ok'', pr_childJobs = [],
                       pr_wait = WaitOk\<rparr>), je_endClock = [], je_duration = Second\<rparr>"

definition ex_exec :: taskExec where "ex_exec = make_task ex_worker ex_env ex_propose ex_dispatch ''c/h''"

definition ex_busy :: Worker where
  "ex_busy = ex_worker\<lparr>w_usedCap := 3, w_tasks := [(''j'', \<lparr>tk_cancelled = False, tk_cost = 3, tk_runID = ''r''\<rparr>)],
                        w_routines := [Executing ex_propose ex_dispatch ex_exec]\<rparr>"

lemma ex_task_run: "RunTask (je_exec ex_env) (wf_TmpStorageDir (w_cfg ex_busy)) (je_setup ex_env) ex_exec =
    ([''a'', [nl, CHR ''b'']], Inr \<lparr>to_result = ''ok'', to_childJobs = [], to_stderr = []\<rparr>)"
  by (simp add: RunTask_def ex_env_def ex_exec_def make_task_def artifact_path_def ex_dispatch_def ex_worker_def ex_wcfg_def
      task_outcome_def exitCodeOf_def stderr_of_def Let_def)

text \<open>With the connection open the end of a job always returns.\<close>

lemma releaseTask_open: "w_conn w = OpenConn \<Longrightarrow> \<exists>w'. releaseTask w j = Inr w'"
  by (auto simp: releaseTask_def Let_def close_conn_def split: option.split)

lemma runJob_end_open:
  assumes "w_conn w = OpenConn"
  shows "\<exists>w'. runJob_end env w d t = Inr w'"
proof -
  obtain chunks r where run: "RunTask (je_exec env) (wf_TmpStorageDir (w_cfg w)) (je_setup env) t = (chunks, r)" by fastforce
  define h w1 where "h = log_header (dmJobID d) (dmRunID d)" and "w1 = w\<lparr>w_sent := w_sent w @ log_frames h (lines_of (concat chunks))\<rparr>"
  have log: "log_Write_all h ([], w) chunks = Inr (tail_of (concat chunks), w1)"
    using log_Write_all_open [OF assms, of "[]"] by (simp add: w1_def)
  have "w_conn w1 = OpenConn" by (simp add: w1_def assms)
  from report_open [OF this, of env d r] obtain x where w2: "report env w1 d r = Inr (w1\<lparr>w_sent := x\<rparr>)" by blast
  obtain w3 where "releaseTask (w1\<lparr>w_sent := x\<rparr>) (dmJobID d) = Inr w3"
    using releaseTask_open [of "w1\<lparr>w_sent := x\<rparr>"] \<open>w_conn w1 = OpenConn\<close> by auto
  with log w2 show ?thesis by (simp add: runJob_end_def run h_def)
qed


end
