(* ===== verification/Worker_Faults.thy ===== *)
theory Worker_Faults
  imports Worker_Safety
begin

text \<open>
  How a worker behaves at the edges of a session: when it is asked to drain or to shut down, when the
  manager falls silent, and when the connection is lost while binaries run.
\<close>

section \<open>Draining\<close>

definition stopping :: "Worker \<Rightarrow> bool" where
  "stopping w \<longleftrightarrow> w_state w = WorkerStateDraining \<or> w_state w = WorkerStateShuttingDown"

text \<open>What draining keeps: the worker goes on stopping, takes no new job, and without a task it is not connected.\<close>

definition drain_inv :: "(string, ProposeMessage) gomap \<Rightarrow> Worker \<Rightarrow> bool" where
  "drain_inv ps w \<longleftrightarrow> stopping w \<and> set (w_pendingJobs w) \<subseteq> set ps \<and> (w_tasks w = [] \<longrightarrow> w_conn w \<noteq> OpenConn)"

lemma drain_inv_cong:
  "drain_inv ps w \<Longrightarrow> w_state w' = w_state w \<Longrightarrow> w_pendingJobs w' = w_pendingJobs w \<Longrightarrow> w_tasks w' = w_tasks w \<Longrightarrow>
   w_conn w' = w_conn w \<Longrightarrow> drain_inv ps w'"
  by (simp add: drain_inv_def stopping_def)

lemma drain_inv_sent: "only_sent w w' \<Longrightarrow> drain_inv ps w \<Longrightarrow> drain_inv ps w'"
  by (erule drain_inv_cong) (simp_all add: only_sent_fields)

lemma drain_inv_release:
  assumes "drain_inv ps w" "same_jobs_state w w1" "releaseTask w1 j = Inr w'"
  shows "drain_inv ps (w'\<lparr>w_routines := rs\<rparr>)"
  using assms(1,2) releaseTask_fields(2,3,5-7) [OF assms(3)]
  by (auto simp: drain_inv_def stopping_def same_jobs_state_def)

lemma propose_stopping:
  assumes "stopping w" "handlePropose lp w m = Inr w'"
  shows "only_sent w w'"
  using assms by (auto simp: handlePropose_def stopping_def worker_state_defs dest: emit_only_sent)

lemma system_stopping:
  assumes "drain_inv ps w" "handleSystem w c = Inr w'"
  shows "drain_inv ps w'"
  using assms
  by (auto simp: drain_inv_def stopping_def handleSystem_def state_Transition_def close_conn_def Let_def worker_state_defs
      split: if_splits)

lemma dispatch_stopping:
  assumes "drain_inv ps w" "handleDispatch w m = Inr w'"
  shows "drain_inv ps w'"
  using assms(2)
proof (rule handleDispatch_cases)
  assume "only_sent w w'"
  then show ?thesis using assms(1) by (rule drain_inv_sent)
next
  fix t r
  assume f: "w_pendingJobs w' = AList.delete (dmJobID m) (w_pendingJobs w)" "w_tasks w' = AList.update (dmJobID m) t (w_tasks w)"
    "w_state w' = w_state w" "w_conn w' = w_conn w"
  have "w_tasks w' \<noteq> []" by (cases "w_tasks w") (auto simp: f)
  moreover have "set (w_pendingJobs w') \<subseteq> set (w_pendingJobs w)" by (auto simp: f AList.delete_eq)
  ultimately show ?thesis using assms(1) f by (auto simp: drain_inv_def stopping_def)
qed

lemma message_stopping:
  assumes "drain_inv ps w" "handleMessage lp now w msg = Inr w'"
  shows "drain_inv ps w'"
proof (cases msg)
  case (Propose m)
  have s: "stopping w" using assms(1) by (simp add: drain_inv_def)
  show ?thesis using drain_inv_sent [OF propose_stopping [OF s] assms(1), of lp m w'] assms(2) Propose by (simp add: handleMessage_def)
next
  case (Dispatch m)
  then show ?thesis using dispatch_stopping assms by (simp add: handleMessage_def)
next
  case (System c)
  then show ?thesis using system_stopping assms by (simp add: handleMessage_def)
next
  case (Heartbeat h)
  then show ?thesis using drain_inv_cong [OF assms(1)] assms(2) by (auto simp: handleMessage_def)
next
  case (Cancel j)
  have "AList.update j t m = [] \<longleftrightarrow> False" for t :: activeTask and m by (cases m) auto
  then show ?thesis using assms Cancel
    by (auto simp: handleMessage_def handleCancel_def drain_inv_def stopping_def split: option.splits)
qed (use assms(2) drain_inv_sent [OF sendError_only_sent assms(1)] in \<open>simp_all add: handleMessage_def\<close>)

lemma session_step_stopping: "session_step w w' \<Longrightarrow> drain_inv ps w \<Longrightarrow> drain_inv ps w'"
proof (induction rule: session_step.induct)
  case (message lookPath now w msg w')
  show ?case using message_stopping [OF message(3,1)] .
next
  case (bad_frame w code msg w')
  show ?case using drain_inv_sent [OF sendError_only_sent [OF bad_frame(1)] bad_frame(2)] .
next
  case (begin_job w pre p d post env w')
  then obtain w1 where "same_jobs_state w w1" "releaseTask w1 (dmJobID d) = Inr w'" using runJob_start_cases [OF begin_job(2)] by auto
  then show ?case using drain_inv_release [OF begin_job(3)] by blast
next
  case (start_job w pre p d post env t w')
  then have "same_jobs_state w w'" using runJob_start_cases [OF start_job(2)] by simp
  then show ?case using drain_inv_cong [OF start_job(3)] by (simp add: same_jobs_state_def)
next
  case (finish_job w pre p d t post env w')
  from finish_job(2) obtain w1 where "same_jobs_state w w1" "releaseTask w1 (dmJobID d) = Inr w'" by (rule runJob_end_cases)
  then show ?case using drain_inv_release [OF finish_job(3)] by blast
next
  case (heartbeat w now err w')
  then show ?case using heartbeat_cases(2,3,6,7) [OF heartbeat(1)]
    by (auto simp: drain_inv_def stopping_def worker_state_defs)
next
  case (sample w now cs v)
  then show ?case by (rule drain_inv_cong) simp_all
qed

lemma session_stopping: "session w w' \<Longrightarrow> drain_inv ps w \<Longrightarrow> drain_inv ps w'"
  by (induction rule: rtranclp_induct) (auto intro: session_step_stopping)


text \<open>The worker with one binary running drains: it finishes the job and hangs up.\<close>

lemma ex_finish: "\<exists>w'. runJob_end ex_env (ex_busy\<lparr>w_state := WorkerStateDraining\<rparr>) ex_dispatch ex_exec = Inr w' \<and> w_tasks w' = []"
proof -
  let ?w = "ex_busy\<lparr>w_state := WorkerStateDraining\<rparr>"
  have "w_conn ?w = OpenConn" by (simp add: ex_busy_def ex_worker_def)
  then obtain w' where run: "runJob_end ex_env ?w ex_dispatch ex_exec = Inr w'" using runJob_end_open by blast
  then obtain w1 where "same_jobs_state ?w w1" "releaseTask w1 (dmJobID ex_dispatch) = Inr w'" by (rule runJob_end_cases)
  then have "w_tasks w' = []" by (simp add: releaseTask_fields(3) same_jobs_state_def ex_busy_def ex_dispatch_def)
  with run show ?thesis by blast
qed


section \<open>Shutting down\<close>

text \<open>
  The command that shuts a connected worker down leaves it connected, idle or not, and refusing every
  job; only a drain hangs up. A drain of a worker with a running job that is followed by a second shutdown
  closes the channel twice, which is a panic.
\<close>

lemma shutdown_stays_connected:
  assumes "w_conn w = OpenConn" and "w_state w = WorkerStateOnline" and "\<not> w_done w"
  shows "\<exists>w1. handleSystem w ''shutdown'' = Inr w1 \<and> w_conn w1 = OpenConn \<and> w_state w1 = WorkerStateShuttingDown \<and>
           w_tasks w1 = w_tasks w \<and>
           (\<forall>lp m w2. handlePropose lp w1 m = Inr w2 \<longrightarrow> w_sent w2 = w_sent w @ [Line (reject_line (pmJobID m) ''draining'')]) \<and>
           (w_tasks w = [] \<longrightarrow> (\<exists>w2. handleSystem w1 ''drain'' = Inr w2 \<and> w_conn w2 = ClosedConn)) \<and>
           (w_tasks w \<noteq> [] \<longrightarrow> and_then (handleSystem w1 ''drain'') (\<lambda>w2. handleSystem w2 ''shutdown'')
                               = Inl (Panic ''close of closed channel''))"
  using assms
  by (auto simp: handleSystem_def state_Transition_def Let_def close_conn_def handlePropose_def emit_open worker_state_defs)

section \<open>Heartbeats\<close>

lemma heartbeat_delta:
  assumes "unix_epoch + 10 * Second \<le> ack" "ack \<le> now" "now \<le> unix_epoch + max_int64"
  shows "wrap64 (Unix now - UnixNano ack) < 0"
proof -
  have n: "0 \<le> Unix now" "Unix now \<le> 9223372036"
    using assms by (simp_all add: Unix_def max_int64_def)
  have "in_int64 (ack - unix_epoch)" using assms by (simp add: in_int64_def min_int64_def max_int64_def)
  then have a: "UnixNano ack = ack - unix_epoch" by (simp add: UnixNano_def wrap64_id)
  then have "in_int64 (Unix now - UnixNano ack)"
    using n assms by (simp add: in_int64_def min_int64_def max_int64_def)
  then show ?thesis using n a assms(1) by (simp add: wrap64_id)
qed

text \<open>
  A manager that has fallen silent is never noticed. The time of its last answer is kept in nanoseconds
  and compared with a clock in seconds, so whatever the timeout is and however long ago the answer came, the
  heartbeat of a connected worker takes it for recent and sends another one, on every date from ten seconds
  after the start of 1970 to the end of the range of nanoseconds in 2262.
\<close>

lemma silent_manager_not_detected:
  assumes "w_conn w = OpenConn" and "w_lastHeartbeatAck w = UnixNano ack" and "0 \<le> wf_HeartbeatTimeout (w_cfg w)"
    and "unix_epoch + 10 * Second \<le> ack" and "ack \<le> now" and "now \<le> unix_epoch + max_int64"
  shows "\<exists>w' line. HeartbeatRoutine w now = Inr (None, w') \<and> w_conn w' = OpenConn \<and> w_sent w' = w_sent w @ [Line line]"
proof -
  have "0 \<le> go_trunc (seconds (wf_HeartbeatTimeout (w_cfg w)))"
    using assms(3) by (simp add: go_trunc_def seconds_def)
  then have "\<not> go_trunc (seconds (wf_HeartbeatTimeout (w_cfg w))) < wrap64 (Unix now - w_lastHeartbeatAck w)"
    using heartbeat_delta [OF assms(4-6)] by (simp add: assms(2))
  then show ?thesis
    using assms(1) by (simp add: HeartbeatRoutine_def Let_def worker_send_def write_conn_def)
qed

section \<open>Losing the connection\<close>

lemma write_lines_nil:
  assumes "w_conn w = NilConn"
  shows "write_lines w h buf = (if nl \<in> set buf then Inl (Panic ''invalid memory address or nil pointer dereference'') else Inr (buf, w))"
  by (subst write_lines.simps) (simp add: emitp_nil assms)

lemma log_Write_all_nil:
  assumes "w_conn w = NilConn"
  shows "log_Write_all h (buf, w) ps = Inl (Panic ''invalid memory address or nil pointer dereference'') \<or>
         (\<exists>b. log_Write_all h (buf, w) ps = Inr (b, w))"
proof (induction ps arbitrary: buf)
  case (Cons p ps)
  then show ?case by (auto simp: log_Write_def write_lines_nil [OF assms])
qed simp

text \<open>
  C36: losing the connection brings the worker down. The reader sets the connection to nil on its way out,
  so every job that ends afterwards, in whatever way, dereferences nil when it reports; and when the manager
  itself has closed the stream, the routine falls through to its branch for impossible cases, which
  dereferences the error of a live context.
\<close>

theorem connection_loss_panics:
  "runJob_end env (snd (disconnect w se)) d t = Inl (Panic ''invalid memory address or nil pointer dereference'') \<and>
   (w_state w \<noteq> WorkerStateShuttingDown \<longrightarrow>
      ConnectAndWorkRoutine (snd (disconnect w StreamEOF)) (fst (disconnect w StreamEOF)) None
        = Inl (Panic ''invalid memory address or nil pointer dereference''))"
proof -
  let ?w = "snd (disconnect w se)"
  have nil: "w_conn ?w = NilConn" by (simp add: disconnect_def)
  obtain chunks r where run: "RunTask (je_exec env) (wf_TmpStorageDir (w_cfg ?w)) (je_setup env) t = (chunks, r)" by fastforce
  have "report env ?w d r = Inl (Panic ''invalid memory address or nil pointer dereference'')"
    by (auto simp: report_def Let_def emitp_nil [OF nil] case_prod_beta split: sum.split)
  then have "runJob_end env ?w d t = Inl (Panic ''invalid memory address or nil pointer dereference'')"
    using log_Write_all_nil [OF nil, of "log_header (dmJobID d) (dmRunID d)" "[]" chunks] by (auto simp: runJob_end_def run)
  then show ?thesis by (simp add: ConnectAndWorkRoutine_def disconnect_def)
qed

theorem connection_loss_panics_witness:
  "runJob_end ex_env (snd (disconnect ex_busy StreamEOF)) ex_dispatch ex_exec
     = Inl (Panic ''invalid memory address or nil pointer dereference'') \<and>
   ConnectAndWorkRoutine (snd (disconnect ex_busy StreamEOF)) None None
     = Inl (Panic ''invalid memory address or nil pointer dereference'')"
  using connection_loss_panics [of ex_env ex_busy StreamEOF ex_dispatch ex_exec]
  by (simp add: ex_busy_def ex_worker_def worker_state_defs disconnect_def)

text \<open>
  A worker that reconnects forgets the binaries that still run: it counts from nothing again, so the cost of
  what runs and what is accepted may exceed its capacity.
\<close>

lemma reconnect_forgets:
  assumes "connect w None None now = (None, w1)"
  shows "w_usedCap w1 = 0 \<and> pending_load w1 = 0 \<and> running_load w1 = running_load w"
  using assms by (auto simp: connect_def reset_connection_def Let_def pending_load_def running_load_def)

lemma reconnect_overcommits:
  "\<exists>w1 w2. connect (ex_busy\<lparr>w_conn := NilConn\<rparr>) None None now = (None, w1) \<and> handlePropose (\<lambda>_. True) w1 (ex_propose\<lparr>pmJobID := ''k''\<rparr>) = Inr w2 \<and>
     wf_Capacity (w_cfg w2) < running_load w2 + pending_load w2"
  by (simp add: connect_def reset_connection_def handlePropose_def checkDeps_def ex_busy_def ex_worker_def ex_wcfg_def ex_propose_def
      IsOverLimit_def Let_def emit_open running_load_def pending_load_def wrap64_id in_int64_def min_int64_def max_int64_def)

end
