(* ===== verification/Artifact_Registry.thy ===== *)
theory Artifact_Registry
  imports Manager_State
begin

text \<open>
  The registry of binaries in the file system (\<^verbatim>\<open>manager/artifact\<close>): publishing, resolving, listing,
  deleting and loading, and the seeding of a registry at startup.

  A path is the list of the elements of an absolute path, and the disk a map from paths to files; a
  directory exists when a file is below it. A metadata file holds the version it was written from, without
  what the JSON encoding leaves out; names are valid UTF-8. What the operating system may refuse is an
  argument of the operations, and so is the hash function; error texts leave out the paths, and a directory
  that is missing altogether is an empty one.
\<close>

section \<open>Paths\<close>

type_synonym path = "string list"

fun split_slash :: "string \<Rightarrow> string list" where
  "split_slash [] = [[]]"
| "split_slash (c # cs) =
     (if c = CHR ''/'' then [] # split_slash cs
      else case split_slash cs of [] \<Rightarrow> [[c]] | w # ws \<Rightarrow> (c # w) # ws)"

text \<open>\<^verbatim>\<open>filepath.Join\<close> cleans what it joins: it drops empty elements and dots, and goes up at two dots.\<close>

definition clean_step :: "path \<Rightarrow> string \<Rightarrow> path" where
  "clean_step p e = (if e = [] \<or> e = ''.'' then p else if e = ''..'' then butlast p else p @ [e])"

definition Join :: "path \<Rightarrow> string list \<Rightarrow> path" where
  "Join dir es = foldl clean_step dir (concat (map split_slash es))"

definition plain_name :: "string \<Rightarrow> bool" where
  "plain_name n \<longleftrightarrow> n \<noteq> [] \<and> n \<noteq> ''.'' \<and> n \<noteq> ''..'' \<and> CHR ''/'' \<notin> set n"

lemma split_slash_plain: "CHR ''/'' \<notin> set n \<Longrightarrow> split_slash n = [n]"
  by (induction n) auto

lemma Join_plain: "list_all plain_name ns \<Longrightarrow> Join dir ns = dir @ ns"
proof -
  assume a: "list_all plain_name ns"
  then have "concat (map split_slash ns) = ns" by (induction ns) (auto simp: split_slash_plain plain_name_def)
  moreover have "foldl clean_step dir ns = dir @ ns"
    using a by (induction ns arbitrary: dir) (auto simp: clean_step_def plain_name_def)
  ultimately show ?thesis by (simp add: Join_def)
qed

section \<open>The registry\<close>

record ArtifactVersion =
  av_Artifact :: string
  av_Version :: string
  av_PreRelease :: bool
  av_PublishedAt :: time
  av_Platforms :: "ArtifactPlatform list"
  av_PlatformDeps :: "(string, string list) gomap"

definition platformDeps :: "ArtifactVersion \<Rightarrow> string \<Rightarrow> string list" where
  "platformDeps v key = (case map_of (av_PlatformDeps v) key of None \<Rightarrow> [] | Some ds \<Rightarrow> ds)"

datatype file_content = BinaryFile bytes | MetaFile ArtifactVersion | TornFile

record FsRegistry =
  fr_dir :: path
  fr_baseURL :: string
  fr_versions :: "(string, ArtifactVersion list) gomap"
  fr_files :: "(path, file_content) gomap"

definition ErrAlreadyExists :: error where "ErrAlreadyExists = Sentinel ''artifact version already exists''"
definition ErrNotFound :: error where "ErrNotFound = Sentinel ''artifact not found''"

definition splitPlatformKey :: "string \<Rightarrow> (string \<times> string) res" where
  "splitPlatformKey key =
     (let os = takeWhile (\<lambda>c. c \<noteq> CHR ''_'') key; rest = dropWhile (\<lambda>c. c \<noteq> CHR ''_'') key
      in if os = [] \<or> length rest \<le> 1
         then Inl (Errorf (''invalid platform key '' @ go_quote key @ '': expected os_arch format''))
         else Inr (os, tl rest))"

definition binaryPath :: "FsRegistry \<Rightarrow> string \<Rightarrow> string \<Rightarrow> string \<Rightarrow> string \<Rightarrow> path" where
  "binaryPath r artifact version os arch = Join (fr_dir r) [artifact, version, os, arch, ''binary'']"

definition metaPath :: "FsRegistry \<Rightarrow> string \<Rightarrow> string \<Rightarrow> path" where
  "metaPath r artifact version = Join (fr_dir r) [artifact, version, ''meta.json'']"

definition withURL :: "FsRegistry \<Rightarrow> ArtifactPlatform \<Rightarrow> ArtifactPlatform" where
  "withURL r p =
     p\<lparr>apURL := fr_baseURL r @ ''/tasks/'' @ apArtifact p @ ''/artifacts/'' @ apVersion p @ ''/'' @ apOS p @ ''/'' @ apArch p\<rparr>"

definition versions_of :: "FsRegistry \<Rightarrow> string \<Rightarrow> ArtifactVersion list" where
  "versions_of r artifact = (case map_of (fr_versions r) artifact of None \<Rightarrow> [] | Some vs \<Rightarrow> vs)"

text \<open>The first platform of the wanted system in the first versions that have it.\<close>

definition platform_in :: "string \<Rightarrow> string \<Rightarrow> ArtifactVersion list \<Rightarrow> ArtifactPlatform option" where
  "platform_in os arch vs = find (\<lambda>p. apOS p = os \<and> apArch p = arch) (concat (map av_Platforms vs))"

definition findPlatformLocked :: "FsRegistry \<Rightarrow> string \<Rightarrow> string \<Rightarrow> string \<Rightarrow> string \<Rightarrow> ArtifactPlatform option" where
  "findPlatformLocked r artifact version os arch =
     platform_in os arch (filter (\<lambda>v. av_Version v = version) (versions_of r artifact))"

section \<open>Publishing\<close>

text \<open>A binary to publish, with what the disk says: making its directory, creating its file, copying it.\<close>

record upload =
  up_mkdir :: "error option"
  up_create :: "error option"
  up_body :: "bytes res"

datatype meta_write = MetaOk | MetaRefused error | MetaFailed error

fun publish_check :: "FsRegistry \<Rightarrow> ArtifactVersion \<Rightarrow> string list \<Rightarrow> error option" where
  "publish_check r v [] = None"
| "publish_check r v (key # keys) =
     (case splitPlatformKey key of
        Inl e \<Rightarrow> Some (Errorf (''publish: '' @ error_text e))
      | Inr (os, arch) \<Rightarrow>
          if findPlatformLocked r (av_Artifact v) (av_Version v) os arch \<noteq> None then Some ErrAlreadyExists
          else publish_check r v keys)"

definition publish_one ::
  "(bytes \<Rightarrow> string) \<Rightarrow> FsRegistry \<Rightarrow> ArtifactVersion \<Rightarrow> string \<Rightarrow> upload \<Rightarrow> ArtifactPlatform res \<times> FsRegistry" where
  "publish_one sha r v key up =
     (case splitPlatformKey key of
        Inl e \<Rightarrow> (Inl (Errorf (''publish: '' @ error_text e)), r)
      | Inr (os, arch) \<Rightarrow>
          (let dest = binaryPath r (av_Artifact v) (av_Version v) os arch
           in case up_mkdir up of
                Some e \<Rightarrow> (Inl (Errorf (''publish: mkdir: '' @ error_text e)), r)
              | None \<Rightarrow>
                  if map_of (fr_files r) dest \<noteq> None then (Inl ErrAlreadyExists, r)
                  else (case up_create up of
                          Some e \<Rightarrow> (Inl (Errorf (''publish: create binary: '' @ error_text e)), r)
                        | None \<Rightarrow>
                            (case up_body up of
                               Inl e \<Rightarrow> (Inl (Errorf (''publish: write binary: '' @ error_text e)), r)
                             | Inr body \<Rightarrow>
                                 (Inr \<lparr>apArtifact = av_Artifact v, apVersion = av_Version v, apOS = os, apArch = arch, apHash = sha body,
                                       apSize = int (length body), apDependencies = platformDeps v key, apURL = []\<rparr>,
                                  r\<lparr>fr_files := AList.update dest (BinaryFile body) (fr_files r)\<rparr>)))))"

fun publish_files ::
  "(bytes \<Rightarrow> string) \<Rightarrow> FsRegistry \<Rightarrow> ArtifactVersion \<Rightarrow> (string, upload) gomap \<Rightarrow> ArtifactPlatform list \<Rightarrow>
   ArtifactPlatform list res \<times> FsRegistry" where
  "publish_files sha r v [] ps = (Inr ps, r)"
| "publish_files sha r v ((key, up) # bs) ps =
     (case publish_one sha r v key up of
        (Inl e, r1) \<Rightarrow> (Inl e, r1)
      | (Inr p, r1) \<Rightarrow> publish_files sha r1 v bs (ps @ [p]))"

text \<open>The dependencies of the platforms are not part of the JSON.\<close>

definition meta_of :: "ArtifactVersion \<Rightarrow> ArtifactVersion" where
  "meta_of v = v\<lparr>av_PlatformDeps := []\<rparr>"

definition writeMeta :: "FsRegistry \<Rightarrow> ArtifactVersion \<Rightarrow> meta_write \<Rightarrow> error option \<times> FsRegistry" where
  "writeMeta r v wr =
     (let file = (\<lambda>c. r\<lparr>fr_files := AList.update (metaPath r (av_Artifact v) (av_Version v)) c (fr_files r)\<rparr>)
      in case wr of
           MetaOk \<Rightarrow> (None, file (MetaFile (meta_of v)))
         | MetaRefused e \<Rightarrow> (Some e, r)
         | MetaFailed e \<Rightarrow> (Some e, file TornFile))"

definition newest_first :: "ArtifactVersion list \<Rightarrow> ArtifactVersion list" where
  "newest_first = sort_slice (\<lambda>a b. av_PublishedAt b < av_PublishedAt a)"

definition Publish ::
  "(bytes \<Rightarrow> string) \<Rightarrow> FsRegistry \<Rightarrow> ArtifactVersion \<Rightarrow> (string, upload) gomap \<Rightarrow> meta_write \<Rightarrow> time \<Rightarrow> error option \<times> FsRegistry" where
  "Publish sha r v binaries wr now =
     (case publish_check r v (map fst binaries) of
        Some e \<Rightarrow> (Some e, r)
      | None \<Rightarrow>
          (case publish_files sha r v binaries [] of
             (Inl e, r1) \<Rightarrow> (Some e, r1)
           | (Inr ps, r1) \<Rightarrow>
               (let v1 = v\<lparr>av_Platforms := ps, av_PublishedAt := (if av_PublishedAt v = 0 then now else av_PublishedAt v)\<rparr>
                in case writeMeta r1 v1 wr of
                     (Some e, r2) \<Rightarrow> (Some e, r2)
                   | (None, r2) \<Rightarrow>
                       (None, r2\<lparr>fr_versions := AList.update (av_Artifact v1) (newest_first (versions_of r2 (av_Artifact v1) @ [v1]))
                                   (fr_versions r2)\<rparr>))))"

section \<open>Looking up\<close>

definition Resolve :: "FsRegistry \<Rightarrow> string \<Rightarrow> string \<Rightarrow> string \<Rightarrow> ArtifactPlatform res" where
  "Resolve r artifact os arch =
     (case platform_in os arch (filter (\<lambda>v. \<not> av_PreRelease v) (versions_of r artifact)) of
        None \<Rightarrow> Inl ErrNotFound | Some p \<Rightarrow> Inr (withURL r p))"

definition ResolveVersion :: "FsRegistry \<Rightarrow> string \<Rightarrow> string \<Rightarrow> string \<Rightarrow> string \<Rightarrow> ArtifactPlatform res" where
  "ResolveVersion r artifact version os arch =
     (case findPlatformLocked r artifact version os arch of None \<Rightarrow> Inl ErrNotFound | Some p \<Rightarrow> Inr (withURL r p))"

text \<open>
  \<^verbatim>\<open>ListVersions\<close> copies the versions but not their slices of platforms, so the addresses it fills in are
  stored in the registry too.
\<close>

definition with_URLs :: "FsRegistry \<Rightarrow> ArtifactVersion \<Rightarrow> ArtifactVersion" where
  "with_URLs r v = v\<lparr>av_Platforms := map (withURL r) (av_Platforms v)\<rparr>"

definition ListVersions :: "FsRegistry \<Rightarrow> string \<Rightarrow> ArtifactVersion list \<times> FsRegistry" where
  "ListVersions r artifact =
     (case map_of (fr_versions r) artifact of
        None \<Rightarrow> ([], r)
      | Some vs \<Rightarrow> (map (with_URLs r) vs, r\<lparr>fr_versions := AList.update artifact (map (with_URLs r) vs) (fr_versions r)\<rparr>))"

definition ListPlatforms :: "FsRegistry \<Rightarrow> string \<Rightarrow> string \<Rightarrow> ArtifactPlatform list" where
  "ListPlatforms r artifact version =
     (case find (\<lambda>v. if version \<noteq> [] then av_Version v = version else \<not> av_PreRelease v) (versions_of r artifact) of
        None \<Rightarrow> [] | Some v \<Rightarrow> map (withURL r) (av_Platforms v))"

definition ServeFile :: "FsRegistry \<Rightarrow> string \<Rightarrow> string \<Rightarrow> string \<Rightarrow> string \<Rightarrow> path res" where
  "ServeFile r artifact version os arch =
     (let p = binaryPath r artifact version os arch
      in if map_of (fr_files r) p = None then Inl ErrNotFound else Inr p)"

text \<open>What the manager calls of it.\<close>

definition registry_of :: "FsRegistry \<Rightarrow> ArtifactRegistry" where
  "registry_of r =
     \<lparr>reg_ListPlatforms = (\<lambda>a v. Inr (ListPlatforms r a v)), reg_Resolve = Resolve r, reg_ResolveVersion = ResolveVersion r\<rparr>"

section \<open>Deleting and loading\<close>

definition below :: "path \<Rightarrow> path \<Rightarrow> bool" where "below dir p \<longleftrightarrow> take (length dir) p = dir"

text \<open>A removal that fails has removed some of the files.\<close>

definition DeleteArtifact :: "FsRegistry \<Rightarrow> string \<Rightarrow> (error \<times> path list) option \<Rightarrow> error option \<times> FsRegistry" where
  "DeleteArtifact r artifact rm =
     (let dir = Join (fr_dir r) [artifact]
      in case rm of
           Some (e, gone) \<Rightarrow>
             (Some (Errorf (''fs registry: delete artifact '' @ go_quote artifact @ '': '' @ error_text e)),
              r\<lparr>fr_files := filter (\<lambda>(p, c). \<not> (below dir p \<and> p \<in> set gone)) (fr_files r)\<rparr>)
         | None \<Rightarrow>
             (None, r\<lparr>fr_files := filter (\<lambda>(p, c). \<not> below dir p) (fr_files r), fr_versions := AList.delete artifact (fr_versions r)\<rparr>))"

text \<open>The names of the directories in a directory, in the order \<^verbatim>\<open>os.ReadDir\<close> gives.\<close>

fun name_less :: "string \<Rightarrow> string \<Rightarrow> bool" where
  "name_less a [] \<longleftrightarrow> False"
| "name_less [] (b # bs) \<longleftrightarrow> True"
| "name_less (a # as) (b # bs) \<longleftrightarrow> (of_char a :: nat) < of_char b \<or> a = b \<and> name_less as bs"

definition ReadDir :: "(path, file_content) gomap \<Rightarrow> path \<Rightarrow> string list" where
  "ReadDir fs dir =
     sort_slice name_less (remdups (map (\<lambda>(p, c). p ! length dir) (filter (\<lambda>(p, c). below dir p \<and> length dir + 1 < length p) fs)))"

definition readMeta :: "FsRegistry \<Rightarrow> string \<Rightarrow> string \<Rightarrow> ArtifactVersion option" where
  "readMeta r artifact version =
     (case map_of (fr_files r) (metaPath r artifact version) of Some (MetaFile v) \<Rightarrow> Some v | _ \<Rightarrow> None)"

definition load_artifact :: "FsRegistry \<Rightarrow> string \<Rightarrow> FsRegistry" where
  "load_artifact r artifact =
     (let metas = List.map_filter (readMeta r artifact) (ReadDir (fr_files r) (Join (fr_dir r) [artifact]))
      in if metas = [] then r
         else r\<lparr>fr_versions := AList.update artifact (newest_first (versions_of r artifact @ metas)) (fr_versions r)\<rparr>)"

fun load_artifacts :: "(string \<Rightarrow> error option) \<Rightarrow> FsRegistry \<Rightarrow> string list \<Rightarrow> error option \<times> FsRegistry" where
  "load_artifacts ls r [] = (None, r)"
| "load_artifacts ls r (a # as) =
     (case ls a of
        Some e \<Rightarrow> (Some (Errorf (''fs registry: read artifact dir '' @ go_quote a @ '': '' @ error_text e)), r)
      | None \<Rightarrow> load_artifacts ls (load_artifact r a) as)"

definition loadAll :: "error option \<Rightarrow> (string \<Rightarrow> error option) \<Rightarrow> FsRegistry \<Rightarrow> error option \<times> FsRegistry" where
  "loadAll rootErr ls r =
     (case rootErr of
        Some e \<Rightarrow> (Some (Errorf (''fs registry: read dir: '' @ error_text e)), r)
      | None \<Rightarrow> load_artifacts ls r (ReadDir (fr_files r) (fr_dir r)))"

text \<open>The disk may refuse to make the directory, to list it and to list those in it.\<close>

record dir_faults =
  df_mkdir :: "error option"
  df_root :: "error option"
  df_ls :: "string \<Rightarrow> error option"

definition NewFsRegistry :: "path \<Rightarrow> string \<Rightarrow> (path, file_content) gomap \<Rightarrow> dir_faults \<Rightarrow> FsRegistry res" where
  "NewFsRegistry dir baseURL files df =
     (case df_mkdir df of
        Some e \<Rightarrow> Inl (Errorf (''fs registry: create dir: '' @ error_text e))
      | None \<Rightarrow>
          (case loadAll (df_root df) (df_ls df)
                  \<lparr>fr_dir = dir, fr_baseURL = rev (dropWhile (\<lambda>c. c = CHR ''/'') (rev baseURL)), fr_versions = [], fr_files = files\<rparr> of
             (Some e, r) \<Rightarrow> Inl e
           | (None, r) \<Rightarrow> Inr r))"

section \<open>Seeding\<close>

record SeedEntry =
  se_Name :: string
  se_Version :: string
  se_PreRelease :: bool
  se_Binaries :: "(string, string) gomap"
  se_Dependencies :: "(string, string list) gomap"

fun open_seeds :: "(string \<Rightarrow> upload res) \<Rightarrow> (string, string) gomap \<Rightarrow> (string, upload) gomap res" where
  "open_seeds opn [] = Inr []"
| "open_seeds opn ((key, file) # fs) =
     and_then (opn file) (\<lambda>up. and_then (open_seeds opn fs) (\<lambda>bs. Inr ((key, up) # bs)))"

definition seedOne ::
  "('r \<Rightarrow> ArtifactVersion \<Rightarrow> (string, upload) gomap \<Rightarrow> error option \<times> 'r) \<Rightarrow> (string \<Rightarrow> upload res) \<Rightarrow> time \<Rightarrow> 'r \<Rightarrow> SeedEntry \<Rightarrow>
   error option \<times> 'r" where
  "seedOne publish opn now r e =
     (case open_seeds opn (se_Binaries e) of
        Inl err \<Rightarrow> (Some (Errorf (''seed '' @ go_quote (se_Name e) @ '' '' @ se_Version e @ '': open: '' @ error_text err)), r)
      | Inr binaries \<Rightarrow>
          (let v = \<lparr>av_Artifact = se_Name e, av_Version = se_Version e, av_PreRelease = se_PreRelease e, av_PublishedAt = now,
                    av_Platforms = [], av_PlatformDeps = se_Dependencies e\<rparr>
           in case publish r v binaries of
                (None, r1) \<Rightarrow> (None, r1)
              | (Some err, r1) \<Rightarrow>
                  if err = ErrAlreadyExists then (None, r1)
                  else (Some (Errorf (''seed '' @ go_quote (se_Name e) @ '' '' @ se_Version e @ '': '' @ error_text err)), r1)))"

fun Seed ::
  "('r \<Rightarrow> ArtifactVersion \<Rightarrow> (string, upload) gomap \<Rightarrow> error option \<times> 'r) \<Rightarrow> (string \<Rightarrow> upload res) \<Rightarrow> time \<Rightarrow> 'r \<Rightarrow> SeedEntry list \<Rightarrow>
   error option \<times> 'r" where
  "Seed publish opn now r [] = (None, r)"
| "Seed publish opn now r (e # es) =
     (case seedOne publish opn now r e of (Some err, r1) \<Rightarrow> (Some err, r1) | (None, r1) \<Rightarrow> Seed publish opn now r1 es)"

end
