(* ===== verification/Registry_Safety.thy ===== *)
theory Registry_Safety
  imports Artifact_Registry
begin

text \<open>
  What the registry keeps: every platform it lists has its binary on the disk with the recorded hash and
  size, platforms are listed once, and metadata on the disk describes binaries that are there. From it
  follow the immutability of what is published and what a restart finds.
\<close>

section \<open>The invariant\<close>

definition bin_at :: "FsRegistry \<Rightarrow> ArtifactPlatform \<Rightarrow> path" where
  "bin_at r p = fr_dir r @ [apArtifact p, apVersion p, apOS p, apArch p, ''binary'']"

definition stored_platform :: "(bytes \<Rightarrow> string) \<Rightarrow> FsRegistry \<Rightarrow> ArtifactPlatform \<Rightarrow> bool" where
  "stored_platform sha r p \<longleftrightarrow>
     (\<exists>body. map_of (fr_files r) (bin_at r p) = Some (BinaryFile body) \<and> apHash p = sha body \<and> apSize p = int (length body))"

definition platform_ok :: "(bytes \<Rightarrow> string) \<Rightarrow> FsRegistry \<Rightarrow> string \<Rightarrow> string \<Rightarrow> ArtifactPlatform \<Rightarrow> bool" where
  "platform_ok sha r a ver p \<longleftrightarrow>
     apArtifact p = a \<and> apVersion p = ver \<and> plain_name (apOS p) \<and> plain_name (apArch p) \<and> stored_platform sha r p"

definition plat_key :: "ArtifactPlatform \<Rightarrow> string \<times> string \<times> string" where
  "plat_key p = (apVersion p, apOS p, apArch p)"

definition version_ok :: "(bytes \<Rightarrow> string) \<Rightarrow> FsRegistry \<Rightarrow> string \<Rightarrow> ArtifactVersion \<Rightarrow> bool" where
  "version_ok sha r a v \<longleftrightarrow>
     av_Artifact v = a \<and> plain_name a \<and> plain_name (av_Version v) \<and>
     (\<forall>p \<in> set (av_Platforms v). platform_ok sha r a (av_Version v) p)"

definition keys_of :: "ArtifactVersion list \<Rightarrow> (string \<times> string \<times> string) list" where
  "keys_of vs = map plat_key (concat (map av_Platforms vs))"

definition index_ok :: "(bytes \<Rightarrow> string) \<Rightarrow> FsRegistry \<Rightarrow> string \<Rightarrow> ArtifactVersion list \<Rightarrow> bool" where
  "index_ok sha r a vs \<longleftrightarrow> (\<forall>v \<in> set vs. version_ok sha r a v) \<and> distinct (keys_of vs)"

definition metas_ok :: "(bytes \<Rightarrow> string) \<Rightarrow> FsRegistry \<Rightarrow> bool" where
  "metas_ok sha r \<longleftrightarrow>
     (\<forall>a ver v. map_of (fr_files r) (fr_dir r @ [a, ver, ''meta.json'']) = Some (MetaFile v) \<longrightarrow>
        version_ok sha r a v \<and> av_Version v = ver \<and> distinct (map plat_key (av_Platforms v)))"

definition names_ok :: "FsRegistry \<Rightarrow> bool" where
  "names_ok r \<longleftrightarrow> (\<forall>x \<in> set (fr_files r). list_all plain_name (fst x))"

definition reg_inv :: "(bytes \<Rightarrow> string) \<Rightarrow> FsRegistry \<Rightarrow> bool" where
  "reg_inv sha r \<longleftrightarrow>
     keys_distinct (fr_versions r) \<and> keys_distinct (fr_files r) \<and> names_ok r \<and> list_all plain_name (fr_dir r) \<and>
     (\<forall>a. index_ok sha r a (versions_of r a)) \<and> metas_ok sha r"

lemma binaryPath_plain:
  "plain_name a \<Longrightarrow> plain_name v \<Longrightarrow> plain_name os \<Longrightarrow> plain_name arch \<Longrightarrow>
   binaryPath r a v os arch = fr_dir r @ [a, v, os, arch, ''binary'']"
  unfolding binaryPath_def by (rule Join_plain) (simp add: plain_name_def)

lemma metaPath_plain: "plain_name a \<Longrightarrow> plain_name v \<Longrightarrow> metaPath r a v = fr_dir r @ [a, v, ''meta.json'']"
  unfolding metaPath_def by (rule Join_plain) (simp add: plain_name_def)

text \<open>More binaries on the disk do not disturb it.\<close>

definition grows :: "FsRegistry \<Rightarrow> FsRegistry \<Rightarrow> bool" where
  "grows r r' \<longleftrightarrow>
     fr_dir r' = fr_dir r \<and> fr_baseURL r' = fr_baseURL r \<and> fr_versions r' = fr_versions r \<and>
     keys_distinct (fr_files r') \<and> names_ok r' \<and>
     (\<forall>p c. map_of (fr_files r) p = Some c \<longrightarrow> map_of (fr_files r') p = Some c) \<and>
     (\<forall>a ver. map_of (fr_files r') (fr_dir r @ [a, ver, ''meta.json'']) = map_of (fr_files r) (fr_dir r @ [a, ver, ''meta.json'']))"

lemma grows_refl: "reg_inv sha r \<Longrightarrow> grows r r" by (simp add: grows_def reg_inv_def)

lemma grows_trans: "grows r r' \<Longrightarrow> grows r' r'' \<Longrightarrow> grows r r''" by (simp add: grows_def)

lemma grows_stored: "grows r r' \<Longrightarrow> stored_platform sha r p \<Longrightarrow> stored_platform sha r' p"
  by (auto simp: grows_def stored_platform_def bin_at_def)

lemma grows_version: "grows r r' \<Longrightarrow> version_ok sha r a v \<Longrightarrow> version_ok sha r' a v"
  using grows_stored by (auto simp: version_ok_def platform_ok_def)

lemma grows_inv: "reg_inv sha r \<Longrightarrow> grows r r' \<Longrightarrow> reg_inv sha r'"
proof -
  assume inv: "reg_inv sha r" and g: "grows r r'"
  have "index_ok sha r' a (versions_of r' a)" for a
    using inv g grows_version [OF g] by (auto simp: reg_inv_def index_ok_def versions_of_def grows_def)
  moreover have "metas_ok sha r'"
    using inv g grows_version [OF g] unfolding reg_inv_def metas_ok_def grows_def by simp
  ultimately show ?thesis using inv g by (simp add: reg_inv_def grows_def)
qed

section \<open>Publishing\<close>

text \<open>The names an upload uses are single elements of a path.\<close>

definition plain_upload :: "ArtifactVersion \<Rightarrow> (string, upload) gomap \<Rightarrow> bool" where
  "plain_upload v bs \<longleftrightarrow>
     plain_name (av_Artifact v) \<and> plain_name (av_Version v) \<and>
     (\<forall>x \<in> set bs. \<forall>os arch. splitPlatformKey (fst x) = Inr (os, arch) \<longrightarrow> plain_name os \<and> plain_name arch)"

definition describes :: "(bytes \<Rightarrow> string) \<Rightarrow> ArtifactVersion \<Rightarrow> string \<times> upload \<Rightarrow> ArtifactPlatform \<Rightarrow> bool" where
  "describes sha v x p \<longleftrightarrow>
     splitPlatformKey (fst x) = Inr (apOS p, apArch p) \<and> apArtifact p = av_Artifact v \<and> apVersion p = av_Version v \<and>
     (\<exists>body. up_body (snd x) = Inr body \<and> apHash p = sha body \<and> apSize p = int (length body)) \<and>
     apDependencies p = platformDeps v (fst x)"

lemma publish_one_error: "publish_one sha r v key up = (Inl e, r1) \<Longrightarrow> r1 = r"
  by (auto simp: publish_one_def Let_def split: sum.splits option.splits if_splits)

lemma publish_one_new:
  assumes "publish_one sha r v key up = (Inr p, r1)"
  obtains os arch body where "splitPlatformKey key = Inr (os, arch)" "up_body up = Inr body"
    "map_of (fr_files r) (binaryPath r (av_Artifact v) (av_Version v) os arch) = None"
    "p = \<lparr>apArtifact = av_Artifact v, apVersion = av_Version v, apOS = os, apArch = arch, apHash = sha body,
          apSize = int (length body), apDependencies = platformDeps v key, apURL = []\<rparr>"
    "r1 = r\<lparr>fr_files := AList.update (binaryPath r (av_Artifact v) (av_Version v) os arch) (BinaryFile body) (fr_files r)\<rparr>"
proof -
  obtain os arch where k: "splitPlatformKey key = Inr (os, arch)"
    using assms by (cases "splitPlatformKey key") (auto simp: publish_one_def)
  obtain body where b: "up_body up = Inr body"
    using assms k by (cases "up_body up") (auto simp: publish_one_def Let_def split: option.splits if_splits)
  show ?thesis
    by (rule that [OF k b]) (use assms in \<open>simp_all add: publish_one_def k b Let_def split: option.splits if_splits\<close>)
qed

lemma file_grows:
  assumes inv: "reg_inv sha r" and pn: "list_all plain_name ns" "length ns = 5" and new: "map_of (fr_files r) (fr_dir r @ ns) = None"
  shows "grows r (r\<lparr>fr_files := AList.update (fr_dir r @ ns) c (fr_files r)\<rparr>)"
proof -
  have "list_all plain_name (fst x)" if "x \<in> set (AList.update (fr_dir r @ ns) c (fr_files r))" for x
    using subsetD [OF set_update_subset that] inv pn(1) by (auto simp: reg_inv_def names_ok_def)
  moreover have "fr_dir r @ ns \<noteq> fr_dir r @ [a, ver, ''meta.json'']" for a ver using pn(2) by auto
  ultimately show ?thesis using inv new by (auto simp: grows_def names_ok_def reg_inv_def)
qed

lemma publish_one_grows:
  assumes inv: "reg_inv sha r" and one: "publish_one sha r v key up = (Inr p, r1)" and pl: "plain_upload v [(key, up)]"
  shows "grows r r1" "describes sha v (key, up) p" "platform_ok sha r1 (av_Artifact v) (av_Version v) p"
    "map_of (fr_files r) (bin_at r p) = None"
proof -
  from one obtain os arch body where new: "splitPlatformKey key = Inr (os, arch)" "up_body up = Inr body"
    "map_of (fr_files r) (binaryPath r (av_Artifact v) (av_Version v) os arch) = None"
    and p: "p = \<lparr>apArtifact = av_Artifact v, apVersion = av_Version v, apOS = os, apArch = arch, apHash = sha body,
          apSize = int (length body), apDependencies = platformDeps v key, apURL = []\<rparr>"
    and r1: "r1 = r\<lparr>fr_files := AList.update (binaryPath r (av_Artifact v) (av_Version v) os arch) (BinaryFile body) (fr_files r)\<rparr>" by (rule publish_one_new)
  have pn: "plain_name (av_Artifact v)" "plain_name (av_Version v)" "plain_name os" "plain_name arch"
    using pl new(1) by (auto simp: plain_upload_def)
  note path = binaryPath_plain [OF pn, of r]
  have "plain_name ''binary''" by (simp add: plain_name_def)
  then show "grows r r1"
    unfolding r1 path by (intro file_grows [OF inv]) (use pn new(3) path in simp_all)
  show "describes sha v (key, up) p" "platform_ok sha r1 (av_Artifact v) (av_Version v) p" "map_of (fr_files r) (bin_at r p) = None"
    using new pn by (simp_all add: p r1 describes_def platform_ok_def stored_platform_def bin_at_def path)
qed

text \<open>All binaries of an upload: what was written stays when a later one fails.\<close>

definition published :: "(bytes \<Rightarrow> string) \<Rightarrow> FsRegistry \<Rightarrow> FsRegistry \<Rightarrow> ArtifactVersion \<Rightarrow> ArtifactPlatform list \<Rightarrow> bool" where
  "published sha r r1 v ps \<longleftrightarrow>
     (\<forall>p \<in> set ps. platform_ok sha r1 (av_Artifact v) (av_Version v) p \<and> map_of (fr_files r) (bin_at r p) = None) \<and>
     distinct (map plat_key ps)"

lemma publish_files_grows:
  assumes "reg_inv sha r0" "grows r0 r" "publish_files sha r v bs ps = (res, r1)" "plain_upload v bs" "published sha r0 r v ps"
  shows "grows r0 r1 \<and> (\<forall>qs. res = Inr qs \<longrightarrow> published sha r0 r1 v qs \<and> set ps \<subseteq> set qs \<and>
           (\<forall>x \<in> set bs. \<exists>p \<in> set qs. describes sha v x p))"
  using assms(2-5)
proof (induction bs arbitrary: r ps)
  case Nil
  then show ?case by auto
next
  case (Cons x bs)
  obtain key up where x: "x = (key, up)" by fastforce
  have inv: "reg_inv sha r" using grows_inv [OF assms(1) Cons.prems(1)] .
  have pl: "plain_upload v [(key, up)]" "plain_upload v bs" using Cons.prems(3) x by (auto simp: plain_upload_def)
  obtain q r2 where q: "publish_one sha r v key up = (q, r2)" by fastforce
  show ?case
  proof (cases q)
    case (Inl e)
    then show ?thesis using Cons.prems(1,2) q x publish_one_error [of sha r v key up e r2] by auto
  next
    case (Inr p)
    note one = publish_one_grows [OF inv q [unfolded Inr] pl(1)]
    have g: "grows r0 r2" using grows_trans [OF Cons.prems(1) one(1)] .
    have dirs: "fr_dir r = fr_dir r0" using Cons.prems(1) by (simp add: grows_def)
    have new: "map_of (fr_files r0) (bin_at r0 p) = None"
      using one(4) Cons.prems(1) by (cases "map_of (fr_files r0) (bin_at r0 p)") (auto simp: grows_def bin_at_def)
    have "plat_key p \<notin> plat_key ` set ps"
    proof
      assume "plat_key p \<in> plat_key ` set ps"
      then obtain p' where p': "p' \<in> set ps" "plat_key p' = plat_key p" by auto
      then have "stored_platform sha r p'" "apArtifact p' = apArtifact p"
        using Cons.prems(4) one(3) by (auto simp: published_def platform_ok_def)
      then show False using p'(2) one(4) by (auto simp: stored_platform_def bin_at_def plat_key_def)
    qed
    then have "published sha r0 r2 v (ps @ [p])"
      using Cons.prems(4) one(3) new grows_stored [OF one(1)] by (auto simp: published_def platform_ok_def)
    moreover have "publish_files sha r2 v bs (ps @ [p]) = (res, r1)" using Cons.prems(2) q Inr x by simp
    ultimately show ?thesis using Cons.IH [OF g _ pl(2), of "ps @ [p]"] one(2) x by auto
  qed
qed

section \<open>Steps that keep the invariant\<close>

lemma keys_of_mset: "mset (keys_of vs) = (\<Sum>v \<in># mset vs. mset (map plat_key (av_Platforms v)))"
  by (induction vs) (auto simp: keys_of_def)

lemma keys_of_newest_first: "distinct (keys_of (newest_first vs)) \<longleftrightarrow> distinct (keys_of vs)"
  by (rule mset_eq_imp_distinct_iff) (simp add: keys_of_mset newest_first_def)

lemma set_newest_first [simp]: "set (newest_first vs) = set vs" by (simp add: newest_first_def)

definition platforms :: "FsRegistry \<Rightarrow> string \<Rightarrow> ArtifactPlatform set" where
  "platforms r a = set (concat (map av_Platforms (versions_of r a)))"

lemma versions_of_update:
  "versions_of (r\<lparr>fr_versions := AList.update a vs (fr_versions r)\<rparr>) b = (if b = a then vs else versions_of r b)"
  by (simp add: versions_of_def)

lemma version_ok_cong:
  assumes "version_ok sha r a v" "fr_dir r' = fr_dir r" "\<And>b. map_of (fr_files r) (fr_dir r @ b) = None \<or> length b \<noteq> 5 \<or>
      map_of (fr_files r') (fr_dir r @ b) = map_of (fr_files r) (fr_dir r @ b)"
  shows "version_ok sha r' a v"
proof -
  have "stored_platform sha r' p" if "stored_platform sha r p" for p
    using that assms(3) [of "[apArtifact p, apVersion p, apOS p, apArch p, ''binary'']"] assms(2)
    by (auto simp: stored_platform_def bin_at_def)
  then show ?thesis using assms(1) by (auto simp: version_ok_def platform_ok_def)
qed

lemma index_inv:
  assumes inv: "reg_inv sha r" and v: "\<forall>v \<in> set vs. version_ok sha r a v" "distinct (keys_of vs)"
  shows "reg_inv sha (r\<lparr>fr_versions := AList.update a (newest_first vs) (fr_versions r)\<rparr>)"
proof -
  let ?r = "r\<lparr>fr_versions := AList.update a (newest_first vs) (fr_versions r)\<rparr>"
  have ok: "version_ok sha ?r b w \<longleftrightarrow> version_ok sha r b w" for b w
    by (simp add: version_ok_def platform_ok_def stored_platform_def bin_at_def)
  have "index_ok sha ?r b (versions_of ?r b)" for b
    using inv v by (auto simp: index_ok_def versions_of_update ok keys_of_newest_first reg_inv_def)
  moreover have "metas_ok sha ?r" using inv by (simp add: reg_inv_def metas_ok_def ok)
  ultimately show ?thesis using inv by (simp add: reg_inv_def names_ok_def)
qed

lemma meta_inv:
  assumes inv: "reg_inv sha r" and pn: "plain_name a" "plain_name ver"
    and c: "c = TornFile \<or> (\<exists>v. c = MetaFile v \<and> version_ok sha r a v \<and> av_Version v = ver \<and> distinct (map plat_key (av_Platforms v)))"
  shows "reg_inv sha (r\<lparr>fr_files := AList.update (fr_dir r @ [a, ver, ''meta.json'']) c (fr_files r)\<rparr>)"
proof -
  let ?r = "r\<lparr>fr_files := AList.update (fr_dir r @ [a, ver, ''meta.json'']) c (fr_files r)\<rparr>"
  have ok: "version_ok sha ?r b w" if "version_ok sha r b w" for b w
    by (rule version_ok_cong [OF that]) auto
  have "list_all plain_name (fst x)" if "x \<in> set (fr_files ?r)" for x
  proof -
    have "x = (fr_dir r @ [a, ver, ''meta.json''], c) \<or> x \<in> set (fr_files r)" using subsetD [OF set_update_subset] that by fastforce
    then show ?thesis using inv pn by (auto simp: reg_inv_def names_ok_def) (simp add: plain_name_def)
  qed
  moreover have "index_ok sha ?r b (versions_of ?r b)" for b
    using inv ok by (auto simp: index_ok_def versions_of_def reg_inv_def)
  moreover have "metas_ok sha ?r"
    using inv c ok by (auto simp: metas_ok_def reg_inv_def)
  ultimately show ?thesis using inv by (simp add: reg_inv_def names_ok_def)
qed

lemma platform_find:
  assumes "index_ok sha r a (versions_of r a)"
  shows "findPlatformLocked r a ver os arch = Some p \<longleftrightarrow> p \<in> platforms r a \<and> plat_key p = (ver, os, arch)"
proof -
  let ?ps = "concat (map av_Platforms (versions_of r a))"
  have "\<forall>v \<in> set vs. version_ok sha r a v \<Longrightarrow>
      concat (map av_Platforms (filter (\<lambda>v. av_Version v = ver) vs)) = filter (\<lambda>p. apVersion p = ver) (concat (map av_Platforms vs))" for vs
    by (induction vs) (auto simp: version_ok_def platform_ok_def intro!: filter_True [symmetric] filter_False [symmetric])
  then have *: "findPlatformLocked r a ver os arch = find (\<lambda>p. apOS p = os \<and> apArch p = arch) (filter (\<lambda>p. apVersion p = ver) ?ps)"
    using assms by (simp add: findPlatformLocked_def platform_in_def index_ok_def)
  have find: "find (\<lambda>p. apOS p = os \<and> apArch p = arch) (filter (\<lambda>p. apVersion p = ver) xs) = Some p \<longleftrightarrow>
      p \<in> set xs \<and> plat_key p = (ver, os, arch)" if "distinct (map plat_key xs)" for xs
    using that by (induction xs) (auto simp: plat_key_def)
  show ?thesis using assms unfolding * index_ok_def keys_of_def platforms_def by (intro find) simp
qed

text \<open>Writing the metadata and entering a version whose binaries are on the disk.\<close>

definition uploaded :: "(bytes \<Rightarrow> string) \<Rightarrow> FsRegistry \<Rightarrow> FsRegistry \<Rightarrow> ArtifactVersion \<Rightarrow> bool" where
  "uploaded sha r r1 v \<longleftrightarrow>
     grows r r1 \<and> published sha r r1 v (av_Platforms v) \<and> plain_name (av_Artifact v) \<and> plain_name (av_Version v)"

lemma uploaded_ok: "uploaded sha r r1 v \<Longrightarrow> version_ok sha r1 (av_Artifact v) v"
  by (auto simp: uploaded_def version_ok_def published_def)

lemma writeMeta_keeps:
  assumes inv: "reg_inv sha r" and up: "uploaded sha r r1 v" and wr: "writeMeta r1 v wr = (e, r2)"
  shows "reg_inv sha r2 \<and> fr_dir r2 = fr_dir r \<and> fr_baseURL r2 = fr_baseURL r \<and> fr_versions r2 = fr_versions r \<and>
         (\<forall>a w. version_ok sha r1 a w \<longrightarrow> version_ok sha r2 a w)"
proof -
  have inv1: "reg_inv sha r1" using up grows_inv [OF inv] by (simp add: uploaded_def)
  have path: "metaPath r1 (av_Artifact v) (av_Version v) = fr_dir r1 @ [av_Artifact v, av_Version v, ''meta.json'']"
    using up metaPath_plain by (simp add: uploaded_def)
  have "version_ok sha r1 (av_Artifact v) (meta_of v)" "distinct (map plat_key (av_Platforms v))"
    using uploaded_ok [OF up] up by (simp_all add: meta_of_def version_ok_def uploaded_def published_def)
  then have "reg_inv sha r2"
    using wr inv1 meta_inv [OF inv1, of "av_Artifact v" "av_Version v"] up
    by (auto simp: writeMeta_def path meta_of_def Let_def uploaded_def split: meta_write.splits)
  moreover have "version_ok sha r2 a w" if "version_ok sha r1 a w" for a w
    by (rule version_ok_cong [OF that]) (use wr in \<open>auto simp: writeMeta_def path Let_def split: meta_write.splits if_splits\<close>)
  ultimately show ?thesis
    using wr up by (auto simp: writeMeta_def Let_def uploaded_def grows_def split: meta_write.splits)
qed

lemma uploaded_fresh:
  assumes inv: "reg_inv sha r" and up: "uploaded sha r r1 v"
  shows "distinct (keys_of (versions_of r (av_Artifact v) @ [v]))"
proof -
  have ok: "index_ok sha r (av_Artifact v) (versions_of r (av_Artifact v))" using inv by (simp add: reg_inv_def)
  have "plat_key q \<noteq> plat_key p" if q: "q \<in> platforms r (av_Artifact v)" and p: "p \<in> set (av_Platforms v)" for p q
  proof
    assume k: "plat_key q = plat_key p"
    from q ok have "stored_platform sha r q" "apArtifact q = av_Artifact v"
      by (auto simp: platforms_def index_ok_def version_ok_def platform_ok_def)
    moreover have "map_of (fr_files r) (bin_at r p) = None" "apArtifact p = av_Artifact v"
      using p up by (auto simp: uploaded_def published_def platform_ok_def)
    ultimately show False using k by (auto simp: stored_platform_def bin_at_def plat_key_def)
  qed
  then have "plat_key ` platforms r (av_Artifact v) \<inter> plat_key ` set (av_Platforms v) = {}" by blast
  then have "set (keys_of (versions_of r (av_Artifact v))) \<inter> set (map plat_key (av_Platforms v)) = {}"
    by (simp add: keys_of_def platforms_def)
  then show ?thesis using ok up by (simp add: index_ok_def uploaded_def published_def keys_of_def)
qed

lemma commit_keeps:
  assumes inv: "reg_inv sha r" and up: "uploaded sha r r1 v" and wr: "writeMeta r1 v wr = (None, r2)"
  defines "r' \<equiv> r2\<lparr>fr_versions := AList.update (av_Artifact v) (newest_first (versions_of r2 (av_Artifact v) @ [v])) (fr_versions r2)\<rparr>"
  shows "reg_inv sha r'" "platforms r' a = platforms r a \<union> (if a = av_Artifact v then set (av_Platforms v) else {})"
proof -
  note w = writeMeta_keeps [OF inv up wr]
  have vs: "versions_of r2 a = versions_of r a" for a using w by (simp add: versions_of_def)
  have "\<forall>u \<in> set (versions_of r2 (av_Artifact v) @ [v]). version_ok sha r2 (av_Artifact v) u"
  proof
    fix u assume "u \<in> set (versions_of r2 (av_Artifact v) @ [v])"
    then have "version_ok sha r1 (av_Artifact v) u"
      using inv uploaded_ok [OF up] grows_version [of r r1] up by (auto simp: vs reg_inv_def index_ok_def uploaded_def)
    then show "version_ok sha r2 (av_Artifact v) u" using w by blast
  qed
  then show "reg_inv sha r'"
    unfolding r'_def using w uploaded_fresh [OF inv up] by (intro index_inv) (simp_all add: vs)
  show "platforms r' a = platforms r a \<union> (if a = av_Artifact v then set (av_Platforms v) else {})"
    by (auto simp: platforms_def r'_def versions_of_update vs)
qed

text \<open>The version of a publication that gets as far as the metadata.\<close>

definition dated :: "ArtifactVersion \<Rightarrow> time \<Rightarrow> ArtifactPlatform list \<Rightarrow> ArtifactVersion" where
  "dated v now ps = v\<lparr>av_Platforms := ps, av_PublishedAt := (if av_PublishedAt v = 0 then now else av_PublishedAt v)\<rparr>"

lemma dated_simps [simp]:
  "av_Artifact (dated v now ps) = av_Artifact v" "av_Version (dated v now ps) = av_Version v" "av_Platforms (dated v now ps) = ps"
  by (simp_all add: dated_def)

lemma Publish_cases:
  assumes inv: "reg_inv sha r" and pl: "plain_upload v bs" and pub: "Publish sha r v bs wr now = (e, r')"
  obtains "e \<noteq> None" "grows r r'"
  | r1 ps r2 where "uploaded sha r r1 (dated v now ps)" "\<forall>x \<in> set bs. \<exists>p \<in> set ps. describes sha v x p"
      "writeMeta r1 (dated v now ps) wr = (e, r2)"
      "r' = (if e = None then r2\<lparr>fr_versions := AList.update (av_Artifact v)
                                  (newest_first (versions_of r2 (av_Artifact v) @ [dated v now ps])) (fr_versions r2)\<rparr> else r2)"
proof (cases "publish_check r v (map fst bs)")
  case (Some x)
  have "e = Some x" "r' = r" using pub by (simp_all add: Publish_def Some)
  then show ?thesis using that(1) grows_refl [OF inv] by simp
next
  case check: None
  obtain res r1 where files: "publish_files sha r v bs [] = (res, r1)" by fastforce
  have "published sha r r v []" by (simp add: published_def)
  note g = publish_files_grows [OF inv grows_refl [OF inv] files pl this]
  show ?thesis
  proof (cases res)
    case (Inl x)
    show ?thesis by (rule that(1)) (use Inl pub g in \<open>auto simp: Publish_def check files\<close>)
  next
    case (Inr ps)
    obtain e2 r2 where wr: "writeMeta r1 (dated v now ps) wr = (e2, r2)" by fastforce
    have "uploaded sha r r1 (dated v now ps)" "\<forall>x \<in> set bs. \<exists>p \<in> set ps. describes sha v x p"
      using g pl Inr by (auto simp: uploaded_def dated_def published_def plain_upload_def)
    moreover have "(case e2 of None \<Rightarrow> (None, r2\<lparr>fr_versions := AList.update (av_Artifact v)
                       (newest_first (versions_of r2 (av_Artifact v) @ [dated v now ps])) (fr_versions r2)\<rparr>) | Some x \<Rightarrow> (Some x, r2)) = (e, r')"
      using pub unfolding Publish_def check files Inr option.case sum.case prod.case Let_def dated_def [symmetric] wr dated_simps .
    ultimately show ?thesis using wr by (intro that(2) [of r1 ps r2]) (auto split: option.splits)
  qed
qed

lemma Publish_keeps:
  assumes inv: "reg_inv sha r" and pl: "plain_upload v bs" and pub: "Publish sha r v bs wr now = (e, r')"
  shows "reg_inv sha r' \<and> fr_dir r' = fr_dir r \<and> fr_baseURL r' = fr_baseURL r \<and> (\<forall>a. platforms r a \<subseteq> platforms r' a) \<and>
         (e = None \<longrightarrow> (\<forall>x \<in> set bs. \<exists>p \<in> platforms r' (av_Artifact v). describes sha v x p))"
  using assms
proof (rule Publish_cases)
  assume e: "e \<noteq> None" and g: "grows r r'"
  show ?thesis using e g grows_inv [OF inv g] by (auto simp: grows_def platforms_def versions_of_def)
next
  fix r1 ps r2
  assume up: "uploaded sha r r1 (dated v now ps)" and ps: "\<forall>x \<in> set bs. \<exists>p \<in> set ps. describes sha v x p"
    and wr: "writeMeta r1 (dated v now ps) wr = (e, r2)"
    and r': "r' = (if e = None then r2\<lparr>fr_versions := AList.update (av_Artifact v)
                      (newest_first (versions_of r2 (av_Artifact v) @ [dated v now ps])) (fr_versions r2)\<rparr> else r2)"
  note w = writeMeta_keeps [OF inv up wr]
  show ?thesis
  proof (cases e)
    case (Some x)
    then show ?thesis using w r' by (simp add: platforms_def versions_of_def)
  next
    case None
    then show ?thesis using commit_keeps [OF inv up wr [unfolded None]] w r' ps by auto
  qed
qed

text \<open>Deleting an artifact and listing its versions.\<close>

lemma below_iff: "below (d @ [a]) (d @ b # xs) \<longleftrightarrow> b = a"
  by (auto simp: below_def)

lemma Delete_keeps:
  assumes inv: "reg_inv sha r" and pn: "plain_name a" and del: "DeleteArtifact r a None = (e, r')"
  shows "reg_inv sha r' \<and> fr_dir r' = fr_dir r \<and> (\<forall>b. platforms r' b = (if b = a then {} else platforms r b))"
proof -
  have dir: "Join (fr_dir r) [a] = fr_dir r @ [a]" using pn by (intro Join_plain) simp
  have r': "r' = r\<lparr>fr_files := filter (\<lambda>(p, c). \<not> below (fr_dir r @ [a]) p) (fr_files r), fr_versions := AList.delete a (fr_versions r)\<rparr>"
    using del by (simp add: DeleteArtifact_def dir)
  have mf: "map_of (filter (\<lambda>(p, c). \<not> below (fr_dir r @ [a]) p) fs) q = (if below (fr_dir r @ [a]) q then None else map_of fs q)"
    for fs :: "(path, file_content) gomap" and q by (induction fs) auto
  have vs: "versions_of r' b = (if b = a then [] else versions_of r b)" for b by (simp add: r' versions_of_def)
  have ok: "version_ok sha r' b w" if "version_ok sha r b w" "b \<noteq> a" for b w
  proof -
    have "stored_platform sha r' p" if "stored_platform sha r p" "apArtifact p = b" for p
      using that \<open>b \<noteq> a\<close> by (auto simp: stored_platform_def bin_at_def r' mf below_iff)
    then show ?thesis using that(1) by (auto simp: version_ok_def platform_ok_def)
  qed
  have "index_ok sha r' b (versions_of r' b)" for b
    using inv ok by (auto simp: vs index_ok_def reg_inv_def keys_of_def)
  moreover have "metas_ok sha r'"
    using inv ok by (auto simp: metas_ok_def reg_inv_def r' mf below_iff split: if_splits)
  moreover have "keys_distinct (fr_files r')" "names_ok r'"
    using inv by (auto simp: r' reg_inv_def names_ok_def keys_distinct_def distinct_map_filter)
  ultimately show ?thesis using inv by (auto simp: reg_inv_def r' platforms_def versions_of_def)
qed

lemma with_URLs_simps [simp]:
  "version_ok sha r a (with_URLs q v) \<longleftrightarrow> version_ok sha r a v" "keys_of (map (with_URLs q) vs) = keys_of vs"
proof -
  have k: "plat_key (withURL q p) = plat_key p" for p by (simp add: plat_key_def withURL_def)
  have o: "platform_ok sha r a ver (withURL q p) = platform_ok sha r a ver p" for ver p
    by (simp add: platform_ok_def stored_platform_def bin_at_def withURL_def)
  show "version_ok sha r a (with_URLs q v) \<longleftrightarrow> version_ok sha r a v" by (simp add: version_ok_def with_URLs_def o)
  show "keys_of (map (with_URLs q) vs) = keys_of vs"
    by (induction vs) (simp_all add: keys_of_def with_URLs_def k comp_def)
qed

lemma ListVersions_keeps:
  assumes inv: "reg_inv sha r" and ls: "ListVersions r a = (out, r')"
  shows "reg_inv sha r' \<and> fr_dir r' = fr_dir r \<and> fr_baseURL r' = fr_baseURL r \<and>
         (\<forall>b. platforms r' b = (if b = a then withURL r ` platforms r b else platforms r b))"
proof (cases "map_of (fr_versions r) a")
  case None
  then have "r' = r" "platforms r a = {}" using ls by (auto simp: ListVersions_def platforms_def versions_of_def)
  then show ?thesis using inv by auto
next
  case (Some vs)
  have r': "r' = r\<lparr>fr_versions := AList.update a (map (with_URLs r) vs) (fr_versions r)\<rparr>" using ls Some by (auto simp: ListVersions_def)
  have vs: "versions_of r a = vs" using Some by (simp add: versions_of_def)
  have ok: "version_ok sha r' b w \<longleftrightarrow> version_ok sha r b w" for b w
    by (simp add: r' version_ok_def platform_ok_def stored_platform_def bin_at_def)
  have "index_ok sha r' b (versions_of r' b)" for b
    using inv vs by (auto simp: r' versions_of_update index_ok_def reg_inv_def ok [unfolded r'])
  moreover have "metas_ok sha r'" using inv by (simp add: reg_inv_def metas_ok_def ok) (simp add: r')
  ultimately show ?thesis using inv
    by (auto simp: r' reg_inv_def names_ok_def platforms_def versions_of_update vs with_URLs_def)
qed

section \<open>Restarting\<close>

definition on_disk_versions :: "FsRegistry \<Rightarrow> string \<Rightarrow> ArtifactVersion set" where
  "on_disk_versions r a = {v. \<exists>ver. map_of (fr_files r) (fr_dir r @ [a, ver, ''meta.json'']) = Some (MetaFile v)}"

lemma ReadDir_mem:
  "x \<in> set (ReadDir fs dir) \<longleftrightarrow> (\<exists>p c. (p, c) \<in> set fs \<and> below dir p \<and> length dir + 1 < length p \<and> x = p ! length dir)"
  by (force simp: ReadDir_def)

lemma distinct_ReadDir: "distinct (ReadDir fs dir)" by (simp add: ReadDir_def)

lemma ReadDir_plain: "names_ok r \<Longrightarrow> x \<in> set (ReadDir (fr_files r) dir) \<Longrightarrow> plain_name x"
  by (fastforce simp: ReadDir_mem names_ok_def list_all_iff)

lemma ReadDir_meta:
  assumes "map_of fs (dir @ [a, ver, x]) = Some c"
  shows "a \<in> set (ReadDir fs dir)" "ver \<in> set (ReadDir fs (dir @ [a]))"
proof -
  from map_of_SomeD [OF assms] show "a \<in> set (ReadDir fs dir)" "ver \<in> set (ReadDir fs (dir @ [a]))"
    unfolding ReadDir_mem by (auto intro!: exI [of _ "dir @ [a, ver, x]"] exI [of _ c] simp: below_def nth_append)
qed

lemma readMeta_iff:
  assumes "plain_name a" "plain_name ver"
  shows "readMeta r a ver = Some v \<longleftrightarrow> map_of (fr_files r) (fr_dir r @ [a, ver, ''meta.json'']) = Some (MetaFile v)"
  by (auto simp: readMeta_def metaPath_plain [OF assms] split: option.splits file_content.splits)

lemma set_map_filter_iff: "y \<in> set (List.map_filter f xs) \<longleftrightarrow> (\<exists>x \<in> set xs. f x = Some y)"
  by (induction xs) (auto simp: List.map_filter_simps split: option.splits)

lemma metas_distinct:
  assumes "metas_ok sha r" "plain_name a" "distinct vers" "\<forall>x \<in> set vers. plain_name x"
  shows "distinct (keys_of (List.map_filter (readMeta r a) vers)) \<and> fst ` set (keys_of (List.map_filter (readMeta r a) vers)) \<subseteq> set vers"
  using assms(3,4)
proof (induction vers)
  case Nil
  then show ?case by (simp add: keys_of_def List.map_filter_simps)
next
  case (Cons ver vers)
  show ?case
  proof (cases "readMeta r a ver")
    case None
    then show ?thesis using Cons by (auto simp: List.map_filter_simps)
  next
    case (Some v)
    then have "map_of (fr_files r) (fr_dir r @ [a, ver, ''meta.json'']) = Some (MetaFile v)"
      using readMeta_iff [OF assms(2)] Cons.prems(2) by simp
    then have v: "version_ok sha r a v" "av_Version v = ver" "distinct (map plat_key (av_Platforms v))"
      using assms(1) by (auto simp: metas_ok_def)
    then have k: "fst ` plat_key ` set (av_Platforms v) \<subseteq> {ver}" by (auto simp: version_ok_def platform_ok_def plat_key_def)
    have split: "keys_of (List.map_filter (readMeta r a) (ver # vers)) =
        map plat_key (av_Platforms v) @ keys_of (List.map_filter (readMeta r a) vers)"
      using Some by (simp add: List.map_filter_simps keys_of_def)
    have "set (map plat_key (av_Platforms v)) \<inter> set (keys_of (List.map_filter (readMeta r a) vers)) = {}"
      using k Cons by fastforce
    then show ?thesis using v(3) k Cons unfolding split by auto
  qed
qed

lemma load_artifact_keeps:
  assumes inv: "reg_inv sha r" and pn: "plain_name a" and empty: "versions_of r a = []"
  defines "r' \<equiv> load_artifact r a"
  shows "reg_inv sha r'" "fr_dir r' = fr_dir r" "fr_files r' = fr_files r" "fr_baseURL r' = fr_baseURL r"
    "set (versions_of r' b) = (if b = a then on_disk_versions r a else set (versions_of r b))"
proof -
  let ?vers = "ReadDir (fr_files r) (fr_dir r @ [a])"
  let ?metas = "List.map_filter (readMeta r a) ?vers"
  have dir: "Join (fr_dir r) [a] = fr_dir r @ [a]" using pn by (intro Join_plain) simp
  have r': "r' = (if ?metas = [] then r else r\<lparr>fr_versions := AList.update a (newest_first ?metas) (fr_versions r)\<rparr>)"
    by (simp add: r'_def load_artifact_def dir empty Let_def)
  have pl: "\<forall>x \<in> set ?vers. plain_name x" using inv ReadDir_plain by (auto simp: reg_inv_def)
  have metas: "v \<in> set ?metas \<longleftrightarrow> v \<in> on_disk_versions r a" for v
  proof -
    have "(\<exists>ver \<in> set ?vers. readMeta r a ver = Some v) \<longleftrightarrow>
        (\<exists>ver \<in> set ?vers. map_of (fr_files r) (fr_dir r @ [a, ver, ''meta.json'']) = Some (MetaFile v))"
      by (rule bex_cong [OF refl]) (rule readMeta_iff [OF pn pl [rule_format]])
    also have "\<dots> \<longleftrightarrow> v \<in> on_disk_versions r a" unfolding on_disk_versions_def using ReadDir_meta(2) by blast
    finally show ?thesis by (simp only: set_map_filter_iff)
  qed
  have mok: "metas_ok sha r" using inv by (simp add: reg_inv_def)
  have "\<forall>v \<in> set ?metas. version_ok sha r a v" using mok by (auto simp: metas on_disk_versions_def metas_ok_def)
  then show "reg_inv sha r'"
    using index_inv [OF inv, of ?metas a] metas_distinct [OF mok pn distinct_ReadDir pl] inv by (simp add: r')
  show "fr_dir r' = fr_dir r" "fr_files r' = fr_files r" "fr_baseURL r' = fr_baseURL r" by (simp_all add: r')
  have "?metas = [] \<Longrightarrow> on_disk_versions r a = {}" using metas by auto
  then show "set (versions_of r' b) = (if b = a then on_disk_versions r a else set (versions_of r b))"
    using metas empty by (auto simp: r' versions_of_update)
qed

lemma load_artifacts_keeps:
  assumes "reg_inv sha r" "distinct as" "\<forall>a \<in> set as. plain_name a \<and> versions_of r a = []" "load_artifacts ls r as = (None, r')"
  shows "reg_inv sha r' \<and> fr_dir r' = fr_dir r \<and> fr_files r' = fr_files r \<and> fr_baseURL r' = fr_baseURL r \<and>
         (\<forall>b. set (versions_of r' b) = (if b \<in> set as then on_disk_versions r b else set (versions_of r b)))"
  using assms
proof (induction as arbitrary: r)
  case Nil
  then show ?case by simp
next
  case (Cons a as)
  have empty: "versions_of r a = []" and pn: "plain_name a" using Cons.prems(3) by auto
  note l = load_artifact_keeps [OF Cons.prems(1) pn empty]
  have "versions_of (load_artifact r a) b = []" if "b \<in> set as" for b
  proof -
    have "b \<noteq> a" "versions_of r b = []" using Cons.prems(2,3) that by auto
    then show ?thesis using l(5) [of b] by simp
  qed
  then have "reg_inv sha r' \<and> fr_dir r' = fr_dir (load_artifact r a) \<and> fr_files r' = fr_files (load_artifact r a) \<and>
      fr_baseURL r' = fr_baseURL (load_artifact r a) \<and>
      (\<forall>b. set (versions_of r' b) = (if b \<in> set as then on_disk_versions (load_artifact r a) b else set (versions_of (load_artifact r a) b)))"
    using Cons.prems by (intro Cons.IH l(1)) (auto split: option.splits)
  then show ?case using l by (auto simp: on_disk_versions_def)
qed

lemma restart_keeps:
  assumes inv: "reg_inv sha r" and new: "NewFsRegistry (fr_dir r) url (fr_files r) df = Inr r'"
  shows "reg_inv sha r'" "fr_dir r' = fr_dir r" "fr_files r' = fr_files r" "set (versions_of r' a) = on_disk_versions r a"
proof -
  define r0 where "r0 = \<lparr>fr_dir = fr_dir r, fr_baseURL = rev (dropWhile (\<lambda>c. c = CHR ''/'') (rev url)), fr_versions = [], fr_files = fr_files r\<rparr>"
  have vok: "version_ok sha r0 b w \<longleftrightarrow> version_ok sha r b w" for b w
    by (simp add: r0_def version_ok_def platform_ok_def stored_platform_def bin_at_def)
  have inv0: "reg_inv sha r0"
    using inv by (auto simp: reg_inv_def metas_ok_def vok index_ok_def versions_of_def keys_of_def names_ok_def) (auto simp: r0_def keys_of_def)
  have pl: "\<forall>a \<in> set (ReadDir (fr_files r) (fr_dir r)). plain_name a \<and> versions_of r0 a = []"
    using inv ReadDir_plain by (auto simp: reg_inv_def r0_def versions_of_def)
  have "load_artifacts (df_ls df) r0 (ReadDir (fr_files r) (fr_dir r)) = (None, r')"
    using new by (simp add: NewFsRegistry_def loadAll_def r0_def [symmetric] split: option.splits prod.splits) (simp add: r0_def)
  note l = load_artifacts_keeps [OF inv0 distinct_ReadDir pl this]
  then show "reg_inv sha r'" "fr_dir r' = fr_dir r" "fr_files r' = fr_files r" by (simp_all add: r0_def)
  have "on_disk_versions r0 b = on_disk_versions r b" for b by (simp add: on_disk_versions_def r0_def)
  moreover have "on_disk_versions r a = {}" if "a \<notin> set (ReadDir (fr_files r) (fr_dir r))"
    using that ReadDir_meta(1) unfolding on_disk_versions_def by blast
  moreover have "versions_of r0 a = []" by (simp add: r0_def versions_of_def)
  ultimately show "set (versions_of r' a) = on_disk_versions r a" using l by simp
qed

end
