(* ===== verification/Registry_Contract.thy ===== *)
theory Registry_Contract
  imports Registry_Safety
begin

text \<open>
  The contract of the registry of binaries and its limits: what is published is served unchanged and
  seeding at every start is safe; but a second upload for a version makes a restart forget the first, an
  upload that fails half way blocks its version, and names are not confined to the directory.
\<close>

section \<open>The contract\<close>

text \<open>The version a seed entry publishes, and that the registry accepts it.\<close>

definition seed_version :: "time \<Rightarrow> SeedEntry \<Rightarrow> ArtifactVersion" where
  "seed_version now e =
     \<lparr>av_Artifact = se_Name e, av_Version = se_Version e, av_PreRelease = se_PreRelease e, av_PublishedAt = now,
      av_Platforms = [], av_PlatformDeps = se_Dependencies e\<rparr>"

definition seedable ::
  "(ArtifactVersion \<Rightarrow> (string, upload) gomap \<Rightarrow> bool) \<Rightarrow> (string \<Rightarrow> upload res) \<Rightarrow> time \<Rightarrow> SeedEntry \<Rightarrow> bool" where
  "seedable accepts opn now e \<longleftrightarrow> (\<forall>bs. open_seeds opn (se_Binaries e) = Inr bs \<longrightarrow> accepts (seed_version now e) bs)"

text \<open>
  What \<^verbatim>\<open>ArtifactRegistry\<close> promises to the code that publishes: a version is added, and what could be
  resolved before is resolved to the same afterwards, whether the publication succeeds or not.
\<close>

locale artifact_registry =
  fixes inv :: "'r \<Rightarrow> bool" and accepts :: "ArtifactVersion \<Rightarrow> (string, upload) gomap \<Rightarrow> bool"
    and publish :: "'r \<Rightarrow> ArtifactVersion \<Rightarrow> (string, upload) gomap \<Rightarrow> error option \<times> 'r"
    and resolve :: "'r \<Rightarrow> string \<Rightarrow> string \<Rightarrow> string \<Rightarrow> string \<Rightarrow> ArtifactPlatform res"
    and holds_binary :: "ArtifactVersion \<Rightarrow> string \<times> upload \<Rightarrow> ArtifactPlatform \<Rightarrow> bool"
  assumes publish_inv: "inv r \<Longrightarrow> accepts v bs \<Longrightarrow> publish r v bs = (e, r') \<Longrightarrow> inv r'"
    and publish_immutable: "inv r \<Longrightarrow> accepts v bs \<Longrightarrow> publish r v bs = (e, r') \<Longrightarrow> resolve r a ver os arch = Inr p \<Longrightarrow>
      resolve r' a ver os arch = Inr p"
    and publish_adds: "inv r \<Longrightarrow> accepts v bs \<Longrightarrow> publish r v bs = (None, r') \<Longrightarrow> x \<in> set bs \<Longrightarrow>
      \<exists>os arch p. resolve r' (av_Artifact v) (av_Version v) os arch = Inr p \<and> holds_binary v x p"
begin

lemma seedOne_keeps:
  assumes "inv r" "seedable accepts opn now e" "seedOne publish opn now r e = (err, r')"
  shows "inv r'" "resolve r a ver os arch = Inr p \<Longrightarrow> resolve r' a ver os arch = Inr p"
proof -
  have "inv r' \<and> (resolve r a ver os arch = Inr p \<longrightarrow> resolve r' a ver os arch = Inr p)"
  proof (cases "open_seeds opn (se_Binaries e)")
    case (Inl x)
    then show ?thesis using assms by (auto simp: seedOne_def)
  next
    case (Inr bs)
    define v where "v = seed_version now e"
    obtain e1 r1 where pub: "publish r v bs = (e1, r1)" by fastforce
    have "accepts v bs" using assms(2) Inr by (simp add: seedable_def v_def)
    moreover have "r' = r1"
      using assms(3) pub by (auto simp: seedOne_def Inr v_def seed_version_def Let_def split: option.splits if_splits)
    ultimately show ?thesis using publish_inv [OF assms(1) _ pub] publish_immutable [OF assms(1) _ pub] by simp
  qed
  then show "inv r'" "resolve r a ver os arch = Inr p \<Longrightarrow> resolve r' a ver os arch = Inr p" by simp_all
qed

lemma Seed_keeps:
  assumes "inv r" "\<forall>e \<in> set es. seedable accepts opn now e" "Seed publish opn now r es = (err, r')"
  shows "inv r' \<and> (resolve r a ver os arch = Inr p \<longrightarrow> resolve r' a ver os arch = Inr p)"
  using assms
proof (induction es arbitrary: r)
  case Nil
  then show ?case by simp
next
  case (Cons e es)
  obtain err1 r1 where one: "seedOne publish opn now r e = (err1, r1)" by fastforce
  have s: "seedable accepts opn now e" "\<forall>e \<in> set es. seedable accepts opn now e" using Cons.prems(2) by auto
  note k = seedOne_keeps [OF Cons.prems(1) s(1) one]
  show ?case
  proof (cases err1)
    case (Some x)
    then show ?thesis using k Cons.prems(3) one by simp
  next
    case None
    then show ?thesis using k Cons.IH [OF k(1) s(2)] Cons.prems(3) one by simp
  qed
qed

end

section \<open>The file system keeps it\<close>

lemma withURL_fields [simp]:
  "apArtifact (withURL r p) = apArtifact p" "apVersion (withURL r p) = apVersion p" "apOS (withURL r p) = apOS p"
  "apArch (withURL r p) = apArch p" "apHash (withURL r p) = apHash p" "apSize (withURL r p) = apSize p"
  by (simp_all add: withURL_def)

lemma find_SomeD: "find P xs = Some x \<Longrightarrow> x \<in> set xs \<and> P x"
  by (induction xs) (auto split: if_splits)

lemma index_of: "reg_inv sha r \<Longrightarrow> index_ok sha r a (versions_of r a)" by (simp add: reg_inv_def)

lemma ResolveVersion_iff:
  assumes "reg_inv sha r"
  shows "ResolveVersion r a ver os arch = Inr p \<longleftrightarrow> (\<exists>q \<in> platforms r a. plat_key q = (ver, os, arch) \<and> p = withURL r q)"
proof -
  have iff: "findPlatformLocked r a ver os arch = Some q \<longleftrightarrow> q \<in> platforms r a \<and> plat_key q = (ver, os, arch)" for q
    using platform_find [OF index_of [OF assms]] .
  show ?thesis
  proof (cases "findPlatformLocked r a ver os arch")
    case None
    then show ?thesis using iff by (auto simp: ResolveVersion_def)
  next
    case (Some x)
    then have "q \<in> platforms r a \<and> plat_key q = (ver, os, arch) \<longleftrightarrow> q = x" for q using iff [of q] by auto
    then have "(\<exists>q \<in> platforms r a. plat_key q = (ver, os, arch) \<and> p = withURL r q) \<longleftrightarrow> p = withURL r x" by metis
    then show ?thesis using Some by (auto simp: ResolveVersion_def)
  qed
qed

lemma ResolveVersion_none:
  assumes "reg_inv sha r"
  shows "ResolveVersion r a ver os arch = Inl ErrNotFound \<longleftrightarrow> (\<forall>q \<in> platforms r a. plat_key q \<noteq> (ver, os, arch))"
proof (cases "findPlatformLocked r a ver os arch")
  case None
  then have "q \<notin> platforms r a \<or> plat_key q \<noteq> (ver, os, arch)" for q
    using platform_find [OF index_of [OF assms], of a ver os arch q] by simp
  then show ?thesis using None by (auto simp: ResolveVersion_def)
next
  case (Some q)
  then show ?thesis using platform_find [OF index_of [OF assms], of a ver os arch q] by (auto simp: ResolveVersion_def)
qed

lemma describes_withURL [simp]: "describes sha v x (withURL r p) = describes sha v x p"
  by (simp add: describes_def) (simp add: withURL_def)

interpretation fs: artifact_registry "reg_inv sha" plain_upload "\<lambda>r v bs. Publish sha r v bs wr now" ResolveVersion "describes sha"
  for sha wr now
proof
  fix r v bs e r'
  assume r: "reg_inv sha r" "plain_upload v bs" "Publish sha r v bs wr now = (e, r')"
  note k = Publish_keeps [OF r]
  show inv': "reg_inv sha r'" using k by blast
  show "ResolveVersion r' a ver os arch = Inr p" if "ResolveVersion r a ver os arch = Inr p" for a ver os arch p
  proof -
    have "withURL r' q = withURL r q" for q using k by (simp add: withURL_def)
    then show ?thesis using that k unfolding ResolveVersion_iff [OF r(1)] ResolveVersion_iff [OF inv'] by auto
  qed
next
  fix r v bs r' x
  assume r: "reg_inv sha r" "plain_upload v bs" "Publish sha r v bs wr now = (None, r')" and x: "x \<in> set bs"
  have inv': "reg_inv sha r'" using Publish_keeps [OF r] by blast
  obtain p where p: "p \<in> platforms r' (av_Artifact v)" "describes sha v x p" using Publish_keeps [OF r] x by blast
  then have "ResolveVersion r' (av_Artifact v) (av_Version v) (apOS p) (apArch p) = Inr (withURL r' p)"
    unfolding ResolveVersion_iff [OF inv'] by (auto simp: plat_key_def describes_def)
  then show "\<exists>os arch p. ResolveVersion r' (av_Artifact v) (av_Version v) os arch = Inr p \<and> describes sha v x p"
    using p(2) describes_withURL by blast
qed

section \<open>Reachable registries\<close>

inductive reg_step :: "(bytes \<Rightarrow> string) \<Rightarrow> FsRegistry \<Rightarrow> FsRegistry \<Rightarrow> bool" for sha where
  publish: "plain_upload v bs \<Longrightarrow> Publish sha r v bs wr now = (e, r') \<Longrightarrow> reg_step sha r r'"
| delete: "plain_name a \<Longrightarrow> DeleteArtifact r a None = (e, r') \<Longrightarrow> reg_step sha r r'"
| list: "ListVersions r a = (out, r') \<Longrightarrow> reg_step sha r r'"
| restart: "NewFsRegistry (fr_dir r) url (fr_files r) df = Inr r' \<Longrightarrow> reg_step sha r r'"

definition reachable_registry :: "(bytes \<Rightarrow> string) \<Rightarrow> FsRegistry \<Rightarrow> bool" where
  "reachable_registry sha r \<longleftrightarrow>
     (\<exists>dir url df r0. list_all plain_name dir \<and> NewFsRegistry dir url [] df = Inr r0 \<and> (reg_step sha)\<^sup>*\<^sup>* r0 r)"

lemma reg_step_inv: "reg_step sha r r' \<Longrightarrow> reg_inv sha r \<Longrightarrow> reg_inv sha r'"
proof (induction rule: reg_step.induct)
  case (publish v bs r wr now e r')
  then show ?case using Publish_keeps by blast
next
  case (delete a r e r')
  then show ?case using Delete_keeps by blast
next
  case (list r a out r')
  then show ?case using ListVersions_keeps by blast
next
  case (restart r url df r')
  then show ?case using restart_keeps(1) by blast
qed

lemma empty_inv: "list_all plain_name dir \<Longrightarrow> NewFsRegistry dir url [] df = Inr r \<Longrightarrow> reg_inv sha r"
proof -
  let ?r = "\<lparr>fr_dir = dir, fr_baseURL = [], fr_versions = [], fr_files = []\<rparr>"
  assume "list_all plain_name dir" and new: "NewFsRegistry dir url [] df = Inr r"
  then have "reg_inv sha ?r"
    by (simp add: reg_inv_def names_ok_def index_ok_def metas_ok_def versions_of_def keys_of_def)
  from restart_keeps(1) [OF this, of url df r] new show ?thesis by simp
qed

lemma reachable_inv: "reachable_registry sha r \<Longrightarrow> reg_inv sha r"
proof -
  assume "reachable_registry sha r"
  then obtain dir url df r0 where "list_all plain_name dir" "NewFsRegistry dir url [] df = Inr r0" and steps: "(reg_step sha)\<^sup>*\<^sup>* r0 r"
    by (auto simp: reachable_registry_def)
  then have "reg_inv sha r0" by (simp add: empty_inv)
  with steps show ?thesis by (induction rule: rtranclp_induct) (auto intro: reg_step_inv)
qed

lemma platform_served:
  assumes inv: "reg_inv sha r" and q: "q \<in> platforms r a" "plat_key q = (ver, os, arch)"
  obtains body where "ServeFile r a ver os arch = Inr (bin_at r q)" "map_of (fr_files r) (bin_at r q) = Some (BinaryFile body)"
    "apHash q = sha body" "apSize q = int (length body)"
proof -
  from index_of [OF inv, of a] q(1) obtain v where v: "version_ok sha r a v" "platform_ok sha r a (av_Version v) q"
    by (auto simp: platforms_def index_ok_def version_ok_def)
  then obtain body where b: "map_of (fr_files r) (bin_at r q) = Some (BinaryFile body)" "apHash q = sha body" "apSize q = int (length body)"
    by (auto simp: platform_ok_def stored_platform_def)
  have "binaryPath r a ver os arch = bin_at r q"
    using v q(2) by (subst binaryPath_plain) (auto simp: version_ok_def platform_ok_def plat_key_def bin_at_def)
  then show ?thesis using that b by (simp add: ServeFile_def)
qed

lemma published_served:
  assumes "reachable_registry sha r" "plain_upload v bs" "Publish sha r v bs wr now = (None, r')" "x \<in> set bs"
  obtains os arch p f body where "splitPlatformKey (fst x) = Inr (os, arch)" "up_body (snd x) = Inr body"
    "ResolveVersion r' (av_Artifact v) (av_Version v) os arch = Inr p" "apHash p = sha body" "apURL p \<noteq> []"
    "ServeFile r' (av_Artifact v) (av_Version v) os arch = Inr f"
    "\<exists>served. map_of (fr_files r') f = Some (BinaryFile served) \<and> sha served = sha body"
proof -
  note inv = reachable_inv [OF assms(1)]
  have inv': "reg_inv sha r'" using reg_step_inv [OF reg_step.publish inv] assms(2,3) by blast
  from fs.publish_adds [OF inv assms(2-4)] obtain os arch p where
    p: "ResolveVersion r' (av_Artifact v) (av_Version v) os arch = Inr p" "describes sha v x p" by blast
  then obtain q where q: "q \<in> platforms r' (av_Artifact v)" "plat_key q = (av_Version v, os, arch)" "p = withURL r' q"
    unfolding ResolveVersion_iff [OF inv'] by blast
  from platform_served [OF inv' q(1,2)] obtain served where
    s: "ServeFile r' (av_Artifact v) (av_Version v) os arch = Inr (bin_at r' q)"
      "map_of (fr_files r') (bin_at r' q) = Some (BinaryFile served)" "apHash q = sha served" by blast
  have eq: "apOS p = os" "apArch p = arch" "apHash p = apHash q" "apURL p \<noteq> []" using q(2,3) by (simp_all add: plat_key_def withURL_def)
  from p(2) obtain body where b: "splitPlatformKey (fst x) = Inr (os, arch)" "up_body (snd x) = Inr body" "apHash p = sha body"
    by (auto simp: describes_def eq)
  have "\<exists>served. map_of (fr_files r') (bin_at r' q) = Some (BinaryFile served) \<and> sha served = sha body" using s b(3) eq(3) by simp
  from that [OF b(1,2) p(1) b(3) eq(4) s(1) this] show thesis .
qed

text \<open>Seeding at startup, whether it succeeds or not, leaves what the registry resolves as it is.\<close>

lemma seeding_keeps:
  assumes "reachable_registry sha r" "\<forall>e \<in> set es. seedable plain_upload opn now e"
    and "Seed (\<lambda>r v bs. Publish sha r v bs wr now) opn now r es = (err, r')" "ResolveVersion r a ver os arch = Inr p"
  shows "ResolveVersion r' a ver os arch = Inr p"
  using fs.Seed_keeps [OF reachable_inv [OF assms(1)] assms(2,3)] assms(4) by blast

text \<open>
  C8: whatever was published, deleted, listed and restarted, a platform the registry resolves, by its version
  or as the latest release, is served from a file that has the recorded hash and size. A successful
  publication makes every uploaded binary resolvable with its hash, size and dependencies, and no
  publication, failed ones included, changes what an earlier version resolves to.
\<close>

theorem registry_serves_published:
  assumes "reachable_registry sha r"
  shows "(\<forall>a ver os arch p. ResolveVersion r a ver os arch = Inr p \<longrightarrow>
            (\<exists>file body. ServeFile r a ver os arch = Inr file \<and> map_of (fr_files r) file = Some (BinaryFile body) \<and>
               apHash p = sha body \<and> apSize p = int (length body))) \<and>
         (\<forall>a os arch p. Resolve r a os arch = Inr p \<longrightarrow> ResolveVersion r a (apVersion p) os arch = Inr p) \<and>
         (\<forall>v bs wr now e r'. plain_upload v bs \<longrightarrow> Publish sha r v bs wr now = (e, r') \<longrightarrow>
            (e = None \<longrightarrow> (\<forall>x \<in> set bs. \<exists>os arch p. ResolveVersion r' (av_Artifact v) (av_Version v) os arch = Inr p \<and> describes sha v x p)) \<and>
            (\<forall>a ver os arch p. ResolveVersion r a ver os arch = Inr p \<longrightarrow> ResolveVersion r' a ver os arch = Inr p))"
proof -
  note inv = reachable_inv [OF assms]
  have served: "\<exists>file body. ServeFile r a ver os arch = Inr file \<and> map_of (fr_files r) file = Some (BinaryFile body) \<and>
       apHash p = sha body \<and> apSize p = int (length body)" if res: "ResolveVersion r a ver os arch = Inr p" for a ver os arch p
  proof -
    from res obtain q where q: "q \<in> platforms r a" "plat_key q = (ver, os, arch)" "p = withURL r q"
      unfolding ResolveVersion_iff [OF inv] by blast
    from inv q(1,2) show ?thesis by (rule platform_served) (use q(3) in auto)
  qed
  have latest: "ResolveVersion r a (apVersion p) os arch = Inr p" if res: "Resolve r a os arch = Inr p" for a os arch p
  proof -
    from res obtain q where q: "platform_in os arch (filter (\<lambda>v. \<not> av_PreRelease v) (versions_of r a)) = Some q" "p = withURL r q"
      by (auto simp: Resolve_def split: option.splits)
    then have "q \<in> platforms r a" "apOS q = os" "apArch q = arch"
      using find_SomeD [of _ _ q] by (fastforce simp: platform_in_def platforms_def)+
    then show ?thesis unfolding ResolveVersion_iff [OF inv] using q(2) by (auto simp: plat_key_def)
  qed
  show ?thesis
    by (intro conjI allI impI ballI) (simp_all only: served latest fs.publish_adds [OF inv] fs.publish_immutable [OF inv])
qed

definition no_faults :: dir_faults where "no_faults = \<lparr>df_mkdir = None, df_root = None, df_ls = (\<lambda>_. None)\<rparr>"

definition upload_of :: "bytes \<Rightarrow> upload" where "upload_of body = \<lparr>up_mkdir = None, up_create = None, up_body = Inr body\<rparr>"

definition ex_version :: ArtifactVersion where
  "ex_version = \<lparr>av_Artifact = ''t'', av_Version = ''1'', av_PreRelease = False, av_PublishedAt = 5, av_Platforms = [], av_PlatformDeps = []\<rparr>"

definition ex_fs :: FsRegistry where "ex_fs = \<lparr>fr_dir = [''srv''], fr_baseURL = ''m'', fr_versions = [], fr_files = []\<rparr>"

lemma ex_fs_new: "NewFsRegistry [''srv''] ''m/'' [] no_faults = Inr ex_fs"
  by (simp add: NewFsRegistry_def no_faults_def loadAll_def ReadDir_def ex_fs_def)

lemma ex_fs_reachable: "reachable_registry sha ex_fs"
  unfolding reachable_registry_def using ex_fs_new by (intro exI conjI) (auto simp: plain_name_def)

lemma ex_plain: "plain_upload ex_version [(''l_x'', u)]" "plain_upload ex_version [(''d_x'', u)]" "plain_upload ex_version [(''l_x'', u), (''d_x'', w)]"
  by (auto simp: plain_upload_def ex_version_def splitPlatformKey_def plain_name_def)

lemma ex_publish: "fst (Publish id ex_fs ex_version [(''l_x'', upload_of ''bin'')] MetaOk 0) = None"
  by code_simp

theorem registry_serves_published_witness:
  "\<exists>r' os arch p. Publish id ex_fs ex_version [(''l_x'', upload_of ''bin'')] MetaOk 0 = (None, r') \<and>
     ResolveVersion r' ''t'' ''1'' os arch = Inr p \<and> apHash p = ''bin'' \<and> apSize p = 3"
proof -
  obtain r' where r': "Publish id ex_fs ex_version [(''l_x'', upload_of ''bin'')] MetaOk 0 = (None, r')"
    using ex_publish by (metis prod.collapse)
  have "\<forall>x \<in> set [(''l_x'', upload_of ''bin'')]. \<exists>os arch p.
      ResolveVersion r' (av_Artifact ex_version) (av_Version ex_version) os arch = Inr p \<and> describes id ex_version x p"
    using registry_serves_published [OF ex_fs_reachable [of id], THEN conjunct2, THEN conjunct2, rule_format, OF ex_plain(1) r'] by blast
  then obtain os arch p where "ResolveVersion r' ''t'' ''1'' os arch = Inr p" "describes id ex_version (''l_x'', upload_of ''bin'') p"
    by (auto simp: ex_version_def)
  then show ?thesis using r' by (intro exI conjI) (auto simp: describes_def upload_of_def)
qed

section \<open>Restarting\<close>

lemma restart_platforms:
  assumes inv: "reg_inv sha r" and new: "NewFsRegistry (fr_dir r) url (fr_files r) df = Inr r'"
  shows "q \<in> platforms r' a \<and> apVersion q = ver \<longleftrightarrow>
         (\<exists>w. map_of (fr_files r) (fr_dir r @ [a, ver, ''meta.json'']) = Some (MetaFile w) \<and> q \<in> set (av_Platforms w))"
proof -
  have vs: "q \<in> platforms r' a \<longleftrightarrow> (\<exists>w \<in> on_disk_versions r a. q \<in> set (av_Platforms w))"
    using restart_keeps(4) [OF inv new, of a] by (auto simp: platforms_def)
  have "apVersion q = ver'" if "map_of (fr_files r) (fr_dir r @ [a, ver', ''meta.json'']) = Some (MetaFile w)" "q \<in> set (av_Platforms w)"
    for w ver'
    using inv that by (auto simp: reg_inv_def metas_ok_def version_ok_def platform_ok_def)
  then show ?thesis unfolding vs on_disk_versions_def by blast
qed

lemma writeMeta_ok:
  "writeMeta r v wr = (None, r') \<Longrightarrow> r' = r\<lparr>fr_files := AList.update (metaPath r (av_Artifact v) (av_Version v)) (MetaFile (meta_of v)) (fr_files r)\<rparr>"
  by (auto simp: writeMeta_def Let_def split: meta_write.splits)

text \<open>After a restart a version has the platforms of its last upload.\<close>

lemma last_upload_on_disk:
  assumes inv: "reg_inv sha r" and pl: "plain_upload v bs" and pub: "Publish sha r v bs wr now = (None, r')"
    and new: "NewFsRegistry (fr_dir r') url (fr_files r') df = Inr r''"
  obtains ps where "\<forall>q. q \<in> platforms r'' (av_Artifact v) \<and> apVersion q = av_Version v \<longleftrightarrow> q \<in> set ps"
    "\<forall>q \<in> set ps. map_of (fr_files r) (bin_at r q) = None" "\<forall>x \<in> set bs. \<exists>p \<in> set ps. describes sha v x p"
  using inv pl pub
proof (rule Publish_cases)
  assume "(None :: error option) \<noteq> None"
  then show ?thesis by simp
next
  fix r1 ps r2
  assume up: "uploaded sha r r1 (dated v now ps)" and ps: "\<forall>x \<in> set bs. \<exists>p \<in> set ps. describes sha v x p"
    and wr: "writeMeta r1 (dated v now ps) wr = (None, r2)"
    and r': "r' = (if None = None then r2\<lparr>fr_versions := AList.update (av_Artifact v)
                      (newest_first (versions_of r2 (av_Artifact v) @ [dated v now ps])) (fr_versions r2)\<rparr> else r2)"
  have inv': "reg_inv sha r'" using Publish_keeps [OF inv pl pub] by blast
  have pn: "plain_name (av_Artifact v)" "plain_name (av_Version v)" using pl by (simp_all add: plain_upload_def)
  have "map_of (fr_files r') (fr_dir r' @ [av_Artifact v, av_Version v, ''meta.json'']) = Some (MetaFile (meta_of (dated v now ps)))"
    using writeMeta_ok [OF wr] r' metaPath_plain [OF pn, of r1] by simp
  then have "q \<in> platforms r'' (av_Artifact v) \<and> apVersion q = av_Version v \<longleftrightarrow> q \<in> set ps" for q
    unfolding restart_platforms [OF inv' new] by (simp add: meta_of_def)
  moreover have "\<forall>q \<in> set ps. map_of (fr_files r) (bin_at r q) = None" using up by (simp add: uploaded_def published_def)
  ultimately show ?thesis using that ps by blast
qed

text \<open>A binary on the disk that no version lists cannot be uploaded again.\<close>

lemma publish_files_exists:
  assumes "publish_files sha r v bs ps = (Inr qs, r')" "(key, up) \<in> set bs" "splitPlatformKey key = Inr (os, arch)"
  shows "map_of (fr_files r) (binaryPath r (av_Artifact v) (av_Version v) os arch) = None"
  using assms(1,2)
proof (induction bs arbitrary: r ps)
  case Nil
  then show ?case by simp
next
  case (Cons x bs)
  obtain k u where x: "x = (k, u)" by fastforce
  obtain p r1 where one: "publish_one sha r v k u = (Inr p, r1)" "publish_files sha r1 v bs (ps @ [p]) = (Inr qs, r')"
    using Cons.prems(1) x by (auto split: prod.splits sum.splits)
  from one(1) obtain os' arch' body where new: "splitPlatformKey k = Inr (os', arch')"
      "map_of (fr_files r) (binaryPath r (av_Artifact v) (av_Version v) os' arch') = None"
    and r1: "r1 = r\<lparr>fr_files := AList.update (binaryPath r (av_Artifact v) (av_Version v) os' arch') (BinaryFile body) (fr_files r)\<rparr>"
    by (rule publish_one_new)
  show ?case
  proof (cases "k = key")
    case True
    then show ?thesis using new assms(3) by simp
  next
    case False
    then have "map_of (fr_files r1) (binaryPath r1 (av_Artifact v) (av_Version v) os arch) = None"
      using Cons.IH [OF one(2)] Cons.prems(2) x by simp
    then show ?thesis by (simp add: r1 binaryPath_def split: if_splits)
  qed
qed

lemma orphan_blocks:
  assumes "map_of (fr_files r) (binaryPath r (av_Artifact v) (av_Version v) os arch) \<noteq> None"
    and "(key, up) \<in> set bs" "splitPlatformKey key = Inr (os, arch)"
  shows "fst (Publish sha r v bs wr now) \<noteq> None"
proof
  assume ok: "fst (Publish sha r v bs wr now) = None"
  obtain res r1 where files: "publish_files sha r v bs [] = (res, r1)" by fastforce
  with ok obtain qs where "res = Inr qs" by (cases res) (auto simp: Publish_def split: option.splits)
  with publish_files_exists [of sha r v bs "[]" qs r1] files assms show False by simp
qed

text \<open>
  The metadata of a version lists the binaries of one upload only. When further platforms of a version
  that has some already are uploaded, both are resolved until the registry is opened again; then the earlier
  ones are not found any more, although their files are still served, and they cannot be uploaded again.
\<close>

lemma second_upload_forgets_first:
  assumes "reachable_registry sha r" and "ResolveVersion r (av_Artifact v) (av_Version v) os arch = Inr p"
    and "plain_upload v bs" and "Publish sha r v bs wr now = (None, r')"
    and "NewFsRegistry (fr_dir r') url (fr_files r') df = Inr r''"
  shows "ResolveVersion r' (av_Artifact v) (av_Version v) os arch = Inr p \<and>
         ResolveVersion r'' (av_Artifact v) (av_Version v) os arch = Inl ErrNotFound \<and>
         (\<exists>file. ServeFile r'' (av_Artifact v) (av_Version v) os arch = Inr file) \<and>
         (\<forall>w cs key up wr2 now2. av_Artifact w = av_Artifact v \<longrightarrow> av_Version w = av_Version v \<longrightarrow> (key, up) \<in> set cs \<longrightarrow>
            splitPlatformKey key = Inr (os, arch) \<longrightarrow> fst (Publish sha r'' w cs wr2 now2) \<noteq> None)"
proof -
  note inv = reachable_inv [OF assms(1)]
  have inv': "reg_inv sha r'" using fs.publish_inv [OF inv assms(3,4)] .
  note re = restart_keeps [OF inv' assms(5)]
  have resolved: "ResolveVersion r' (av_Artifact v) (av_Version v) os arch = Inr p"
    using fs.publish_immutable [OF inv assms(3,4,2)] .
  from assms(2) obtain q where q: "q \<in> platforms r (av_Artifact v)" "plat_key q = (av_Version v, os, arch)"
    unfolding ResolveVersion_iff [OF inv] by blast
  from inv q obtain body where old: "map_of (fr_files r) (bin_at r q) = Some (BinaryFile body)" by (rule platform_served)
  have art: "apArtifact q = av_Artifact v"
    using q(1) index_of [OF inv, of "av_Artifact v"] by (auto simp: platforms_def index_ok_def version_ok_def platform_ok_def)
  from inv assms(3-5) obtain ps where ps: "\<forall>x. x \<in> platforms r'' (av_Artifact v) \<and> apVersion x = av_Version v \<longleftrightarrow> x \<in> set ps"
    "\<forall>x \<in> set ps. map_of (fr_files r) (bin_at r x) = None" by (rule last_upload_on_disk)
  have "plat_key x \<noteq> (av_Version v, os, arch)" if x: "x \<in> platforms r'' (av_Artifact v)" for x
  proof
    assume k: "plat_key x = (av_Version v, os, arch)"
    then have "x \<in> set ps" using ps(1) x by (auto simp: plat_key_def)
    moreover have "apArtifact x = av_Artifact v"
      using x index_of [OF re(1), of "av_Artifact v"] by (auto simp: platforms_def index_ok_def version_ok_def platform_ok_def)
    ultimately show False using ps(2) old k q(2) art by (auto simp: bin_at_def plat_key_def)
  qed
  then have lost: "ResolveVersion r'' (av_Artifact v) (av_Version v) os arch = Inl ErrNotFound"
    unfolding ResolveVersion_none [OF re(1)] by blast
  from resolved obtain q' where "q' \<in> platforms r' (av_Artifact v)" "plat_key q' = (av_Version v, os, arch)"
    unfolding ResolveVersion_iff [OF inv'] by blast
  from inv' this obtain body' where "ServeFile r' (av_Artifact v) (av_Version v) os arch = Inr (bin_at r' q')" by (rule platform_served)
  then have kept: "map_of (fr_files r'') (binaryPath r'' (av_Artifact v) (av_Version v) os arch) \<noteq> None"
    using re by (simp add: ServeFile_def binaryPath_def Let_def split: if_splits)
  have "fst (Publish sha r'' w cs wr2 now2) \<noteq> None"
    if "av_Artifact w = av_Artifact v" "av_Version w = av_Version v" "(key, up) \<in> set cs" "splitPlatformKey key = Inr (os, arch)"
    for w cs key up wr2 now2
    using orphan_blocks [of r'' w os arch key up cs] kept that by simp
  then show ?thesis using resolved lost kept by (simp add: ServeFile_def Let_def)
qed

lemma ex_two_uploads:
  "\<exists>r1 r2 r3 p. Publish id ex_fs ex_version [(''l_x'', upload_of ''bin'')] MetaOk 0 = (None, r1) \<and>
     ResolveVersion r1 ''t'' ''1'' ''l'' ''x'' = Inr p \<and>
     Publish id r1 ex_version [(''d_x'', upload_of ''exe'')] MetaOk 0 = (None, r2) \<and>
     NewFsRegistry (fr_dir r2) ''m'' (fr_files r2) no_faults = Inr r3"
proof -
  define r1 where "r1 = snd (Publish id ex_fs ex_version [(''l_x'', upload_of ''bin'')] MetaOk 0)"
  define r2 where "r2 = snd (Publish id r1 ex_version [(''d_x'', upload_of ''exe'')] MetaOk 0)"
  have 1: "Publish id ex_fs ex_version [(''l_x'', upload_of ''bin'')] MetaOk 0 = (None, r1)"
    using ex_publish by (simp add: r1_def prod_eq_iff)
  have 2: "Publish id r1 ex_version [(''d_x'', upload_of ''exe'')] MetaOk 0 = (None, r2)"
    unfolding r2_def r1_def prod_eq_iff by code_simp
  have p: "\<not> isl (ResolveVersion r1 ''t'' ''1'' ''l'' ''x'')" unfolding r1_def by code_simp
  have n: "\<not> isl (NewFsRegistry (fr_dir r2) ''m'' (fr_files r2) no_faults)" unfolding r2_def r1_def by code_simp
  from p n obtain q r3 where "ResolveVersion r1 ''t'' ''1'' ''l'' ''x'' = Inr q" "NewFsRegistry (fr_dir r2) ''m'' (fr_files r2) no_faults = Inr r3"
    by (metis sum.collapse(2))
  with 1 2 show ?thesis by blast
qed

section \<open>Names\<close>

text \<open>
  Nothing confines the names of an upload to the directory of the registry: the version is a form field, and
  with two dots in it the binary is written, and later served, outside.
\<close>

lemma version_escapes:
  assumes "plain_name a" "plain_name os" "plain_name arch"
  shows "binaryPath r a ''../..'' os arch = butlast (fr_dir r) @ [os, arch, ''binary'']"
proof -
  have s: "split_slash ''../..'' = [''..'', ''..'']" "split_slash a = [a]" "split_slash os = [os]" "split_slash arch = [arch]"
    using assms by (simp_all add: plain_name_def split_slash_plain)
  show ?thesis using assms by (simp add: binaryPath_def Join_def s clean_step_def plain_name_def butlast_append)
qed

end
