(* ===== verification/Manager_Routes.thy ===== *)
theory Manager_Routes
  imports Artifact_Registry Conn_Handler
begin

text \<open>
  The HTTP interface of the manager (\<^verbatim>\<open>manager/routes.go\<close>): one definition per handler over the state of
  the manager and the registry of binaries, and the table of routes.

  An answer has a status and a body; a body that the code encodes as JSON is the value itself, with times
  instead of their text. A problem document is its detail. The manager runs on the in-memory store, whose
  operations fail only on what they do not find. What the multipart reader and the decoder of task
  definitions make of a request are arguments.
\<close>

section \<open>Answers\<close>

record workerInfo =
  wi_WorkerID :: string
  wi_OS :: string
  wi_Arch :: string
  wi_Capacity :: int
  wi_AvailableCapacity :: int
  wi_State :: string
  wi_ConnectedAt :: time
  wi_TasksRunning :: int

record workerDetailInfo =
  wd_WorkerID :: string
  wd_OS :: string
  wd_Arch :: string
  wd_State :: string
  wd_Capacity :: int
  wd_AvailableCapacity :: int
  wd_TasksRunning :: int
  wd_InFlightJobIDs :: "string list"
  wd_ConnectedAt :: time
  wd_LastHeartbeatAt :: time
  wd_LastIdleAt :: time

record clusterWorkerCounts =
  cc_Total :: int
  cc_Online :: int
  cc_Pressured :: int
  cc_Draining :: int
  cc_Offline :: int

record clusterCapacity =
  ca_Total :: int
  ca_Available :: int
  ca_Utilization :: "real option"

record clusterPlatformSummary =
  cp_OS :: string
  cp_Arch :: string
  cp_Workers :: int
  cp_TotalCapacity :: int
  cp_AvailableCapacity :: int

record clusterSummaryResponse =
  cs_Workers :: clusterWorkerCounts
  cs_Capacity :: clusterCapacity
  cs_QueueDepth :: int
  cs_Platforms :: "clusterPlatformSummary list"

record clusterMetrics =
  mx_Jobs :: "(JobStatus \<times> int) list"
  mx_Connected :: int
  mx_TotalCap :: int
  mx_AvailCap :: int
  mx_QueueDepth :: int

datatype body =
    NoBody
  | Problem string
  | StatusTrue
  | PlainText bytes
  | EventStream string
  | WorkersBody "workerInfo list"
  | WorkerBody workerDetailInfo
  | ClusterBody clusterSummaryResponse
  | QueueBody queueSnapshot
  | MetricsBody clusterMetrics
  | JobBody Job
  | JobsBody "Job list" string
  | ChildrenBody "Job list"
  | RunsBody "JobRun list"
  | TasksBody "Task list"
  | TaskBody "Task option"
  | VersionsBody "ArtifactVersion list"
  | VersionBody ArtifactVersion
  | FileBody path
  | Redirect string

record response =
  rp_status :: int
  rp_body :: body

definition answer :: "int \<Rightarrow> body \<Rightarrow> response" where "answer s b = \<lparr>rp_status = s, rp_body = b\<rparr>"

abbreviation OK :: int where "OK \<equiv> 200"
abbreviation Created :: int where "Created \<equiv> 201"
abbreviation Accepted :: int where "Accepted \<equiv> 202"
abbreviation NoContent :: int where "NoContent \<equiv> 204"
abbreviation Found :: int where "Found \<equiv> 302"
abbreviation BadRequest :: int where "BadRequest \<equiv> 400"
abbreviation Unauthorized :: int where "Unauthorized \<equiv> 401"
abbreviation Not_Found :: int where "Not_Found \<equiv> 404"
abbreviation Conflict :: int where "Conflict \<equiv> 409"
abbreviation InternalServerError :: int where "InternalServerError \<equiv> 500"
abbreviation ServiceUnavailable :: int where "ServiceUnavailable \<equiv> 503"

section \<open>Utilities\<close>

fun parse_digits :: "int \<Rightarrow> string \<Rightarrow> int option" where
  "parse_digits n [] = Some n"
| "parse_digits n (c # cs) =
     (if \<not> is_digit c then None else parse_digits (wrap64 (wrap64 (n * 10) + int (byte c - 48))) cs)"

definition parseLimit :: "string \<Rightarrow> int \<Rightarrow> int" where
  "parseLimit s dflt =
     (if s = [] then dflt
      else case parse_digits 0 s of None \<Rightarrow> dflt | Some n \<Rightarrow> (if n \<le> 0 \<or> 1000 < n then dflt else n))"

definition sanitizeWebhookHeaders :: "(string, string) gomap \<Rightarrow> (string, string) gomap" where
  "sanitizeWebhookHeaders headers = filter (\<lambda>(k, v). take 2 k = ''X-'' \<or> k = ''Authorization'') headers"

definition writeSSEEvent :: "string \<Rightarrow> string \<Rightarrow> string" where
  "writeSSEEvent event data = ''event: '' @ event @ [nl] @ ''data: '' @ data @ [nl, nl]"

text \<open>\<^verbatim>\<open>json.Marshal\<close> of a map of strings writes the keys in order.\<close>

definition marshal_strings :: "(string \<times> string) list \<Rightarrow> string" where
  "marshal_strings kvs = ''{'' @ sep_concat '','' (map (\<lambda>(k, v). json_key k @ json_string v) kvs) @ ''}''"

text \<open>The bytes of one read, and the reads of \<open>emitLogLines\<close>, which stop at the end of the log.\<close>

fun emit_bytes :: "string \<Rightarrow> string \<Rightarrow> bytes \<Rightarrow> string \<times> string" where
  "emit_bytes taskID line [] = ([], line)"
| "emit_bytes taskID line (b # bs) =
     (if b = nl
      then (if line \<noteq> []
            then let (out, rest) = emit_bytes taskID [] bs
                 in (writeSSEEvent ''log'' (marshal_strings [(''line'', line), (''task_id'', taskID)]) @ out, rest)
            else emit_bytes taskID line bs)
      else emit_bytes taskID (line @ [b]) bs)"

function emit_reads :: "string \<Rightarrow> string \<Rightarrow> bytes \<Rightarrow> string" where
  "emit_reads taskID line rc =
     (if rc = [] then []
      else let (out, line') = emit_bytes taskID line (take 4096 rc) in out @ emit_reads taskID line' (drop 4096 rc))"
  by pat_completeness auto

termination by (relation "measure (\<lambda>(t, l, rc). length rc)") auto

declare emit_reads.simps [simp del]

definition emitLogLines :: "string \<Rightarrow> bytes \<Rightarrow> string" where
  "emitLogLines taskID rc = emit_reads taskID [] rc"

section \<open>Workers\<close>

definition worker_info :: "'s WorkerConn \<Rightarrow> workerInfo" where
  "worker_info wc =
     \<lparr>wi_WorkerID = w_workerID wc, wi_OS = w_os wc, wi_Arch = w_arch wc, wi_Capacity = w_capacity wc,
      wi_AvailableCapacity = AvailableCapacity wc, wi_State = WorkerState_String (w_state wc),
      wi_ConnectedAt = w_connectedAt wc, wi_TasksRunning = 0\<rparr>"

definition handleListWorkers :: "'s Manager \<Rightarrow> response" where
  "handleListWorkers m =
     answer OK (WorkersBody (map (\<lambda>a. worker_info (p_conns (m_workers m) ! a)) (allWorkers (m_workers m))))"

definition handleGetWorker :: "'s Config \<Rightarrow> 's Manager \<Rightarrow> string \<Rightarrow> response" where
  "handleGetWorker cfg m i =
     (case GetWorker (m_workers m) i of
        None \<Rightarrow> answer Not_Found (Problem ''worker not found'')
      | Some a \<Rightarrow>
          (let worker = p_conns (m_workers m) ! a
           in answer OK (WorkerBody
                \<lparr>wd_WorkerID = w_workerID worker, wd_OS = w_os worker, wd_Arch = w_arch worker,
                 wd_State = WorkerState_String (w_state worker), wd_Capacity = w_capacity worker,
                 wd_AvailableCapacity = AvailableCapacity worker, wd_TasksRunning = 0,
                 wd_InFlightJobIDs = inFlightIDs (cfg_sets cfg) worker, wd_ConnectedAt = w_connectedAt worker,
                 wd_LastHeartbeatAt = w_lastHeartbeat worker, wd_LastIdleAt = w_lastIdleAt worker\<rparr>)))"

definition handleDrainWorker :: "'s Manager \<Rightarrow> string \<Rightarrow> response \<times> 's Manager" where
  "handleDrainWorker m i =
     (case DrainWorker m i of
        Inl e \<Rightarrow> (answer Not_Found (Problem (error_text e)), m) | Inr m' \<Rightarrow> (answer Accepted NoBody, m'))"

definition handleDisconnectWorker :: "'s Manager \<Rightarrow> string \<Rightarrow> response \<times> 's Manager" where
  "handleDisconnectWorker m i =
     (case DisconnectWorker m i of
        Inl e \<Rightarrow> (answer Not_Found (Problem (error_text e)), m) | Inr m' \<Rightarrow> (answer NoContent NoBody, m'))"

section \<open>The cluster\<close>

definition count_state :: "clusterWorkerCounts \<Rightarrow> WorkerState \<Rightarrow> clusterWorkerCounts" where
  "count_state counts s =
     (let c = counts\<lparr>cc_Total := cc_Total counts + 1\<rparr>
      in if s = WorkerStateOnline then c\<lparr>cc_Online := cc_Online c + 1\<rparr>
         else if s = WorkerStatePressure then c\<lparr>cc_Pressured := cc_Pressured c + 1\<rparr>
         else if s = WorkerStateDraining then c\<lparr>cc_Draining := cc_Draining c + 1\<rparr>
         else if s = WorkerStateOffline then c\<lparr>cc_Offline := cc_Offline c + 1\<rparr>
         else c)"

definition count_platform_of ::
  "(string, clusterPlatformSummary) gomap \<Rightarrow> 's WorkerConn \<Rightarrow> (string, clusterPlatformSummary) gomap" where
  "count_platform_of platformMap wc =
     (let key = platformKey (w_os wc) (w_arch wc);
          p = (case map_of platformMap key of
                 None \<Rightarrow> \<lparr>cp_OS = w_os wc, cp_Arch = w_arch wc, cp_Workers = 0, cp_TotalCapacity = 0, cp_AvailableCapacity = 0\<rparr>
               | Some p \<Rightarrow> p)
      in AList.update key
           (p\<lparr>cp_Workers := cp_Workers p + 1, cp_TotalCapacity := wrap64 (cp_TotalCapacity p + w_capacity wc),
              cp_AvailableCapacity := wrap64 (cp_AvailableCapacity p + AvailableCapacity wc)\<rparr>) platformMap)"

text \<open>The accumulators of the loop: the counts, the two capacities and the platforms.\<close>

definition cluster_step ::
  "clusterWorkerCounts \<times> int \<times> int \<times> (string, clusterPlatformSummary) gomap \<Rightarrow> 's WorkerConn \<Rightarrow>
   clusterWorkerCounts \<times> int \<times> int \<times> (string, clusterPlatformSummary) gomap" where
  "cluster_step acc wc =
     (let (counts, totalCap, availCap, platformMap) = acc
      in (count_state counts (w_state wc), wrap64 (totalCap + w_capacity wc),
          (if w_state wc = WorkerStateOnline then wrap64 (availCap + AvailableCapacity wc) else availCap),
          count_platform_of platformMap wc))"

definition handleCluster :: "'s Manager \<Rightarrow> response" where
  "handleCluster m =
     (let workers = map (\<lambda>a. p_conns (m_workers m) ! a) (allWorkers (m_workers m));
          (counts, totalCap, availCap, platformMap) =
            foldl cluster_step (\<lparr>cc_Total = 0, cc_Online = 0, cc_Pressured = 0, cc_Draining = 0, cc_Offline = 0\<rparr>, 0, 0, []) workers
      in answer OK (ClusterBody
           \<lparr>cs_Workers = counts,
            cs_Capacity = \<lparr>ca_Total = totalCap, ca_Available = availCap,
                           ca_Utilization = (if 0 < totalCap then Some (1 - real_of_int availCap / real_of_int totalCap) else None)\<rparr>,
            cs_QueueDepth = int (pq_Size (m_queue m)), cs_Platforms = map snd platformMap\<rparr>))"

definition handleClusterQueue :: "'s Config \<Rightarrow> 's Manager \<Rightarrow> response" where
  "handleClusterQueue cfg m = answer OK (QueueBody (QueueInfo cfg m))"

definition handleClusterMetrics :: "'s Manager \<Rightarrow> response" where
  "handleClusterMetrics m =
     (let jobCounts = CountJobsByStatus (m_store m);
          workers = map (\<lambda>a. p_conns (m_workers m) ! a) (allWorkers (m_workers m));
          (totalCap, availCap) = foldl (\<lambda>(t, a) wc. (wrap64 (t + w_capacity wc), wrap64 (a + AvailableCapacity wc))) (0, 0) workers
      in answer OK (MetricsBody
           \<lparr>mx_Jobs = map (\<lambda>s. (s, case map_of jobCounts s of None \<Rightarrow> 0 | Some n \<Rightarrow> n))
                        [JobStatusPending, JobStatusProposing, JobStatusProvisioning, JobStatusRunning, JobStatusAwaitingChildren,
                         JobStatusCompleted, JobStatusFailed, JobStatusCancelled],
            mx_Connected = int (length workers), mx_TotalCap = totalCap, mx_AvailCap = availCap,
            mx_QueueDepth = int (pq_Size (m_queue m))\<rparr>))"

section \<open>Jobs\<close>

record webhookConfig =
  wc_URL :: string
  wc_Events :: "string list"
  wc_Headers :: "(string, string) gomap"

record submitJobRequest =
  sj_Task :: string
  sj_Payload :: JsonOrBytes
  sj_Webhook :: "webhookConfig option"

text \<open>
  Decoding a request: an object field by field, a later field over an earlier one, names without regard to
  case, unknown names ignored, null leaving a field as it is. The payload decodes itself. White space between
  the tokens of a payload is not kept.
\<close>

fun decode_fields :: "('a \<Rightarrow> string \<Rightarrow> json \<Rightarrow> 'a res) \<Rightarrow> 'a \<Rightarrow> (string \<times> json) list \<Rightarrow> 'a res" where
  "decode_fields f x [] = Inr x"
| "decode_fields f x ((k, j) # ms) = and_then (f x k j) (\<lambda>y. decode_fields f y ms)"

definition decode_object :: "('a \<Rightarrow> string \<Rightarrow> json \<Rightarrow> 'a res) \<Rightarrow> 'a \<Rightarrow> json \<Rightarrow> 'a res" where
  "decode_object f x j =
     (case j of JNull \<Rightarrow> Inr x | JObj ms \<Rightarrow> decode_fields f x ms | _ \<Rightarrow> Inl (Errorf ''json: cannot unmarshal''))"

definition decode_text :: "string \<Rightarrow> json \<Rightarrow> string res" where
  "decode_text x j =
     (case j of JNull \<Rightarrow> Inr x | JStr r \<Rightarrow> Inr (unquote r) | _ \<Rightarrow> Inl (Errorf ''json: cannot unmarshal into string''))"

fun decode_strings :: "json list \<Rightarrow> string list res" where
  "decode_strings [] = Inr []"
| "decode_strings (j # js) = and_then (decode_text [] j) (\<lambda>s. and_then (decode_strings js) (\<lambda>ss. Inr (s # ss)))"

definition decode_webhook :: "webhookConfig \<Rightarrow> string \<Rightarrow> json \<Rightarrow> webhookConfig res" where
  "decode_webhook w k j =
     (if field_key k = ''url'' then and_then (decode_text (wc_URL w) j) (\<lambda>u. Inr (w\<lparr>wc_URL := u\<rparr>))
      else if field_key k = ''events''
      then (case j of
              JNull \<Rightarrow> Inr (w\<lparr>wc_Events := []\<rparr>)
            | JArr js \<Rightarrow> and_then (decode_strings js) (\<lambda>es. Inr (w\<lparr>wc_Events := es\<rparr>))
            | _ \<Rightarrow> Inl (Errorf ''json: cannot unmarshal into []string''))
      else if field_key k = ''headers''
      then and_then (decode_object (\<lambda>hs h v. and_then (decode_text [] v) (\<lambda>x. Inr (AList.update (unquote h) x hs)))
                       (if j = JNull then [] else wc_Headers w) j)
             (\<lambda>hs. Inr (w\<lparr>wc_Headers := hs\<rparr>))
      else Inr w)"

definition decode_submit_field :: "submitJobRequest \<Rightarrow> string \<Rightarrow> json \<Rightarrow> submitJobRequest res" where
  "decode_submit_field r k j =
     (if field_key k = ''task'' then and_then (decode_text (sj_Task r) j) (\<lambda>t. Inr (r\<lparr>sj_Task := t\<rparr>))
      else if field_key k = ''payload''
      then and_then (UnmarshalJSON (json_compact j)) (\<lambda>p. Inr (r\<lparr>sj_Payload := (case p of None \<Rightarrow> [] | Some b \<Rightarrow> b)\<rparr>))
      else if field_key k = ''webhook''
      then (if j = JNull then Inr (r\<lparr>sj_Webhook := None\<rparr>)
            else and_then (decode_object decode_webhook
                             (case sj_Webhook r of None \<Rightarrow> \<lparr>wc_URL = [], wc_Events = [], wc_Headers = []\<rparr> | Some w \<Rightarrow> w) j)
                   (\<lambda>w. Inr (r\<lparr>sj_Webhook := Some w\<rparr>)))
      else Inr r)"

text \<open>The decoder reads one value and leaves the rest of the body.\<close>

definition decode_submit :: "string \<Rightarrow> submitJobRequest res" where
  "decode_submit s =
     (case json_value (Suc (2 * length s)) (skip_ws s) of
        None \<Rightarrow> Inl (Errorf ''invalid JSON'')
      | Some (j, rest) \<Rightarrow> decode_object decode_submit_field \<lparr>sj_Task = [], sj_Payload = [], sj_Webhook = None\<rparr> j)"

definition new_job :: "submitJobRequest \<Rightarrow> Task \<Rightarrow> string \<Rightarrow> time \<Rightarrow> Job" where
  "new_job req taskDef ident now =
     (let job = Job_zero\<lparr>jID := ident, jTaskName := sj_Task req, jStatus := JobStatusPending, jPhase := JobPhaseRun,
                          jCost := tCost taskDef, jPayload := sj_Payload req, jCreatedAt := now, jUpdatedAt := now\<rparr>
      in case sj_Webhook req of
           Some w \<Rightarrow> (if wc_URL w \<noteq> []
                      then job\<lparr>jWebhookURL := wc_URL w, jWebhookEvents := wc_Events w,
                               jWebhookHeaders := sanitizeWebhookHeaders (wc_Headers w)\<rparr>
                      else job)
         | None \<Rightarrow> job)"

definition handleSubmitJob :: "'s Config \<Rightarrow> 's Manager \<Rightarrow> string \<Rightarrow> time \<Rightarrow> response \<times> 's Manager" where
  "handleSubmitJob cfg m text now =
     (case decode_submit text of
        Inl e \<Rightarrow> (answer BadRequest (Problem (error_text e)), m)
      | Inr req \<Rightarrow>
          if sj_Task req = [] then (answer BadRequest (Problem ''task name is required''), m)
          else (case GetTask (m_store m) (sj_Task req) of
                  Inl e \<Rightarrow> (answer Not_Found (Problem (''unknown task: '' @ sj_Task req)), m)
                | Inr taskDef \<Rightarrow>
                    (let job = new_job req taskDef (cfg_ulid cfg (m_ulids m)) now;
                         m1 = m\<lparr>m_ulids := m_ulids m + 1, m_store := SaveJob (m_store m) job\<rparr>
                     in (answer Accepted (JobBody job), EnqueueJob m1 job))))"

definition handleListJobs :: "'s Manager \<Rightarrow> string \<Rightarrow> string \<Rightarrow> response" where
  "handleListJobs m cursor limit =
     (case ListJobs (m_store m) cursor (parseLimit limit 20) of
        Inl e \<Rightarrow> answer InternalServerError (Problem ''failed to list jobs'')
      | Inr (jobs, nextCursor) \<Rightarrow> answer OK (JobsBody jobs nextCursor))"

definition handleGetJob :: "'s Manager \<Rightarrow> string \<Rightarrow> response" where
  "handleGetJob m i =
     (case GetJob (m_store m) i of
        Inl e \<Rightarrow> answer Not_Found (Problem ''job not found'') | Inr job \<Rightarrow> answer OK (JobBody job))"

text \<open>The cancellation runs in a goroutine of its own: the second component is the job it is started for.\<close>

definition handleCancelJob :: "'s Manager \<Rightarrow> string \<Rightarrow> response \<times> string option" where
  "handleCancelJob m i =
     (case GetJob (m_store m) i of
        Inl e \<Rightarrow> (answer Not_Found (Problem ''job not found''), None)
      | Inr job \<Rightarrow>
          if IsTerminal (jStatus job)
          then (answer Conflict (Problem (''job is already in a terminal state: '' @ status_text (jStatus job))), None)
          else (answer Accepted NoBody, Some i))"

definition handleJobLogs :: "'s Manager \<Rightarrow> string \<Rightarrow> response" where
  "handleJobLogs m i =
     (case GetJob (m_store m) i of
        Inl e \<Rightarrow> answer Not_Found (Problem ''job not found'')
      | Inr job \<Rightarrow> answer OK (PlainText (GetRootJobLogReader (m_store m) i)))"

text \<open>
  A stream of logs is answered at once, follows a channel from a state on, or waits: subscribing can block
  for ever when the channel has no room for the logs there are. Following it, the handler sees chunks until
  the channel is closed or the client leaves.
\<close>

datatype 's streaming = Answered response | Following nat "'s Manager" | Blocked

datatype stream_event = Chunk bytes | ChannelClosed | ClientGone

text \<open>\<^verbatim>\<open>strings.Split(strings.TrimRight(s, "\n"), "\n")\<close> without its empty elements.\<close>

definition chunk_lines :: "bytes \<Rightarrow> string list" where
  "chunk_lines b =
     (let t = rev (dropWhile (\<lambda>c. c = nl) (rev b)) in filter (\<lambda>l. l \<noteq> []) (lines_of t @ [tail_of t]))"

fun follow :: "(string \<Rightarrow> string) \<Rightarrow> stream_event list \<Rightarrow> string" where
  "follow event [] = []"
| "follow event (ClientGone # es) = []"
| "follow event (ChannelClosed # es) = writeSSEEvent ''done'' ''{}''"
| "follow event (Chunk b # es) = concat (map event (chunk_lines b)) @ follow event es"

definition job_event :: "string \<Rightarrow> string \<Rightarrow> string" where
  "job_event jobID line = writeSSEEvent ''log'' (marshal_strings [(''job_id'', jobID), (''line'', line)])"

definition handleJobLogsStream :: "'s Manager \<Rightarrow> string \<Rightarrow> bool \<Rightarrow> 's streaming" where
  "handleJobLogsStream m jobID flusher =
     (case GetJob (m_store m) jobID of
        Inl e \<Rightarrow> Answered (answer Not_Found (Problem ''job not found''))
      | Inr job \<Rightarrow>
          if \<not> flusher then Answered (answer InternalServerError (Problem ''streaming not supported''))
          else if IsTerminal (jStatus job)
          then Answered (answer OK (EventStream
                 (emitLogLines jobID (GetRootJobLogReader (m_store m) jobID) @ writeSSEEvent ''done'' ''{}'')))
          else (case SubscribeJobLogs (m_store m) jobID of
                  None \<Rightarrow> Blocked | Some (a, st) \<Rightarrow> Following a (m\<lparr>m_store := st\<rparr>)))"

definition handleListJobRuns :: "'s Manager \<Rightarrow> string \<Rightarrow> response" where
  "handleListJobRuns m i =
     (case GetJob (m_store m) i of
        Inl e \<Rightarrow> answer Not_Found (Problem ''job not found'')
      | Inr job \<Rightarrow> answer OK (RunsBody (ListJobRuns (m_store m) i)))"

definition handleRunLogs :: "'s Manager \<Rightarrow> string \<Rightarrow> response" where
  "handleRunLogs m runID = answer OK (PlainText (GetRunLogReader (m_store m) runID))"

definition run_event :: "string \<Rightarrow> string \<Rightarrow> string \<Rightarrow> string" where
  "run_event runID jobID line =
     writeSSEEvent ''log'' (marshal_strings [(''job_id'', jobID), (''line'', line), (''run_id'', runID)])"

definition handleRunLogsStream :: "'s Manager \<Rightarrow> string \<Rightarrow> bool \<Rightarrow> 's streaming" where
  "handleRunLogsStream m runID flusher =
     (if \<not> flusher then Answered (answer InternalServerError (Problem ''streaming not supported''))
      else case GetRun (m_store m) runID of
             Inl e \<Rightarrow> Answered (answer Not_Found (Problem ''run not found''))
           | Inr run \<Rightarrow>
               if rStatus run = RunStatusCompleted \<or> rStatus run = RunStatusFailed
               then Answered (answer OK (EventStream
                      (emitLogLines (rJobID run) (GetRunLogReader (m_store m) runID) @ writeSSEEvent ''done'' ''{}'')))
               else let (a, st) = SubscribeRunLogs (m_store m) runID in Following a (m\<lparr>m_store := st\<rparr>))"

definition handleListChildJobs :: "'s Manager \<Rightarrow> string \<Rightarrow> response" where
  "handleListChildJobs m i =
     (case GetJob (m_store m) i of
        Inl e \<Rightarrow> answer Not_Found (Problem ''job not found'')
      | Inr job \<Rightarrow> answer OK (ChildrenBody (ListChildJobs (m_store m) i)))"

section \<open>Tasks\<close>

definition handleListTaskDefs :: "'s Manager \<Rightarrow> response" where
  "handleListTaskDefs m = answer OK (TasksBody (ListTasks (m_store m)))"

definition handleCreateTaskDef :: "'s Manager \<Rightarrow> Task res \<Rightarrow> response \<times> 's Manager" where
  "handleCreateTaskDef m dec =
     (case dec of
        Inl e \<Rightarrow> (answer BadRequest (Problem (error_text e)), m)
      | Inr task \<Rightarrow>
          if tName task = [] then (answer BadRequest (Problem ''task name is required''), m)
          else (answer Created (TaskBody (Some task)), m\<lparr>m_store := SaveTask (m_store m) task\<rparr>))"

definition handleGetTaskDef :: "'s Manager \<Rightarrow> string \<Rightarrow> response" where
  "handleGetTaskDef m name =
     (case GetTask (m_store m) name of
        Inl e \<Rightarrow> answer Not_Found (Problem ''task not found'') | Inr task \<Rightarrow> answer OK (TaskBody (Some task)))"

definition apply_updates :: "Task \<Rightarrow> Task \<Rightarrow> Task" where
  "apply_updates updates t =
     (let t1 = t\<lparr>tLimitations := tLimitations updates, tRetryPolicy := tRetryPolicy updates\<rparr>;
          t2 = (if tCost updates \<noteq> 0 then t1\<lparr>tCost := tCost updates\<rparr> else t1)
      in t2\<lparr>tNoResult := tNoResult updates\<rparr>)"

definition handleUpdateTaskDef :: "'s Manager \<Rightarrow> string \<Rightarrow> Task res \<Rightarrow> response \<times> 's Manager" where
  "handleUpdateTaskDef m name dec =
     (case dec of
        Inl e \<Rightarrow> (answer BadRequest (Problem (error_text e)), m)
      | Inr updates \<Rightarrow>
          (case UpdateTask (m_store m) name (apply_updates updates) of
             Inl e \<Rightarrow> (answer Not_Found (Problem ''task not found''), m)
           | Inr st \<Rightarrow>
               (answer OK (TaskBody (case GetTask st name of Inl e \<Rightarrow> None | Inr t \<Rightarrow> Some t)), m\<lparr>m_store := st\<rparr>)))"

section \<open>Artifacts\<close>

text \<open>The registry behind the handlers: its operations on a state, and the file server it may also be.\<close>

record 'r registry_ops =
  ro_Publish :: "'r \<Rightarrow> ArtifactVersion \<Rightarrow> (string, upload) gomap \<Rightarrow> error option \<times> 'r"
  ro_ResolveVersion :: "'r \<Rightarrow> string \<Rightarrow> string \<Rightarrow> string \<Rightarrow> string \<Rightarrow> ArtifactPlatform res"
  ro_ListVersions :: "'r \<Rightarrow> string \<Rightarrow> ArtifactVersion list res \<times> 'r"
  ro_DeleteArtifact :: "'r \<Rightarrow> string \<Rightarrow> error option \<times> 'r"
  ro_ServeFile :: "('r \<Rightarrow> string \<Rightarrow> string \<Rightarrow> string \<Rightarrow> string \<Rightarrow> path res) option"

definition fs_ops ::
  "(bytes \<Rightarrow> string) \<Rightarrow> meta_write \<Rightarrow> (error \<times> path list) option \<Rightarrow> time \<Rightarrow> FsRegistry registry_ops" where
  "fs_ops sha wr rm now =
     \<lparr>ro_Publish = (\<lambda>r v bs. Publish sha r v bs wr now), ro_ResolveVersion = ResolveVersion,
      ro_ListVersions = (\<lambda>r a. let (vs, r') = ListVersions r a in (Inr vs, r')),
      ro_DeleteArtifact = (\<lambda>r a. DeleteArtifact r a rm), ro_ServeFile = Some ServeFile\<rparr>"

text \<open>An operation of the registry, when there is one.\<close>

definition handleDeleteTaskDef ::
  "'r registry_ops option \<Rightarrow> 's Manager \<Rightarrow> 'r \<Rightarrow> string \<Rightarrow> response \<times> 's Manager \<times> 'r" where
  "handleDeleteTaskDef reg m r name =
     (case DeleteTask (m_store m) name of
        Inl e \<Rightarrow> (answer Not_Found (Problem ''task not found''), m, r)
      | Inr st \<Rightarrow>
          (answer NoContent NoBody, m\<lparr>m_store := st\<rparr>,
           case reg of None \<Rightarrow> r | Some ops \<Rightarrow> snd (ro_DeleteArtifact ops r name)))"

text \<open>
  A parsed multipart form: the values that \<^verbatim>\<open>FormValue\<close> sees (those of the address come first), the values
  of the form alone, and for each field with files what opening its first file gives.
\<close>

record multipart =
  mp_Form :: "(string, string list) gomap"
  mp_Value :: "(string, string list) gomap"
  mp_File :: "(string, upload res) gomap"

definition FormValue :: "multipart \<Rightarrow> string \<Rightarrow> string" where
  "FormValue f k = (case map_of (mp_Form f) k of Some (v # vs) \<Rightarrow> v | _ \<Rightarrow> [])"

definition HasSuffix :: "string \<Rightarrow> string \<Rightarrow> bool" where
  "HasSuffix s suffix \<longleftrightarrow> length suffix \<le> length s \<and> drop (length s - length suffix) s = suffix"

definition is_space :: "char \<Rightarrow> bool" where
  "is_space c \<longleftrightarrow> c = CHR '' '' \<or> (9 \<le> byte c \<and> byte c \<le> 13)"

definition TrimSpace :: "string \<Rightarrow> string" where
  "TrimSpace s = rev (dropWhile is_space (rev (dropWhile is_space s)))"

fun split_comma :: "string \<Rightarrow> string list" where
  "split_comma [] = [[]]"
| "split_comma (c # cs) =
     (if c = CHR '','' then [] # split_comma cs
      else case split_comma cs of [] \<Rightarrow> [[c]] | w # ws \<Rightarrow> (c # w) # ws)"

definition dep_list :: "string \<Rightarrow> string list" where
  "dep_list v = filter (\<lambda>d. d \<noteq> []) (map TrimSpace (split_comma v))"

definition collect_deps :: "(string, string list) gomap \<Rightarrow> (string, string list) gomap" where
  "collect_deps values =
     foldl (\<lambda>deps (key, vals).
        if HasSuffix key ''_deps'' \<and> vals \<noteq> [] \<and> dep_list (hd vals) \<noteq> []
        then AList.update (take (length key - 5) key) (dep_list (hd vals)) deps else deps) [] values"

fun open_files :: "(string, upload res) gomap \<Rightarrow> string + (string, upload) gomap" where
  "open_files [] = Inr []"
| "open_files ((key, f) # fs) =
     (if HasSuffix key ''_deps'' \<or> CHR ''_'' \<notin> set key then open_files fs
      else case f of
             Inl e \<Rightarrow> Inl key
           | Inr up \<Rightarrow> (case open_files fs of Inl k \<Rightarrow> Inl k | Inr bs \<Rightarrow> Inr ((key, up) # bs)))"

definition publishArtifact ::
  "'r registry_ops option \<Rightarrow> 's Manager \<Rightarrow> 'r \<Rightarrow> multipart res \<Rightarrow> string \<Rightarrow> time \<Rightarrow> response \<times> 's Manager \<times> 'r" where
  "publishArtifact reg m r form artifactName now =
     (case reg of
        None \<Rightarrow> (answer ServiceUnavailable (Problem ''artifact registry not configured''), m, r)
      | Some ops \<Rightarrow>
          (case form of
             Inl e \<Rightarrow> (answer BadRequest (Problem (error_text e)), m, r)
           | Inr f \<Rightarrow>
               (let version = FormValue f ''version'';
                    preRelease = (FormValue f ''pre_release'' = ''true'');
                    ignoreIfExists = (FormValue f ''ignore_if_exists'' = ''true'')
                in if version = [] then (answer BadRequest (Problem ''version is required''), m, r)
                   else case open_files (mp_File f) of
                          Inl key \<Rightarrow> (answer BadRequest (Problem (''failed to open file: '' @ key)), m, r)
                        | Inr [] \<Rightarrow> (answer BadRequest (Problem ''no platform binaries provided (expected fields like linux_amd64)''), m, r)
                        | Inr (b # bs) \<Rightarrow>
                            (let av = \<lparr>av_Artifact = artifactName, av_Version = version, av_PreRelease = preRelease,
                                       av_PublishedAt = now, av_Platforms = [], av_PlatformDeps = collect_deps (mp_Value f)\<rparr>
                             in case ro_Publish ops r av (b # bs) of
                                  (None, r') \<Rightarrow> (answer Created NoBody, NotifyDispatcher m, r')
                                | (Some e, r') \<Rightarrow>
                                    (if e = ErrAlreadyExists
                                     then (if ignoreIfExists then answer OK NoBody
                                           else answer Conflict (Problem ''version already exists for this platform''), m, r')
                                     else (answer InternalServerError (Problem ''publish failed''), m, r'))))))"

definition listArtifactVersions :: "'r registry_ops option \<Rightarrow> 'r \<Rightarrow> string \<Rightarrow> response \<times> 'r" where
  "listArtifactVersions reg r artifactName =
     (case reg of
        None \<Rightarrow> (answer ServiceUnavailable (Problem ''artifact registry not configured''), r)
      | Some ops \<Rightarrow>
          (case ro_ListVersions ops r artifactName of
             (Inl e, r') \<Rightarrow> (answer InternalServerError (Problem ''failed to list versions''), r')
           | (Inr vs, r') \<Rightarrow> (answer OK (VersionsBody vs), r')))"

definition artifactLatest :: "'r registry_ops option \<Rightarrow> 'r \<Rightarrow> string \<Rightarrow> response \<times> 'r" where
  "artifactLatest reg r artifactName =
     (case reg of
        None \<Rightarrow> (answer ServiceUnavailable (Problem ''artifact registry not configured''), r)
      | Some ops \<Rightarrow>
          (case ro_ListVersions ops r artifactName of
             (Inl e, r') \<Rightarrow> (answer Not_Found (Problem ''no versions found''), r')
           | (Inr [], r') \<Rightarrow> (answer Not_Found (Problem ''no versions found''), r')
           | (Inr (v # vs), r') \<Rightarrow>
               (case find (\<lambda>v. \<not> av_PreRelease v) (v # vs) of
                  Some v \<Rightarrow> answer OK (VersionBody v)
                | None \<Rightarrow> answer Not_Found (Problem ''no released version found''), r')))"

definition serveArtifact :: "'r registry_ops option \<Rightarrow> 'r \<Rightarrow> string \<Rightarrow> string \<Rightarrow> string \<Rightarrow> string \<Rightarrow> response" where
  "serveArtifact reg r artifactName version os arch =
     (case reg of
        None \<Rightarrow> answer ServiceUnavailable (Problem ''artifact registry not configured'')
      | Some ops \<Rightarrow>
          (case ro_ServeFile ops of
             Some serve \<Rightarrow>
               (case serve r artifactName version os arch of
                  Inl e \<Rightarrow> answer Not_Found (Problem ''artifact not found'') | Inr p \<Rightarrow> answer OK (FileBody p))
           | None \<Rightarrow>
               (case ro_ResolveVersion ops r artifactName version os arch of
                  Inl e \<Rightarrow> answer Not_Found (Problem ''artifact not found'')
                | Inr platform \<Rightarrow>
                    if apURL platform \<noteq> [] then answer Found (Redirect (apURL platform))
                    else answer Not_Found (Problem ''artifact binary not available''))))"

section \<open>Routes\<close>

text \<open>The checks in front of a handler, and for each route the ones it is wired with.\<close>

datatype middleware = ClientAuth | SignedURL | RateLimit int int

datatype endpoint =
    EpHealth | EpWorkerConnect | EpManagerLog | EpManagerLogStream
  | EpListWorkers | EpGetWorker | EpDrainWorker | EpDisconnectWorker
  | EpCluster | EpClusterQueue | EpClusterMetrics
  | EpListJobs | EpSubmitJob | EpGetJob | EpCancelJob | EpJobLogs | EpJobLogsStream | EpListJobRuns
  | EpRunLogs | EpRunLogsStream | EpListChildJobs
  | EpListTaskDefs | EpCreateTaskDef | EpGetTaskDef | EpUpdateTaskDef | EpDeleteTaskDef
  | EpArtifactUpload | EpListArtifactVersions | EpArtifactLatest | EpArtifactDownload

definition client_checks :: "middleware list" where "client_checks = [ClientAuth, RateLimit 10 30]"

definition buildMux :: "string \<Rightarrow> (string \<times> endpoint \<times> middleware list) list" where
  "buildMux workerConnectPath =
     [(''GET /health'', EpHealth, [RateLimit 2 20]),
      (''POST '' @ workerConnectPath, EpWorkerConnect, [RateLimit 1 10])]
     @ map (\<lambda>(p, e). (p, e, client_checks))
       [(''GET /manager/log'', EpManagerLog), (''GET /manager/log/stream'', EpManagerLogStream),
        (''GET /workers'', EpListWorkers), (''GET /workers/{id}'', EpGetWorker),
        (''POST /workers/{id}/drain'', EpDrainWorker), (''DELETE /workers/{id}'', EpDisconnectWorker),
        (''GET /cluster'', EpCluster), (''GET /cluster/queue'', EpClusterQueue), (''GET /cluster/metrics'', EpClusterMetrics),
        (''GET /jobs'', EpListJobs), (''POST /jobs'', EpSubmitJob), (''GET /jobs/{id}'', EpGetJob), (''DELETE /jobs/{id}'', EpCancelJob),
        (''GET /jobs/{id}/logs'', EpJobLogs), (''GET /jobs/{id}/logs/stream'', EpJobLogsStream),
        (''GET /jobs/{id}/runs'', EpListJobRuns), (''GET /jobs/{id}/runs/{runID}/logs'', EpRunLogs),
        (''GET /jobs/{id}/runs/{runID}/logs/stream'', EpRunLogsStream), (''GET /jobs/{id}/children'', EpListChildJobs),
        (''GET /tasks'', EpListTaskDefs), (''POST /tasks'', EpCreateTaskDef), (''GET /tasks/{name}'', EpGetTaskDef),
        (''PUT /tasks/{name}'', EpUpdateTaskDef), (''DELETE /tasks/{name}'', EpDeleteTaskDef),
        (''POST /tasks/{name}/artifacts'', EpArtifactUpload), (''GET /tasks/{name}/artifacts'', EpListArtifactVersions),
        (''GET /tasks/{name}/artifacts/latest'', EpArtifactLatest)]
     @ [(''GET /tasks/{name}/artifacts/{version}/{os}/{arch}'', EpArtifactDownload, [SignedURL, RateLimit 10 30])]"

text \<open>
  What the checks look at: the functions of the configuration, the signer of addresses with the errors it
  tells apart, and the bucket of the client.
\<close>

datatype sign_error = ErrExpired | ErrInvalidSig | ErrMissingParams | OtherSignError string

definition clientAuth :: "('q \<Rightarrow> error option) option \<Rightarrow> 'q \<Rightarrow> response option" where
  "clientAuth authFunc req =
     (case authFunc of
        None \<Rightarrow> None
      | Some f \<Rightarrow> (case f req of None \<Rightarrow> None | Some e \<Rightarrow> Some (answer Unauthorized (Problem (error_text e)))))"

definition signedArtifactMiddleware :: "(string \<Rightarrow> sign_error option) option \<Rightarrow> string \<Rightarrow> string \<Rightarrow> response option" where
  "signedArtifactMiddleware signer domain url =
     (case signer of
        None \<Rightarrow> None
      | Some verify \<Rightarrow>
          (case verify (domain @ url) of
             None \<Rightarrow> None
           | Some e \<Rightarrow>
               Some (answer Unauthorized (Problem
                 (case e of
                    ErrExpired \<Rightarrow> ''The URL has expired''
                  | ErrInvalidSig \<Rightarrow> ''The provided signature is invalid''
                  | ErrMissingParams \<Rightarrow> ''This resource requires a valid signature to access''
                  | OtherSignError s \<Rightarrow> ''You are unauthorized to access this resource'')))))"

end
