(* ===== verification/Routes_Safety.thy ===== *)
theory Routes_Safety
  imports Manager_Routes Child_Jobs
begin

text \<open>
  What the HTTP interface of the manager promises: the event stream of a log, the submission and the
  cancellation of jobs, the summary of the cluster, and which requests reach a handler.
\<close>

section \<open>Logs\<close>

definition log_event :: "string \<Rightarrow> string \<Rightarrow> string" where
  "log_event taskID line = writeSSEEvent ''log'' (marshal_strings [(''line'', line), (''task_id'', taskID)])"

lemma lines_of_plain: "nl \<notin> set buf \<Longrightarrow> lines_of buf = []"
  by (simp add: lines_of.simps)

lemma lines_of_line: "nl \<notin> set l \<Longrightarrow> lines_of (l @ nl # rest) = l # lines_of rest"
proof -
  assume l: "nl \<notin> set l"
  then have c: "\<forall>x \<in> set l. x \<noteq> nl" by auto
  have "takeWhile (\<lambda>c. c \<noteq> nl) (l @ nl # rest) = l" "dropWhile (\<lambda>c. c \<noteq> nl) (l @ nl # rest) = nl # rest"
    using c by (simp_all add: takeWhile_append2 dropWhile_append2)
  then show ?thesis by (subst lines_of.simps) simp
qed

lemma line_no_nl: "l \<in> set (lines_of buf) \<Longrightarrow> nl \<notin> set l"
proof (induction buf rule: lines_of.induct)
  case (1 buf)
  then show ?case by (cases "nl \<in> set buf") (auto simp: lines_of.simps [of buf] dest: set_takeWhileD)
qed

lemma emit_bytes_lines:
  "nl \<notin> set line \<Longrightarrow>
   emit_bytes taskID line bs =
     (concat (map (log_event taskID) (filter (\<lambda>l. l \<noteq> []) (lines_of (line @ bs)))), tail_of (line @ bs))"
proof (induction taskID line bs rule: emit_bytes.induct)
  case (1 taskID line)
  then show ?case by (simp add: lines_of_plain tail_of_plain)
next
  case (2 taskID line b bs)
  show ?case
  proof (cases "b = nl")
    case True
    have "lines_of (line @ nl # bs) = line # lines_of bs" "tail_of (line @ nl # bs) = tail_of bs"
      using 2(4) by (simp_all add: lines_of_line tail_of_split)
    then show ?thesis using 2 True by (cases "line = []") (simp_all add: log_event_def)
  next
    case False
    then show ?thesis using 2 by simp
  qed
qed

lemma emit_reads_lines:
  "nl \<notin> set line \<Longrightarrow>
   emit_reads taskID line rc = concat (map (log_event taskID) (filter (\<lambda>l. l \<noteq> []) (lines_of (line @ rc))))"
proof (induction taskID line rc rule: emit_reads.induct)
  case (1 taskID line rc)
  show ?case
  proof (cases "rc = []")
    case True
    then show ?thesis using 1 by (simp add: emit_reads.simps lines_of_plain)
  next
    case False
    let ?a = "line @ take 4096 rc"
    have "lines_of (line @ rc) = lines_of ?a @ lines_of (tail_of ?a @ drop 4096 rc)"
      using lines_of_append [of ?a "drop 4096 rc"] by simp
    then show ?thesis
      using False 1 emit_bytes_lines [OF 1(2), of taskID "take 4096 rc"] tail_of_no_nl [of ?a]
      by (subst emit_reads.simps) simp
  qed
qed

lemma emitLogLines_lines:
  "emitLogLines taskID rc = concat (map (log_event taskID) (filter (\<lambda>l. l \<noteq> []) (lines_of rc)))"
  by (simp add: emitLogLines_def emit_reads_lines)

text \<open>
  The manager receives the log messages of a run. The in-memory store joins them as they are.
\<close>

fun receive_logs :: "'s Manager \<Rightarrow> LogMessage list \<Rightarrow> 's Manager res" where
  "receive_logs m [] = Inr m"
| "receive_logs m (msg # msgs) = and_then (handleLogMessage m msg) (\<lambda>m'. receive_logs m' msgs)"

abbreviation log_of :: "string \<Rightarrow> string \<Rightarrow> bytes \<Rightarrow> LogMessage" where
  "log_of jobID runID b \<equiv> \<lparr>lmJobID = jobID, lmRunID = runID, lmLine = b\<rparr>"

lemma receive_logs_joined:
  assumes "runID \<noteq> []"
  shows "receive_logs m (map (log_of jobID runID) chunks) = Inr m' \<Longrightarrow>
    GetRunLogReader (m_store m') runID = GetRunLogReader (m_store m) runID @ concat chunks"
proof (induction chunks arbitrary: m)
  case (Cons b chunks)
  then obtain m1 where m1: "handleLogMessage m (log_of jobID runID b) = Inr m1" "receive_logs m1 (map (log_of jobID runID) chunks) = Inr m'"
    by (auto simp: and_then_Inr_iff)
  have "GetRunLogReader (m_store m1) runID = GetRunLogReader (m_store m) runID @ b"
    using m1(1) assms
    by (auto simp: handleLogMessage_def resolveRunID_def with_store_def AppendRunLog_def GetRunLogReader_def Let_def split: sum.splits)
  then show ?case using Cons.IH [OF m1(2)] by simp
qed simp

text \<open>Without subscribers nothing can go wrong.\<close>

lemma receive_logs_quiet:
  assumes "runID \<noteq> []"
  shows "ms_runSubscribers (m_store m) = [] \<Longrightarrow> ms_jobSubscribers (m_store m) = [] \<Longrightarrow>
    \<exists>logs. receive_logs m (map (log_of jobID runID) chunks) = Inr (m\<lparr>m_store := (m_store m)\<lparr>ms_runLogs := logs\<rparr>\<rparr>)"
proof (induction chunks arbitrary: m)
  case Nil
  show ?case by (intro exI [of _ "ms_runLogs (m_store m)"]) simp
next
  case (Cons b chunks)
  let ?m1 = "m\<lparr>m_store := (m_store m)\<lparr>ms_runLogs :=
    AList.update runID ((case map_of (ms_runLogs (m_store m)) runID of None \<Rightarrow> [] | Some x \<Rightarrow> x) @ b) (ms_runLogs (m_store m))\<rparr>\<rparr>"
  have "handleLogMessage m (log_of jobID runID b) = Inr ?m1"
    using assms Cons.prems
    by (simp add: handleLogMessage_def resolveRunID_def with_store_def AppendRunLog_def slice_at_def Let_def split: option.split)
  then show ?case using Cons.IH [of ?m1] Cons.prems by (auto simp: and_then_def)
qed

lemma chunk_lines_plain: "nl \<notin> set b \<Longrightarrow> chunk_lines b = filter (\<lambda>l. l \<noteq> []) [b]"
proof -
  assume b: "nl \<notin> set b"
  then have "dropWhile (\<lambda>c. c = nl) (rev b) = rev b" by (cases "rev b") (auto simp: dropWhile_eq_self_iff)
  then show ?thesis using b by (simp add: chunk_lines_def lines_of_plain tail_of_plain)
qed

lemma follow_lines:
  "\<forall>b \<in> set bs. nl \<notin> set b \<Longrightarrow>
   follow event (map Chunk bs @ [ChannelClosed]) =
     concat (map event (filter (\<lambda>l. l \<noteq> []) bs)) @ writeSSEEvent ''done'' ''{}''"
  by (induction bs) (auto simp: chunk_lines_plain)

lemma joined_lines:
  assumes "\<forall>l \<in> set outs. nl \<notin> set l"
  shows "lines_of ((banner @ [nl]) @ concat outs @ nl # foot) = lines_of (banner @ [nl]) @ concat outs # lines_of foot"
proof -
  have "nl \<notin> set (concat outs)" using assms by auto
  then have out: "lines_of (concat outs @ nl # foot) = concat outs # lines_of foot" by (rule lines_of_line)
  have "tail_of (banner @ [nl]) = []" by (simp add: tail_of_def)
  then show ?thesis
    unfolding lines_of_append [of "banner @ [nl]" "concat outs @ nl # foot"] by (simp only: append_Nil out)
qed

text \<open>
  C38: Replaying a log writes one event for each of its complete lines that is not empty, however the reads of
  4096 bytes cut it. The log of a run is a banner that ends a line, the lines of output without their ends, and a
  footer that begins a line; the in-memory store joins them, so the stream of a finished run has the whole
  output as a single line, although a client that followed the run saw each line by itself.
\<close>

theorem finished_log_joined:
  assumes "runID \<noteq> []" and "GetRunLogReader (m_store m) runID = []"
    and "receive_logs m (map (log_of jobID runID) ([banner @ [nl]] @ outs @ [nl # foot])) = Inr m1"
    and "\<forall>l \<in> set outs. nl \<notin> set l"
    and "GetRunLogReader (m_store m2) runID = GetRunLogReader (m_store m1) runID"
    and "GetRun (m_store m2) runID = Inr run" and "rStatus run = RunStatusCompleted \<or> rStatus run = RunStatusFailed"
  shows "(\<forall>rc. emitLogLines taskID rc = concat (map (log_event taskID) (filter (\<lambda>l. l \<noteq> []) (lines_of rc)))) \<and>
    handleRunLogsStream m2 runID True = Answered (answer OK (EventStream
      (concat (map (log_event (rJobID run))
         (filter (\<lambda>l. l \<noteq> []) (lines_of (banner @ [nl]) @ [concat outs] @ lines_of foot))) @ writeSSEEvent ''done'' ''{}''))) \<and>
    follow (run_event runID (rJobID run)) (map Chunk outs @ [ChannelClosed]) =
      concat (map (run_event runID (rJobID run)) (filter (\<lambda>l. l \<noteq> []) outs)) @ writeSSEEvent ''done'' ''{}''"
proof (intro conjI allI)
  show "emitLogLines taskID rc = concat (map (log_event taskID) (filter (\<lambda>l. l \<noteq> []) (lines_of rc)))" for rc
    by (rule emitLogLines_lines)
  have "GetRunLogReader (m_store m2) runID = (banner @ [nl]) @ concat outs @ nl # foot"
    using receive_logs_joined [OF assms(1,3)] assms(2,5) by simp
  then have "emitLogLines (rJobID run) (GetRunLogReader (m_store m2) runID) =
      concat (map (log_event (rJobID run)) (filter (\<lambda>l. l \<noteq> []) (lines_of (banner @ [nl]) @ [concat outs] @ lines_of foot)))"
    by (simp only: emitLogLines_lines joined_lines [OF assms(4)] append_Cons append_Nil)
  then show "handleRunLogsStream m2 runID True = Answered (answer OK (EventStream
      (concat (map (log_event (rJobID run))
         (filter (\<lambda>l. l \<noteq> []) (lines_of (banner @ [nl]) @ [concat outs] @ lines_of foot))) @ writeSSEEvent ''done'' ''{}'')))"
    using assms(6,7) by (auto simp only: handleRunLogsStream_def simp_thms if_False if_True sum.case)
  show "follow (run_event runID (rJobID run)) (map Chunk outs @ [ChannelClosed]) =
      concat (map (run_event runID (rJobID run)) (filter (\<lambda>l. l \<noteq> []) outs)) @ writeSSEEvent ''done'' ''{}''"
    by (rule follow_lines [OF assms(4)])
qed

text \<open>A run prints two lines.\<close>

definition ex_first_run :: JobRun where
  "ex_first_run = \<lparr>rID = ''r'', rJobID = ''j'', rPhase = JobPhaseRun, rAttempt = 1, rWorkerID = ''w'', rStatus = RunStatusRunning,
     rInputPayload = [], rOutputPayload = [], rFailureReason = [], rExitCode = 0, rResultType = ResultSuccess, rStartedAt = 1,
     rFinishedAt = 0\<rparr>"

definition ex_running :: "string list Manager" where
  "ex_running = ex_manager\<lparr>m_store := CreateRun (m_store ex_manager) ex_first_run\<rparr>"

definition ex_finished :: "string list Manager \<Rightarrow> string list Manager" where
  "ex_finished m = upd_job (upd_run m ''r'' (\<lambda>r. r\<lparr>rStatus := RunStatusCompleted\<rparr>)) ''j'' (\<lambda>j. j\<lparr>jStatus := JobStatusCompleted\<rparr>)"

theorem finished_log_joined_witness:
  "\<exists>m1. receive_logs ex_running (map (log_of ''j'' ''r'') ([''start'' @ [nl]] @ [''one'', ''two''] @ [nl # ''end'' @ [nl]])) = Inr m1 \<and>
     handleRunLogsStream (ex_finished m1) ''r'' True = Answered (answer OK (EventStream
       (concat (map (log_event ''j'') [''start'', ''onetwo'', ''end'']) @ writeSSEEvent ''done'' ''{}'')))"
proof -
  let ?chunks = "[''start'' @ [nl]] @ [''one'', ''two''] @ [nl # ''end'' @ [nl]]"
  have store: "m_store ex_running = CreateRun (SaveJob (SaveTask NewMemStore ex_task) ex_job) ex_first_run"
    by (simp add: ex_running_def ex_manager_def NewManager_def)
  note defs = store SaveJob_def SaveTask_def NewMemStore_def CreateRun_def
  have ne: "''r'' \<noteq> []" by simp
  obtain logs where "receive_logs ex_running (map (log_of ''j'' ''r'') ?chunks) = Inr (ex_running\<lparr>m_store := (m_store ex_running)\<lparr>ms_runLogs := logs\<rparr>\<rparr>)"
    using receive_logs_quiet [OF ne, of ex_running "''j''" ?chunks] by (auto simp: defs)
  then obtain m1 where r: "receive_logs ex_running (map (log_of ''j'' ''r'') ?chunks) = Inr m1"
      and m1: "m_store m1 = (m_store ex_running)\<lparr>ms_runLogs := logs\<rparr>" by simp
  have empty: "GetRunLogReader (m_store ex_running) ''r'' = []" by (simp add: defs GetRunLogReader_def)
  have run: "GetRun (m_store (ex_finished m1)) ''r'' = Inr (ex_first_run\<lparr>rStatus := RunStatusCompleted\<rparr>)"
    by (simp add: ex_finished_def upd_run_def UpdateRun_def upd_job_def UpdateJob_def m1 defs GetRun_def ex_first_run_def
        ex_job_def Job_zero_def)
  have same: "GetRunLogReader (m_store (ex_finished m1)) ''r'' = GetRunLogReader (m_store m1) ''r''"
    by (auto simp: ex_finished_def upd_run_def UpdateRun_def upd_job_def UpdateJob_def GetRunLogReader_def split: option.splits sum.splits)
  have ls: "lines_of (''start'' @ [nl]) = [''start'']" "lines_of (''end'' @ [nl]) = [''end'']"
    using lines_of_line [of "''start''" "[]"] lines_of_line [of "''end''" "[]"] lines_of_plain [of "[]"] by (simp_all add: nl_def)
  have plain: "\<forall>l \<in> set [''one'', ''two'']. nl \<notin> set l" by (simp add: nl_def)
  have st: "rStatus (ex_first_run\<lparr>rStatus := RunStatusCompleted\<rparr>) = RunStatusCompleted \<or> rStatus (ex_first_run\<lparr>rStatus := RunStatusCompleted\<rparr>) = RunStatusFailed"
    by simp
  have j: "rJobID (ex_first_run\<lparr>rStatus := RunStatusCompleted\<rparr>) = ''j''" by (simp add: ex_first_run_def)
  note joined = finished_log_joined [OF ne empty r plain same run st, unfolded j ls, THEN conjunct2, THEN conjunct1]
  show ?thesis by (intro exI [of _ m1] conjI) (rule r, simp add: joined)
qed

section \<open>Cancellation\<close>

lemma SendCancel_frame [simp]:
  "m_store (SendCancelToWorker cfg m i) = m_store m" "m_queue (SendCancelToWorker cfg m i) = m_queue m"
  "m_cancelledJobIDs (SendCancelToWorker cfg m i) = m_cancelledJobIDs m"
  by (auto simp: SendCancelToWorker_def send_to_def split: option.splits sum.splits)

lemma mark_cancelled_idem [simp]: "mark_cancelled now (mark_cancelled now j) = mark_cancelled now j"
  by (simp add: mark_cancelled_def)

lemma cancel_child_stored:
  "stored (cancel_child cfg now m c) =
     (if IsTerminal (jStatus c) then stored m
      else (stored m)(jID c := map_option (mark_cancelled now) (stored m (jID c))))"
  "m_queue (cancel_child cfg now m c) = m_queue m"
  by (auto simp: cancel_child_def Let_def stored_upd_job)

lemma cancel_child_set:
  assumes "SimpleSet_ok (cfg_sets cfg) elems"
  shows "cancelled elems (cancel_child cfg now m c) =
     cancelled elems m \<union> (if jStatus c = JobStatusPending then {jID c} else {})"
  using SimpleSet_okD [OF assms] by (auto simp: cancel_child_def Let_def IsTerminal_def)

lemma cancel_children:
  "stored (foldl (cancel_child cfg now) m cs) k =
     (if \<exists>c \<in> set cs. jID c = k \<and> \<not> IsTerminal (jStatus c) then map_option (mark_cancelled now) (stored m k)
      else stored m k)"
  "m_queue (foldl (cancel_child cfg now) m cs) = m_queue m"
  by (induction cs arbitrary: m) (auto simp: cancel_child_stored option.map_comp comp_def)

lemma cancel_children_set:
  assumes "SimpleSet_ok (cfg_sets cfg) elems"
  shows "cancelled elems (foldl (cancel_child cfg now) m cs) =
     cancelled elems m \<union> jID ` {c \<in> set cs. jStatus c = JobStatusPending}"
  by (induction cs arbitrary: m) (auto simp: cancel_child_set [OF assms])

lemma store_wf_ids: "store_wf st \<Longrightarrow> map_of (ms_jobs st) k = Some j \<Longrightarrow> jID j = k"
  by (auto simp: store_wf_def dest!: map_of_SomeD)

lemma ListChildJobs_stored:
  "store_wf (m_store m) \<Longrightarrow> c \<in> set (ListChildJobs (m_store m) i) \<longleftrightarrow> stored m (jID c) = Some c \<and> jParentJobID c = i"
  using store_wf_stored [of "m_store m" c] by (auto simp: ListChildJobs_def GetJob_def split: option.splits)

text \<open>
  C7: A request to cancel is accepted only for a job that has not ended. The cancellation runs later, in
  whatever state the manager then has: it marks the job and those of its children that have not ended,
  and no other job, as cancelled; those of them that are queued join the set of identifiers the queue skips.
  It does not look at the status again, so a job that completed in the meantime loses its completed status,
  and the descendants of the children are left alone.
\<close>

theorem cancellation_marks:
  assumes "handleCancelJob m0 i = (r, Some i')" and "store_wf (m_store m)" and "stored m i' = Some job"
    and "SimpleSet_ok (cfg_sets cfg) elems"
  shows "i' = i \<and> rp_status r = Accepted \<and> (\<exists>job0. stored m0 i = Some job0 \<and> \<not> IsTerminal (jStatus job0)) \<and>
    (\<forall>k. stored (cancelJobByID cfg m i now) k =
       (if k = i \<or> (\<exists>c. stored m k = Some c \<and> jParentJobID c = i \<and> \<not> IsTerminal (jStatus c))
        then map_option (mark_cancelled now) (stored m k) else stored m k)) \<and>
    cancelled elems (cancelJobByID cfg m i now) =
      cancelled elems m \<union>
      {k. \<exists>c. stored m k = Some c \<and> jStatus c = JobStatusPending \<and> (k = i \<or> jParentJobID c = i)} \<and>
    m_queue (cancelJobByID cfg m i now) = m_queue m"
proof -
  have i: "i' = i" "rp_status r = Accepted" "\<exists>job0. stored m0 i = Some job0 \<and> \<not> IsTerminal (jStatus job0)"
    using assms(1) by (auto simp: handleCancelJob_def GetJob_def answer_def split: option.splits if_splits)
  note ids = store_wf_ids [OF assms(2)]
  have job: "stored m i = Some job" "jID job = i" using assms(3) i(1) ids by auto
  let ?cs = "ListChildJobs (m_store m) i"
  define m1 where "m1 = foldl (cancel_child cfg now) m ?cs"
  have kids: "(\<exists>c \<in> set ?cs. jID c = k \<and> P c) \<longleftrightarrow> (\<exists>c. stored m k = Some c \<and> jParentJobID c = i \<and> P c)" for k P
    using ListChildJobs_stored [OF assms(2), of _ i] ids by metis
  have stored1: "stored m1 k = (if \<exists>c. stored m k = Some c \<and> jParentJobID c = i \<and> \<not> IsTerminal (jStatus c)
      then map_option (mark_cancelled now) (stored m k) else stored m k)" for k
    unfolding m1_def cancel_children(1) kids ..
  have set1: "cancelled elems m1 = cancelled elems m \<union> {k. \<exists>c. stored m k = Some c \<and> jParentJobID c = i \<and> jStatus c = JobStatusPending}"
  proof -
    have "jID ` {c \<in> set ?cs. jStatus c = JobStatusPending} = {k. \<exists>c \<in> set ?cs. jID c = k \<and> jStatus c = JobStatusPending}" by auto
    then show ?thesis unfolding m1_def cancel_children_set [OF assms(4)] kids by simp
  qed
  have fin: "stored (cancelJobByID cfg m i now) = (stored m1)(i := map_option (mark_cancelled now) (stored m1 i))"
    "cancelled elems (cancelJobByID cfg m i now) =
       cancelled elems m1 \<union> (if jStatus job = JobStatusPending then {i} else {})"
    "m_queue (cancelJobByID cfg m i now) = m_queue m1"
    using job SimpleSet_okD(2) [OF assms(4)]
    by (auto simp: cancelJobByID_def GetJob_def Let_def m1_def [symmetric] stored_upd_job stored_fire FireJobCancelled_def)
  have "stored (cancelJobByID cfg m i now) k =
       (if k = i \<or> (\<exists>c. stored m k = Some c \<and> jParentJobID c = i \<and> \<not> IsTerminal (jStatus c))
        then map_option (mark_cancelled now) (stored m k) else stored m k)" for k
    using job(1) by (auto simp: fin(1) stored1)
  moreover have "cancelled elems (cancelJobByID cfg m i now) = cancelled elems m \<union>
      {k. \<exists>c. stored m k = Some c \<and> jStatus c = JobStatusPending \<and> (k = i \<or> jParentJobID c = i)}"
    using job(1) by (auto simp: fin(2) set1)
  moreover have "m_queue (cancelJobByID cfg m i now) = m_queue m" by (simp add: fin(3) m1_def cancel_children(2))
  ultimately show ?thesis using i by blast
qed

text \<open>The job completes between the request and the cancellation.\<close>

theorem cancellation_marks_witness:
  "snd (handleCancelJob ex_manager ''j'') = Some ''j'' \<and>
   (\<exists>job. stored (ex_finished ex_manager) ''j'' = Some job \<and> jStatus job = JobStatusCompleted \<and>
     map_option jStatus (stored (cancelJobByID ex_cfg (ex_finished ex_manager) ''j'' 5) ''j'') = Some JobStatusCancelled)"
proof -
  let ?job = "ex_job\<lparr>jStatus := JobStatusCompleted\<rparr>"
  have store: "m_store ex_manager = SaveJob (SaveTask NewMemStore ex_task) ex_job"
    by (simp add: ex_manager_def NewManager_def)
  have st: "stored (ex_finished ex_manager) ''j'' = Some ?job" "store_wf (m_store (ex_finished ex_manager))"
    by (simp_all add: ex_finished_def upd_run_def UpdateRun_def upd_job_def UpdateJob_def store SaveJob_def SaveTask_def NewMemStore_def
        ex_job_def Job_zero_def store_wf_def keys_distinct_def)
  have "\<exists>r. handleCancelJob ex_manager ''j'' = (r, Some ''j'')"
    by (simp add: handleCancelJob_def GetJob_def store SaveJob_def SaveTask_def NewMemStore_def ex_job_def Job_zero_def IsTerminal_def)
  then obtain r where r: "handleCancelJob ex_manager ''j'' = (r, Some ''j'')" ..
  from cancellation_marks [OF r st(2,1) ex_cfg_ok(1), of 5]
  have "stored (cancelJobByID ex_cfg (ex_finished ex_manager) ''j'' 5) ''j'' = map_option (mark_cancelled 5) (Some ?job)"
    using st(1) by metis
  then show ?thesis using r st(1) by (simp add: mark_cancelled_def)
qed

section \<open>Submission\<close>

text \<open>
  C6: A submitted request is either refused, with the manager as it was, or becomes a pending job of the
  requested task with its cost and the given payload, which is answered, found under its identifier from then
  on and queued once; no other job changes. Only headers that start with X- and Authorization are kept for its webhook.
\<close>

theorem submitted_job_queued:
  assumes "pq_inv higherJob (m_queue m)" and "handleSubmitJob cfg m body_text now = (r, m')"
  shows "case decode_submit body_text of
      Inl e \<Rightarrow> rp_status r = BadRequest \<and> m' = m
    | Inr req \<Rightarrow>
        if sj_Task req = [] then rp_status r = BadRequest \<and> m' = m
        else case GetTask (m_store m) (sj_Task req) of
          Inl e \<Rightarrow> rp_status r = Not_Found \<and> m' = m
        | Inr t \<Rightarrow>
            \<exists>job. r = answer Accepted (JobBody job) \<and> jID job = cfg_ulid cfg (m_ulids m) \<and> jTaskName job = sj_Task req \<and>
              jStatus job = JobStatusPending \<and> jPhase job = JobPhaseRun \<and> jCost job = tCost t \<and> jPayload job = sj_Payload req \<and>
              jParentJobID job = [] \<and> jCreatedAt job = now \<and>
              (\<forall>(k, v) \<in> set (jWebhookHeaders job). take 2 k = ''X-'' \<or> k = ''Authorization'') \<and>
              handleGetJob m' (jID job) = answer OK (JobBody job) \<and>
              (\<forall>k. k \<noteq> jID job \<longrightarrow> handleGetJob m' k = handleGetJob m k) \<and>
              pq_inv higherJob (m_queue m') \<and> pq_mset (m_queue m') = add_mset job (pq_mset (m_queue m))"
proof (cases "decode_submit body_text")
  case (Inl e)
  then show ?thesis using assms(2) by (auto simp: handleSubmitJob_def answer_def)
next
  case (Inr req)
  show ?thesis
  proof (cases "sj_Task req = [] \<or> isl (GetTask (m_store m) (sj_Task req))")
    case True
    then show ?thesis using assms(2) Inr
      by (cases "GetTask (m_store m) (sj_Task req)") (auto simp: handleSubmitJob_def answer_def)
  next
    case False
    then obtain t where t: "sj_Task req \<noteq> []" "GetTask (m_store m) (sj_Task req) = Inr t"
      by (cases "GetTask (m_store m) (sj_Task req)") auto
    define job where "job = new_job req t (cfg_ulid cfg (m_ulids m)) now"
    define m1 where "m1 = m\<lparr>m_ulids := m_ulids m + 1, m_store := SaveJob (m_store m) job\<rparr>"
    have res: "r = answer Accepted (JobBody job)" "m' = EnqueueJob m1 job"
      using assms(2) Inr t by (auto simp: handleSubmitJob_def Let_def job_def m1_def)
    have fields: "jID job = cfg_ulid cfg (m_ulids m)" "jTaskName job = sj_Task req" "jStatus job = JobStatusPending"
      "jPhase job = JobPhaseRun" "jCost job = tCost t" "jPayload job = sj_Payload req" "jParentJobID job = []" "jCreatedAt job = now"
      "\<forall>(k, v) \<in> set (jWebhookHeaders job). take 2 k = ''X-'' \<or> k = ''Authorization''"
      by (auto simp: job_def new_job_def Let_def Job_zero_def sanitizeWebhookHeaders_def split: option.splits)
    have queue: "pq_inv higherJob (m_queue m')" "pq_mset (m_queue m') = add_mset job (pq_mset (m_queue m))"
      using EnqueueJob_queue [of m1 job] assms(1) by (simp_all add: res(2) m1_def)
    have get: "handleGetJob m' (jID job) = answer OK (JobBody job)" "k \<noteq> jID job \<Longrightarrow> handleGetJob m' k = handleGetJob m k" for k
      by (simp_all add: res(2) m1_def handleGetJob_def mem_jobs.get_save)
    show ?thesis using Inr t res(1) fields queue get by auto
  qed
qed

definition ex_submission :: string where
  "ex_submission = ''{\"task\":\"t\",\"payload\":{\"x\":1},\"webhook\":{\"url\":\"http://h\",\"headers\":{\"X-A\":\"1\",\"Cookie\":\"c\"}}}''"

lemma ex_submission_decoded:
  "decode_submit ex_submission = Inr \<lparr>sj_Task = ''t'', sj_Payload = ''{\"x\":1}'',
     sj_Webhook = Some \<lparr>wc_URL = ''http://h'', wc_Events = [], wc_Headers = [(''X-A'', ''1''), (''Cookie'', ''c'')]\<rparr>\<rparr>"
  by code_simp

theorem submitted_job_queued_witness:
  "let (r, m') = handleSubmitJob ex_cfg ex_manager ex_submission 5
   in \<exists>job. r = answer Accepted (JobBody job) \<and> jID job = ''u0'' \<and> jCost job = 1 \<and> jPayload job = ''{\"x\":1}'' \<and>
        handleGetJob m' ''u0'' = answer OK (JobBody job) \<and> handleGetJob m' ''j'' = answer OK (JobBody ex_job) \<and>
        pq_mset (m_queue m') = {#job, ex_job#}"
proof -
  obtain r m' where res: "handleSubmitJob ex_cfg ex_manager ex_submission 5 = (r, m')" by fastforce
  have store: "m_store ex_manager = SaveJob (SaveTask NewMemStore ex_task) ex_job" "m_ulids ex_manager = 0"
    by (simp_all add: ex_manager_def NewManager_def)
  have t: "GetTask (m_store ex_manager) ''t'' = Inr ex_task"
    by (simp add: store GetTask_def SaveJob_def SaveTask_def NewMemStore_def ex_task_def)
  have j: "handleGetJob ex_manager ''j'' = answer OK (JobBody ex_job)"
    by (simp add: handleGetJob_def GetJob_def store SaveJob_def SaveTask_def NewMemStore_def ex_job_def Job_zero_def)
  have u: "cfg_ulid ex_cfg 0 = ''u0''" by code_simp
  have "pq_mset (m_queue ex_manager) = {#ex_job#}" using ex_queue(2) by simp
  then show ?thesis
    using submitted_job_queued [OF ex_queue(1) res] res t j u
    by (auto simp: ex_submission_decoded store(2) ex_task_def add_mset_commute)
qed

section \<open>The cluster\<close>

lemma wrap64_add: "wrap64 (wrap64 x + y) = wrap64 (x + y)"
proof -
  have "(((x + 2 ^ 63) mod 2 ^ 64 - 2 ^ 63) + y + 2 ^ 63) mod 2 ^ 64 = ((x + 2 ^ 63) mod 2 ^ 64 + y) mod (2 ^ 64 :: int)"
    by (simp add: algebra_simps)
  also have "\<dots> = ((x + 2 ^ 63) + y) mod 2 ^ 64" by (rule mod_add_left_eq)
  also have "\<dots> = (x + y + 2 ^ 63) mod 2 ^ 64" by (simp add: ac_simps)
  finally show ?thesis unfolding wrap64_def by simp
qed

definition pool_conns :: "'s Manager \<Rightarrow> 's WorkerConn list" where
  "pool_conns m = map (\<lambda>a. p_conns (m_workers m) ! a) (allWorkers (m_workers m))"

definition in_state :: "WorkerState \<Rightarrow> 's WorkerConn list \<Rightarrow> int" where
  "in_state s ws = int (length (filter (\<lambda>w. w_state w = s) ws))"

definition platform_row :: "'s WorkerConn list \<Rightarrow> string \<Rightarrow> clusterPlatformSummary \<Rightarrow> bool" where
  "platform_row ws k p \<longleftrightarrow>
     platformKey (cp_OS p) (cp_Arch p) = k \<and>
     cp_Workers p = int (length (filter (\<lambda>w. conn_key w = k) ws)) \<and>
     cp_TotalCapacity p = wrap64 (\<Sum>w\<leftarrow>filter (\<lambda>w. conn_key w = k) ws. w_capacity w) \<and>
     cp_AvailableCapacity p = wrap64 (\<Sum>w\<leftarrow>filter (\<lambda>w. conn_key w = k) ws. AvailableCapacity w)"

definition platform_rows :: "'s WorkerConn list \<Rightarrow> (string, clusterPlatformSummary) gomap \<Rightarrow> bool" where
  "platform_rows ws pm \<longleftrightarrow>
     keys_distinct pm \<and> fst ` set pm = conn_key ` set ws \<and> (\<forall>(k, p) \<in> set pm. platform_row ws k p)"

lemma platform_rows_step:
  assumes "platform_rows ws pm"
  shows "platform_rows (ws @ [w]) (count_platform_of pm w)"
proof -
  let ?k = "conn_key w"
  let ?zero = "\<lparr>cp_OS = w_os w, cp_Arch = w_arch w, cp_Workers = 0, cp_TotalCapacity = 0, cp_AvailableCapacity = 0\<rparr>"
  define p where "p = (case map_of pm ?k of None \<Rightarrow> ?zero | Some p \<Rightarrow> p)"
  define p' where "p' = p\<lparr>cp_Workers := cp_Workers p + 1, cp_TotalCapacity := wrap64 (cp_TotalCapacity p + w_capacity w),
      cp_AvailableCapacity := wrap64 (cp_AvailableCapacity p + AvailableCapacity w)\<rparr>"
  have step: "count_platform_of pm w = AList.update ?k p' pm"
    by (simp add: count_platform_of_def Let_def conn_key_def [symmetric] p'_def p_def)
  have dk: "keys_distinct pm" and dom: "fst ` set pm = conn_key ` set ws" using assms by (simp_all add: platform_rows_def)
  have "platform_row ws ?k p"
  proof (cases "map_of pm ?k")
    case None
    then have "?k \<notin> conn_key ` set ws" using dom by (simp add: map_of_eq_None_iff)
    then have "filter (\<lambda>w. conn_key w = ?k) ws = []" unfolding filter_empty_conv by (metis image_eqI)
    then show ?thesis using None by (simp add: platform_row_def p_def conn_key_def wrap64_def)
  next
    case (Some q)
    then show ?thesis using assms map_of_SomeD [OF Some] by (auto simp: platform_rows_def p_def)
  qed
  then have new: "platform_row (ws @ [w]) ?k p'" by (simp add: platform_row_def p'_def wrap64_add)
  have old: "platform_row (ws @ [w]) k q" if "(k, q) \<in> set pm" "k \<noteq> ?k" for k q
    using assms that by (auto simp: platform_rows_def platform_row_def)
  have "(k, q) \<in> set (AList.update ?k p' pm) \<Longrightarrow> k = ?k \<and> q = p' \<or> k \<noteq> ?k \<and> (k, q) \<in> set pm" for k q
    using map_of_in_set [OF keys_distinct_update [OF dk], of ?k p' k q] map_of_in_set [OF dk, of k q]
    by (auto simp: update_conv' split: if_splits)
  then have "\<forall>(k, q) \<in> set (AList.update ?k p' pm). platform_row (ws @ [w]) k q" using new old by blast
  moreover have "fst ` set (AList.update ?k p' pm) = conn_key ` set (ws @ [w])" using dom by (simp add: dom_update)
  ultimately show ?thesis using dk by (simp add: platform_rows_def step)
qed

definition counts_of :: "'s WorkerConn list \<Rightarrow> clusterWorkerCounts" where
  "counts_of ws = \<lparr>cc_Total = int (length ws), cc_Online = in_state WorkerStateOnline ws, cc_Pressured = in_state WorkerStatePressure ws,
     cc_Draining = in_state WorkerStateDraining ws, cc_Offline = in_state WorkerStateOffline ws\<rparr>"

lemma cluster_fold:
  "\<exists>pm. foldl cluster_step (\<lparr>cc_Total = 0, cc_Online = 0, cc_Pressured = 0, cc_Draining = 0, cc_Offline = 0\<rparr>, 0, 0, []) ws =
     (counts_of ws, wrap64 (\<Sum>w\<leftarrow>ws. w_capacity w),
      wrap64 (\<Sum>w\<leftarrow>filter (\<lambda>w. w_state w = WorkerStateOnline) ws. AvailableCapacity w), pm) \<and> platform_rows ws pm"
proof (induction ws rule: rev_induct)
  case Nil
  show ?case by (simp add: counts_of_def in_state_def platform_rows_def wrap64_def)
next
  case (snoc w ws)
  have "count_state (counts_of ws) (w_state w) = counts_of (ws @ [w])"
    by (simp add: count_state_def counts_of_def in_state_def WorkerStateOnline_def WorkerStatePressure_def WorkerStateDraining_def
        WorkerStateOffline_def)
  then show ?case using snoc platform_rows_step [of ws _ w] by (auto simp: cluster_step_def wrap64_add)
qed

text \<open>
  The summary of the cluster counts the registered workers, splits them by their state, adds up the
  capacity of all of them and the free capacity of those that are online, and has exactly one row for each
  platform that a worker has, with the number and the capacities of the workers of that platform. All sums
  are exact up to the overflow of 64 bits.
\<close>

lemma cluster_summary:
  shows "\<exists>s. handleCluster m = answer OK (ClusterBody s) \<and>
    cs_Workers s = \<lparr>cc_Total = int (length (pool_conns m)), cc_Online = in_state WorkerStateOnline (pool_conns m),
      cc_Pressured = in_state WorkerStatePressure (pool_conns m), cc_Draining = in_state WorkerStateDraining (pool_conns m),
      cc_Offline = in_state WorkerStateOffline (pool_conns m)\<rparr> \<and>
    ca_Total (cs_Capacity s) = wrap64 (\<Sum>w\<leftarrow>pool_conns m. w_capacity w) \<and>
    ca_Available (cs_Capacity s) = wrap64 (\<Sum>w\<leftarrow>filter (\<lambda>w. w_state w = WorkerStateOnline) (pool_conns m). AvailableCapacity w) \<and>
    distinct (map (\<lambda>p. platformKey (cp_OS p) (cp_Arch p)) (cs_Platforms s)) \<and>
    set (map (\<lambda>p. platformKey (cp_OS p) (cp_Arch p)) (cs_Platforms s)) = conn_key ` set (pool_conns m) \<and>
    list_all (\<lambda>p. platform_row (pool_conns m) (platformKey (cp_OS p) (cp_Arch p)) p) (cs_Platforms s)"
proof -
  obtain pm where pm: "foldl cluster_step (\<lparr>cc_Total = 0, cc_Online = 0, cc_Pressured = 0, cc_Draining = 0, cc_Offline = 0\<rparr>, 0, 0, [])
      (pool_conns m) = (counts_of (pool_conns m), wrap64 (\<Sum>w\<leftarrow>pool_conns m. w_capacity w),
      wrap64 (\<Sum>w\<leftarrow>filter (\<lambda>w. w_state w = WorkerStateOnline) (pool_conns m). AvailableCapacity w), pm)"
    and rows: "platform_rows (pool_conns m) pm"
    using cluster_fold by blast
  have key: "(k, p) \<in> set pm \<Longrightarrow> platformKey (cp_OS p) (cp_Arch p) = k" for k p
    using rows by (auto simp: platform_rows_def platform_row_def)
  have keys: "map (\<lambda>p. platformKey (cp_OS p) (cp_Arch p)) (map snd pm) = map fst pm" using key by auto
  have "list_all (\<lambda>p. platform_row (pool_conns m) (platformKey (cp_OS p) (cp_Arch p)) p) (map snd pm)"
    using rows key by (fastforce simp: platform_rows_def list_all_iff)
  moreover have "distinct (map fst pm)" "set (map fst pm) = conn_key ` set (pool_conns m)"
    using rows by (simp_all add: platform_rows_def keys_distinct_def)
  moreover obtain s where "handleCluster m = answer OK (ClusterBody s)" "cs_Workers s = counts_of (pool_conns m)"
      "ca_Total (cs_Capacity s) = wrap64 (\<Sum>w\<leftarrow>pool_conns m. w_capacity w)"
      "ca_Available (cs_Capacity s) = wrap64 (\<Sum>w\<leftarrow>filter (\<lambda>w. w_state w = WorkerStateOnline) (pool_conns m). AvailableCapacity w)"
      "cs_Platforms s = map snd pm"
    by (simp add: handleCluster_def pool_conns_def [symmetric] pm)
  ultimately show ?thesis using keys unfolding counts_of_def by (intro exI [of _ s] conjI) (simp_all only:)
qed

section \<open>Who reaches a handler\<close>

text \<open>
  A request reaches the handler of a route when every check in front of it lets it through; the order of the
  checks does not matter for that. \<open>passes\<close> is what the rate limiter of the client answers.
\<close>

definition check_passes ::
  "('q \<Rightarrow> error option) option \<Rightarrow> (string \<Rightarrow> sign_error option) option \<Rightarrow> string \<Rightarrow> (int \<Rightarrow> int \<Rightarrow> bool) \<Rightarrow> 'q \<Rightarrow> string \<Rightarrow> middleware \<Rightarrow> bool" where
  "check_passes authFunc signer domain passes req url mw =
     (case mw of
        ClientAuth \<Rightarrow> clientAuth authFunc req = None
      | SignedURL \<Rightarrow> signedArtifactMiddleware signer domain url = None
      | RateLimit rate burst \<Rightarrow> passes rate burst)"

definition reaches ::
  "('q \<Rightarrow> error option) option \<Rightarrow> (string \<Rightarrow> sign_error option) option \<Rightarrow> string \<Rightarrow> (int \<Rightarrow> int \<Rightarrow> bool) \<Rightarrow> 'q \<Rightarrow> string \<Rightarrow> middleware list \<Rightarrow> bool" where
  "reaches authFunc signer domain passes req url mws \<longleftrightarrow> list_all (check_passes authFunc signer domain passes req url) mws"



section \<open>Paging\<close>

text \<open>
  The page size of a request is the default or between 1 and 1000, so a listing never fails; a number that
  wraps around 64 bits into that range is taken for a small one.
\<close>

lemma parseLimit_range: "parseLimit s dflt = dflt \<or> 1 \<le> parseLimit s dflt \<and> parseLimit s dflt \<le> 1000"
  by (auto simp: parseLimit_def split: option.splits)

lemma parseLimit_wraps: "parseLimit ''18446744073709551617'' 20 = 1"
  by code_simp

lemma handleListJobs_succeeds:
  assumes "length (ms_jobs (m_store m)) < 2 ^ 62"
  shows "rp_status (handleListJobs m cursor limit) = OK"
proof -
  define n where "n = parseLimit limit 20"
  have n: "1 \<le> n" "n \<le> 1000" using parseLimit_range [of limit 20] by (auto simp: n_def)
  let ?alls = "sort_slice created_desc (root_jobs (m_store m))"
  have len: "length ?alls \<le> length (ms_jobs (m_store m))"
    using mset_sort_slice [of created_desc "root_jobs (m_store m)", THEN mset_eq_length]
    by (simp add: root_jobs_def order_trans [OF length_filter_le])
  have "\<exists>page. ListJobs (m_store m) cursor n = Inr page"
  proof -
    have e: "wrap64 (int start + n) = int start + n" if "start < length ?alls" for start
      using n that len assms by (intro wrap64_id) (simp add: in_int64_def min_int64_def max_int64_def)
    have "?alls = [] \<longleftrightarrow> root_jobs (m_store m) = []" using mset_sort_slice by (metis mset_zero_iff)
    then show ?thesis using n by (auto simp: ListJobs_def Let_def e not_le)
  qed
  then show ?thesis by (auto simp: handleListJobs_def n_def answer_def)
qed

end
