(* ===== verification/Manager_Service.thy ===== *)
theory Manager_Service
  imports Routes_Safety
begin

text \<open>
  The life of the manager (\<^verbatim>\<open>manager/manager.go\<close>) and the handshake of workers
  (\<^verbatim>\<open>manager/worker_conn_handler.go\<close>, \<^verbatim>\<open>contract/proto_magic.go\<close>): the graceful stop, which polls until no job
  is in flight, waiting for a worker to leave, the periodic wake-up of the dispatcher, and the way of a request
  of a worker to a served connection.

  The module that upgrades connections, the one that retries and the hash function are arguments.
\<close>

section \<open>Stopping\<close>

definition in_flight :: "'s Config \<Rightarrow> 's Manager \<Rightarrow> nat" where
  "in_flight cfg m = (\<Sum>a\<leftarrow>allWorkers (m_workers m). ss_Size (cfg_sets cfg) (w_inFlight (p_conns (m_workers m) ! a)))"

text \<open>
  What the select statement of each round of \<open>Stop\<close> comes up with: the end of the context, or a tick with the
  state the manager has then. The loop may run for ever.
\<close>

datatype 's poll = CtxDone error | Tick "'s Manager"

partial_function (option) stop_polls :: "'s Config \<Rightarrow> (nat \<Rightarrow> 's poll) \<Rightarrow> nat \<Rightarrow> error option option" where
  "stop_polls cfg polls n =
     (case polls n of
        CtxDone e \<Rightarrow> Some (Some e)
      | Tick m \<Rightarrow> if in_flight cfg m = 0 then Some None else stop_polls cfg polls (Suc n))"

definition Stop :: "'s Config \<Rightarrow> 's Manager \<Rightarrow> (nat \<Rightarrow> 's poll) \<Rightarrow> 's Manager \<times> error option option" where
  "Stop cfg m polls = (drainWorkers m, stop_polls cfg polls 0)"

definition ForceStop :: "'s Manager \<Rightarrow> 's Manager" where
  "ForceStop m = closeAllWorkers m"

text \<open>\<open>Do\<close> of the module \<^verbatim>\<open>retry\<close>: from the outcome of each attempt to the error it returns, if it returns.\<close>

type_synonym retry_Do = "(nat \<Rightarrow> error option) \<Rightarrow> error option option"

definition ErrDoNotRetry :: error where "ErrDoNotRetry = Sentinel ''do not retry''"

definition waitForWorkerDisconnect :: "retry_Do \<Rightarrow> (nat \<Rightarrow> 's WorkerPool) \<Rightarrow> string \<Rightarrow> error option option" where
  "waitForWorkerDisconnect retry pools workerID =
     (case retry (\<lambda>n. if GetWorker (pools n) workerID = None then Some ErrDoNotRetry else Some (Errorf [])) of
        None \<Rightarrow> None
      | Some err \<Rightarrow> Some (if err = Some ErrDoNotRetry then None else err))"

definition DrainWorkerAndWait ::
  "retry_Do \<Rightarrow> 's Manager \<Rightarrow> (nat \<Rightarrow> 's WorkerPool) \<Rightarrow> string \<Rightarrow> 's Manager \<times> error option option" where
  "DrainWorkerAndWait retry m pools workerID =
     (case DrainWorker m workerID of
        Inl e \<Rightarrow> (m, Some (Some e))
      | Inr m' \<Rightarrow> (m', waitForWorkerDisconnect retry pools workerID))"

section \<open>The periodic trigger\<close>

definition periodicTrigger :: "'s Manager \<Rightarrow> time \<Rightarrow> 's Manager" where
  "periodicTrigger m now =
     (if pq_Size (m_queue m) < 1 then m
      else let delta = (unix_seconds now - m_lastDispatchRun m) mod 2 ^ 64
           in if delta < 60 then m else NotifyDispatcher m)"

section \<open>The handshake\<close>

definition ProtoUpgradeMagic :: string where "ProtoUpgradeMagic = ''mBNo4mcokFdK2qcUoT687KIPwD41UqME''"

definition GenerateWorkforceAccept :: "(bytes \<Rightarrow> bytes) \<Rightarrow> string \<Rightarrow> string" where
  "GenerateWorkforceAccept sha1 key = b64_encode (sha1 (key @ ProtoUpgradeMagic))"

definition ValidateWorkforceAccept :: "(bytes \<Rightarrow> bytes) \<Rightarrow> string \<Rightarrow> string \<Rightarrow> bool" where
  "ValidateWorkforceAccept sha1 key accept \<longleftrightarrow> GenerateWorkforceAccept sha1 key = accept"

text \<open>The headers of the request, empty when they are not there, and how the request can end.\<close>

record worker_request =
  wr_Authorization :: string
  wr_ID :: string
  wr_OS :: string
  wr_Arch :: string
  wr_Capacity :: string

datatype 's handshake =
    Refused response
  | Unanswered
  | NotUpgraded error
  | Dropped error
  | Serving nat string "'s Manager"

definition TrimPrefix :: "string \<Rightarrow> string \<Rightarrow> string" where
  "TrimPrefix s p = (if take (length p) s = p then drop (length p) s else s)"

definition WorkerConn_ServeHTTP ::
  "'s Config \<Rightarrow> (string \<Rightarrow> error option) option \<Rightarrow> (worker_request \<Rightarrow> (net_conn \<times> string) res) \<Rightarrow> 's Manager \<Rightarrow> worker_request \<Rightarrow> time \<Rightarrow> 's handshake" where
  "WorkerConn_ServeHTTP cfg authFunc hijack m req now =
     (case (case authFunc of None \<Rightarrow> None | Some f \<Rightarrow> f (TrimPrefix (wr_Authorization req) ''Bearer '')) of
        Some e \<Rightarrow> Refused (answer Unauthorized (Problem (error_text e)))
      | None \<Rightarrow>
          (case Atoi (wr_Capacity req) of
             Inl e \<Rightarrow> Unanswered
           | Inr capacity \<Rightarrow>
               (case hijack req of
                  Inl e \<Rightarrow> NotUpgraded e
                | Inr (conn, proto) \<Rightarrow>
                    (case connect_worker cfg m (wr_ID req) (wr_OS req) (wr_Arch req) capacity conn now of
                       Inl e \<Rightarrow> Dropped e
                     | Inr (a, m') \<Rightarrow> Serving a proto m'))))"

section \<open>Reading frames\<close>

definition proto_version :: "string \<Rightarrow> int res" where
  "proto_version proto =
     and_then (Atoi (TrimPrefix proto ''workforce/''))
       (\<lambda>n. if - (2 ^ 15) \<le> n \<and> n < 2 ^ 15 then Inr n else Inl (Errorf ''value out of range''))"

text \<open>What the loop does with each frame: send an error back, or start the goroutine that handles the message.\<close>

datatype frame_action = ReplyError string string | StartHandler Message

fun read_frames ::
  "(string \<Rightarrow> (netargv_Message \<Rightarrow> Message res) res) \<Rightarrow> netargv_Message res list \<Rightarrow> frame_action list" where
  "read_frames resolve [] = []"
| "read_frames resolve (Inl e # rs) = []"
| "read_frames resolve (Inr frame # rs) =
     (case resolve (nm_Verb frame) of
        Inl e \<Rightarrow> ReplyError ''unknown_verb'' (''unknown message verb: '' @ nm_Verb frame)
      | Inr factory \<Rightarrow>
          (case factory frame of
             Inl e \<Rightarrow> ReplyError ''invalid_message'' (error_text e)
           | Inr msg \<Rightarrow> StartHandler msg)) # read_frames resolve rs"

definition ServeWorkerConnection ::
  "(int \<Rightarrow> string \<Rightarrow> (netargv_Message \<Rightarrow> Message res) res) \<Rightarrow> string \<Rightarrow> netargv_Message res list \<Rightarrow> frame_action list" where
  "ServeWorkerConnection resolve proto rs =
     (case proto_version proto of Inl e \<Rightarrow> [] | Inr v \<Rightarrow> read_frames (resolve v) rs)"

section \<open>What stopping does\<close>

definition told :: "string \<Rightarrow> 's WorkerConn \<Rightarrow> 's WorkerConn" where
  "told line w = (if nc_open (w_conn w) then w\<lparr>w_conn := (w_conn w)\<lparr>nc_out := nc_out (w_conn w) @ [line @ newline]\<rparr>\<rparr> else w)"

lemma send_to_told:
  "(case send_to m a line of Inl e \<Rightarrow> m | Inr m' \<Rightarrow> m') = m\<lparr>m_workers := upd_conn (m_workers m) a (told line (p_conns (m_workers m) ! a))\<rparr>"
  by (auto simp: send_to_def Send_def conn_Write_def told_def upd_conn_def split: sum.splits)

definition tell :: "string \<Rightarrow> 's Manager \<Rightarrow> nat \<Rightarrow> 's Manager" where
  "tell line m a = m\<lparr>m_workers := upd_conn (m_workers m) a (told line (p_conns (m_workers m) ! a))\<rparr>"

lemma drainWorkers_tell: "drainWorkers m = foldl (tell (ForulateSystemV0Message ''drain'')) m (allWorkers (m_workers m))"
  by (simp add: drainWorkers_def send_to_told tell_def [symmetric] case_prod_unfold allWorkers_def foldl_map)

lemma tell_conns:
  assumes "distinct as"
  shows "p_conns (m_workers (foldl (tell line) m as)) ! b =
    (if b \<in> set as \<and> b < length (p_conns (m_workers m)) then told line (p_conns (m_workers m) ! b) else p_conns (m_workers m) ! b)"
  using assms
proof (induction as arbitrary: m)
  case (Cons a as)
  have len: "length (p_conns (m_workers (tell line m a))) = length (p_conns (m_workers m))"
    by (simp add: tell_def upd_conn_def)
  have one: "p_conns (m_workers (tell line m a)) ! b =
      (if b = a \<and> b < length (p_conns (m_workers m)) then told line (p_conns (m_workers m) ! b) else p_conns (m_workers m) ! b)" for b
    by (cases "a < length (p_conns (m_workers m))") (auto simp: tell_def upd_conn_def nth_list_update list_update_beyond)
  show ?case using Cons by (auto simp: len one)
qed simp

lemma pool_wf_addresses: "pool_wf h \<Longrightarrow> distinct (allWorkers h)"
proof -
  assume wf: "pool_wf h"
  have own: "x \<in> set (p_workers h) \<Longrightarrow> fst x = w_workerID (p_conns h ! snd x)" for x
    using wf by (auto simp: pool_wf_def)
  have "inj_on snd (set (p_workers h))"
    by (rule inj_onI) (simp add: prod_eq_iff own)
  then show ?thesis using wf by (simp add: pool_wf_def keys_distinct_def distinct_map allWorkers_def)
qed

lemma drainWorkers_told:
  assumes "pool_wf (m_workers m)" and "a \<in> set (allWorkers (m_workers m))"
  shows "p_conns (m_workers (drainWorkers m)) ! a = told (ForulateSystemV0Message ''drain'') (p_conns (m_workers m) ! a)"
proof -
  have "a < length (p_conns (m_workers m))" using assms by (auto simp: allWorkers_def pool_wf_def)
  then show ?thesis using assms(2) by (simp add: drainWorkers_tell tell_conns [OF pool_wf_addresses [OF assms(1)]])
qed

definition ends :: "('s \<Rightarrow> string set) \<Rightarrow> 's poll \<Rightarrow> error option \<Rightarrow> bool" where
  "ends elems p r \<longleftrightarrow>
     (case p of
        CtxDone e \<Rightarrow> r = Some e
      | Tick m \<Rightarrow> r = None \<and> (\<forall>w \<in> set (pool_conns m). elems (w_inFlight w) = {}))"

lemma in_flight_zero:
  assumes "SimpleSet_ok (cfg_sets cfg) elems"
  shows "in_flight cfg m = 0 \<longleftrightarrow> (\<forall>w \<in> set (pool_conns m). elems (w_inFlight w) = {})"
  using SimpleSet_okD(5,8) [OF assms] by (auto simp: in_flight_def pool_conns_def)

lemma stop_polls_step:
  assumes "SimpleSet_ok (cfg_sets cfg) elems"
  shows "ends elems (polls n) r \<Longrightarrow> stop_polls cfg polls n = Some r"
    and "\<nexists>r. ends elems (polls n) r \<Longrightarrow> stop_polls cfg polls n = stop_polls cfg polls (Suc n)"
  using in_flight_zero [OF assms]
  by (subst stop_polls.simps; auto simp: ends_def split: poll.splits)+

lemma stop_polls_first:
  assumes "SimpleSet_ok (cfg_sets cfg) elems"
  shows "(\<exists>k. (\<forall>j < k. \<nexists>r. ends elems (polls (n + j)) r) \<and> ends elems (polls (n + k)) r) \<Longrightarrow> stop_polls cfg polls n = Some r"
proof -
  assume "\<exists>k. (\<forall>j < k. \<nexists>r. ends elems (polls (n + j)) r) \<and> ends elems (polls (n + k)) r"
  then obtain k where k: "\<forall>j < k. \<nexists>r. ends elems (polls (n + j)) r" "ends elems (polls (n + k)) r" by blast
  have "j \<le> k \<Longrightarrow> stop_polls cfg polls n = stop_polls cfg polls (n + j)" for j
  proof (induction j)
    case (Suc j)
    then have "\<nexists>r. ends elems (polls (n + j)) r" using k(1) by simp
    from stop_polls_step(2) [OF assms, of polls "n + j", OF this] show ?case using Suc by simp
  qed simp
  from this [of k] show ?thesis using stop_polls_step(1) [OF assms, of polls "n + k"] k(2) by simp
qed

lemma stop_polls_ended:
  "stop_polls cfg polls n = Some r \<Longrightarrow> SimpleSet_ok (cfg_sets cfg) elems \<longrightarrow>
     (\<exists>k. (\<forall>j < k. \<nexists>r. ends elems (polls (n + j)) r) \<and> ends elems (polls (n + k)) r)"
proof (rule stop_polls.raw_induct [where P = "\<lambda>cfg polls n r. SimpleSet_ok (cfg_sets cfg) elems \<longrightarrow>
     (\<exists>k. (\<forall>j < k. \<nexists>r. ends elems (polls (n + j)) r) \<and> ends elems (polls (n + k)) r)"], goal_cases)
  case (1 rec cfg polls n r)
  show ?case
  proof (intro impI, cases "\<exists>r. ends elems (polls n) r")
    assume ok: "SimpleSet_ok (cfg_sets cfg) elems"
    case True
    then have "ends elems (polls n) r"
      using 1(3) in_flight_zero [OF ok] by (auto simp: ends_def split: poll.splits)
    then show "\<exists>k. (\<forall>j < k. \<nexists>r. ends elems (polls (n + j)) r) \<and> ends elems (polls (n + k)) r"
      by (intro exI [of _ 0]) simp
  next
    assume ok: "SimpleSet_ok (cfg_sets cfg) elems"
    case False
    then have "rec cfg polls (Suc n) = Some r"
      using 1(3) in_flight_zero [OF ok] by (auto simp: ends_def split: poll.splits if_splits)
    from 1(2) [OF this] ok obtain k where
      k: "\<forall>j < k. \<nexists>r. ends elems (polls (Suc n + j)) r" "ends elems (polls (Suc n + k)) r" by blast
    have "\<nexists>r. ends elems (polls (n + j)) r" if "j < Suc k" for j
      using that False k(1) by (cases j) auto
    then show "\<exists>k. (\<forall>j < k. \<nexists>r. ends elems (polls (n + j)) r) \<and> ends elems (polls (n + k)) r"
      using k(2) by (intro exI [of _ "Suc k"]) simp
  qed
next
  case 2
  then show ?case .
qed

text \<open>
  C3: A graceful stop sends one drain command to every registered worker whose connection is open. It then
  returns if and only if at some round the context has ended or no registered worker has a job in flight, and
  it returns what the first such round gives. Without the context a single job that stays in flight keeps it waiting for ever.
\<close>

theorem Stop_returns_iff:
  assumes "SimpleSet_ok (cfg_sets cfg) elems" and "pool_wf (m_workers m)" and "Stop cfg m polls = (m', result)"
  shows "(\<exists>r. result = Some r) = (\<exists>n. (\<exists>e. polls n = CtxDone e) \<or>
            (\<exists>m. polls n = Tick m \<and> (\<forall>w \<in> set (pool_conns m). elems (w_inFlight w) = {}))) \<and>
         (\<forall>r. (result = Some r) = (\<exists>n. (\<forall>j < n. \<nexists>r. ends elems (polls j) r) \<and> ends elems (polls n) r)) \<and>
         (\<forall>a \<in> set (allWorkers (m_workers m)). nc_open (w_conn (p_conns (m_workers m) ! a)) \<longrightarrow>
            nc_out (w_conn (p_conns (m_workers m') ! a)) =
              nc_out (w_conn (p_conns (m_workers m) ! a)) @ [ForulateSystemV0Message ''drain'' @ newline])"
proof -
  have res: "result = stop_polls cfg polls 0" "m' = drainWorkers m" using assms(3) by (simp_all add: Stop_def)
  have iff: "result = Some r \<longleftrightarrow> (\<exists>n. (\<forall>j < n. \<nexists>r. ends elems (polls j) r) \<and> ends elems (polls n) r)" for r
    using stop_polls_ended [of cfg polls 0 r elems] stop_polls_first [OF assms(1), of polls 0 r] assms(1)
    unfolding res(1) by auto
  have ends: "(\<exists>r. ends elems (polls n) r) \<longleftrightarrow> (\<exists>e. polls n = CtxDone e) \<or>
      (\<exists>m. polls n = Tick m \<and> (\<forall>w \<in> set (pool_conns m). elems (w_inFlight w) = {}))" for n
    by (cases "polls n") (auto simp: ends_def)
  have "(\<exists>r. result = Some r) \<longleftrightarrow> (\<exists>n r. ends elems (polls n) r)"
    using exists_least_iff [of "\<lambda>n. \<exists>r. ends elems (polls n) r"] by (auto simp: iff)
  moreover have "nc_out (w_conn (p_conns (m_workers m') ! a)) =
      nc_out (w_conn (p_conns (m_workers m) ! a)) @ [ForulateSystemV0Message ''drain'' @ newline]"
    if "a \<in> set (allWorkers (m_workers m))" "nc_open (w_conn (p_conns (m_workers m) ! a))" for a
    using drainWorkers_told [OF assms(2) that(1)] that(2) by (simp add: res(2) told_def)
  ultimately show ?thesis using iff ends by simp
qed

text \<open>Three rounds find the job of the only worker in flight, then it has gone.\<close>

definition ex_busy :: "string list Manager" where
  "ex_busy = ex_manager\<lparr>m_workers := ex_pool\<lparr>p_conns := [ex_worker\<lparr>w_inFlight := [''j'']\<rparr>]\<rparr>\<rparr>"

theorem Stop_returns_iff_witness:
  "snd (Stop ex_cfg ex_manager (\<lambda>n. if n < 3 then Tick ex_busy else Tick ex_manager)) = Some None \<and>
   snd (Stop ex_cfg ex_manager (\<lambda>n. Tick ex_busy)) = None \<and>
   nc_out (w_conn (p_conns (m_workers (fst (Stop ex_cfg ex_manager (\<lambda>n. Tick ex_busy)))) ! 0)) =
     [''system --command=drain'' @ newline]"
proof -
  let ?p = "\<lambda>n. if n < 3 then Tick ex_busy else Tick ex_manager"
  have pool: "pool_wf (m_workers ex_manager)" "allWorkers (m_workers ex_manager) = [0]"
    using ex_pool_wf by (simp_all add: ex_manager_def allWorkers_def ex_pool_def)
  have busy: "\<not> ends set (Tick ex_busy) r" for r
    by (simp add: ends_def ex_busy_def pool_conns_def allWorkers_def ex_pool_def)
  have idle: "ends set (Tick ex_manager) None"
    by (simp add: ends_def ex_manager_def pool_conns_def allWorkers_def ex_pool_def ex_worker_def NewWorkerConn_def list_set_def)
  have conn: "w_conn (p_conns (m_workers ex_manager) ! 0) = \<lparr>nc_open = True, nc_out = []\<rparr>"
    by (simp add: ex_manager_def ex_pool_def ex_worker_def NewWorkerConn_def)
  note stop = Stop_returns_iff [OF ex_cfg_ok(1) pool(1) prod.collapse [symmetric]]
  have "snd (Stop ex_cfg ex_manager ?p) = Some None"
    using stop [of ?p] busy idle by (auto intro!: exI [of _ 3])
  moreover have "snd (Stop ex_cfg ex_manager (\<lambda>n. Tick ex_busy)) = None"
    using stop [of "\<lambda>n. Tick ex_busy"] busy by (metis not_Some_eq)
  moreover have "nc_out (w_conn (p_conns (m_workers (fst (Stop ex_cfg ex_manager (\<lambda>n. Tick ex_busy)))) ! 0)) =
      [''system --command=drain'' @ newline]"
    using stop [of "\<lambda>n. Tick ex_busy"] pool(2) conn by (simp add: ForulateSystemV0Message_def)
  ultimately show ?thesis by blast
qed

section \<open>Who is served\<close>

text \<open>An accept header is valid for the key it was made from and, up to collisions of the hash, for no other key.\<close>

lemma accept_valid: "ValidateWorkforceAccept sha1 key (GenerateWorkforceAccept sha1 key)"
  by (simp add: ValidateWorkforceAccept_def)

lemma b64_encode_inject: "b64_encode x = b64_encode y \<Longrightarrow> x = y"
proof -
  assume "b64_encode x = b64_encode y"
  then have "b64_decode (b64_encode x) = b64_decode (b64_encode y)" by (rule arg_cong)
  then show "x = y" unfolding b64_decode_encode by (rule option.inject [THEN iffD1])
qed

lemma accept_binds:
  assumes "ValidateWorkforceAccept sha1 key (GenerateWorkforceAccept sha1 key')" and "key \<noteq> key'"
  shows "\<exists>x y. x \<noteq> y \<and> sha1 x = sha1 y"
proof -
  have "sha1 (key @ ProtoUpgradeMagic) = sha1 (key' @ ProtoUpgradeMagic)"
    using assms(1) unfolding ValidateWorkforceAccept_def GenerateWorkforceAccept_def by (rule b64_encode_inject)
  moreover have "key @ ProtoUpgradeMagic \<noteq> key' @ ProtoUpgradeMagic" using assms(2) by simp
  ultimately show ?thesis by (intro exI conjI)
qed

definition same_registry :: "'s WorkerPool \<Rightarrow> 's WorkerPool \<Rightarrow> bool" where
  "same_registry h h' \<longleftrightarrow> p_workers h' = p_workers h \<and> p_platform h' = p_platform h \<and> p_conns h' = p_conns h"

lemma same_registry_notify: "same_registry h (m_workers m) \<Longrightarrow> same_registry h (m_workers (NotifyDispatcher m))"
  by (simp add: same_registry_def NotifyDispatcher_def pool_notifyDispatcher_def)

lemma same_registry_requeue: "same_registry h (m_workers m) \<Longrightarrow> same_registry h (m_workers (OnJobsRequeued m ids now))"
proof -
  have queued: "same_registry h (m_workers m) \<Longrightarrow> same_registry h (m_workers (EnqueueJob m j))" for m j
    unfolding EnqueueJob_def by (rule same_registry_notify) (simp add: queue_push_def)
  have step: "same_registry h (m_workers m) \<Longrightarrow> same_registry h (m_workers (requeue_job m i now))" for m i
    unfolding requeue_job_def Let_def by (simp add: close_open_runs_same(2) queued split: sum.split)
  show "same_registry h (m_workers m) \<Longrightarrow> same_registry h (m_workers (OnJobsRequeued m ids now))"
    unfolding OnJobsRequeued_def by (induction ids arbitrary: m) (auto intro: step)
qed

lemma register_new:
  assumes "register S h a = (ids, h')" and "a < length (p_conns h)" and "\<not> registered h a"
  shows "GetWorker h' (w_workerID (p_conns h ! a)) = Some a" and "p_conns h' ! a = p_conns h ! a"
proof -
  have "map_of (p_workers h) (w_workerID (p_conns h ! a)) \<noteq> Some a" using assms(2,3) by (simp add: registered_def)
  then show "GetWorker h' (w_workerID (p_conns h ! a)) = Some a" "p_conns h' ! a = p_conns h ! a"
    using assms(1) by (cases "map_of (p_workers h) (w_workerID (p_conns h ! a))";
      auto simp: register_def Let_def GetWorker_def upd_conn_def removeConnLocked_def)+
qed

text \<open>
  C4: A request of a worker ends in a served connection only with a token the authentication accepts, a
  platform and a capacity of at least one that fits 64 bits. The connection is then the one the pool has under
  the identifier of the worker, it is online, idle and has the announced capacity, and the pool is consistent. A capacity that is not
  a number is dropped without an answer.
\<close>

theorem worker_admitted:
  assumes "pool_ok (m_workers m)"
  shows "(WorkerConn_ServeHTTP cfg authFunc hijack m req now = Serving a proto m' \<longrightarrow>
     (\<forall>f. authFunc = Some f \<longrightarrow> f (TrimPrefix (wr_Authorization req) ''Bearer '') = None) \<and>
     (\<exists>capacity conn. Atoi (wr_Capacity req) = Inr capacity \<and> 1 \<le> capacity \<and> in_int64 capacity \<and> hijack req = Inr (conn, proto) \<and>
        wr_OS req \<noteq> [] \<and> wr_Arch req \<noteq> [] \<and>
        (let w = p_conns (m_workers m') ! a
         in GetWorker (m_workers m') (w_workerID w) = Some a \<and> (wr_ID req \<noteq> [] \<longrightarrow> w_workerID w = wr_ID req) \<and>
            w_os w = wr_OS req \<and> w_arch w = wr_Arch req \<and> w_capacity w = capacity \<and> AvailableCapacity w = capacity \<and>
            w_state w = WorkerStateOnline \<and> w_conn w = conn) \<and>
        pool_wf (m_workers m'))) \<and>
   (authFunc = None \<and> isl (Atoi (wr_Capacity req)) \<longrightarrow> WorkerConn_ServeHTTP cfg authFunc hijack m req now = Unanswered)"
proof (intro conjI impI allI)
  assume "WorkerConn_ServeHTTP cfg authFunc hijack m req now = Serving a proto m'"
  then obtain capacity conn where c: "\<forall>f. authFunc = Some f \<longrightarrow> f (TrimPrefix (wr_Authorization req) ''Bearer '') = None"
      "Atoi (wr_Capacity req) = Inr capacity" "hijack req = Inr (conn, proto)"
      "connect_worker cfg m (wr_ID req) (wr_OS req) (wr_Arch req) capacity conn now = Inr (a, m')"
    by (auto simp: WorkerConn_ServeHTTP_def split: option.splits sum.splits)
  then obtain ids h where h: "NewWorkerConnection (cfg_sets cfg) (cfg_ulid cfg (m_ulids m)) (m_workers m) (wr_ID req) (wr_OS req)
        (wr_Arch req) capacity conn now = Inr ((a, ids), h)"
      "m' = NotifyDispatcher (OnJobsRequeued (m\<lparr>m_workers := h, m_ulids := m_ulids m + 1\<rparr>) ids now)"
    by (auto simp: connect_worker_def split: sum.splits)
  have cap: "in_int64 capacity" using Atoi_range [OF c(2)] .
  obtain i' h1 where n: "a = length (p_conns (m_workers m))"
      "h1 = (m_workers m)\<lparr>p_conns := p_conns (m_workers m) @ [NewWorkerConn (cfg_sets cfg) i' (wr_OS req) (wr_Arch req) capacity conn now]\<rparr>"
      "register (cfg_sets cfg) h1 a = (ids, h)" "1 \<le> capacity" "wr_ID req \<noteq> [] \<Longrightarrow> i' = wr_ID req"
    using NewWorkerConnection_cases [OF h(1)] by metis
  have plat: "wr_OS req \<noteq> []" "wr_Arch req \<noteq> []" using h(1) by (auto simp: NewWorkerConnection_def split: if_splits)
  have wf: "pool_wf (m_workers m)" using assms by (simp add: pool_ok_def)
  have len: "a < length (p_conns h1)" using n(1,2) by simp
  have "\<not> registered h1 a" unfolding n(2) pool_wf_alloc(2) [OF wf] by (simp add: registered_def n(1))
  note reg = register_new [OF n(3) len this]
  have same: "same_registry h (m_workers m')" unfolding h(2)
    by (intro same_registry_notify same_registry_requeue) (simp add: same_registry_def)
  have "pool_wf h" using NewWorkerConnection_ok [OF assms _ h(1)] cap by (simp add: pool_ok_def in_int64_def)
  then have "pool_wf (m_workers m')" using same by (simp add: pool_wf_def same_registry_def registered_def)
  moreover have new: "p_conns h1 ! a = NewWorkerConn (cfg_sets cfg) i' (wr_OS req) (wr_Arch req) capacity conn now"
    using n(1,2) by simp
  have w: "p_conns (m_workers m') ! a = NewWorkerConn (cfg_sets cfg) i' (wr_OS req) (wr_Arch req) capacity conn now"
    using reg(2) new same by (simp add: same_registry_def)
  moreover have "GetWorker (m_workers m') i' = Some a"
    using reg(1) same by (simp add: same_registry_def GetWorker_def new NewWorkerConn_def)
  ultimately show "(\<exists>capacity conn. Atoi (wr_Capacity req) = Inr capacity \<and> 1 \<le> capacity \<and> in_int64 capacity \<and> hijack req = Inr (conn, proto) \<and>
        wr_OS req \<noteq> [] \<and> wr_Arch req \<noteq> [] \<and>
        (let w = p_conns (m_workers m') ! a
         in GetWorker (m_workers m') (w_workerID w) = Some a \<and> (wr_ID req \<noteq> [] \<longrightarrow> w_workerID w = wr_ID req) \<and>
            w_os w = wr_OS req \<and> w_arch w = wr_Arch req \<and> w_capacity w = capacity \<and> AvailableCapacity w = capacity \<and>
            w_state w = WorkerStateOnline \<and> w_conn w = conn) \<and>
        pool_wf (m_workers m'))"
    using c(2,3) n(4,5) cap plat by (intro exI [of _ capacity] exI [of _ conn]) (simp add: w NewWorkerConn_def AvailableCapacity_def)
  show "f (TrimPrefix (wr_Authorization req) ''Bearer '') = None" if "authFunc = Some f" for f using c(1) that by blast
qed (auto simp: WorkerConn_ServeHTTP_def split: option.splits sum.splits)

definition ex_worker_request :: worker_request where
  "ex_worker_request = \<lparr>wr_Authorization = ''Bearer secret'', wr_ID = ''w'', wr_OS = ''linux'', wr_Arch = ''arm64'', wr_Capacity = ''2''\<rparr>"

theorem worker_admitted_witness:
  "let auth = (\<lambda>t. if t = ''secret'' then None else Some (Errorf ''bad token''));
       hijack = (\<lambda>req. Inr (\<lparr>nc_open = True, nc_out = []\<rparr>, ''workforce/0''))
   in \<exists>a m'. WorkerConn_ServeHTTP ex_cfg (Some auth) hijack (NewManager ex_cfg NewMemStore) ex_worker_request 1 = Serving a ''workforce/0'' m' \<and>
        GetWorker (m_workers m') ''w'' = Some a \<and> AvailableCapacity (p_conns (m_workers m') ! a) = 2 \<and> pool_wf (m_workers m')"
proof -
  let ?auth = "\<lambda>t. if t = ''secret'' then None else Some (Errorf ''bad token'')"
  let ?hijack = "\<lambda>req. Inr (\<lparr>nc_open = True, nc_out = []\<rparr>, ''workforce/0'') :: (net_conn \<times> string) res"
  let ?m = "NewManager ex_cfg NewMemStore"
  have ok: "pool_ok (m_workers ?m)"
    unfolding pool_ok_def by (simp add: NewManager_def) (simp add: NewWorkerPool_def)
  have cap: "Atoi ''2'' = Inr 2" by code_simp
  have "\<exists>a m'. WorkerConn_ServeHTTP ex_cfg (Some ?auth) ?hijack ?m ex_worker_request 1 = Serving a ''workforce/0'' m'"
    by (simp add: WorkerConn_ServeHTTP_def ex_worker_request_def TrimPrefix_def cap connect_worker_def NewWorkerConnection_def
        Let_def case_prod_beta)
  then obtain a m' where s: "WorkerConn_ServeHTTP ex_cfg (Some ?auth) ?hijack ?m ex_worker_request 1 = Serving a ''workforce/0'' m'" by blast
  from worker_admitted [OF ok, of ex_cfg "Some ?auth" ?hijack ex_worker_request 1 a "''workforce/0''" m'] s
  have "GetWorker (m_workers m') ''w'' = Some a \<and> AvailableCapacity (p_conns (m_workers m') ! a) = 2 \<and> pool_wf (m_workers m')"
    by (auto simp: ex_worker_request_def cap Let_def)
  with s show ?thesis by (auto simp: Let_def)
qed

section \<open>Waiting and waking\<close>

text \<open>
  Draining a worker and waiting for it reports success as soon as the pool has no connection under its
  identifier, when the retries stop at the error that asks for it; a connection that has replaced the drained
  one keeps it waiting.
\<close>

lemma waitForWorkerDisconnect_left:
  assumes "\<And>f n. f n = Some ErrDoNotRetry \<Longrightarrow> \<forall>k < n. f k \<noteq> None \<and> f k \<noteq> Some ErrDoNotRetry \<Longrightarrow> retry f = Some (Some ErrDoNotRetry)"
    and "GetWorker (pools n) i = None"
  shows "waitForWorkerDisconnect retry pools i = Some None"
proof -
  let ?f = "\<lambda>n. if GetWorker (pools n) i = None then Some ErrDoNotRetry else Some (Errorf [])"
  obtain k where "GetWorker (pools k) i = None" "\<forall>j < k. GetWorker (pools j) i \<noteq> None"
    using exists_least_iff [of "\<lambda>n. GetWorker (pools n) i = None"] assms(2) by blast
  then have "retry ?f = Some (Some ErrDoNotRetry)" by (intro assms(1) [of _ k]) (auto simp: ErrDoNotRetry_def)
  then show ?thesis by (simp add: waitForWorkerDisconnect_def)
qed

text \<open>
  The trigger wakes the dispatcher for a queue that was last processed at least a minute ago, and at every
  round when the clock was set back, since the difference is unsigned.
\<close>

lemma periodicTrigger_wakes:
  assumes "0 \<le> m_lastDispatchRun m" "m_lastDispatchRun m < 2 ^ 63" "0 \<le> unix_seconds now" "unix_seconds now < 2 ^ 63"
  shows "periodicTrigger m now =
    (if 0 < pq_Size (m_queue m) \<and> (unix_seconds now < m_lastDispatchRun m \<or> 60 \<le> unix_seconds now - m_lastDispatchRun m)
     then NotifyDispatcher m else m)"
proof (cases "unix_seconds now < m_lastDispatchRun m")
  case True
  have "(unix_seconds now - m_lastDispatchRun m) mod 2 ^ 64 = unix_seconds now - m_lastDispatchRun m + 2 ^ 64"
    using True assms by (intro mod_pos_pos_trivial [THEN trans [OF mod_add_self2 [symmetric]]]) auto
  then show ?thesis using True assms by (simp add: periodicTrigger_def Let_def)
next
  case False
  then have "(unix_seconds now - m_lastDispatchRun m) mod 2 ^ 64 = unix_seconds now - m_lastDispatchRun m"
    using assms by (intro mod_pos_pos_trivial) auto
  then show ?thesis using False by (auto simp: periodicTrigger_def Let_def)
qed

end
