(* ===== verification/Json_Print.thy ===== *)
theory Json_Print
  imports Proto_Messages
begin

text \<open>
  What \<^verbatim>\<open>encoding/json\<close> writes for a value, its own decoder reads back as that value: printing and parsing of
  JSON for values whose strings need no escapes.
\<close>

section \<open>Numbers before a delimiter\<close>

definition stops_number :: "string \<Rightarrow> bool" where
  "stops_number t \<longleftrightarrow> (case t of [] \<Rightarrow> True | d # ds \<Rightarrow> d \<in> {CHR '','', CHR '']'', CHR ''}'', CHR 0x0A})"

lemma stops_digit: "stops_number t \<Longrightarrow> takeWhile is_digit t = [] \<and> dropWhile is_digit t = t"
  by (cases t) (auto simp: stops_number_def is_digit_def byte_def)

lemma takeWhile_digits:
  "stops_number t \<Longrightarrow> takeWhile is_digit (s @ t) = takeWhile is_digit s"
  "stops_number t \<Longrightarrow> dropWhile is_digit (s @ t) = dropWhile is_digit s @ t"
  by (induction s) (auto simp: stops_digit)

lemma scan_int_append: "stops_number t \<Longrightarrow> scan_int s = Some (i, r) \<Longrightarrow> scan_int (s @ t) = Some (i, r @ t)"
  by (cases s) (auto simp: scan_int_def takeWhile_digits split: if_splits)

lemma scan_frac_append:
  assumes "stops_number t" and "scan_frac s = Some (f, r)"
  shows "scan_frac (s @ t) = Some (f, r @ t)"
proof (cases s)
  case Nil
  then show ?thesis using assms by (cases t) (auto simp: scan_frac_def stops_number_def split: list.splits)
next
  case (Cons c cs)
  then show ?thesis using assms
    by (cases cs) (auto simp: scan_frac_def takeWhile_digits split: if_splits list.splits)
qed

lemma scan_exp_append:
  assumes "stops_number t" and "scan_exp s = Some (e, r)"
  shows "scan_exp (s @ t) = Some (e, r @ t)"
proof (cases s)
  case Nil
  then show ?thesis using assms by (cases t) (auto simp: scan_exp_def stops_number_def)
next
  case (Cons c cs)
  show ?thesis
  proof (cases "c \<noteq> CHR ''e'' \<and> c \<noteq> CHR ''E''")
    case True
    then show ?thesis using assms by (auto simp: scan_exp_def Cons)
  next
    case False
    then obtain d ds where cs: "cs = d # ds" using assms Cons by (cases cs) (auto simp: scan_exp_def)
    then show ?thesis using assms Cons False
      by (cases ds) (auto simp: scan_exp_def takeWhile_digits stops_digit Let_def split: if_splits)
  qed
qed

lemma scan_number_append:
  assumes "stops_number t" and "scan_number x = Some (y, r)"
  shows "scan_number (x @ t) = Some (y, r @ t)"
proof (cases x)
  case Nil
  then show ?thesis using assms(2) by (simp add: scan_number_def scan_int_def)
next
  case (Cons c cs)
  define sign where "sign = (if c = CHR ''-'' then [c] else [])"
  define s1 where "s1 = (if c = CHR ''-'' then cs else x)"
  have split: "(case x of c # cs \<Rightarrow> (if c = CHR ''-'' then ([c], cs) else ([], x)) | [] \<Rightarrow> ([], [])) = (sign, s1)"
    "(case x @ t of c # cs \<Rightarrow> (if c = CHR ''-'' then ([c], cs) else ([], x @ t)) | [] \<Rightarrow> ([], [])) = (sign, s1 @ t)"
    by (simp_all add: Cons sign_def s1_def)
  obtain i s2 f s3 e where p: "scan_int s1 = Some (i, s2)" "scan_frac s2 = Some (f, s3)" "scan_exp s3 = Some (e, r)" "y = sign @ i @ f @ e"
    using assms(2) unfolding scan_number_def split(1) by (auto split: option.splits)
  show ?thesis
    unfolding scan_number_def split(2)
    by (simp add: scan_int_append [OF assms(1) p(1)] scan_frac_append [OF assms(1) p(2)] scan_exp_append [OF assms(1) p(3)] p(4))
qed

lemma scan_number_head:
  assumes "scan_number x = Some (y, r)"
  shows "\<exists>c cs. x = c # cs \<and> (c = CHR ''-'' \<or> is_digit c)"
  using assms by (cases x) (auto simp: scan_number_def scan_int_def is_digit_def byte_def split: if_splits)

section \<open>Values\<close>

fun json_plain :: "json \<Rightarrow> bool" where
  "json_plain JNull \<longleftrightarrow> True"
| "json_plain (JBool b) \<longleftrightarrow> True"
| "json_plain (JNum x) \<longleftrightarrow> scan_number x = Some (x, [])"
| "json_plain (JStr r) \<longleftrightarrow> (\<forall>c \<in> set r. plain c)"
| "json_plain (JArr js) \<longleftrightarrow> (\<forall>j \<in> set js. json_plain j)"
| "json_plain (JObj ms) \<longleftrightarrow> (\<forall>m \<in> set ms. (\<forall>c \<in> set (fst m). plain c) \<and> json_plain (snd m))"

definition parses :: "json \<Rightarrow> bool" where
  "parses j \<longleftrightarrow>
     (\<forall>n t. stops_number t \<longrightarrow> 2 * length (json_compact j) < n \<longrightarrow> json_value n (json_compact j @ t) = Some (j, t))"

lemma parses_Suc:
  "parses j \<longleftrightarrow>
     (\<forall>k t. stops_number t \<longrightarrow> 2 * length (json_compact j) < Suc k \<longrightarrow> json_value (Suc k) (json_compact j @ t) = Some (j, t))"
  unfolding parses_def by (metis Suc_pred gr_implies_not_zero gr_zeroI)

lemma compact_head:
  assumes "json_plain j"
  shows "\<exists>c cs. json_compact j = c # cs \<and> \<not> is_ws c \<and> c \<noteq> CHR '']'' \<and> c \<noteq> CHR ''}''"
proof (cases j)
  case (JNum x)
  then obtain c cs where "x = c # cs" "c = CHR ''-'' \<or> is_digit c" using assms scan_number_head [of x x "[]"] by auto
  then show ?thesis using JNum by (auto simp: is_ws_def is_digit_def byte_def)
qed (auto simp: is_ws_def)

lemma skip_ws_compact: "json_plain j \<Longrightarrow> skip_ws (json_compact j @ t) = json_compact j @ t"
  using compact_head [of j] by (auto simp: skip_ws_def)

lemma skip_ws_char [simp]: "\<not> is_ws c \<Longrightarrow> skip_ws (c # cs) = c # cs"
  by (simp add: skip_ws_def)

lemma delimiters_not_ws [simp]:
  "\<not> is_ws (CHR '']'')" "\<not> is_ws (CHR ''}'')" "\<not> is_ws (CHR '','')" "\<not> is_ws (CHR '':'')" "\<not> is_ws dquote"
  "\<not> is_ws (CHR ''['')" "\<not> is_ws (CHR ''{'')"
  by (simp_all add: is_ws_def)

lemma sep_concat_Cons: "sep_concat sep (x # y # ys) = x @ sep @ sep_concat sep (y # ys)"
  by (simp add: sep_concat_def)

lemma compact_length: "json_plain j \<Longrightarrow> 0 < length (json_compact j)"
  using compact_head by fastforce

lemma parse_elems:
  assumes "js \<noteq> []" and "\<forall>j \<in> set js. json_plain j \<and> parses j" and "2 * length (sep_concat '','' (map json_compact js)) + 1 < n"
  shows "json_elems n (sep_concat '','' (map json_compact js) @ CHR '']'' # t) = Some (js, t)"
  using assms
proof (induction js arbitrary: n)
  case (Cons j js)
  from Cons.prems(3) obtain k where k: "n = Suc k" by (cases n) auto
  have j: "json_plain j" "parses j" using Cons.prems(2) by auto
  show ?case
  proof (cases js)
    case Nil
    have "json_value k (json_compact j @ CHR '']'' # t) = Some (j, CHR '']'' # t)"
      using j(2) Cons.prems(3) by (simp add: parses_def stops_number_def Nil k sep_concat_def)
    then show ?thesis by (simp add: k Nil sep_concat_def)
  next
    case (Cons i rest)
    let ?more = "sep_concat '','' (map json_compact js)"
    have line: "sep_concat '','' (map json_compact (j # js)) = json_compact j @ '','' @ ?more"
      by (simp add: Cons sep_concat_Cons)
    note len = Cons.prems(3) [unfolded line k]
    have "json_value k (json_compact j @ CHR '','' # ?more @ CHR '']'' # t) = Some (j, CHR '','' # ?more @ CHR '']'' # t)"
      using j(2) len by (simp add: parses_def stops_number_def)
    moreover have "json_elems k (?more @ CHR '']'' # t) = Some (js, t)"
      using Cons.IH [of k] Cons.prems(2) len compact_length [OF j(1)] \<open>js = i # rest\<close> by simp
    moreover have "skip_ws (?more @ CHR '']'' # t) = ?more @ CHR '']'' # t"
      using skip_ws_compact [of i] Cons.prems(2) by (simp add: Cons sep_concat_def)
    ultimately show ?thesis unfolding line k by simp
  qed
qed simp

definition member_text :: "string \<times> json \<Rightarrow> string" where
  "member_text m = dquote # fst m @ [dquote] @ '':'' @ json_compact (snd m)"

lemma compact_obj:
  "json_plain (JObj ms) \<Longrightarrow> json_compact (JObj ms) = ''{'' @ sep_concat '','' (map member_text ms) @ ''}''"
  by (simp add: member_text_def case_prod_unfold html_escape_plain cong: map_cong)

lemma parse_members:
  assumes "ms \<noteq> []" and "\<forall>m \<in> set ms. (\<forall>c \<in> set (fst m). plain c) \<and> json_plain (snd m) \<and> parses (snd m)"
    and "2 * length (sep_concat '','' (map member_text ms)) + 1 < n"
  shows "json_members n (sep_concat '','' (map member_text ms) @ CHR ''}'' # t) = Some (ms, t)"
  using assms
proof (induction ms arbitrary: n)
  case (Cons m ms)
  from Cons.prems(3) obtain k where k: "n = Suc k" by (cases n) auto
  obtain key j where m: "m = (key, j)" by fastforce
  have j: "json_plain j" "parses j" "\<forall>c \<in> set key. plain c" using Cons.prems(2) m by auto
  note key = scan_string_plain [OF j(3)]
  show ?case
  proof (cases ms)
    case Nil
    have "json_value k (json_compact j @ CHR ''}'' # t) = Some (j, CHR ''}'' # t)"
      using j(2) Cons.prems(3) by (simp add: parses_def stops_number_def Nil k sep_concat_def member_text_def m)
    then show ?thesis by (simp add: k Nil sep_concat_def member_text_def m key skip_ws_compact [OF j(1)])
  next
    case (Cons i rest)
    let ?more = "sep_concat '','' (map member_text ms)"
    have line: "sep_concat '','' (map member_text (m # ms)) = member_text m @ '','' @ ?more"
      by (simp add: Cons sep_concat_Cons)
    note len = Cons.prems(3) [unfolded line k]
    have "json_value k (json_compact j @ CHR '','' # ?more @ CHR ''}'' # t) = Some (j, CHR '','' # ?more @ CHR ''}'' # t)"
      using j(2) len by (simp add: parses_def stops_number_def member_text_def m)
    moreover have "json_members k (?more @ CHR ''}'' # t) = Some (ms, t)"
      using Cons.IH [of k] Cons.prems(2) len \<open>ms = i # rest\<close> by simp
    moreover have "skip_ws (?more @ CHR ''}'' # t) = ?more @ CHR ''}'' # t"
      by (simp add: Cons sep_concat_def member_text_def)
    ultimately show ?thesis unfolding line k by (simp add: member_text_def [of "(key, j)"] m key skip_ws_compact [OF j(1)])
  qed
qed simp

lemma json_parses: "json_plain j \<Longrightarrow> parses j"
proof (induction j)
  case (JNum x)
  obtain c cs where x: "x = c # cs" "c = CHR ''-'' \<or> is_digit c" using JNum scan_number_head [of x x "[]"] by auto
  have c: "c \<notin> {dquote, CHR ''['', CHR ''{'', CHR ''n'', CHR ''t'', CHR ''f''}"
    using x(2) by (auto simp: is_digit_def byte_def)
  have "scan_number (x @ t) = Some (x, t)" if "stops_number t" for t
    using scan_number_append [OF that, of x x "[]"] JNum by simp
  then have "json_value (Suc k) (x @ t) = Some (JNum x, t)" if "stops_number t" for k t
    using x(1) c that by simp
  then show ?case by (simp add: parses_Suc)
next
  case (JArr js)
  then have el: "\<forall>j \<in> set js. json_plain j \<and> parses j" by auto
  show ?case unfolding parses_def
  proof (intro allI impI)
    fix n t
    assume "2 * length (json_compact (JArr js)) < n"
    then obtain k where k: "n = Suc k" "2 * length (sep_concat '','' (map json_compact js)) + 3 < k" by (cases n) auto
    show "json_value n (json_compact (JArr js) @ t) = Some (JArr js, t)"
    proof (cases js)
      case (Cons i rest)
      obtain c cs where c: "json_compact i = c # cs" "\<not> is_ws c" "c \<noteq> CHR '']''" using compact_head [of i] el Cons by auto
      define ds where "ds = drop 1 (sep_concat '','' (map json_compact js)) @ CHR '']'' # t"
      have e: "sep_concat '','' (map json_compact js) @ CHR '']'' # t = c # ds"
        by (simp add: Cons sep_concat_def c(1) ds_def)
      have "json_elems k (c # ds) = Some (js, t)"
        unfolding e [symmetric] by (rule parse_elems) (use Cons el k in auto)
      moreover have "json_compact (JArr js) @ t = CHR ''['' # c # ds" using e by simp
      ultimately show ?thesis using c(2,3) by (simp only: k(1) json_value.simps) simp
    qed (simp add: k sep_concat_def)
  qed
next
  case (JObj ms)
  then have el: "\<forall>m \<in> set ms. (\<forall>c \<in> set (fst m). plain c) \<and> json_plain (snd m) \<and> parses (snd m)"
    by (auto simp: snds.simps)
  show ?case unfolding parses_def compact_obj [OF JObj.prems]
  proof (intro allI impI)
    fix n t
    assume "2 * length (''{'' @ sep_concat '','' (map member_text ms) @ ''}'') < n"
    then obtain k where k: "n = Suc k" "2 * length (sep_concat '','' (map member_text ms)) + 3 < k" by (cases n) auto
    show "json_value n ((''{'' @ sep_concat '','' (map member_text ms) @ ''}'') @ t) = Some (JObj ms, t)"
    proof (cases ms)
      case (Cons i rest)
      define ds where "ds = drop 1 (sep_concat '','' (map member_text ms)) @ CHR ''}'' # t"
      have e: "sep_concat '','' (map member_text ms) @ CHR ''}'' # t = dquote # ds"
        by (simp add: Cons sep_concat_def member_text_def ds_def)
      have "json_members k (dquote # ds) = Some (ms, t)"
        unfolding e [symmetric] by (rule parse_members) (use Cons el k in auto)
      moreover have "(''{'' @ sep_concat '','' (map member_text ms) @ ''}'') @ t = CHR ''{'' # dquote # ds" using e by simp
      ultimately show ?thesis by (simp only: k(1) json_value.simps) simp
    qed (simp add: k sep_concat_def)
  qed
qed (auto simp: parses_Suc scan_word_def scan_string_plain html_escape_plain)

text \<open>A printed value, alone or followed by the line end of the encoder, is read back.\<close>

lemma json_print_parse:
  assumes "json_plain j"
  shows "json_parse (json_compact j) = Some j" and "json_parse (json_compact j @ [CHR 0x0A]) = Some j"
proof -
  have p: "stops_number t \<Longrightarrow> 2 * length (json_compact j) < n \<Longrightarrow> json_value n (json_compact j @ t) = Some (j, t)" for n t
    using json_parses [OF assms] by (auto simp: parses_def)
  show "json_parse (json_compact j) = Some j"
    using p [of "[]" "Suc (2 * length (json_compact j))"] skip_ws_compact [OF assms, of "[]"]
    by (simp add: json_parse_def stops_number_def skip_ws_def)
  show "json_parse (json_compact j @ [CHR 0x0A]) = Some j"
    using p [of "[CHR 0x0A]" "Suc (Suc (Suc (2 * length (json_compact j))))"] skip_ws_compact [OF assms, of "[CHR 0x0A]"]
    by (simp add: json_parse_def stops_number_def skip_ws_def is_ws_def)
qed

section \<open>Decimal numbers\<close>

lemma nat_digits_head: "n \<noteq> 0 \<Longrightarrow> hd (nat_digits n) \<noteq> CHR ''0''"
proof (induction n rule: nat_digits.induct)
  case (1 n)
  have ne: "nat_digits (n div 10) \<noteq> []" using nat_digits_all [of "n div 10"] by (auto simp: all_digits_def)
  show ?case
  proof (cases "n < 10")
    case True
    have "byte (char_of (48 + n)) \<noteq> byte (CHR ''0'')" using 1(2) True by (simp add: byte_char_of) (simp add: byte_def)
    then show ?thesis using True by (auto simp: nat_digits.simps [of n])
  next
    case False
    then have "n div 10 \<noteq> 0" by (simp add: div_eq_0_iff)
    then show ?thesis using 1(1) False ne by (simp add: nat_digits.simps [of n])
  qed
qed

lemma scan_int_digits: "scan_int (nat_digits n) = Some (nat_digits n, [])"
proof (cases "n = 0")
  case True
  moreover have "nat_digits 0 = ''0''" by code_simp
  ultimately show ?thesis by (simp add: scan_int_def)
next
  case False
  obtain c cs where d: "nat_digits n = c # cs" "is_digit c" "list_all is_digit cs"
    using nat_digits_all [of n] by (cases "nat_digits n") (auto simp: all_digits_def)
  have "takeWhile is_digit cs = cs" "dropWhile is_digit cs = []"
    using d(3) by (auto simp: list_all_iff takeWhile_eq_all_conv dropWhile_eq_Nil_conv)
  then show ?thesis using nat_digits_head [OF False] d by (simp add: scan_int_def)
qed

lemma scan_number_Itoa: "scan_number (Itoa i) = Some (Itoa i, [])"
proof -
  have d: "nat_digits n \<noteq> []" "hd (nat_digits n) \<noteq> CHR ''-''" for n
    using nat_digits_all [of n] by (cases "nat_digits n"; auto simp: all_digits_def is_digit_def byte_def)+
  have plus: "scan_number (nat_digits n) = Some (nat_digits n, [])" for n
    using d [of n] scan_int_digits [of n]
    by (cases "nat_digits n") (simp_all add: scan_number_def scan_frac_def scan_exp_def)
  have "scan_number (CHR ''-'' # nat_digits n) = Some (CHR ''-'' # nat_digits n, [])" for n
    using scan_int_digits [of n] by (simp add: scan_number_def scan_frac_def scan_exp_def)
  then show ?thesis using plus by (simp add: Itoa_def)
qed

lemma compact_hd: "json_plain j \<Longrightarrow> (\<forall>r. j \<noteq> JStr r) \<Longrightarrow> hd (json_compact j) \<noteq> dquote"
proof (cases j)
  case (JNum x)
  assume "json_plain j"
  then obtain c cs where "x = c # cs" "c = CHR ''-'' \<or> is_digit c" using JNum scan_number_head [of x x "[]"] by auto
  then show ?thesis using JNum by (auto simp: is_digit_def byte_def)
qed auto

end
