(* ===== verification/Task_Kit.thy ===== *)
theory Task_Kit
  imports Json_Print Worker_Node
begin

text \<open>
  The library of task binaries (\<^verbatim>\<open>taskkit\<close>): what a binary learns from its environment and how it hands back
  a result or child jobs. The environment of a process and its descriptors are arguments. A value to encode is
  its JSON value, or the error of a value that has none.
\<close>

section \<open>Environment\<close>

datatype Phase = PhaseRun | PhaseConsolidate

record Env =
  ev_JobID :: string
  ev_TaskType :: string
  ev_ParentJobID :: string
  ev_Attempt :: int
  ev_Phase :: Phase

definition CurrentPhase :: "(string \<Rightarrow> string) \<Rightarrow> Phase" where
  "CurrentPhase getenv = (if getenv ''WORKFORCE_PHASE'' = ''consolidate'' then PhaseConsolidate else PhaseRun)"

text \<open>The number \<^verbatim>\<open>strconv.Atoi\<close> returns besides its error: zero, or the nearest one in range.\<close>

definition Atoi_value :: "string \<Rightarrow> int" where
  "Atoi_value s =
     (let (neg, ds) = split_sign s; v = (if neg then - int (digits_val ds) else int (digits_val ds))
      in if all_digits ds then max min_int64 (min max_int64 v) else 0)"

definition GetEnv :: "(string \<Rightarrow> string) \<Rightarrow> Env" where
  "GetEnv getenv =
     \<lparr>ev_JobID = getenv ''WORKFORCE_JOB_ID'', ev_TaskType = getenv ''WORKFORCE_TASK_TYPE'',
      ev_ParentJobID = getenv ''WORKFORCE_PARENT_JOB_ID'', ev_Attempt = Atoi_value (getenv ''WORKFORCE_ATTEMPT''),
      ev_Phase = CurrentPhase getenv\<rparr>"

text \<open>
  The environment a started process sees: \<^verbatim>\<open>os/exec\<close> keeps the last of several entries for a name, and the
  value of an entry is what follows its first equals sign.
\<close>

definition env_entry :: "string \<Rightarrow> string \<Rightarrow> bool" where
  "env_entry k e \<longleftrightarrow> takeWhile (\<lambda>c. c \<noteq> CHR ''='') e = k \<and> CHR ''='' \<in> set e"

definition process_getenv :: "string list \<Rightarrow> string \<Rightarrow> string" where
  "process_getenv env k = (case find (env_entry k) (rev env) of None \<Rightarrow> [] | Some e \<Rightarrow> drop (Suc (length k)) e)"

section \<open>Results\<close>

definition ResultFD :: int where "ResultFD = 3"

definition SubjobsFD :: int where "SubjobsFD = 4"

text \<open>\<^verbatim>\<open>json.MarshalIndent\<close> with two blanks per level.\<close>

definition blanks :: "nat \<Rightarrow> string" where "blanks n = replicate (2 * n) (CHR '' '')"

fun json_indent :: "nat \<Rightarrow> json \<Rightarrow> string" where
  "json_indent n (JArr js) =
     (if js = [] then ''[]''
      else ''['' @ [nl] @ sep_concat ('','' @ [nl]) (map (\<lambda>j. blanks (Suc n) @ json_indent (Suc n) j) js) @ [nl] @ blanks n @ '']'')"
| "json_indent n (JObj ms) =
     (if ms = [] then ''{}''
      else ''{'' @ [nl] @ sep_concat ('','' @ [nl])
             (map (\<lambda>(k, j). blanks (Suc n) @ [dquote] @ html_escape k @ [dquote] @ '': '' @ json_indent (Suc n) j) ms)
           @ [nl] @ blanks n @ ''}'')"
| "json_indent n j = json_compact j"

text \<open>What a call does: write to a descriptor, print, or return an error.\<close>

datatype emission = ToFD int bytes | ToStdout string | EmitError error

definition emit_value :: "(int \<Rightarrow> bool) \<Rightarrow> int \<Rightarrow> string \<Rightarrow> string \<Rightarrow> json res \<Rightarrow> emission" where
  "emit_value is_open fd what banner v =
     (case v of
        Inl e \<Rightarrow> EmitError (Errorf ((if is_open fd then ''write '' @ what @ '' to FD'' @ Itoa fd else ''marshal '' @ what @ '' for stdout fallback'') @ '': '' @ error_text e))
      | Inr j \<Rightarrow> (if is_open fd then ToFD fd (json_compact j @ [nl])
                  else ToStdout ([nl, nl] @ banner @ [nl] @ json_indent 0 j @ [nl])))"

definition SubmitResult :: "(int \<Rightarrow> bool) \<Rightarrow> json res \<Rightarrow> emission" where
  "SubmitResult is_open v = emit_value is_open ResultFD ''result'' (''=== RESULT '' @ replicate 45 (CHR ''='')) v"

section \<open>Child jobs\<close>

record ChildJob =
  cj_Task :: string
  cj_Payload :: "json res"
  cj_Priority :: int
  cj_Version :: string

definition quoted :: "string \<Rightarrow> json" where
  "quoted s = JStr (concat (map quote_char s))"

definition child_json :: "ChildJob \<Rightarrow> json res" where
  "child_json c =
     and_then (cj_Payload c) (\<lambda>p. Inr (JObj
       ([(''task'', quoted (cj_Task c)), (''payload'', p)]
        @ (if cj_Priority c = 0 then [] else [(''priority'', JNum (Itoa (cj_Priority c)))])
        @ (if cj_Version c = [] then [] else [(''version'', quoted (cj_Version c))]))))"

fun children_json :: "ChildJob list \<Rightarrow> json list res" where
  "children_json [] = Inr []"
| "children_json (c # cs) = and_then (child_json c) (\<lambda>j. and_then (children_json cs) (\<lambda>js. Inr (j # js)))"

text \<open>A nil slice is encoded as null.\<close>

definition EmitJobs :: "(int \<Rightarrow> bool) \<Rightarrow> ChildJob list option \<Rightarrow> emission" where
  "EmitJobs is_open jobs =
     emit_value is_open SubjobsFD ''child jobs'' (''=== CHILD JOBS '' @ replicate 42 (CHR ''=''))
       (case jobs of None \<Rightarrow> Inr JNull | Some cs \<Rightarrow> and_then (children_json cs) (\<lambda>js. Inr (JArr js)))"

section \<open>A job reaches its binary\<close>

lemma Atoi_value: "Atoi s = Inr v \<Longrightarrow> Atoi_value s = v"
  by (auto simp: Atoi_def Atoi_value_def Let_def in_int64_def split: prod.splits if_splits)

lemma GetEnv_task_env:
  assumes "in_int64 (te_Attempt t)"
  shows "GetEnv (process_getenv (task_env tmpDir t rootDir)) =
    \<lparr>ev_JobID = te_JobID t, ev_TaskType = te_TaskName t, ev_ParentJobID = te_ParentJobID t, ev_Attempt = te_Attempt t,
     ev_Phase = (if te_Phase t = ''consolidate'' then PhaseConsolidate else PhaseRun)\<rparr>"
  using Atoi_value [OF Atoi_Itoa [OF assms]]
  by (simp add: GetEnv_def CurrentPhase_def process_getenv_def task_env_def env_entry_def)

text \<open>The dispatch line has four flags; none of them carries a limit.\<close>

definition dispatch_flags :: "Job \<Rightarrow> string \<Rightarrow> flag list" where
  "dispatch_flags job runID =
     [(''job-id'', Some (jID job)), (''run-id'', Some runID), (''phase'', Some (phase_string (jPhase job))),
      (''attempt'', Some (Itoa (jAttempts job)))]"

lemma FormulateDispatchV0Message_flags:
  "FormulateDispatchV0Message job runID = ''dispatch'' @ concat (map flag_text (dispatch_flags job runID))"
  by (simp add: FormulateDispatchV0Message_def dispatch_flags_def flag_text_def)

lemma dispatch_roundtrip:
  assumes "presents (nm_Flags m) (dispatch_flags job runID)" and "jID job \<noteq> []" and "runID \<noteq> []" and "in_int64 (jAttempts job)"
  shows "dispatchV0Factory m =
    Inr (Dispatch \<lparr>dmJobID = jID job, dmRunID = runID, dmPhase = phase_string (jPhase job), dmAttempt = jAttempts job,
                   dmMaxExecTime = 0, dmMaxMemoryBytes = 0, dmMaxCPUCores = 0, dmPayload = nm_Payload m\<rparr>)"
proof -
  let ?f = "nm_Flags m"
  have ph: "phase_string (jPhase job) = ''run'' \<or> phase_string (jPhase job) = ''consolidate''"
    by (cases "jPhase job") (simp_all add: phase_string_def)
  note req = requireFlag_presents [OF assms(1)]
  have r: "requireFlag ?f ''job-id'' = Inr (jID job)" "requireFlag ?f ''run-id'' = Inr runID"
    "requireFlag ?f ''phase'' = Inr (phase_string (jPhase job))" "requireFlag ?f ''attempt'' = Inr (Itoa (jAttempts job))"
    by (rule req; use assms(2,3) ph Itoa_nonempty in \<open>auto simp: dispatch_flags_def\<close>)+
  have pr: "FlagSet_ok ?f" "\<And>k. fs_Has ?f k \<longleftrightarrow> k \<in> fst ` set (dispatch_flags job runID)"
    using assms(1) unfolding presents_def by blast+
  have "\<not> fs_Has ?f ''max-exec-time''" "\<not> fs_Has ?f ''max-memory''" "\<not> fs_Has ?f ''max-cpu-cores''"
    by (simp_all add: pr(2) dispatch_flags_def)
  then have none: "fs_Get ?f ''max-exec-time'' = []" "fs_Get ?f ''max-memory'' = []" "fs_Get ?f ''max-cpu-cores'' = []"
    using pr(1) by (simp_all add: FlagSet_ok_def)
  have attempt: "requireInt ?f ''attempt'' = Inr (jAttempts job)"
    by (simp add: requireInt_def r(4) Atoi_Itoa [OF assms(4)])
  have opt: "optional_flag ?f ''max-exec-time'' ParseDuration 0 = Inr 0" "optional_flag ?f ''max-memory'' Atoi 0 = Inr 0"
    "optional_flag ?f ''max-cpu-cores'' ParseFloat 0 = Inr 0"
    by (simp_all add: optional_flag_def none)
  show ?thesis
    using ph by (elim disjE) (simp_all add: dispatchV0Factory_def r(1-3) attempt opt and_then_def)
qed


definition ex_remote_job :: Job where
  "ex_remote_job = Job_zero\<lparr>jID := ''j'', jTaskName := ''t'', jCost := 1, jParentJobID := ''p'', jAttempts := 2\<rparr>"

definition ex_limited_task :: Task where
  "ex_limited_task = \<lparr>tName = ''t'', tLimitations = \<lparr>MaxExecutionTime = Minute, MaxMemoryBytes = 1024, MaxCPUCores = 1\<rparr>,
     tRetryPolicy = \<lparr>MaxAttempts = 0, RetryDelay = 0, MaxRetryDelay = 0\<rparr>, tNoResult = False, tCost = 1\<rparr>"

definition ex_artifact :: ArtifactInfo where
  "ex_artifact = \<lparr>aiHash = ''h'', aiURL = ''/u'', aiDependencies = []\<rparr>"


section \<open>Child jobs reach the manager\<close>

text \<open>Text that needs no escapes, and a request whose payload is JSON other than a string.\<close>

definition is_string :: "json \<Rightarrow> bool" where
  "is_string j = (case j of JStr r \<Rightarrow> True | _ \<Rightarrow> False)"

definition plain_child :: "ChildJob \<Rightarrow> bool" where
  "plain_child c \<longleftrightarrow>
     (\<forall>x \<in> set (cj_Task c @ cj_Version c). plain x) \<and> in_int64 (cj_Priority c) \<and>
     (case cj_Payload c of Inl e \<Rightarrow> False | Inr j \<Rightarrow> json_plain j \<and> \<not> is_string j)"

definition request_of :: "ChildJob \<Rightarrow> ChildJobRequest" where
  "request_of c =
     \<lparr>crTask = cj_Task c, crPayload = (case cj_Payload c of Inl e \<Rightarrow> [] | Inr j \<Rightarrow> json_compact j),
      crPriority = cj_Priority c, crVersion = cj_Version c\<rparr>"

lemma is_string_iff: "is_string j \<longleftrightarrow> (\<exists>r. j = JStr r)"
  by (cases j) (simp_all add: is_string_def)

lemma quote_char_plain: "plain c \<Longrightarrow> quote_char c = [c]"
proof -
  assume c: "plain c"
  have "byte (CHR 0x08) < 32" "byte (CHR 0x0C) < 32" "byte (CHR 0x0A) < 32" "byte (CHR 0x0D) < 32" "byte (CHR 0x09) < 32"
    by (simp_all add: byte_def)
  then have "c \<noteq> CHR 0x08" "c \<noteq> CHR 0x0C" "c \<noteq> CHR 0x0A" "c \<noteq> CHR 0x0D" "c \<noteq> CHR 0x09"
    using c unfolding plain_def by blast+
  then show ?thesis using c by (simp add: quote_char_def plain_def)
qed

lemma quoted_plain: "\<forall>c \<in> set s. plain c \<Longrightarrow> quoted s = JStr s"
  unfolding quoted_def by (induction s) (simp_all add: quote_char_plain)

lemma child_keys [simp]:
  "field_key ''task'' = ''task''" "field_key ''payload'' = ''payload''" "field_key ''priority'' = ''priority''" "field_key ''version'' = ''version''"
  by code_simp+

lemma child_names_plain [simp]:
  "\<forall>c \<in> set ''task''. plain c" "\<forall>c \<in> set ''payload''. plain c" "\<forall>c \<in> set ''priority''. plain c" "\<forall>c \<in> set ''version''. plain c"
  by code_simp+

lemma decode_child:
  assumes "plain_child c"
  shows "\<exists>j. child_json c = Inr j \<and> json_plain j \<and> decode_request j = Inr (request_of c)"
proof -
  obtain p where p: "cj_Payload c = Inr p" "json_plain p" "\<forall>r. p \<noteq> JStr r"
    using assms by (cases "cj_Payload c") (auto simp: plain_child_def is_string_iff)
  have plain: "\<forall>x \<in> set (cj_Task c). plain x" "\<forall>x \<in> set (cj_Version c). plain x" "in_int64 (cj_Priority c)"
    using assms by (auto simp: plain_child_def)
  have bytes: "decode_bytes p = Inr (json_compact p)"
    using compact_hd [OF p(2,3)] by (simp add: decode_bytes_def UnmarshalJSON_def)
  define j where "j = JObj ([(''task'', JStr (cj_Task c)), (''payload'', p)]
        @ (if cj_Priority c = 0 then [] else [(''priority'', JNum (Itoa (cj_Priority c)))])
        @ (if cj_Version c = [] then [] else [(''version'', JStr (cj_Version c))]))"
  have "child_json c = Inr j" by (simp add: child_json_def p(1) and_then_def j_def quoted_plain plain)
  moreover have "json_plain j" using p(2) plain child_names_plain by (simp add: j_def scan_number_Itoa)
  moreover have "decode_request j = Inr (request_of c)"
    using plain by (simp add: decode_request_def j_def request_field_def and_then_def decode_string_def decode_int_def bytes
        unquote_plain Atoi_Itoa request_of_def p(1))
  ultimately show ?thesis by blast
qed

lemma decode_children:
  "\<forall>c \<in> set cs. plain_child c \<Longrightarrow>
   \<exists>js. children_json cs = Inr js \<and> (\<forall>j \<in> set js. json_plain j) \<and> decode_all decode_request js = Inr (map request_of cs)"
proof (induction cs)
  case (Cons c cs)
  then obtain j js where "child_json c = Inr j" "json_plain j" "decode_request j = Inr (request_of c)"
      "children_json cs = Inr js" "\<forall>j \<in> set js. json_plain j" "decode_all decode_request js = Inr (map request_of cs)"
    using decode_child [of c] by auto
  then show ?case by (intro exI [of _ "j # js"]) (simp add: and_then_def)
qed simp

definition result_flags :: "DispatchMessage \<Rightarrow> string \<Rightarrow> duration \<Rightarrow> flag list" where
  "result_flags d kind dur =
     [(''job-id'', Some (dmJobID d)), (''run-id'', Some (dmRunID d)), (''type'', Some kind), (''duration'', Some (Duration_String dur))]"

lemma result_header_flags:
  "result_header d kind @ '' --duration='' @ Duration_String dur = ''result'' @ concat (map flag_text (result_flags d kind dur))"
  by (simp add: result_header_def result_flags_def flag_text_def)

lemma Duration_String_nonempty: "in_int64 dur \<Longrightarrow> Duration_String dur \<noteq> []"
  using ParseDuration_String [of dur] by (auto simp: ParseDuration_def split_sign_def)

lemma resultV0Factory_subjobs:
  assumes "presents (nm_Flags m) (result_flags d ''subjobs'' dur)" and "dmJobID d \<noteq> []" and "dmRunID d \<noteq> []" and "in_int64 dur"
    and "nm_Payload m \<noteq> []"
  shows "resultV0Factory m =
    and_then (Unmarshal_requests (nm_Payload m)) (\<lambda>jobs.
      if jobs = [] then Inl (Errorf ''outcome subjobs: payload must contain at least one job'')
      else Inr (Result \<lparr>resParentJobID = [], resJobID = dmJobID d, resRunID = dmRunID d, resType = ResultSubjobs, resDuration = dur,
                       resWarnings = [], resReason = [], resExitCode = 0, resJobs = jobs, resPayload = nm_Payload m\<rparr>))"
proof -
  let ?f = "nm_Flags m"
  note req = requireFlag_presents [OF assms(1)]
  have r: "requireFlag ?f ''job-id'' = Inr (dmJobID d)" "requireFlag ?f ''run-id'' = Inr (dmRunID d)" "requireFlag ?f ''type'' = Inr ''subjobs''"
    by (rule req; use assms(2,3) in \<open>auto simp: result_flags_def\<close>)+
  have pr: "FlagSet_ok ?f" "\<And>k. fs_Has ?f k \<longleftrightarrow> k \<in> fst ` set (result_flags d ''subjobs'' dur)"
    "fs_Lookup ?f ''duration'' = Some (Duration_String dur)"
    using assms(1) unfolding presents_def by (blast, blast, simp add: result_flags_def)
  have "\<not> fs_Has ?f ''parent-job-id''" by (simp add: pr(2) result_flags_def)
  then have parent: "fs_Lookup ?f ''parent-job-id'' = None" using pr(1) by (simp add: FlagSet_ok_def)
  have "fs_Get ?f ''duration'' = Duration_String dur" using pr(1,3) by (simp add: FlagSet_ok_def)
  then have dur: "optional_flag ?f ''duration'' ParseDuration (- 1) = Inr dur"
    by (simp add: optional_flag_def Duration_String_nonempty [OF assms(4)] ParseDuration_String [OF assms(4)])
  show ?thesis using assms(5) by (simp add: resultV0Factory_def r dur parent and_then_def split: sum.split)
qed


definition ex_children :: "ChildJob list" where
  "ex_children = [\<lparr>cj_Task = ''resize'', cj_Payload = Inr (JObj [(''n'', JNum ''1'')]), cj_Priority = 5, cj_Version = []\<rparr>,
     \<lparr>cj_Task = ''merge'', cj_Payload = Inr JNull, cj_Priority = 0, cj_Version = ''v2''\<rparr>]"

definition ex_emitted :: bytes where
  "ex_emitted = ''[{\"task\":\"resize\",\"payload\":{\"n\":1},\"priority\":5},{\"task\":\"merge\",\"payload\":null,\"version\":\"v2\"}]'' @ [nl]"

definition ex_dispatched :: DispatchMessage where
  "ex_dispatched = \<lparr>dmJobID = ''j'', dmRunID = ''r'', dmPhase = ''run'', dmAttempt = 1, dmMaxExecTime = 0, dmMaxMemoryBytes = 0,
     dmMaxCPUCores = 0, dmPayload = []\<rparr>"


text \<open>
  A single child whose payload is a JSON string that is not base64 makes the manager refuse the whole message, so it never
  learns that the run has ended.
\<close>

lemma decode_all_fails: "j \<in> set js \<Longrightarrow> isl (f j) \<Longrightarrow> isl (decode_all f js)"
  by (induction js) (auto simp: and_then_def split: sum.splits)

lemma string_payload_refused:
  assumes "child_json c = Inr j" and "j \<in> set js" and "\<forall>j \<in> set js. json_plain j" and "cj_Payload c = Inr (JStr r)"
    and "\<forall>x \<in> set r. plain x" and "b64_decode r = None" and "\<forall>x \<in> set (cj_Task c). plain x"
    and "nm_Payload m = json_compact (JArr js) @ [nl]" and "presents (nm_Flags m) (result_flags d ''subjobs'' dur)"
    and "dmJobID d \<noteq> []" and "dmRunID d \<noteq> []" and "in_int64 dur"
  shows "isl (resultV0Factory m)"
proof -
  have "UnmarshalJSON (json_compact (JStr r)) = Inl (Errorf ''illegal base64 data'')"
    using json_print_parse(1) [of "JStr r"] assms(5,6)
    by (simp add: UnmarshalJSON_def Unmarshal_bytes_def html_escape_plain unquote_plain)
  then have "decode_bytes (JStr r) = Inl (Errorf ''illegal base64 data'')" by (simp add: decode_bytes_def)
  then have "request_field (request_field (Inr x) (''task'', quoted (cj_Task c))) (''payload'', JStr r) = Inl (Errorf ''illegal base64 data'')" for x
    by (simp add: request_field_def and_then_def decode_string_def quoted_plain [OF assms(7)])
  moreover have "foldl request_field (Inl e) ms = Inl e" for e ms
    by (induction ms) (auto simp: request_field_def and_then_def)
  ultimately have "isl (decode_request j)"
    using assms(1) by (auto simp: child_json_def assms(4) and_then_def decode_request_def Let_def)
  then have "isl (decode_all decode_request js)" using decode_all_fails [OF assms(2)] by blast
  moreover have "json_parse (nm_Payload m) = Some (JArr js)"
    unfolding assms(8) nl_def by (rule json_print_parse(2)) (simp add: assms(3))
  ultimately have "isl (Unmarshal_requests (nm_Payload m))" by (simp add: Unmarshal_requests_def)
  then show ?thesis
    using resultV0Factory_subjobs [OF assms(9-12)] assms(8) by (auto simp: and_then_def split: sum.splits)
qed

end
