(* ===== verification/Store_Suite.thy ===== *)
theory Store_Suite
  imports Store_Equivalence Store_Queries
begin

text \<open>
  The compliance suite for stores (\<^verbatim>\<open>manager/store/storetest/storetest.go\<close>): each test as a check of the answers
  a store gives to the calls of the test, with the readings of the clock as an argument, and the proof that
  both stores pass all of them.
\<close>

section \<open>Helpers\<close>

definition newTestJob :: "string \<Rightarrow> time \<Rightarrow> time \<Rightarrow> Job" where
  "newTestJob i created updated =
     Job_zero\<lparr>jID := i, jTaskName := ''test-task'', jStatus := JobStatusPending, jPhase := JobPhaseRun,
              jCreatedAt := created, jUpdatedAt := updated\<rparr>"

definition newTestTaskDef :: "string \<Rightarrow> Task" where
  "newTestTaskDef name =
     \<lparr>tName = name, tLimitations = \<lparr>MaxExecutionTime = 0, MaxMemoryBytes = 0, MaxCPUCores = 0\<rparr>,
      tRetryPolicy = \<lparr>MaxAttempts = 0, RetryDelay = 0, MaxRetryDelay = 0\<rparr>, tNoResult = False, tCost = 0\<rparr>"

text \<open>A store is a function from a call to its answer and the next state. The last answer of a test.\<close>

type_synonym 'st driver = "'st \<Rightarrow> store_op \<Rightarrow> store_out \<times> 'st"

definition final :: "'st driver \<Rightarrow> 'st \<Rightarrow> store_op list \<Rightarrow> store_out" where
  "final step st ps = last (answers step st ps)"

section \<open>Jobs\<close>

definition SaveAndGetJob :: "'st driver \<Rightarrow> 'st \<Rightarrow> (nat \<Rightarrow> time) \<Rightarrow> bool" where
  "SaveAndGetJob step st clock =
     (let job = newTestJob ''job-1'' (clock 0) (clock 1)
      in case answers step st [DoSaveJob job, DoGetJob (jID job)] of
           [Ok, OutJob (Inr got)] \<Rightarrow> jID got = jID job \<and> jTaskName got = jTaskName job
         | _ \<Rightarrow> False)"

definition GetJobNotFound :: "'st driver \<Rightarrow> 'st \<Rightarrow> bool" where
  "GetJobNotFound step st = (case final step st [DoGetJob ''nonexistent''] of OutJob (Inl e) \<Rightarrow> True | _ \<Rightarrow> False)"

definition UpdateJob_test :: "'st driver \<Rightarrow> 'st \<Rightarrow> (nat \<Rightarrow> time) \<Rightarrow> bool" where
  "UpdateJob_test step st clock =
     (let job = newTestJob ''job-2'' (clock 0) (clock 1)
      in case answers step st [DoSaveJob job, DoUpdateJob (jID job) (\<lambda>j. j\<lparr>jStatus := JobStatusRunning\<rparr>), DoGetJob (jID job)] of
           [_, Ok, OutJob (Inr got)] \<Rightarrow> jStatus got = JobStatusRunning
         | _ \<Rightarrow> False)"

text \<open>Five jobs, each with three readings of the clock, the last one shifted by as many milliseconds.\<close>

definition page_job :: "(nat \<Rightarrow> time) \<Rightarrow> nat \<Rightarrow> Job" where
  "page_job clock i =
     (newTestJob (''pagejob-'' @ [char_of (97 + i)]) (clock (3 * i)) (clock (3 * i + 1)))
       \<lparr>jCreatedAt := clock (3 * i + 2) + int i * 1000000\<rparr>"

definition ListJobs_Pagination :: "'st driver \<Rightarrow> 'st \<Rightarrow> (nat \<Rightarrow> time) \<Rightarrow> bool" where
  "ListJobs_Pagination step st clock =
     (let saves = map (\<lambda>i. DoSaveJob (page_job clock i)) [0, 1, 2, 3, 4]
      in case final step st (saves @ [DoListJobs [] 3]) of
           OutPage (Inr (page1, cursor)) \<Rightarrow>
             length page1 = 3 \<and> cursor \<noteq> [] \<and>
             (case final step st (saves @ [DoListJobs [] 3, DoListJobs cursor 3]) of
                OutPage (Inr (page2, cursor2)) \<Rightarrow> length page2 = 2 \<and> cursor2 = []
              | _ \<Rightarrow> False)
         | _ \<Rightarrow> False)"

definition ListPendingJobs_test :: "'st driver \<Rightarrow> 'st \<Rightarrow> (nat \<Rightarrow> time) \<Rightarrow> bool" where
  "ListPendingJobs_test step st clock =
     (let pending = newTestJob ''pending-1'' (clock 0) (clock 1);
          running = (newTestJob ''running-1'' (clock 2) (clock 3))\<lparr>jStatus := JobStatusRunning\<rparr>
      in case final step st [DoSaveJob pending, DoSaveJob running, DoListPendingJobs] of
           OutJobs [j] \<Rightarrow> jID j = ''pending-1'' | _ \<Rightarrow> False)"

definition ListRecoverableJobs_test :: "'st driver \<Rightarrow> 'st \<Rightarrow> (nat \<Rightarrow> time) \<Rightarrow> bool" where
  "ListRecoverableJobs_test step st clock =
     (let saved = (\<lambda>s k. DoSaveJob ((newTestJob (''recoverable-'' @ status_text s) (clock k) (clock (k + 1)))\<lparr>jStatus := s\<rparr>))
      in case final step st
                [saved JobStatusProposing 0, saved JobStatusProvisioning 2, saved JobStatusRunning 4,
                 DoSaveJob (newTestJob ''should-not-appear'' (clock 6) (clock 7)), DoListRecoverableJobs] of
           OutJobs js \<Rightarrow> length js = 3 | _ \<Rightarrow> False)"

definition ListChildJobs_test :: "'st driver \<Rightarrow> 'st \<Rightarrow> (nat \<Rightarrow> time) \<Rightarrow> bool" where
  "ListChildJobs_test step st clock =
     (let child = (\<lambda>i k. DoSaveJob ((newTestJob i (clock k) (clock (k + 1)))\<lparr>jParentJobID := ''parent-1''\<rparr>))
      in case final step st
                [DoSaveJob (newTestJob ''parent-1'' (clock 0) (clock 1)), child ''child-1'' 2, child ''child-2'' 4,
                 DoSaveJob (newTestJob ''unrelated-1'' (clock 6) (clock 7)), DoListChildJobs ''parent-1''] of
           OutJobs js \<Rightarrow> length js = 2 | _ \<Rightarrow> False)"

definition RunJobStoreTests :: "'st driver \<Rightarrow> 'st \<Rightarrow> (nat \<Rightarrow> time) \<Rightarrow> bool" where
  "RunJobStoreTests step st clock \<longleftrightarrow>
     SaveAndGetJob step st clock \<and> GetJobNotFound step st \<and> UpdateJob_test step st clock \<and> ListJobs_Pagination step st clock \<and>
     ListPendingJobs_test step st clock \<and> ListRecoverableJobs_test step st clock \<and> ListChildJobs_test step st clock"

section \<open>Tasks\<close>

definition SaveAndGetTask :: "'st driver \<Rightarrow> 'st \<Rightarrow> bool" where
  "SaveAndGetTask step st =
     (case answers step st [DoSaveTask (newTestTaskDef ''echo''), DoGetTask ''echo''] of
        [Ok, OutTask (Inr got)] \<Rightarrow> tName got = ''echo'' | _ \<Rightarrow> False)"

definition ListTasks_test :: "'st driver \<Rightarrow> 'st \<Rightarrow> bool" where
  "ListTasks_test step st =
     (case final step st [DoSaveTask (newTestTaskDef ''task-a''), DoSaveTask (newTestTaskDef ''task-b''), DoListTasks] of
        OutTasks ts \<Rightarrow> length ts = 2 | _ \<Rightarrow> False)"

definition UpdateTask_test :: "'st driver \<Rightarrow> 'st \<Rightarrow> bool" where
  "UpdateTask_test step st =
     (case answers step st
             [DoSaveTask (newTestTaskDef ''task-upd''), DoUpdateTask ''task-upd'' (\<lambda>t. t\<lparr>tCost := 5\<rparr>), DoGetTask ''task-upd''] of
        [_, Ok, OutTask (Inr got)] \<Rightarrow> tCost got = 5 | _ \<Rightarrow> False)"

definition DeleteTask_test :: "'st driver \<Rightarrow> 'st \<Rightarrow> bool" where
  "DeleteTask_test step st =
     (case final step st [DoSaveTask (newTestTaskDef ''task-del''), DoDeleteTask ''task-del'', DoGetTask ''task-del''] of
        OutTask (Inl e) \<Rightarrow> True | _ \<Rightarrow> False)"

definition RunTaskStoreTests :: "'st driver \<Rightarrow> 'st \<Rightarrow> bool" where
  "RunTaskStoreTests step st \<longleftrightarrow>
     SaveAndGetTask step st \<and> ListTasks_test step st \<and> UpdateTask_test step st \<and> DeleteTask_test step st"

section \<open>Logs\<close>

text \<open>The calls of the log and run interfaces that the tests make, and the channels they read.\<close>

record 'st log_driver =
  ld_CreateRun :: "'st \<Rightarrow> JobRun \<Rightarrow> 'st"
  ld_AppendRunLog :: "'st \<Rightarrow> string \<Rightarrow> bytes \<Rightarrow> 'st res"
  ld_GetRunLogReader :: "'st \<Rightarrow> string \<Rightarrow> bytes"
  ld_GetJobLogReader :: "'st \<Rightarrow> string \<Rightarrow> bytes"
  ld_SubscribeRunLogs :: "'st \<Rightarrow> string \<Rightarrow> nat \<times> 'st"
  ld_chans :: "'st \<Rightarrow> Chan list"

definition mem_log :: "MemStore log_driver" where
  "mem_log = \<lparr>ld_CreateRun = CreateRun, ld_AppendRunLog = AppendRunLog, ld_GetRunLogReader = GetRunLogReader,
     ld_GetJobLogReader = GetJobLogReader, ld_SubscribeRunLogs = SubscribeRunLogs, ld_chans = ms_chans\<rparr>"

definition fs_log :: "FSStore log_driver" where
  "fs_log = \<lparr>ld_CreateRun = FS_CreateRun, ld_AppendRunLog = FS_AppendRunLog, ld_GetRunLogReader = FS_GetRunLogReader,
     ld_GetJobLogReader = FS_GetJobLogReader, ld_SubscribeRunLogs = FS_SubscribeRunLogs, ld_chans = fs_chans\<rparr>"

text \<open>
  The tests leave the phase and the result type of their runs empty, which are no values of the
  model: any base run stands for them. An error of \<open>AppendRunLog\<close> is ignored.
\<close>

definition test_run :: "JobRun \<Rightarrow> string \<Rightarrow> string \<Rightarrow> RunStatus \<Rightarrow> JobRun" where
  "test_run r0 i job status =
     \<lparr>rID = i, rJobID = job, rPhase = rPhase r0, rAttempt = 0, rWorkerID = [], rStatus = status, rInputPayload = [],
      rOutputPayload = [], rFailureReason = [], rExitCode = 0, rResultType = rResultType r0, rStartedAt = 0, rFinishedAt = 0\<rparr>"

definition log_append :: "'st log_driver \<Rightarrow> 'st \<Rightarrow> string \<Rightarrow> bytes \<Rightarrow> 'st" where
  "log_append d st i chunk = (case ld_AppendRunLog d st i chunk of Inl e \<Rightarrow> st | Inr st' \<Rightarrow> st')"

text \<open>\<^verbatim>\<open>bytes.Contains\<close> and \<^verbatim>\<open>strings.ReplaceAll\<close> of the newlines by nothing.\<close>

fun bytes_contains :: "bytes \<Rightarrow> bytes \<Rightarrow> bool" where
  "bytes_contains [] sub = (sub = [])"
| "bytes_contains (c # s) sub = (take (length sub) (c # s) = sub \<or> bytes_contains s sub)"

definition without_newlines :: "bytes \<Rightarrow> bytes" where
  "without_newlines s = filter (\<lambda>c. [c] \<noteq> newline) s"

definition AppendAndRead :: "'st log_driver \<Rightarrow> 'st \<Rightarrow> JobRun \<Rightarrow> bool" where
  "AppendAndRead d st r0 =
     (let s1 = ld_CreateRun d st (test_run r0 ''run-log-1'' ''job-log-1'' RunStatusRunning);
          s2 = log_append d s1 ''run-log-1'' ''hello '';
          s3 = log_append d s2 ''run-log-1'' ''world''
      in without_newlines (ld_GetRunLogReader d s3 ''run-log-1'') = ''hello world'')"

definition GetJobLogReaderComposesRuns :: "'st log_driver \<Rightarrow> 'st \<Rightarrow> JobRun \<Rightarrow> bool" where
  "GetJobLogReaderComposesRuns d st r0 =
     (let s1 = ld_CreateRun d st (test_run r0 ''run-a'' ''job-multi'' RunStatusFailed);
          s2 = ld_CreateRun d s1 (test_run r0 ''run-b'' ''job-multi'' RunStatusCompleted);
          s3 = log_append d s2 ''run-a'' ''attempt1'';
          s4 = log_append d s3 ''run-b'' ''attempt2'';
          got = ld_GetJobLogReader d s4 ''job-multi''
      in bytes_contains got ''attempt1'' \<and> bytes_contains got ''attempt2'')"

definition EmptyLog :: "'st log_driver \<Rightarrow> 'st \<Rightarrow> bool" where
  "EmptyLog d st = (length (ld_GetRunLogReader d st ''nonexistent-run'') = 0)"

text \<open>With nothing to receive the test waits for its deadline of two seconds and fails.\<close>

definition Subscribe_test :: "'st log_driver \<Rightarrow> 'st \<Rightarrow> JobRun \<Rightarrow> bool" where
  "Subscribe_test d st r0 =
     (let s1 = ld_CreateRun d st (test_run r0 ''run-sub-1'' ''job-sub-1'' RunStatusRunning)
      in case ld_SubscribeRunLogs d s1 ''run-sub-1'' of (a, s2) \<Rightarrow>
           (case ch_buf (ld_chans d (log_append d s2 ''run-sub-1'' ''chunk'') ! a) of
              [] \<Rightarrow> False | chunk # _ \<Rightarrow> bytes_contains chunk ''chunk''))"

definition RunLogStoreTests :: "'st log_driver \<Rightarrow> 'st \<Rightarrow> JobRun \<Rightarrow> bool" where
  "RunLogStoreTests d st r0 \<longleftrightarrow>
     AppendAndRead d st r0 \<and> GetJobLogReaderComposesRuns d st r0 \<and> EmptyLog d st \<and> Subscribe_test d st r0"

section \<open>Webhooks\<close>

text \<open>The payload is an argument: the tests use \<^verbatim>\<open>{}\<close> or none.\<close>

definition test_entry :: "webhookEvent \<Rightarrow> string \<Rightarrow> string \<Rightarrow> string \<Rightarrow> time \<Rightarrow> WebhookEntry" where
  "test_entry payload i job url nextAt =
     \<lparr>whID = i, whJobID = job, whEvent = [], whURL = url, whPayload = payload, whHeaders = [], whAttempts = 0,
      whNextAttemptAt = nextAt, whCreatedAt = 0\<rparr>"

definition EnqueueAndDequeue :: "'st driver \<Rightarrow> 'st \<Rightarrow> webhookEvent \<Rightarrow> (nat \<Rightarrow> time) \<Rightarrow> bool" where
  "EnqueueAndDequeue step st payload clock =
     (case answers step st
             [DoEnqueueWebhook (test_entry payload ''wh-1'' ''job-1'' ''https://example.com/hook'' (clock 0 - Second)),
              DoDequeueWebhooks (clock 1)] of
        [Ok, OutWebhooks [e]] \<Rightarrow> whID e = ''wh-1'' | _ \<Rightarrow> False)"

definition FutureEntryNotDequeued :: "'st driver \<Rightarrow> 'st \<Rightarrow> webhookEvent \<Rightarrow> (nat \<Rightarrow> time) \<Rightarrow> bool" where
  "FutureEntryNotDequeued step st payload clock =
     (case final step st [DoEnqueueWebhook (test_entry payload ''wh-future'' [] [] (clock 0 + Hour)), DoDequeueWebhooks (clock 1)] of
        OutWebhooks es \<Rightarrow> es = [] | _ \<Rightarrow> False)"

definition AckRemovesEntry :: "'st driver \<Rightarrow> 'st \<Rightarrow> webhookEvent \<Rightarrow> (nat \<Rightarrow> time) \<Rightarrow> bool" where
  "AckRemovesEntry step st payload clock =
     (case final step st [DoEnqueueWebhook (test_entry payload ''wh-ack'' [] [] (clock 0 - Second)), DoAckWebhook ''wh-ack'',
                          DoDequeueWebhooks (clock 1)] of
        OutWebhooks es \<Rightarrow> es = [] | _ \<Rightarrow> False)"

definition NackUpdatesRetry :: "'st driver \<Rightarrow> 'st \<Rightarrow> webhookEvent \<Rightarrow> (nat \<Rightarrow> time) \<Rightarrow> bool" where
  "NackUpdatesRetry step st payload clock =
     (case answers step st
             [DoEnqueueWebhook (test_entry payload ''wh-nack'' [] [] (clock 0 - Second)),
              DoNackWebhook ''wh-nack'' 2 (clock 1 + 5 * Second), DoDequeueWebhooks (clock 2)] of
        [_, Ok, OutWebhooks es] \<Rightarrow> es = [] | _ \<Rightarrow> False)"

definition RunWebhookStoreTests :: "'st driver \<Rightarrow> 'st \<Rightarrow> webhookEvent \<Rightarrow> (nat \<Rightarrow> time) \<Rightarrow> bool" where
  "RunWebhookStoreTests step st payload clock \<longleftrightarrow>
     EnqueueAndDequeue step st payload clock \<and> FutureEntryNotDequeued step st payload clock \<and>
     AckRemovesEntry step st payload clock \<and> NackUpdatesRetry step st payload clock"

section \<open>Both stores pass\<close>

lemmas job_tests = SaveAndGetJob_def GetJobNotFound_def UpdateJob_test_def ListPendingJobs_test_def ListRecoverableJobs_test_def
  ListChildJobs_test_def

lemmas task_tests = SaveAndGetTask_def ListTasks_test_def UpdateTask_test_def DeleteTask_test_def

lemmas webhook_tests = EnqueueAndDequeue_def FutureEntryNotDequeued_def AckRemovesEntry_def NackUpdatesRetry_def

lemma suites_refine:
  "RunJobStoreTests fs_do fs clock = RunJobStoreTests mem_do (mem_of (fs_hot fs)) clock"
  "RunTaskStoreTests fs_do fs = RunTaskStoreTests mem_do (mem_of (fs_hot fs))"
  "RunWebhookStoreTests fs_do fs payload clock = RunWebhookStoreTests mem_do (mem_of (fs_hot fs)) payload clock"
  by (simp_all only: RunJobStoreTests_def RunTaskStoreTests_def RunWebhookStoreTests_def job_tests task_tests webhook_tests
      ListJobs_Pagination_def final_def answers_refine)

lemma mem_pages: "ListJobs_Pagination mem_do NewMemStore clock"
proof -
  let ?js = "map (page_job clock) [0, 1, 2, 3, 4]"
  define m where "m = foldl SaveJob NewMemStore ?js"
  have jobs: "ms_jobs m = map (\<lambda>j. (jID j, j)) ?js"
    by (simp add: m_def SaveJob_def NewMemStore_def page_job_def newTestJob_def)
  have roots: "root_jobs m = ?js"
    by (simp add: root_jobs_def jobs page_job_def newTestJob_def Job_zero_def)
  have perm: "mset (map jID (all_roots m)) = mset (map jID ?js)"
    by (simp only: all_roots_def roots mset_map mset_sort_slice)
  have "distinct (map jID ?js)" by (simp add: page_job_def newTestJob_def)
  then have ids: "distinct (map jID (all_roots m))" using mset_eq_imp_distinct_iff [OF perm] by simp
  have nonempty: "\<forall>j \<in> set (all_roots m). jID j \<noteq> []"
    by (simp add: all_roots_def roots page_job_def newTestJob_def)
  have len: "length (all_roots m) = 5" by (simp add: all_roots_def roots)
  let ?c = "cursor_at (all_roots m) 3"
  have page1: "ListJobs m [] 3 = Inr (take 3 (all_roots m), ?c)"
    using ListJobs_at [OF ids nonempty, of 0 3] len by (simp add: cursor_at_def max_int64_def)
  have page2: "ListJobs m ?c 3 = Inr (drop 3 (all_roots m), [])"
    using ListJobs_at [OF ids nonempty, of 3 3] len by (simp add: max_int64_def)
  have cursor: "?c \<noteq> []" using nonempty len by (simp add: cursor_at_def)
  have saved: "answers mem_do NewMemStore (map (\<lambda>i. DoSaveJob (page_job clock i)) [0, 1, 2, 3, 4] @ ps) =
      replicate 5 Ok @ answers mem_do m ps" for ps
    by (simp add: m_def numeral_eq_Suc)
  show ?thesis
    unfolding ListJobs_Pagination_def final_def Let_def saved
    using page1 page2 cursor len by simp
qed

lemmas suite_eval = final_def newTestJob_def newTestTaskDef_def test_entry_def mem_writes upd_out_def NewMemStore_def Job_zero_def

lemma mem_jobs_pass: "RunJobStoreTests mem_do NewMemStore clock"
  by (simp add: RunJobStoreTests_def mem_pages [unfolded NewMemStore_def] job_tests suite_eval GetJob_def ListPendingJobs_def ListRecoverableJobs_def
      ListChildJobs_def recoverable_def sort_slice_Cons Let_def)

lemma mem_tasks_pass: "RunTaskStoreTests mem_do NewMemStore"
  by (simp add: RunTaskStoreTests_def task_tests suite_eval GetTask_def ListTasks_def)

lemma mem_webhooks_pass:
  assumes "clock 0 \<le> clock 1" "clock 1 < clock 0 + Hour" "clock 0 \<le> clock 2" "clock 2 < clock 1 + 5 * Second"
  shows "RunWebhookStoreTests mem_do NewMemStore payload clock"
  using assms by (simp add: RunWebhookStoreTests_def webhook_tests suite_eval DequeueWebhooks_def)

text \<open>The parts of the store on disk that its log operations use; journalling leaves them alone.\<close>

definition log_view where
  "log_view fs = (d_runLogs (fs_disk fs), fs_runLogBufs fs, fs_runSubscribers fs, fs_jobSubscribers fs, fs_chans fs)"

lemma compact_log_view: "log_view (compact fs) = log_view fs"
  by (simp add: log_view_def compact_def Let_def)

lemma runWriter_log_view: "log_view (runWriter_entry fs) = log_view fs"
  by (simp add: log_view_def runWriter_entry_def writeEntry_def doCompact_def flushSync_def compact_def Let_def split: list.split)

lemma CreateRun_log_view:
  "log_view (FS_CreateRun fs r) = log_view fs" "hs_runs (fs_hot (FS_CreateRun fs r)) = AList.update (rID r) r (hs_runs (fs_hot fs))"
  using runWriter_log_view by (simp_all add: FS_CreateRun_def journal_def put_run_def Let_def log_view_def)

lemma opened_log_view:
  assumes "OpenFSStore sz cfg empty_disk = Inr fs"
  shows "log_view fs = ([], [], [], [], [])" "hs_runs (fs_hot fs) = []"
  using assms by (auto simp: OpenFSStore_def empty_disk_def loadSnapshot_def compact_snap hs_empty_def log_view_def compact_def Let_def)

lemmas log_tests = AppendAndRead_def GetJobLogReaderComposesRuns_def EmptyLog_def Subscribe_test_def log_append_def test_run_def
  without_newlines_def newline_def slice_at_def chan_try_send_def chan_cap_def sort_slice_Cons Let_def

lemma mem_logs_pass: "RunLogStoreTests mem_log NewMemStore r0"
  by (simp add: RunLogStoreTests_def log_tests mem_log_def CreateRun_def AppendRunLog_def GetRunLogReader_def GetJobLogReader_def
      ListJobRuns_def run_before_def SubscribeRunLogs_def NewMemStore_def)

lemma fs_logs_pass:
  assumes "OpenFSStore sz cfg empty_disk = Inr fs"
  shows "RunLogStoreTests fs_log fs r0"
  using opened_log_view [OF assms] CreateRun_log_view
  by (simp add: RunLogStoreTests_def log_tests fs_log_def FS_AppendRunLog_def FS_GetRunLogReader_def FS_GetJobLogReader_def
      FS_ListJobRuns_def FS_SubscribeRunLogs_def log_view_def)



end
