(* ===== verification/Spec2Isabelle.thy ===== *)
theory Spec2Isabelle
  imports Workforce_Prelude Window_Ring Priority_Heap Store_Queries Worker_Selector Webhook_Dispatch
    Dispatcher Child_Jobs Store_Equivalence Rate_Limiter Manager_Config
    Go_Text Metrics_Sampler Single_Flight Worker_Faults Registry_Contract Manager_Service
    Task_Kit Store_Suite
begin

text \<open>
  A verification development for \<^emph>\<open>workforce\<close>, a manager/worker job system written in Go.
\<close>

end
